(* ===== verification/Prelude.thy ===== *)
theory Prelude
  imports Complex_Main
    "HOL-Library.AList" "HOL-Library.Char_ord" "HOL-Library.List_Lexorder"
    "HOL-Library.Word" "HOL-Library.Monad_Syntax"
begin

text \<open>
  Shared vocabulary of the development: machine integers of the source (\<open>usize\<close> and
  \<open>u64\<close> as natural numbers with checked arithmetic written out), JSON values in the
  shape of \<open>serde_json::Value\<close>, hash maps as association lists with distinct keys, ordered
  sets of strings (\<open>BTreeSet\<close>) as strictly sorted lists, and the generic lemmas about them
  that the component theories share.  Rust strings are UTF-8 byte sequences and are modelled
  by \<open>string\<close>, one \<open>char\<close> per byte, ordered lexicographically by byte as in Rust.

  A fallible function returns \<open>error + value\<close> (\<open>Inl\<close> for \<open>Err\<close>).  A function
  that can panic (\<open>expect\<close>) returns an \<open>option\<close>, with \<open>None\<close> for the panic.
\<close>

section \<open>Theorem collections\<close>

named_theorems op_defs \<open>definitions of operations, unfolded to look inside them\<close>
named_theorems inv_defs \<open>definitions of invariants\<close>

section \<open>Machine integers\<close>

definition USIZE_MAX :: nat where
  "USIZE_MAX = 18446744073709551615"

definition U64_MAX :: nat where
  "U64_MAX = 18446744073709551615"

definition checked_add :: "nat \<Rightarrow> nat \<Rightarrow> nat option" where
  "checked_add a b = (if a + b \<le> USIZE_MAX then Some (a + b) else None)"

definition checked_sub :: "nat \<Rightarrow> nat \<Rightarrow> nat option" where
  "checked_sub a b = (if b \<le> a then Some (a - b) else None)"

definition saturating_add :: "nat \<Rightarrow> nat \<Rightarrow> nat" where
  "saturating_add a b = min (a + b) USIZE_MAX"

lemma checked_add_Some_iff:
  "checked_add a b = Some c \<longleftrightarrow> c = a + b \<and> a + b \<le> USIZE_MAX"
  by (auto simp: checked_add_def)

lemma checked_add_fits [simp]: "a + b \<le> USIZE_MAX \<Longrightarrow> checked_add a b = Some (a + b)"
  by (simp add: checked_add_def)

lemma checked_sub_Some_iff: "checked_sub a b = Some c \<longleftrightarrow> b \<le> a \<and> c = a - b"
  by (auto simp: checked_sub_def)

lemma checked_sub_fits [simp]: "b \<le> a \<Longrightarrow> checked_sub a b = Some (a - b)"
  by (simp add: checked_sub_def)

text \<open>\<open>Instant::checked_add\<close>: a point in time is a number of nanoseconds, whose seconds fit an \<open>i64\<close>.\<close>

definition INSTANT_MAX :: nat where
  "INSTANT_MAX = 9223372036854775807999999999"

definition instant_checked_add :: "nat \<Rightarrow> nat \<Rightarrow> nat option" where
  "instant_checked_add a d = (if a + d \<le> INSTANT_MAX then Some (a + d) else None)"

section \<open>JSON values\<close>

text \<open>
  \<open>serde_json::Value\<close>.  A number is an integer or a finite float, given by its exact value;
  an object keeps its members in iteration order.
\<close>

datatype json_number = NInt int | NFloat rat

datatype json =
  JNull
| JBool bool
| JNum json_number
| JStr string
| JArr "json list"
| JObj "(string \<times> json) list"

text \<open>
  Equality of values.  Members are compared by key, not in order; an integer and a float are
  never equal, as in \<open>serde_json\<close>'s \<open>Number\<close>.
\<close>

lemma zip_left_size [termination_simp]:
  "(a, b) \<in> set (zip xs ys) \<Longrightarrow> size a < Suc (size_list size xs)"
  by (drule set_zip_leftD) (simp add: size_list_estimation less_Suc_eq_le size_list_estimation')

fun json_eq :: "json \<Rightarrow> json \<Rightarrow> bool" where
  "json_eq JNull JNull = True"
| "json_eq (JBool a) (JBool b) = (a = b)"
| "json_eq (JNum a) (JNum b) = (a = b)"
| "json_eq (JStr a) (JStr b) = (a = b)"
| "json_eq (JArr xs) (JArr ys) \<longleftrightarrow>
     length xs = length ys \<and> (\<forall>p\<in>set (zip xs ys). json_eq (fst p) (snd p))"
| "json_eq (JObj kvs) (JObj kws) \<longleftrightarrow> length kvs = length kws
     \<and> (\<forall>kv\<in>set kvs. case map_of kws (fst kv) of None \<Rightarrow> False | Some w \<Rightarrow> json_eq (snd kv) w)"
| "json_eq _ _ = False"

text \<open>\<open>Value::get\<close> with a string key, \<open>is_array\<close>, \<open>is_object\<close>, \<open>as_str\<close>.\<close>

fun json_get :: "json \<Rightarrow> string \<Rightarrow> json option" where
  "json_get (JObj kvs) k = map_of kvs k"
| "json_get _ k = None"

fun json_is_array :: "json \<Rightarrow> bool" where
  "json_is_array (JArr _) = True"
| "json_is_array _ = False"

fun json_is_object :: "json \<Rightarrow> bool" where
  "json_is_object (JObj _) = True"
| "json_is_object _ = False"

fun json_as_str :: "json \<Rightarrow> string option" where
  "json_as_str (JStr s) = Some s"
| "json_as_str _ = None"

section \<open>Results\<close>

fun result_ok :: "'e + 'a \<Rightarrow> bool" where
  "result_ok (Inl _) = False"
| "result_ok (Inr _) = True"

fun result_bind :: "'e + 'a \<Rightarrow> ('a \<Rightarrow> 'e + 'b) \<Rightarrow> 'e + 'b" where
  "result_bind (Inl e) f = Inl e"
| "result_bind (Inr x) f = f x"

lemma result_bind_Inr_iff: "result_bind r f = Inr y \<longleftrightarrow> (\<exists>x. r = Inr x \<and> f x = Inr y)"
  by (cases r) auto

lemma result_bind_Inl_iff:
  "result_bind r f = Inl e \<longleftrightarrow> r = Inl e \<or> (\<exists>x. r = Inr x \<and> f x = Inl e)"
  by (cases r) auto

lemma result_bind_cong [fundef_cong]:
  "r = r' \<Longrightarrow> (\<And>x. r' = Inr x \<Longrightarrow> f x = g x) \<Longrightarrow> result_bind r f = result_bind r' g"
  by (cases r') auto

lemma result_ok_iff: "result_ok r \<longleftrightarrow> (\<exists>x. r = Inr x)"
  by (cases r) auto

section \<open>Splitting strings\<close>

text \<open>\<open>str::split\<close> at a one-byte separator: one piece more than there are separators.\<close>

fun split_on :: "char \<Rightarrow> string \<Rightarrow> string list" where
  "split_on c [] = [[]]"
| "split_on c (x # xs) =
     (if x = c then [] # split_on c xs
      else case split_on c xs of [] \<Rightarrow> [[x]] | y # ys \<Rightarrow> (x # y) # ys)"

section \<open>Hash maps as association lists\<close>

text \<open>
  A \<open>HashMap\<close> is an association list with distinct keys; lookup is \<open>map_of\<close>, insertion
  \<open>AList.update\<close>, removal \<open>AList.delete\<close>, and \<open>retain\<close> is \<open>filter\<close>.  The order
  of the list stands for the unspecified iteration order.
\<close>

definition alist_sum :: "('v \<Rightarrow> nat) \<Rightarrow> ('k \<times> 'v) list \<Rightarrow> nat" where
  "alist_sum f xs = sum_list (map (\<lambda>kv. f (snd kv)) xs)"

lemma alist_sum_Nil [simp]: "alist_sum f [] = 0"
  by (simp add: alist_sum_def)

lemma alist_sum_Cons [simp]: "alist_sum f (kv # xs) = f (snd kv) + alist_sum f xs"
  by (simp add: alist_sum_def)

lemma alist_sum_append [simp]: "alist_sum f (xs @ ys) = alist_sum f xs + alist_sum f ys"
  by (simp add: alist_sum_def)

lemma alist_sum_update_fresh:
  "k \<notin> fst ` set xs \<Longrightarrow> alist_sum f (AList.update k v xs) = alist_sum f xs + f v"
  by (induction xs) auto

lemma alist_sum_update:
  "map_of xs k = Some w \<Longrightarrow>
   alist_sum f (AList.update k v xs) + f w = alist_sum f xs + f v"
  by (induction xs) (auto split: if_splits)

lemma alist_sum_delete_absent:
  "k \<notin> fst ` set xs \<Longrightarrow> alist_sum f (AList.delete k xs) = alist_sum f xs"
  by (induction xs) (auto simp: AList.delete_eq)

lemma alist_delete_absent: "k \<notin> fst ` set xs \<Longrightarrow> AList.delete k xs = xs"
  by (induction xs) (auto simp: AList.delete_eq)

lemma alist_sum_delete:
  "distinct (map fst xs) \<Longrightarrow> map_of xs k = Some w \<Longrightarrow>
   alist_sum f (AList.delete k xs) + f w = alist_sum f xs"
proof (induction xs)
  case Nil
  then show ?case by simp
next
  case (Cons kv xs)
  show ?case
  proof (cases "fst kv = k")
    case True
    with Cons.prems have "k \<notin> fst ` set xs" by (metis list.set_map distinct.simps(2) list.map(2))
    with True Cons.prems show ?thesis
      by (cases kv) (simp add: alist_delete_absent)
  next
    case False
    with Cons show ?thesis by (cases kv) simp
  qed
qed

lemma alist_sum_ge: "map_of xs k = Some w \<Longrightarrow> f w \<le> alist_sum f xs"
  by (induction xs) (auto split: if_splits intro: trans_le_add2)

lemma alist_sum_filter_split:
  "alist_sum f (filter P xs) + alist_sum f (filter (\<lambda>x. \<not> P x) xs) = alist_sum f xs"
  by (induction xs) auto

lemma distinct_keys_update:
  "distinct (map fst xs) \<Longrightarrow> distinct (map fst (AList.update k v xs))"
  by (rule distinct_update)

lemma distinct_keys_filter:
  "distinct (map fst xs) \<Longrightarrow> distinct (map fst (filter P xs))"
  by (induction xs) auto

lemma map_of_filter_snd:
  "distinct (map fst xs) \<Longrightarrow>
   map_of (filter (\<lambda>kv. P (snd kv)) xs) k =
     (case map_of xs k of None \<Rightarrow> None | Some v \<Rightarrow> if P v then Some v else None)"
  by (induction xs) (auto split: option.splits simp: map_of_eq_None_iff)

lemma map_of_filter_key:
  "map_of (filter (\<lambda>kv. Q (fst kv)) xs) k = (if Q k then map_of xs k else None)"
  by (induction xs) auto

lemma map_of_map_snd:
  "map_of (map (\<lambda>kv. (fst kv, g (snd kv))) xs) k = map_option g (map_of xs k)"
  by (induction xs) auto

lemma map_of_update_iff: "map_of (AList.update k v xs) k' = (if k' = k then Some v else map_of xs k')"
  by (simp add: update_conv')

lemma map_of_delete_iff: "map_of (AList.delete k xs) k' = (if k' = k then None else map_of xs k')"
  by (simp add: delete_conv')

lemma length_update_fresh:
  "k \<notin> fst ` set xs \<Longrightarrow> length (AList.update k v xs) = Suc (length xs)"
  by (induction xs) auto

lemma length_update_present:
  "k \<in> fst ` set xs \<Longrightarrow> length (AList.update k v xs) = length xs"
  by (induction xs) (auto simp: length_update_fresh)

lemma length_delete_present:
  "distinct (map fst xs) \<Longrightarrow> map_of xs k = Some v \<Longrightarrow>
   Suc (length (AList.delete k xs)) = length xs"
  using alist_sum_delete [of xs k v "\<lambda>_. 1"]
  by (simp add: alist_sum_def sum_list_triv)

section \<open>Ordered string sets\<close>

type_synonym btree_set = "string list"

definition bs_insert :: "string \<Rightarrow> btree_set \<Rightarrow> btree_set" where
  "bs_insert k ks = insort_insert k ks"

definition bs_ok :: "btree_set \<Rightarrow> bool" where
  "bs_ok ks \<longleftrightarrow> sorted ks \<and> distinct ks"

lemma set_bs_insert [simp]: "set (bs_insert k ks) = insert k (set ks)"
  by (simp add: bs_insert_def set_insort_insert)

lemma bs_ok_insert [simp]: "bs_ok ks \<Longrightarrow> bs_ok (bs_insert k ks)"
  by (simp add: bs_ok_def bs_insert_def sorted_insort_insert distinct_insort_insert)

lemma bs_ok_Nil [simp]: "bs_ok []"
  by (simp add: bs_ok_def)

lemma map_option_bind_case:
  "Option.bind x (\<lambda>y. Some (f y)) = map_option f x"
  by (cases x) simp_all

lemma alist_update_fresh: "k \<notin> fst ` set xs \<Longrightarrow> AList.update k v xs = xs @ [(k, v)]"
  by (induction xs) auto

end
