(* ===== verification/Payload.thy ===== *)
theory Payload
  imports Prelude
begin

text \<open>
  Task payloads and their byte limits (\<open>crates/tower-mcp/src/async_task.rs\<close> and the wire
  types of \<open>crates/tower-mcp-types\<close>): task status, JSON-RPC errors, the retention limits, the
  counting writer that measures a payload without allocating it, and the payload validators.

  \<open>serde_json::to_writer\<close> is third-party code.  It is the parameter \<open>ser\<close> of every
  definition here: for a document, the lengths of the chunks it writes, in order, and the message
  it fails with, if it does.  What the code relies on, the documented compact layout, is the
  predicate \<open>compact_layout\<close>; \<open>compact_emit\<close> is a serializer that has it.
\<close>

section \<open>Documents\<close>

text \<open>
  A protocol value (\<open>CallToolResult\<close>, \<open>InputRequest\<close>, \<open>InputResponse\<close>) as the
  store sees it: it serializes to a JSON value, or its serializer writes some bytes and refuses
  (for instance an invalid \<open>_meta\<close> key).
\<close>

datatype wire = Encodes json | Refuses nat string

fun wire_to_value :: "wire \<Rightarrow> string + json" where
  "wire_to_value (Encodes j) = Inr j"
| "wire_to_value (Refuses n m) = Inl m"

datatype doc =
  DJson json
| DWire wire
| DArr "doc list"
| DObj "(string \<times> doc) list"

type_synonym serializer = "doc \<Rightarrow> nat list \<times> string option"

definition doc_option :: "('a \<Rightarrow> doc) \<Rightarrow> 'a option \<Rightarrow> doc" where
  "doc_option f x = (case x of None \<Rightarrow> DJson JNull | Some v \<Rightarrow> f v)"

definition doc_str :: "string \<Rightarrow> doc" where
  "doc_str s = DJson (JStr s)"

section \<open>Task status and JSON-RPC errors\<close>

datatype task_status = Working | InputRequired | Completed | Failed | Cancelled

fun is_terminal :: "task_status \<Rightarrow> bool" where
  "is_terminal Completed = True"
| "is_terminal Failed = True"
| "is_terminal Cancelled = True"
| "is_terminal _ = False"

fun task_status_display :: "task_status \<Rightarrow> string" where
  "task_status_display Working = ''working''"
| "task_status_display InputRequired = ''input_required''"
| "task_status_display Completed = ''completed''"
| "task_status_display Failed = ''failed''"
| "task_status_display Cancelled = ''cancelled''"

record json_rpc_error =
  e_code :: int
  e_message :: string
  e_data :: "json option"

datatype error_code = ParseError | InvalidRequest | MethodNotFound | InvalidParams | InternalError

fun error_code_value :: "error_code \<Rightarrow> int" where
  "error_code_value ParseError = - 32700"
| "error_code_value InvalidRequest = - 32600"
| "error_code_value MethodNotFound = - 32601"
| "error_code_value InvalidParams = - 32602"
| "error_code_value InternalError = - 32603"

definition json_rpc_error_new :: "error_code \<Rightarrow> string \<Rightarrow> json_rpc_error" where
  "json_rpc_error_new c msg = \<lparr>e_code = error_code_value c, e_message = msg, e_data = None\<rparr>"

definition internal_error :: "string \<Rightarrow> json_rpc_error" where
  "internal_error msg = json_rpc_error_new InternalError msg"

definition invalid_params :: "string \<Rightarrow> json_rpc_error" where
  "invalid_params msg = json_rpc_error_new InvalidParams msg"

definition method_not_found :: "string \<Rightarrow> json_rpc_error" where
  "method_not_found m = json_rpc_error_new MethodNotFound (''Method not found: '' @ m)"

definition error_doc :: "json_rpc_error \<Rightarrow> doc" where
  "error_doc e = DObj ([(''code'', DJson (JNum (NInt (e_code e)))), (''message'', doc_str (e_message e))]
     @ (case e_data e of None \<Rightarrow> [] | Some d \<Rightarrow> [(''data'', DJson d)]))"

section \<open>Retention limits and store errors\<close>

record retention_limits =
  max_tasks :: nat
  max_payload_bytes :: nat
  max_retained_bytes :: nat

definition limits_unbounded :: retention_limits where
  "limits_unbounded = \<lparr>max_tasks = USIZE_MAX, max_payload_bytes = USIZE_MAX,
     max_retained_bytes = USIZE_MAX\<rparr>"

definition limits_default :: retention_limits where
  "limits_default = \<lparr>max_tasks = 1024, max_payload_bytes = 4 * 1024 * 1024,
     max_retained_bytes = 64 * 1024 * 1024\<rparr>"

text \<open>The fields are \<open>usize\<close>.\<close>

definition limits_ok :: "retention_limits \<Rightarrow> bool" where
  "limits_ok l \<longleftrightarrow> max_tasks l \<le> USIZE_MAX \<and> max_payload_bytes l \<le> USIZE_MAX
     \<and> max_retained_bytes l \<le> USIZE_MAX"

datatype limit_kind = TaskCount | PayloadBytes | AggregateBytes

fun limit_kind_display :: "limit_kind \<Rightarrow> string" where
  "limit_kind_display TaskCount = ''task-count''"
| "limit_kind_display PayloadBytes = ''payload-bytes''"
| "limit_kind_display AggregateBytes = ''aggregate-bytes''"

datatype task_store_error =
  Encode string
| Decode string
| Backend string
| InvalidTransition string
| RetentionLimitExceeded limit_kind nat

section \<open>The counting writer\<close>

record counting_writer =
  cw_written :: nat
  cw_limit :: nat
  cw_exceeded :: bool

definition counting_writer_new :: "nat \<Rightarrow> counting_writer" where
  "counting_writer_new limit = \<lparr>cw_written = 0, cw_limit = limit, cw_exceeded = False\<rparr>"

text \<open>\<open>io::Write::write\<close>: the flag says whether the write was accepted.\<close>

definition counting_write :: "nat \<Rightarrow> counting_writer \<Rightarrow> counting_writer \<times> bool" where
  "counting_write len w =
     (case checked_add (cw_written w) len of
        None \<Rightarrow> (w\<lparr>cw_exceeded := True\<rparr>, False)
      | Some nxt \<Rightarrow>
          if cw_limit w < nxt then (w\<lparr>cw_exceeded := True\<rparr>, False)
          else (w\<lparr>cw_written := nxt\<rparr>, True))"

text \<open>\<open>to_writer\<close> stops at the first refused chunk.\<close>

fun write_chunks :: "nat list \<Rightarrow> counting_writer \<Rightarrow> counting_writer \<times> bool" where
  "write_chunks [] w = (w, True)"
| "write_chunks (c # cs) w =
     (case counting_write c w of (w', ok) \<Rightarrow> if ok then write_chunks cs w' else (w', False))"

definition encoded_size ::
  "serializer \<Rightarrow> doc \<Rightarrow> nat \<Rightarrow> limit_kind \<Rightarrow> task_store_error + nat" where
  "encoded_size ser v limit kind =
     (case ser v of (chunks, fail) \<Rightarrow>
      case write_chunks chunks (counting_writer_new limit) of (w, ok) \<Rightarrow>
        if ok then (case fail of None \<Rightarrow> Inr (cw_written w) | Some msg \<Rightarrow> Inl (Encode msg))
        else if cw_exceeded w then Inl (RetentionLimitExceeded kind limit)
        else Inl (Encode ''write error''))"

definition payload_bound :: "retention_limits \<Rightarrow> nat \<times> limit_kind" where
  "payload_bound limits =
     (if max_payload_bytes limits \<le> max_retained_bytes limits
      then (max_payload_bytes limits, PayloadBytes)
      else (max_retained_bytes limits, AggregateBytes))"

definition validate_payload ::
  "serializer \<Rightarrow> doc \<Rightarrow> retention_limits \<Rightarrow> task_store_error + nat" where
  "validate_payload ser payload limits =
     (case payload_bound limits of (limit, kind) \<Rightarrow> encoded_size ser payload limit kind)"

definition validate_prefixed_string ::
  "serializer \<Rightarrow> string \<Rightarrow> string \<Rightarrow> retention_limits \<Rightarrow> task_store_error + nat" where
  "validate_prefixed_string ser v prefix limits =
     (case payload_bound limits of (limit, kind) \<Rightarrow>
      case checked_sub limit (length prefix) of
        None \<Rightarrow> Inl (RetentionLimitExceeded kind limit)
      | Some value_limit \<Rightarrow>
          (case encoded_size ser (doc_str v) value_limit kind of
             Inl e \<Rightarrow> Inl e
           | Inr n \<Rightarrow>
               (case checked_add n (length prefix) of
                  None \<Rightarrow> Inl (RetentionLimitExceeded kind limit)
                | Some m \<Rightarrow> Inr m)))"

section \<open>What the writer measures\<close>

definition esize :: "serializer \<Rightarrow> doc \<Rightarrow> nat" where
  "esize ser v = sum_list (fst (ser v))"

definition encodes :: "serializer \<Rightarrow> doc \<Rightarrow> bool" where
  "encodes ser v \<longleftrightarrow> snd (ser v) = None"

lemma write_chunks_fits:
  "cw_limit w \<le> USIZE_MAX \<Longrightarrow> cw_written w + sum_list cs \<le> cw_limit w \<Longrightarrow>
   write_chunks cs w = (w\<lparr>cw_written := cw_written w + sum_list cs\<rparr>, True)"
proof (induction cs arbitrary: w)
  case Nil
  then show ?case by simp
next
  case (Cons c cs)
  then have "counting_write c w = (w\<lparr>cw_written := cw_written w + c\<rparr>, True)"
    by (simp add: counting_write_def)
  then show ?case
    using Cons.IH [of "w\<lparr>cw_written := cw_written w + c\<rparr>"] Cons.prems by (simp add: add.assoc)
qed

lemma write_chunks_exceeds:
  "cw_limit w \<le> USIZE_MAX \<Longrightarrow> cw_written w \<le> cw_limit w \<Longrightarrow>
   cw_limit w < cw_written w + sum_list cs \<Longrightarrow>
   \<exists>w'. write_chunks cs w = (w', False) \<and> cw_exceeded w'"
proof (induction cs arbitrary: w)
  case Nil
  then show ?case by simp
next
  case (Cons c cs)
  show ?case
  proof (cases "cw_written w + c \<le> cw_limit w")
    case True
    then have "counting_write c w = (w\<lparr>cw_written := cw_written w + c\<rparr>, True)"
      using Cons.prems by (simp add: counting_write_def)
    then show ?thesis
      using Cons.IH [of "w\<lparr>cw_written := cw_written w + c\<rparr>"] Cons.prems True
      by (simp add: add.assoc)
  next
    case False
    then have "counting_write c w = (w\<lparr>cw_exceeded := True\<rparr>, False)"
      using Cons.prems by (simp add: counting_write_def checked_add_def)
    then show ?thesis by simp
  qed
qed

text \<open>
  The writer measures the sum of the chunks exactly, and reports the limit before any
  serialization failure that comes after it.
\<close>

lemma encoded_size_eq:
  assumes "limit \<le> USIZE_MAX"
  shows "encoded_size ser v limit kind =
     (if limit < esize ser v then Inl (RetentionLimitExceeded kind limit)
      else case snd (ser v) of None \<Rightarrow> Inr (esize ser v) | Some m \<Rightarrow> Inl (Encode m))"
proof -
  obtain cs f where v: "ser v = (cs, f)" by (cases "ser v")
  show ?thesis
  proof (cases "limit < sum_list cs")
    case True
    then show ?thesis
      using write_chunks_exceeds [of "counting_writer_new limit" cs] assms
      by (auto simp: encoded_size_def esize_def v counting_writer_new_def)
  next
    case False
    then show ?thesis
      using write_chunks_fits [of "counting_writer_new limit" cs] assms
      by (simp add: encoded_size_def esize_def v counting_writer_new_def split: option.split)
  qed
qed

lemma encoded_size_Inr_iff:
  assumes "limit \<le> USIZE_MAX"
  shows "encoded_size ser v limit kind = Inr n \<longleftrightarrow>
    n = esize ser v \<and> encodes ser v \<and> esize ser v \<le> limit"
  using assms by (auto simp: encoded_size_eq encodes_def split: option.splits)

lemma payload_bound_le:
  "limits_ok l \<Longrightarrow> fst (payload_bound l) \<le> USIZE_MAX
    \<and> fst (payload_bound l) = min (max_payload_bytes l) (max_retained_bytes l)"
  by (auto simp: payload_bound_def limits_ok_def)

lemma validate_payload_Inr_iff:
  assumes "limits_ok l"
  shows "validate_payload ser v l = Inr n \<longleftrightarrow>
    n = esize ser v \<and> encodes ser v
    \<and> esize ser v \<le> max_payload_bytes l \<and> esize ser v \<le> max_retained_bytes l"
  using payload_bound_le [OF assms]
  by (cases "payload_bound l") (auto simp: validate_payload_def encoded_size_Inr_iff)

section \<open>The compact layout\<close>

text \<open>
  What the store relies on in \<open>serde_json\<close>'s compact output: \<open>null\<close> is four bytes; a
  string is quoted, and escaping never shortens it; every value takes at least one byte; an array
  or object is bracketed, its elements separated by one byte, an object's keys written as strings
  followed by one byte; and only a refusing protocol value makes a document fail.
\<close>

definition plain_ascii :: "string \<Rightarrow> bool" where
  "plain_ascii s \<longleftrightarrow>
     (\<forall>c\<in>set s. 32 \<le> (of_char c :: nat) \<and> (of_char c :: nat) < 127
        \<and> c \<noteq> CHR ''\"'' \<and> c \<noteq> CHR 0x5C)"

definition compact_layout :: "serializer \<Rightarrow> bool" where
  "compact_layout ser \<longleftrightarrow>
     esize ser (DJson JNull) = 4
   \<and> (\<forall>s. length s + 2 \<le> esize ser (doc_str s))
   \<and> (\<forall>s. plain_ascii s \<longrightarrow> esize ser (doc_str s) = length s + 2)
   \<and> (\<forall>j. 1 \<le> esize ser (DJson j) \<and> encodes ser (DJson j))
   \<and> (\<forall>w. encodes ser (DWire w) \<longrightarrow> 1 \<le> esize ser (DWire w))
   \<and> (\<forall>vs. encodes ser (DArr vs) \<longleftrightarrow> (\<forall>v\<in>set vs. encodes ser v))
   \<and> (\<forall>vs. encodes ser (DArr vs) \<longrightarrow>
        esize ser (DArr vs) = 2 + sum_list (map (esize ser) vs) + (length vs - 1))
   \<and> (\<forall>kvs. encodes ser (DObj kvs) \<longleftrightarrow> (\<forall>kv\<in>set kvs. encodes ser (snd kv)))
   \<and> (\<forall>kvs. encodes ser (DObj kvs) \<longrightarrow>
        esize ser (DObj kvs) = 2
          + sum_list (map (\<lambda>kv. esize ser (doc_str (fst kv)) + 1 + esize ser (snd kv)) kvs)
          + (length kvs - 1))"

lemma compact_layoutD:
  assumes "compact_layout ser"
  shows "esize ser (DJson JNull) = 4"
    and "length s + 2 \<le> esize ser (doc_str s)"
    and "plain_ascii s \<Longrightarrow> esize ser (doc_str s) = length s + 2"
    and "1 \<le> esize ser (DJson j)"
    and "encodes ser (DJson j)"
    and "encodes ser (doc_str s)"
    and "encodes ser (DWire w) \<Longrightarrow> 1 \<le> esize ser (DWire w)"
    and "encodes ser (DArr vs) \<longleftrightarrow> (\<forall>v\<in>set vs. encodes ser v)"
    and "encodes ser (DArr vs) \<Longrightarrow>
      esize ser (DArr vs) = 2 + sum_list (map (esize ser) vs) + (length vs - 1)"
    and "encodes ser (DObj kvs) \<longleftrightarrow> (\<forall>kv\<in>set kvs. encodes ser (snd kv))"
    and "encodes ser (DObj kvs) \<Longrightarrow> esize ser (DObj kvs) = 2
        + sum_list (map (\<lambda>kv. esize ser (doc_str (fst kv)) + 1 + esize ser (snd kv)) kvs)
        + (length kvs - 1)"
  using assms by (simp_all add: compact_layout_def doc_str_def)

section \<open>A serializer with this layout\<close>

definition char_size :: "char \<Rightarrow> nat" where
  "char_size c =
     (let b = (of_char c :: nat)
      in if b = 34 \<or> b = 92 then 2
         else if b < 32 then (if b \<in> {8, 9, 10, 12, 13} then 2 else 6)
         else 1)"

definition str_size :: "string \<Rightarrow> nat" where
  "str_size s = 2 + sum_list (map char_size s)"

fun digits_size :: "nat \<Rightarrow> nat" where
  "digits_size n = (if n < 10 then 1 else Suc (digits_size (n div 10)))"

declare digits_size.simps [simp del]

fun number_size :: "json_number \<Rightarrow> nat" where
  "number_size (NInt i) = (if i < 0 then 1 else 0) + digits_size (nat \<bar>i\<bar>)"
| "number_size (NFloat q) = 24"

fun json_size :: "json \<Rightarrow> nat" where
  "json_size JNull = 4"
| "json_size (JBool b) = (if b then 4 else 5)"
| "json_size (JNum n) = number_size n"
| "json_size (JStr s) = str_size s"
| "json_size (JArr vs) = 2 + sum_list (map json_size vs) + (length vs - 1)"
| "json_size (JObj kvs) =
     2 + sum_list (map (\<lambda>kv. str_size (fst kv) + 1 + json_size (snd kv)) kvs) + (length kvs - 1)"

fun emit_seq :: "(nat \<times> string option) list \<Rightarrow> nat \<times> string option" where
  "emit_seq [] = (0, None)"
| "emit_seq ((n, Some m) # es) = (n, Some m)"
| "emit_seq ((n, None) # es) = (case emit_seq es of (k, f) \<Rightarrow> (n + k, f))"

fun emit_tail :: "(nat \<times> string option) list \<Rightarrow> (nat \<times> string option) list" where
  "emit_tail [] = [(1, None)]"
| "emit_tail (e # es) = (1, None) # e # emit_tail es"

fun emit_bracketed :: "(nat \<times> string option) list \<Rightarrow> (nat \<times> string option) list" where
  "emit_bracketed [] = [(2, None)]"
| "emit_bracketed (e # es) = (1, None) # e # emit_tail es"

definition emit_member :: "string \<Rightarrow> nat \<times> string option \<Rightarrow> nat \<times> string option" where
  "emit_member k e = (case e of (n, f) \<Rightarrow> (str_size k + 1 + n, f))"

fun emit :: "doc \<Rightarrow> nat \<times> string option" where
  "emit (DJson j) = (json_size j, None)"
| "emit (DWire (Encodes j)) = (json_size j, None)"
| "emit (DWire (Refuses n m)) = (n, Some m)"
| "emit (DArr vs) = emit_seq (emit_bracketed (map emit vs))"
| "emit (DObj kvs) = emit_seq (emit_bracketed
     (map (\<lambda>kv. emit_member (fst kv) (emit (snd kv))) kvs))"

definition compact_emit :: serializer where
  "compact_emit v = (case emit v of (n, f) \<Rightarrow> ([n], f))"

lemma emit_seq_None_iff: "snd (emit_seq es) = None \<longleftrightarrow> (\<forall>e\<in>set es. snd e = None)"
  by (induction es rule: emit_seq.induct) (auto split: prod.splits)

lemma emit_seq_sum: "\<forall>e\<in>set es. snd e = None \<Longrightarrow> fst (emit_seq es) = sum_list (map fst es)"
  by (induction es rule: emit_seq.induct) (auto split: prod.splits)

lemma emit_tail_all: "(\<forall>e\<in>set (emit_tail es). snd e = None) \<longleftrightarrow> (\<forall>e\<in>set es. snd e = None)"
  by (induction es rule: emit_tail.induct) auto

lemma emit_bracketed_all:
  "(\<forall>e\<in>set (emit_bracketed es). snd e = None) \<longleftrightarrow> (\<forall>e\<in>set es. snd e = None)"
  by (cases es) (auto simp: emit_tail_all)

lemma emit_tail_sum: "sum_list (map fst (emit_tail es)) = 1 + sum_list (map fst es) + length es"
  by (induction es rule: emit_tail.induct) auto

lemma emit_bracketed_sum:
  "sum_list (map fst (emit_bracketed es)) = 2 + sum_list (map fst es) + (length es - 1)"
  by (cases es) (auto simp: emit_tail_sum)

lemma emit_member_simps [simp]:
  "snd (emit_member k e) = snd e" "fst (emit_member k e) = str_size k + 1 + fst e"
  by (simp_all add: emit_member_def split: prod.split)

lemma esize_compact_emit: "esize compact_emit v = fst (emit v)"
  by (simp add: esize_def compact_emit_def split: prod.split)

lemma encodes_compact_emit: "encodes compact_emit v \<longleftrightarrow> snd (emit v) = None"
  by (simp add: encodes_def compact_emit_def split: prod.split)

lemma char_size_pos: "1 \<le> char_size c"
  by (simp add: char_size_def Let_def)

lemma char_size_plain:
  "32 \<le> (of_char c :: nat) \<Longrightarrow> c \<noteq> CHR 0x22 \<Longrightarrow> c \<noteq> CHR 0x5C \<Longrightarrow> char_size c = 1"
proof -
  assume a: "32 \<le> (of_char c :: nat)" "c \<noteq> CHR 0x22" "c \<noteq> CHR 0x5C"
  have "of_char c \<noteq> (of_char (CHR 0x22) :: nat)" "of_char c \<noteq> (of_char (CHR 0x5C) :: nat)"
    using a(2,3) by (metis char_of_char)+
  with a(1) show ?thesis by (simp add: char_size_def Let_def)
qed

lemma str_size_ge: "length s + 2 \<le> str_size s"
proof -
  have "length s \<le> sum_list (map char_size s)"
  proof (induction s)
    case (Cons c s)
    then show ?case using char_size_pos [of c] by simp
  qed simp
  then show ?thesis by (simp add: str_size_def)
qed

lemma str_size_plain: "plain_ascii s \<Longrightarrow> str_size s = length s + 2"
  by (induction s) (auto simp: str_size_def plain_ascii_def char_size_plain)

lemma digits_size_pos: "1 \<le> digits_size n"
  by (subst digits_size.simps) simp

lemma json_size_pos: "1 \<le> json_size j"
proof (cases j)
  case (JNum n)
  then show ?thesis using digits_size_pos by (cases n) (auto intro: trans_le_add2)
qed (auto simp: str_size_def)

lemma compact_emit_layout: "compact_layout compact_emit"
proof -
  have "fst (emit (DWire w)) \<ge> 1" if "snd (emit (DWire w)) = None" for w
    using that json_size_pos by (cases w) auto
  then show ?thesis
    using str_size_ge str_size_plain json_size_pos
    by (auto simp: compact_layout_def esize_compact_emit encodes_compact_emit doc_str_def
        emit_seq_None_iff emit_bracketed_all emit_seq_sum emit_bracketed_sum comp_def esize_compact_emit [abs_def])
qed

end
