(* ===== verification/Timestamp.thy ===== *)
theory Timestamp
  imports Prelude
begin

text \<open>
  ISO 8601 timestamps of task records: \<open>chrono_now_iso8601\<close> and \<open>is_leap_year\<close> of
  \<open>crates/tower-mcp/src/async_task.rs\<close>.  The system clock reading (seconds and
  milliseconds since the epoch) is the argument.  \<open>days as i32\<close> truncates, so the day count
  is an \<open>int\<close> obtained from the 32-bit two's complement reading.
\<close>

section \<open>Decimal formatting\<close>

definition digit_char :: "nat \<Rightarrow> char" where
  "digit_char d = ''0123456789'' ! d"

fun show_nat :: "nat \<Rightarrow> string" where
  "show_nat n = (if n < 10 then [digit_char n] else show_nat (n div 10) @ [digit_char (n mod 10)])"

declare show_nat.simps [simp del]

text \<open>\<open>format!("{:0w}", i)\<close>: at least \<open>w\<close> characters, the sign first.\<close>

definition fmt_zero :: "nat \<Rightarrow> int \<Rightarrow> string" where
  "fmt_zero w i =
     (let ds = show_nat (nat \<bar>i\<bar>);
          sign = (if i < 0 then ''-'' else '''')
      in sign @ replicate (w - length sign - length ds) (CHR ''0'') @ ds)"

section \<open>Calendar\<close>

definition is_leap_year :: "int \<Rightarrow> bool" where
  "is_leap_year year \<longleftrightarrow> (year mod 4 = 0 \<and> year mod 100 \<noteq> 0) \<or> year mod 400 = 0"

definition days_in_year :: "int \<Rightarrow> int" where
  "days_in_year year = (if is_leap_year year then 366 else 365)"

definition days_in_months :: "int \<Rightarrow> int list" where
  "days_in_months year =
     (if is_leap_year year then [31, 29, 31, 30, 31, 30, 31, 31, 30, 31, 30, 31]
      else [31, 28, 31, 30, 31, 30, 31, 31, 30, 31, 30, 31])"

lemma days_in_year_pos: "365 \<le> days_in_year y"
  by (simp add: days_in_year_def)

function year_loop :: "int \<Rightarrow> int \<Rightarrow> int \<times> int" where
  "year_loop year remaining =
     (if remaining < days_in_year year then (year, remaining)
      else year_loop (year + 1) (remaining - days_in_year year))"
  by pat_completeness auto
termination
proof (relation "measure (\<lambda>(y, r). nat (r + 1))")
  fix year remaining :: int
  assume "\<not> remaining < days_in_year year"
  with days_in_year_pos [of year]
  show "((year + 1, remaining - days_in_year year), (year, remaining))
      \<in> measure (\<lambda>(y, r). nat (r + 1))"
    by simp
qed simp

declare year_loop.simps [simp del]

fun month_loop :: "int list \<Rightarrow> int \<Rightarrow> int \<Rightarrow> int \<times> int" where
  "month_loop [] month remaining = (month, remaining)"
| "month_loop (d # ds) month remaining =
     (if remaining < d then (month, remaining) else month_loop ds (month + 1) (remaining - d))"

definition civil_of_days :: "int \<Rightarrow> int \<times> int \<times> int" where
  "civil_of_days days =
     (case year_loop 1970 days of (year, r) \<Rightarrow>
      case month_loop (days_in_months year) 1 r of (month, r') \<Rightarrow> (year, month, r' + 1))"

definition days_as_i32 :: "nat \<Rightarrow> int" where
  "days_as_i32 d = sint (word_of_nat d :: 32 word)"

definition chrono_now_iso8601 :: "nat \<Rightarrow> nat \<Rightarrow> string" where
  "chrono_now_iso8601 secs millis =
     (let days = secs div 86400;
          remaining = secs mod 86400;
          hours = remaining div 3600;
          remaining = remaining mod 3600;
          minutes = remaining div 60;
          seconds = remaining mod 60
      in case civil_of_days (days_as_i32 days) of (year, month, day) \<Rightarrow>
         fmt_zero 4 year @ ''-'' @ fmt_zero 2 month @ ''-'' @ fmt_zero 2 day @ ''T'' @
         fmt_zero 2 (int hours) @ '':'' @ fmt_zero 2 (int minutes) @ '':'' @
         fmt_zero 2 (int seconds) @ ''.'' @ fmt_zero 3 (int millis) @ ''Z'')"

section \<open>Correctness of the calendar\<close>

text \<open>The specification: the day number of a civil date, counted from 1970-01-01.\<close>

definition days_before_year :: "int \<Rightarrow> int" where
  "days_before_year y = (\<Sum>k\<in>{1970..<y}. days_in_year k)"

definition day_number :: "int \<times> int \<times> int \<Rightarrow> int" where
  "day_number ymd = (case ymd of (y, m, d) \<Rightarrow>
     days_before_year y + sum_list (take (nat (m - 1)) (days_in_months y)) + (d - 1))"

definition valid_date :: "int \<times> int \<times> int \<Rightarrow> bool" where
  "valid_date ymd \<longleftrightarrow> (case ymd of (y, m, d) \<Rightarrow>
     1970 \<le> y \<and> 1 \<le> m \<and> m \<le> 12 \<and> 1 \<le> d \<and> d \<le> days_in_months y ! nat (m - 1))"

lemma sum_days_in_months: "sum_list (days_in_months y) = days_in_year y"
  by (simp add: days_in_months_def days_in_year_def)

lemma length_days_in_months: "length (days_in_months y) = 12"
  by (simp add: days_in_months_def)

lemma sum_int_shift: "y < (y'::int) \<Longrightarrow> (\<Sum>k\<in>{y..<y'}. f k) = (f y :: int) + (\<Sum>k\<in>{y + 1..<y'}. f k)"
proof -
  assume "y < y'"
  then have "{y..<y'} = insert y {y + 1..<y'}" by auto
  then show ?thesis by simp
qed

lemma year_loop_spec:
  "0 \<le> r \<Longrightarrow> year_loop y r = (y', r') \<Longrightarrow>
   y \<le> y' \<and> 0 \<le> r' \<and> r' < days_in_year y' \<and> r = r' + (\<Sum>k\<in>{y..<y'}. days_in_year k)"
proof (induction y r rule: year_loop.induct)
  case (1 y r)
  show ?case
  proof (cases "r < days_in_year y")
    case True
    with 1 show ?thesis by (simp add: year_loop.simps [of y r])
  next
    case False
    with 1 have "y + 1 \<le> y' \<and> 0 \<le> r' \<and> r' < days_in_year y'
        \<and> r - days_in_year y = r' + (\<Sum>k\<in>{y + 1..<y'}. days_in_year k)"
      by (simp add: year_loop.simps [of y r])
    then show ?thesis using sum_int_shift [of y y' days_in_year] by simp
  qed
qed

lemma month_loop_spec:
  "0 \<le> r \<Longrightarrow> r < sum_list ds \<Longrightarrow>
   \<exists>k < length ds. month_loop ds m r = (m + int k, r - sum_list (take k ds))
     \<and> 0 \<le> r - sum_list (take k ds) \<and> r - sum_list (take k ds) < ds ! k"
proof (induction ds arbitrary: m r)
  case Nil
  then show ?case by simp
next
  case (Cons d ds)
  show ?case
  proof (cases "r < d")
    case True
    with Cons.prems show ?thesis by (intro exI [of _ 0]) simp
  next
    case False
    with Cons.prems have "0 \<le> r - d" "r - d < sum_list ds" by simp_all
    from Cons.IH [OF this, of "m + 1"] obtain k where
      "k < length ds" "month_loop ds (m + 1) (r - d) = (m + 1 + int k, r - d - sum_list (take k ds))"
      "0 \<le> r - d - sum_list (take k ds)" "r - d - sum_list (take k ds) < ds ! k" by blast
    with False show ?thesis by (intro exI [of _ "Suc k"]) (simp add: algebra_simps)
  qed
qed

lemma civil_of_days_spec:
  assumes "0 \<le> days"
  shows "valid_date (civil_of_days days) \<and> day_number (civil_of_days days) = days"
proof -
  obtain y r where yr: "year_loop 1970 days = (y, r)" by (cases "year_loop 1970 days")
  from year_loop_spec [OF assms yr]
  have y: "1970 \<le> y" "0 \<le> r" "r < sum_list (days_in_months y)"
    "days = r + days_before_year y"
    by (auto simp: sum_days_in_months days_before_year_def)
  from month_loop_spec [OF y(2,3), of 1] obtain k where
    "k < 12" "month_loop (days_in_months y) 1 r = (1 + int k, r - sum_list (take k (days_in_months y)))"
    "0 \<le> r - sum_list (take k (days_in_months y))"
    "r - sum_list (take k (days_in_months y)) < days_in_months y ! k"
    by (auto simp: length_days_in_months)
  with y yr show ?thesis
    by (simp add: civil_of_days_def valid_date_def day_number_def)
qed

lemma days_as_i32_small: "d < 2147483648 \<Longrightarrow> days_as_i32 d = int d"
  unfolding days_as_i32_def
  by (simp add: signed_of_nat signed_take_bit_int_eq_self)

section \<open>Correctness of the digits\<close>

definition read_nat :: "string \<Rightarrow> nat" where
  "read_nat s = foldl (\<lambda>a c. 10 * a + (of_char c - 48)) 0 s"

lemma of_digit_char: "d < 10 \<Longrightarrow> (of_char (digit_char d) :: nat) = 48 + d"
proof -
  assume "d < 10"
  then have "d \<in> {0, 1, 2, 3, 4, 5, 6, 7, 8, 9}" by auto
  then show ?thesis by (auto simp: digit_char_def)
qed

lemma read_show_nat: "foldl (\<lambda>a c. 10 * a + (of_char c - 48)) 0 (show_nat n) = n"
proof (induction n rule: show_nat.induct)
  case (1 n)
  show ?case
  proof (cases "n < 10")
    case True
    then show ?thesis by (simp add: show_nat.simps [of n] of_digit_char)
  next
    case False
    with 1 show ?thesis by (simp add: show_nat.simps [of n] of_digit_char)
  qed
qed

lemma read_nat_zeros: "read_nat (replicate k (CHR ''0'') @ s) = read_nat s"
  by (induction k) (simp_all add: read_nat_def)

lemma read_fmt_zero: "0 \<le> i \<Longrightarrow> int (read_nat (fmt_zero w i)) = i"
proof -
  assume "0 \<le> i"
  then have "read_nat (fmt_zero w i) = nat i"
    using read_show_nat [of "nat i"] by (simp add: fmt_zero_def Let_def read_nat_zeros) (simp add: read_nat_def)
  with \<open>0 \<le> i\<close> show ?thesis by simp
qed

lemma length_show_nat: "n < 10 ^ Suc w \<Longrightarrow> length (show_nat n) \<le> Suc w"
proof (induction n arbitrary: w rule: show_nat.induct)
  case (1 n)
  show ?case
  proof (cases "n < 10")
    case True
    then show ?thesis by (simp add: show_nat.simps [of n])
  next
    case False
    then obtain v where w: "w = Suc v" using "1.prems" by (cases w) auto
    from "1.prems" have "n div 10 < 10 ^ Suc v" by (simp add: w less_mult_imp_div_less mult.commute)
    from "1.IH" [OF False this] False show ?thesis by (simp add: show_nat.simps [of n] w)
  qed
qed

lemma length_fmt_zero: "0 \<le> i \<Longrightarrow> i < 10 ^ Suc w \<Longrightarrow> length (fmt_zero (Suc w) i) = Suc w"
proof -
  assume "0 \<le> i" "i < 10 ^ Suc w"
  then have "nat i < 10 ^ Suc w" by (simp add: nat_less_iff)
  from length_show_nat [OF this] \<open>0 \<le> i\<close> show ?thesis by (simp add: fmt_zero_def Let_def)
qed

lemma leap_day_2000: "civil_of_days 11016 = (2000, 2, 29)"
  by (simp add: civil_of_days_def year_loop.simps days_in_year_def is_leap_year_def
      days_in_months_def)

section \<open>Properties\<close>

text \<open>
  The timestamp of a task record names the instant it was taken at: for every clock reading
  up to the year the 32-bit day count allows, the printed fields are a valid civil date (leap
  years included) and a valid time of day, their decimal digits read back to themselves, and the
  day number of the date together with the time of day is the number of seconds since the epoch.
\<close>

theorem chrono_now_iso8601_correct:
  assumes "secs < 2147483648 * 86400"
  shows "\<exists>y m d h mi s.
      chrono_now_iso8601 secs millis =
        fmt_zero 4 y @ ''-'' @ fmt_zero 2 m @ ''-'' @ fmt_zero 2 d @ ''T'' @
        fmt_zero 2 h @ '':'' @ fmt_zero 2 mi @ '':'' @ fmt_zero 2 s @ ''.'' @
        fmt_zero 3 (int millis) @ ''Z''
      \<and> valid_date (y, m, d) \<and> 0 \<le> h \<and> h < 24 \<and> 0 \<le> mi \<and> mi < 60 \<and> 0 \<le> s \<and> s < 60
      \<and> day_number (y, m, d) * 86400 + h * 3600 + mi * 60 + s = int secs
      \<and> int (read_nat (fmt_zero 4 y)) = y \<and> int (read_nat (fmt_zero 2 m)) = m
      \<and> int (read_nat (fmt_zero 2 d)) = d
      \<and> (y \<le> 9999 \<and> millis < 1000 \<longrightarrow> length (chrono_now_iso8601 secs millis) = 24)"
proof -
  define days r where "days = secs div 86400" and "r = secs mod 86400"
  have days: "days < 2147483648" using assms by (simp add: days_def less_mult_imp_div_less)
  obtain y m d where ymd: "civil_of_days (int days) = (y, m, d)"
    by (cases "civil_of_days (int days)")
  have v: "valid_date (y, m, d)" "day_number (y, m, d) = int days"
    using civil_of_days_spec [of "int days"] ymd by auto
  define h mi s where "h = int (r div 3600)" and "mi = int (r mod 3600 div 60)"
    and "s = int (r mod 3600 mod 60)"
  have r: "r < 86400" by (simp add: r_def)
  have printed: "chrono_now_iso8601 secs millis =
      fmt_zero 4 y @ ''-'' @ fmt_zero 2 m @ ''-'' @ fmt_zero 2 d @ ''T'' @
      fmt_zero 2 h @ '':'' @ fmt_zero 2 mi @ '':'' @ fmt_zero 2 s @ ''.'' @
      fmt_zero 3 (int millis) @ ''Z''"
    using days ymd by (simp add: chrono_now_iso8601_def Let_def days_as_i32_small
        days_def r_def h_def mi_def s_def)
  have hms: "0 \<le> h" "h < 24" "0 \<le> mi" "mi < 60" "0 \<le> s" "s < 60"
    using r by (auto simp: h_def mi_def s_def less_mult_imp_div_less)
  have "r = 3600 * (r div 3600) + 60 * (r mod 3600 div 60) + r mod 3600 mod 60"
    by presburger
  then have "int r = 3600 * h + 60 * mi + s"
    unfolding h_def mi_def s_def by linarith
  moreover have "secs = days * 86400 + r" by (simp add: days_def r_def)
  ultimately have tot: "day_number (y, m, d) * 86400 + h * 3600 + mi * 60 + s = int secs"
    using v(2) by simp
  have pos: "1970 \<le> y" "1 \<le> m" "m \<le> 12" "1 \<le> d" "d \<le> 31"
    using v(1) by (auto simp: valid_date_def days_in_months_def nth_Cons' split: if_splits)
  have len: "length (chrono_now_iso8601 secs millis) = 24" if "y \<le> 9999" "millis < 1000"
    unfolding printed using that pos hms
      length_fmt_zero [of y 3] length_fmt_zero [of m 1] length_fmt_zero [of d 1]
      length_fmt_zero [of h 1] length_fmt_zero [of mi 1] length_fmt_zero [of s 1]
      length_fmt_zero [of "int millis" 2]
    by (simp add: eval_nat_numeral)
  have digits: "int (read_nat (fmt_zero 4 y)) = y" "int (read_nat (fmt_zero 2 m)) = m"
    "int (read_nat (fmt_zero 2 d)) = d"
    using pos by (simp_all add: read_fmt_zero)
  show ?thesis
    by (rule exI [of _ y], rule exI [of _ m], rule exI [of _ d], rule exI [of _ h],
        rule exI [of _ mi], rule exI [of _ s])
      (use printed v hms tot len digits in blast)
qed

theorem chrono_now_iso8601_correct_witness:
  "chrono_now_iso8601 951782400 7 = ''2000-02-29T00:00:00.007Z''
   \<and> (\<exists>y m d h mi s. valid_date (y, m, d)
        \<and> day_number (y, m, d) * 86400 + h * 3600 + mi * 60 + s = int 951782400)"
proof
  show "chrono_now_iso8601 951782400 7 = ''2000-02-29T00:00:00.007Z''"
    by (simp add: chrono_now_iso8601_def days_as_i32_small leap_day_2000 Let_def)
      (simp add: fmt_zero_def Let_def show_nat.simps digit_char_def numeral_2_eq_2)
  have "(951782400::nat) < 2147483648 * 86400" by simp
  from chrono_now_iso8601_correct [OF this, of 7]
  show "\<exists>y m d h mi s. valid_date (y, m, d)
      \<and> day_number (y, m, d) * 86400 + h * 3600 + mi * 60 + s = int 951782400"
    by blast
qed

end
