(* ===== verification/TaskStore.thy ===== *)
theory TaskStore
  imports Payload Timestamp
begin

text \<open>
  \<open>MemoryTaskStore\<close> of \<open>crates/tower-mcp/src/async_task.rs\<close>: the task record, the
  byte-accounted store, and every \<open>TaskStore\<close> operation on it.

  Conventions.  An operation takes the clock readings it makes (\<open>clock\<close>), in code order, and
  the timestamp string.  Its result is \<open>None\<close> where the code panics (\<open>expect\<close>); a panic
  under the write lock would poison it, so the lock-poisoned branches of the code are the states
  after a \<open>None\<close> and are not modelled separately.  A task's \<open>CancellationToken\<close> and
  \<open>Notify\<close> are shared objects named by the task's id: \<open>raised\<close> and \<open>woken\<close> list the
  ids whose token was cancelled and whose completion waiters were woken.  An \<open>Instant\<close> is a
  number of nanoseconds.
\<close>

section \<open>The task record\<close>

type_synonym task_owner = "string option"
type_synonym input_requests = "(string \<times> wire) list"
type_synonym input_responses = "(string \<times> wire) list"

record task =
  t_id :: string
  t_tool_name :: string
  t_arguments :: json
  t_status :: task_status
  t_created_at :: nat
  t_created_at_str :: string
  t_last_updated_at_str :: string
  t_ttl :: nat
  t_poll_interval :: nat
  t_status_message :: "string option"
  t_meta :: "json option"
  t_result :: "wire option"
  t_error :: "json_rpc_error option"
  t_owner :: task_owner
  t_input_requests :: input_requests
  t_answered_input_keys :: btree_set
  t_input_responses :: input_responses
  t_superseded_input_keys :: btree_set
  t_completed_at :: "nat option"

record clock =
  at_retire :: nat
  at_check :: nat
  at_done :: nat
  at_again :: nat
  at_stamp :: string

definition task_new ::
  "string \<Rightarrow> string \<Rightarrow> json \<Rightarrow> nat \<Rightarrow> task_owner \<Rightarrow> nat \<Rightarrow> string \<Rightarrow> task" where
  "task_new i tool args ttl owner now stamp =
     \<lparr>t_id = i, t_tool_name = tool, t_arguments = args, t_status = Working, t_created_at = now,
      t_created_at_str = stamp, t_last_updated_at_str = stamp, t_ttl = ttl, t_poll_interval = 2000,
      t_status_message = Some ''Task started'', t_meta = None, t_result = None, t_error = None,
      t_owner = owner, t_input_requests = [], t_answered_input_keys = [], t_input_responses = [],
      t_superseded_input_keys = [], t_completed_at = None\<rparr>"

record task_object =
  o_task_id :: string
  o_status :: task_status
  o_status_message :: "string option"
  o_created_at :: string
  o_last_updated_at :: string
  o_ttl :: "nat option"
  o_poll_interval :: "nat option"
  o_result :: "wire option"
  o_error :: "json_rpc_error option"
  o_meta :: "json option"

definition to_task_object :: "task \<Rightarrow> task_object" where
  "to_task_object t =
     \<lparr>o_task_id = t_id t, o_status = t_status t, o_status_message = t_status_message t,
      o_created_at = t_created_at_str t, o_last_updated_at = t_last_updated_at_str t,
      o_ttl = Some (t_ttl t), o_poll_interval = Some (t_poll_interval t),
      o_result = None, o_error = None, o_meta = t_meta t\<rparr>"

definition expires_at :: "task \<Rightarrow> nat option" where
  "expires_at t = instant_checked_add (t_created_at t) (t_ttl t * 1000000)"

definition is_expired_at :: "task \<Rightarrow> nat \<Rightarrow> bool" where
  "is_expired_at t now = (case expires_at t of None \<Rightarrow> False | Some deadline \<Rightarrow> deadline \<le> now)"

definition RETENTION_FAILURE_MESSAGE :: string where
  "RETENTION_FAILURE_MESSAGE = ''Task payload exceeded configured retention limits''"

definition RETENTION_FAILURE_STATUS :: string where
  "RETENTION_FAILURE_STATUS = ''Task failed: retention limit exceeded''"

definition CANCEL_RETENTION_STATUS :: string where
  "CANCEL_RETENTION_STATUS = ''Task cancelled: retention limit exceeded''"

definition fail_retention_limit :: "nat \<Rightarrow> string \<Rightarrow> task \<Rightarrow> task" where
  "fail_retention_limit now stamp t =
     t\<lparr>t_arguments := JNull, t_status := Failed, t_status_message := Some RETENTION_FAILURE_STATUS,
       t_meta := None, t_result := None, t_error := Some (internal_error RETENTION_FAILURE_MESSAGE),
       t_input_requests := [], t_answered_input_keys := [], t_input_responses := [],
       t_superseded_input_keys := [], t_completed_at := Some now, t_last_updated_at_str := stamp\<rparr>"

definition cancel_with_bounded_status ::
  "nat \<Rightarrow> string \<Rightarrow> string \<Rightarrow> bool \<Rightarrow> task \<Rightarrow> task" where
  "cancel_with_bounded_status now stamp status scrub t =
     (let t1 = (if scrub
                then t\<lparr>t_arguments := JNull, t_meta := None, t_result := None, t_error := None,
                       t_answered_input_keys := [], t_input_responses := [],
                       t_superseded_input_keys := []\<rparr>
                else t)
      in t1\<lparr>t_input_requests := [], t_status := Cancelled, t_status_message := Some status,
             t_completed_at := Some now, t_last_updated_at_str := stamp\<rparr>)"

section \<open>The retained payload\<close>

definition wires_doc :: "(string \<times> wire) list \<Rightarrow> doc" where
  "wires_doc kvs = DObj (map (\<lambda>kv. (fst kv, DWire (snd kv))) kvs)"

definition keys_doc :: "btree_set \<Rightarrow> doc" where
  "keys_doc ks = DArr (map doc_str ks)"

definition retained_payload :: "task \<Rightarrow> doc" where
  "retained_payload t = DObj
     [(''tool_name'', doc_str (t_tool_name t)),
      (''arguments'', DJson (t_arguments t)),
      (''status_message'', doc_option doc_str (t_status_message t)),
      (''meta'', doc_option DJson (t_meta t)),
      (''result'', doc_option DWire (t_result t)),
      (''error'', doc_option error_doc (t_error t)),
      (''owner'', doc_option doc_str (t_owner t)),
      (''input_requests'', wires_doc (t_input_requests t)),
      (''answered_input_keys'', keys_doc (t_answered_input_keys t)),
      (''input_responses'', wires_doc (t_input_responses t)),
      (''superseded_input_keys'', keys_doc (t_superseded_input_keys t))]"

definition retained_payload_size :: "serializer \<Rightarrow> task \<Rightarrow> nat \<Rightarrow> task_store_error + nat" where
  "retained_payload_size ser t limit = encoded_size ser (retained_payload t) limit AggregateBytes"

section \<open>The store\<close>

record stored_task =
  s_task :: task
  s_expiry_signalled :: bool
  s_retained_bytes :: nat
  s_reserved_bytes :: nat

definition stored_task_new :: "task \<Rightarrow> nat \<Rightarrow> nat \<Rightarrow> stored_task" where
  "stored_task_new t retained reserved =
     \<lparr>s_task = t, s_expiry_signalled = False, s_retained_bytes = retained,
      s_reserved_bytes = reserved\<rparr>"

record store_config =
  default_ttl :: nat
  cleanup_interval :: nat

record store =
  d_tasks :: "(string \<times> stored_task) list"
  d_retained_bytes :: nat
  d_reserved_bytes :: nat
  d_config :: store_config
  d_limits :: retention_limits
  d_worker_generation :: "64 word"
  raised :: "string list"
  woken :: "string list"

definition memory_task_store_new :: "store_config \<Rightarrow> retention_limits \<Rightarrow> store" where
  "memory_task_store_new cfg limits =
     \<lparr>d_tasks = [], d_retained_bytes = 0, d_reserved_bytes = 0, d_config = cfg,
      d_limits = limits, d_worker_generation = 0, raised = [], woken = []\<rparr>"

record store_usage =
  u_task_count :: nat
  u_retained_bytes :: nat
  u_reserved_bytes :: nat

definition store_usage_of :: "store \<Rightarrow> store_usage" where
  "store_usage_of st = \<lparr>u_task_count = length (d_tasks st), u_retained_bytes = d_retained_bytes st,
     u_reserved_bytes = d_reserved_bytes st\<rparr>"

definition usage_charged_bytes :: "store_usage \<Rightarrow> nat" where
  "usage_charged_bytes u = saturating_add (u_retained_bytes u) (u_reserved_bytes u)"

definition scrub_expired_payload :: "stored_task \<Rightarrow> stored_task" where
  "scrub_expired_payload s =
     s\<lparr>s_task := (s_task s)\<lparr>t_tool_name := '''', t_arguments := JNull, t_status_message := None,
         t_meta := None, t_result := None, t_error := None, t_input_requests := [],
         t_answered_input_keys := [], t_input_responses := [], t_superseded_input_keys := []\<rparr>,
       s_reserved_bytes := 0\<rparr>"

definition charged_bytes :: "nat \<Rightarrow> nat \<Rightarrow> nat \<Rightarrow> task_store_error + nat" where
  "charged_bytes retained reserved limit =
     (case checked_add retained reserved of
        None \<Rightarrow> Inl (RetentionLimitExceeded AggregateBytes limit)
      | Some charged \<Rightarrow>
          if charged \<le> limit then Inr charged
          else Inl (RetentionLimitExceeded AggregateBytes limit))"

definition prepare_stored_task ::
  "serializer \<Rightarrow> clock \<Rightarrow> task \<Rightarrow> retention_limits \<Rightarrow> task_store_error + stored_task" where
  "prepare_stored_task ser clk t limits =
     result_bind (retained_payload_size ser t (max_retained_bytes limits)) (\<lambda>retained.
     result_bind
       (if is_terminal (t_status t) then Inr 0
        else result_bind
          (retained_payload_size ser (fail_retention_limit (at_done clk) (at_stamp clk) t)
            (max_retained_bytes limits))
          (\<lambda>fallback. Inr (fallback - retained))) (\<lambda>reserved.
     result_bind (charged_bytes retained reserved (max_retained_bytes limits)) (\<lambda>_.
       Inr (stored_task_new t retained reserved))))"

definition replacement_totals ::
  "store \<Rightarrow> nat \<Rightarrow> nat \<Rightarrow> nat \<Rightarrow> nat \<Rightarrow> nat \<Rightarrow> task_store_error + nat \<times> nat" where
  "replacement_totals st old_retained old_reserved new_retained new_reserved limit =
     (case Option.bind (checked_sub (d_retained_bytes st) old_retained)
             (\<lambda>b. checked_add b new_retained) of
        None \<Rightarrow> Inl (RetentionLimitExceeded AggregateBytes limit)
      | Some retained \<Rightarrow>
          (case Option.bind (checked_sub (d_reserved_bytes st) old_reserved)
                  (\<lambda>b. checked_add b new_reserved) of
             None \<Rightarrow> Inl (RetentionLimitExceeded AggregateBytes limit)
           | Some reserved \<Rightarrow>
               result_bind (charged_bytes retained reserved limit)
                 (\<lambda>_. Inr (retained, reserved))))"

definition replace_stored_task ::
  "store \<Rightarrow> string \<Rightarrow> stored_task \<Rightarrow> nat \<Rightarrow> store \<times> (task_store_error + bool)" where
  "replace_stored_task st i replacement limit =
     (case map_of (d_tasks st) i of
        None \<Rightarrow> (st, Inr False)
      | Some current \<Rightarrow>
          (case replacement_totals st (s_retained_bytes current) (s_reserved_bytes current)
                  (s_retained_bytes replacement) (s_reserved_bytes replacement) limit of
             Inl e \<Rightarrow> (st, Inl e)
           | Inr (retained, reserved) \<Rightarrow>
               (st\<lparr>d_retained_bytes := retained, d_reserved_bytes := reserved,
                   d_tasks := AList.update i replacement (d_tasks st)\<rparr>, Inr True)))"

definition commit_removed_task ::
  "store \<Rightarrow> string \<Rightarrow> stored_task \<Rightarrow> nat \<Rightarrow> nat \<Rightarrow> nat \<Rightarrow> task_store_error + store" where
  "commit_removed_task st i replacement old_retained old_reserved limit =
     result_bind (replacement_totals st old_retained old_reserved
         (s_retained_bytes replacement) (s_reserved_bytes replacement) limit)
       (\<lambda>(retained, reserved).
          Inr (st\<lparr>d_retained_bytes := retained, d_reserved_bytes := reserved,
                  d_tasks := AList.update i replacement (d_tasks st)\<rparr>))"

text \<open>\<open>Result::expect\<close>: an error panics.\<close>

fun expect :: "'e + 'a \<Rightarrow> 'a option" where
  "expect (Inl e) = None"
| "expect (Inr x) = Some x"

definition notify_waiters :: "string \<Rightarrow> store \<Rightarrow> store" where
  "notify_waiters i st = st\<lparr>woken := i # woken st\<rparr>"

definition cancel_token :: "string \<Rightarrow> store \<Rightarrow> store" where
  "cancel_token i st = st\<lparr>raised := i # raised st\<rparr>"

definition wake_worker :: "store \<Rightarrow> store" where
  "wake_worker st = st\<lparr>d_worker_generation := d_worker_generation st + 1\<rparr>"

definition commit_retention_failure ::
  "serializer \<Rightarrow> clock \<Rightarrow> store \<Rightarrow> string \<Rightarrow> stored_task \<Rightarrow> nat \<Rightarrow> nat \<Rightarrow> retention_limits
   \<Rightarrow> store option" where
  "commit_retention_failure ser clk st i s old_retained old_reserved limits =
     (let t = fail_retention_limit (at_done clk) (at_stamp clk) (s_task s)
      in do {
        bytes \<leftarrow> expect (retained_payload_size ser t (max_retained_bytes limits));
        let s' = s\<lparr>s_task := t, s_retained_bytes := bytes, s_reserved_bytes := 0\<rparr>;
        st' \<leftarrow> expect (commit_removed_task st i s' old_retained old_reserved
                  (max_retained_bytes limits));
        Some (notify_waiters i st')
      })"

section \<open>Expiry\<close>

record retire_acc =
  r_signalled :: nat
  r_old_retained :: nat
  r_new_retained :: nat
  r_old_reserved :: nat
  r_ids :: "string list"

text \<open>The loop over \<open>values_mut\<close>; \<open>r_ids\<close> lists the tokens and waiters it signals.\<close>

fun retire_pass ::
  "serializer \<Rightarrow> nat \<Rightarrow> (string \<times> stored_task) list \<Rightarrow> retire_acc
   \<Rightarrow> ((string \<times> stored_task) list \<times> retire_acc) option" where
  "retire_pass ser now [] acc = Some ([], acc)"
| "retire_pass ser now ((k, s) # rest) acc =
     (if is_expired_at (s_task s) now \<and> \<not> s_expiry_signalled s then
        (let s1 = scrub_expired_payload (s\<lparr>s_expiry_signalled := True\<rparr>)
         in do {
           bytes \<leftarrow> expect (retained_payload_size ser (s_task s1) USIZE_MAX);
           old_ret \<leftarrow> checked_add (r_old_retained acc) (s_retained_bytes s);
           new_ret \<leftarrow> checked_add (r_new_retained acc) bytes;
           old_res \<leftarrow> checked_add (r_old_reserved acc) (s_reserved_bytes s);
           (rest', acc') \<leftarrow> retire_pass ser now rest
             \<lparr>r_signalled = r_signalled acc + 1, r_old_retained = old_ret,
              r_new_retained = new_ret, r_old_reserved = old_res,
              r_ids = t_id (s_task s) # r_ids acc\<rparr>;
           Some ((k, s1\<lparr>s_retained_bytes := bytes\<rparr>) # rest', acc')
         })
      else do {
        (rest', acc') \<leftarrow> retire_pass ser now rest acc;
        Some ((k, s) # rest', acc')
      })"

text \<open>\<open>checked_add\<close> over a list of byte counts, as the \<open>retain\<close> closure accumulates them.\<close>

fun checked_sum :: "nat list \<Rightarrow> nat \<Rightarrow> nat option" where
  "checked_sum [] acc = Some acc"
| "checked_sum (x # xs) acc = do { a \<leftarrow> checked_add acc x; checked_sum xs a }"

definition retire_remove :: "nat \<Rightarrow> store \<Rightarrow> (store \<times> nat) option" where
  "retire_remove now st =
     (let gone = filter (\<lambda>kv. is_expired_at (s_task (snd kv)) now) (d_tasks st);
          kept = filter (\<lambda>kv. \<not> is_expired_at (s_task (snd kv)) now) (d_tasks st)
      in do {
        removed_retained \<leftarrow> checked_sum (map (\<lambda>kv. s_retained_bytes (snd kv)) gone) 0;
        removed_reserved \<leftarrow> checked_sum (map (\<lambda>kv. s_reserved_bytes (snd kv)) gone) 0;
        ret \<leftarrow> checked_sub (d_retained_bytes st) removed_retained;
        res \<leftarrow> checked_sub (d_reserved_bytes st) removed_reserved;
        Some (st\<lparr>d_tasks := kept, d_retained_bytes := ret, d_reserved_bytes := res\<rparr>,
              length (d_tasks st) - length kept)
      })"

record retirement =
  ret_signalled :: nat
  ret_removed :: nat

definition retire_expired :: "serializer \<Rightarrow> nat \<Rightarrow> bool \<Rightarrow> store \<Rightarrow> (store \<times> retirement) option" where
  "retire_expired ser now remove st = do {
     (tasks', acc) \<leftarrow> retire_pass ser now (d_tasks st)
        \<lparr>r_signalled = 0, r_old_retained = 0, r_new_retained = 0, r_old_reserved = 0, r_ids = []\<rparr>;
     ret0 \<leftarrow> checked_sub (d_retained_bytes st) (r_old_retained acc);
     ret \<leftarrow> checked_add ret0 (r_new_retained acc);
     res \<leftarrow> checked_sub (d_reserved_bytes st) (r_old_reserved acc);
     _ \<leftarrow> expect (charged_bytes ret res (max_retained_bytes (d_limits st)));
     let st1 = st\<lparr>d_tasks := tasks', d_retained_bytes := ret, d_reserved_bytes := res,
                  raised := r_ids acc @ raised st, woken := r_ids acc @ woken st\<rparr>;
     if remove then do {
       (st2, n) \<leftarrow> retire_remove now st1;
       Some (st2, \<lparr>ret_signalled = r_signalled acc, ret_removed = n\<rparr>)
     }
     else Some (st1, \<lparr>ret_signalled = r_signalled acc, ret_removed = 0\<rparr>)
   }"

definition cleanup_expired :: "serializer \<Rightarrow> nat \<Rightarrow> store \<Rightarrow> (store \<times> nat) option" where
  "cleanup_expired ser now st =
     do { (st', r) \<leftarrow> retire_expired ser now True st; Some (st', ret_removed r) }"

definition next_expiry :: "store \<Rightarrow> nat option" where
  "next_expiry st =
     (let ds = List.map_filter (\<lambda>kv. if s_expiry_signalled (snd kv) then None
                 else expires_at (s_task (snd kv))) (d_tasks st)
      in if ds = [] then None else Some (Min (set ds)))"

definition next_deadline :: "nat option \<Rightarrow> nat option \<Rightarrow> nat option" where
  "next_deadline a b =
     (case (a, b) of
        (Some x, Some y) \<Rightarrow> Some (min x y)
      | (Some d, None) \<Rightarrow> Some d
      | (None, Some d) \<Rightarrow> Some d
      | (None, None) \<Rightarrow> None)"

end
