(* ===== verification/TaskOps.thy ===== *)
theory TaskOps
  imports TaskStore
begin

text \<open>
  The \<open>TaskStore\<close> operations of \<open>MemoryTaskStore\<close>
  (\<open>crates/tower-mcp/src/async_task.rs\<close>).  Most run \<open>retire_expired\<close> under one
  acquisition of the lock and their own body under a second one; the body is a definition of its
  own (\<open>.._locked\<close>), so that other operations can come in between in the step relation of
  theory \<open>TaskAccounting\<close>.
\<close>

section \<open>Identifiers and owners\<close>

definition hex_digit :: "nat \<Rightarrow> char" where
  "hex_digit n = ''0123456789abcdef'' ! n"

definition hex_byte :: "8 word \<Rightarrow> string" where
  "hex_byte b = [hex_digit (unat b div 16), hex_digit (unat b mod 16)]"

text \<open>\<open>generate_task_id\<close>, from the 16 bytes the system entropy source filled in.\<close>

definition generate_task_id :: "8 word list \<Rightarrow> string" where
  "generate_task_id entropy = concat (map hex_byte entropy)"

definition owner_matches :: "task_owner \<Rightarrow> string option \<Rightarrow> bool" where
  "owner_matches owner caller \<longleftrightarrow> owner = caller"

definition duration_millis_saturated :: "nat \<Rightarrow> nat" where
  "duration_millis_saturated nanos = min (nanos div 1000000) U64_MAX"

section \<open>Reads\<close>

type_synonym 'a op_result = "(store \<times> (task_store_error + 'a)) option"

definition visible :: "nat \<Rightarrow> store \<Rightarrow> string \<Rightarrow> stored_task option" where
  "visible now st i =
     (case map_of (d_tasks st) i of
        None \<Rightarrow> None
      | Some s \<Rightarrow> if is_expired_at (s_task s) now then None else Some s)"

text \<open>An operation that retires expired tasks first and then reads under the lock.\<close>

definition read_op :: "serializer \<Rightarrow> clock \<Rightarrow> (nat \<Rightarrow> store \<Rightarrow> 'a) \<Rightarrow> store \<Rightarrow> 'a op_result" where
  "read_op ser clk f st = do {
     (st1, _) \<leftarrow> retire_expired ser (at_retire clk) False st;
     Some (st1, Inr (f (at_check clk) st1))
   }"

definition get_task :: "serializer \<Rightarrow> clock \<Rightarrow> string \<Rightarrow> store \<Rightarrow> task_object option op_result" where
  "get_task ser clk i =
     read_op ser clk (\<lambda>now st. map_option (\<lambda>s. to_task_object (s_task s)) (visible now st i))"

definition get_task_owner :: "serializer \<Rightarrow> clock \<Rightarrow> string \<Rightarrow> store \<Rightarrow> task_owner option op_result" where
  "get_task_owner ser clk i =
     read_op ser clk (\<lambda>now st. map_option (\<lambda>s. t_owner (s_task s)) (visible now st i))"

datatype task_presence = Present task_owner | Expired task_owner | Missing

fun presence_owner :: "task_presence \<Rightarrow> task_owner option" where
  "presence_owner (Present ow) = Some ow"
| "presence_owner (Expired ow) = Some ow"
| "presence_owner Missing = None"

definition presence_is_known :: "task_presence \<Rightarrow> bool" where
  "presence_is_known p \<longleftrightarrow> p \<noteq> Missing"

definition get_task_presence :: "serializer \<Rightarrow> clock \<Rightarrow> string \<Rightarrow> store \<Rightarrow> task_presence op_result" where
  "get_task_presence ser clk i =
     read_op ser clk (\<lambda>now st.
       case map_of (d_tasks st) i of
         None \<Rightarrow> Missing
       | Some s \<Rightarrow> if is_expired_at (s_task s) now then Expired (t_owner (s_task s))
                   else Present (t_owner (s_task s)))"

type_synonym task_snapshot = "task_object \<times> wire option \<times> json_rpc_error option"

definition snapshot :: "task \<Rightarrow> task_snapshot" where
  "snapshot t = (to_task_object t, t_result t, t_error t)"

definition get_task_result :: "serializer \<Rightarrow> clock \<Rightarrow> string \<Rightarrow> store \<Rightarrow> task_snapshot option op_result" where
  "get_task_result ser clk i =
     read_op ser clk (\<lambda>now st. map_option (\<lambda>s. snapshot (s_task s)) (visible now st i))"

definition list_tasks ::
  "serializer \<Rightarrow> clock \<Rightarrow> task_status option \<Rightarrow> store \<Rightarrow> task_object list op_result" where
  "list_tasks ser clk status_filter =
     read_op ser clk (\<lambda>now st.
       map (\<lambda>kv. to_task_object (s_task (snd kv)))
         (filter (\<lambda>kv. status_filter = None \<or> status_filter = Some (t_status (s_task (snd kv))))
           (filter (\<lambda>kv. \<not> is_expired_at (s_task (snd kv)) now) (d_tasks st))))"

definition outstanding_input_requests ::
  "serializer \<Rightarrow> clock \<Rightarrow> string \<Rightarrow> store \<Rightarrow> input_requests option op_result" where
  "outstanding_input_requests ser clk i =
     read_op ser clk (\<lambda>now st. map_option (\<lambda>s. t_input_requests (s_task s)) (visible now st i))"

text \<open>The token of the resumed execution is the task's own, named by its id.\<close>

record task_resume_context =
  rc_tool_name :: string
  rc_arguments :: json
  rc_input_responses :: input_responses
  rc_cancellation_token :: "string option"

definition resume_context ::
  "serializer \<Rightarrow> clock \<Rightarrow> string \<Rightarrow> store \<Rightarrow> task_resume_context option op_result" where
  "resume_context ser clk i =
     read_op ser clk (\<lambda>now st.
       map_option (\<lambda>s. \<lparr>rc_tool_name = t_tool_name (s_task s), rc_arguments = t_arguments (s_task s),
           rc_input_responses = t_input_responses (s_task s),
           rc_cancellation_token = Some (t_id (s_task s))\<rparr>) (visible now st i))"

section \<open>Creation and removal\<close>

definition create_task_locked :: "string \<Rightarrow> stored_task \<Rightarrow> store \<Rightarrow> store \<times> (task_store_error + string)" where
  "create_task_locked i stored st =
     (let limits = d_limits st in
      if max_tasks limits \<le> length (d_tasks st) then
        (st, Inl (RetentionLimitExceeded TaskCount (max_tasks limits)))
      else case checked_add (d_retained_bytes st) (s_retained_bytes stored) of
        None \<Rightarrow> (st, Inl (RetentionLimitExceeded AggregateBytes (max_retained_bytes limits)))
      | Some ret \<Rightarrow>
          (case checked_add (d_reserved_bytes st) (s_reserved_bytes stored) of
             None \<Rightarrow> (st, Inl (RetentionLimitExceeded AggregateBytes (max_retained_bytes limits)))
           | Some res \<Rightarrow>
               (case charged_bytes ret res (max_retained_bytes limits) of
                  Inl e \<Rightarrow> (st, Inl e)
                | Inr _ \<Rightarrow>
                    (wake_worker (st\<lparr>d_retained_bytes := ret, d_reserved_bytes := res,
                       d_tasks := AList.update i stored (d_tasks st)\<rparr>), Inr i))))"

text \<open>
  \<open>create_task\<close>.  \<open>worker\<close> is the outcome of starting the expiry thread and \<open>i\<close> the
  generated identifier; the returned token is the one named by \<open>i\<close>.
\<close>

definition create_task ::
  "serializer \<Rightarrow> clock \<Rightarrow> string + unit \<Rightarrow> string \<Rightarrow> string \<Rightarrow> json \<Rightarrow> nat option \<Rightarrow> task_owner
   \<Rightarrow> store \<Rightarrow> string op_result" where
  "create_task ser clk worker i tool args ttl owner st =
     (let limits = d_limits st;
          prepared =
            result_bind (case worker of Inl m \<Rightarrow> Inl (Backend m) | Inr u \<Rightarrow> Inr u) (\<lambda>_.
            result_bind (validate_payload ser (doc_str tool) limits) (\<lambda>_.
            result_bind (validate_payload ser (DJson args) limits) (\<lambda>_.
            result_bind (validate_payload ser (doc_option doc_str owner) limits) (\<lambda>_.
              prepare_stored_task ser clk
                (task_new i tool args
                  (case ttl of Some ms \<Rightarrow> ms
                   | None \<Rightarrow> duration_millis_saturated (default_ttl (d_config st)))
                  owner (at_retire clk) (at_stamp clk))
                limits))))
      in case prepared of
           Inl e \<Rightarrow> Some (st, Inl e)
         | Inr stored \<Rightarrow> do {
             (st1, _) \<leftarrow> retire_expired ser (at_check clk) True st;
             Some (create_task_locked i stored st1)
           })"

definition discard_task :: "string \<Rightarrow> store \<Rightarrow> bool op_result" where
  "discard_task i st =
     (case map_of (d_tasks st) i of
        None \<Rightarrow> Some (st, Inr False)
      | Some removed \<Rightarrow> do {
          ret \<leftarrow> checked_sub (d_retained_bytes st) (s_retained_bytes removed);
          res \<leftarrow> checked_sub (d_reserved_bytes st) (s_reserved_bytes removed);
          Some (st\<lparr>d_tasks := AList.delete i (d_tasks st), d_retained_bytes := ret,
                   d_reserved_bytes := res\<rparr>, Inr True)
        })"

section \<open>Updates of a live record\<close>

text \<open>Prepare the edited record and put it in place of the current one.\<close>

definition store_edited ::
  "serializer \<Rightarrow> clock \<Rightarrow> string \<Rightarrow> task \<Rightarrow> store \<Rightarrow> store \<times> (task_store_error + bool)" where
  "store_edited ser clk i t st =
     (case prepare_stored_task ser clk t (d_limits st) of
        Inl e \<Rightarrow> (st, Inl e)
      | Inr replacement \<Rightarrow>
          replace_stored_task st i replacement (max_retained_bytes (d_limits st)))"

definition set_task_meta_locked ::
  "serializer \<Rightarrow> clock \<Rightarrow> string \<Rightarrow> json \<Rightarrow> store \<Rightarrow> store \<times> (task_store_error + bool)" where
  "set_task_meta_locked ser clk i meta st =
     (case visible (at_check clk) st i of
        None \<Rightarrow> (st, Inr False)
      | Some current \<Rightarrow>
          (case validate_payload ser (DJson meta) (d_limits st) of
             Inl e \<Rightarrow> (st, Inl e)
           | Inr _ \<Rightarrow> store_edited ser clk i ((s_task current)\<lparr>t_meta := Some meta\<rparr>) st))"

definition set_task_meta ::
  "serializer \<Rightarrow> clock \<Rightarrow> string \<Rightarrow> json \<Rightarrow> store \<Rightarrow> bool op_result" where
  "set_task_meta ser clk i meta st = do {
     (st1, _) \<leftarrow> retire_expired ser (at_retire clk) False st;
     Some (set_task_meta_locked ser clk i meta st1)
   }"

definition set_status_locked ::
  "serializer \<Rightarrow> clock \<Rightarrow> string \<Rightarrow> task_status \<Rightarrow> string option \<Rightarrow> store
   \<Rightarrow> store \<times> (task_store_error + bool)" where
  "set_status_locked ser clk i status msg st =
     (case visible (at_check clk) st i of
        None \<Rightarrow> (st, Inr False)
      | Some current \<Rightarrow>
          if is_terminal (t_status (s_task current)) then (st, Inr False)
          else
            (case (case msg of None \<Rightarrow> Inr 0 | Some m \<Rightarrow> validate_payload ser (doc_str m) (d_limits st)) of
               Inl e \<Rightarrow> (st, Inl e)
             | Inr _ \<Rightarrow>
                 store_edited ser clk i
                   ((s_task current)\<lparr>t_status := status,
                      t_status_message := (case msg of None \<Rightarrow> t_status_message (s_task current)
                                           | Some m \<Rightarrow> Some m),
                      t_last_updated_at_str := at_stamp clk\<rparr>) st))"

text \<open>The derived \<open>Debug\<close> rendering.\<close>

fun task_status_debug :: "task_status \<Rightarrow> string" where
  "task_status_debug Working = ''Working''"
| "task_status_debug InputRequired = ''InputRequired''"
| "task_status_debug Completed = ''Completed''"
| "task_status_debug Failed = ''Failed''"
| "task_status_debug Cancelled = ''Cancelled''"

definition set_status ::
  "serializer \<Rightarrow> clock \<Rightarrow> string \<Rightarrow> task_status \<Rightarrow> string option \<Rightarrow> store \<Rightarrow> bool op_result" where
  "set_status ser clk i status msg st =
     (if is_terminal status then
        Some (st, Inl (InvalidTransition
          (''set_status is for non-terminal progress; use complete_task, fail_task, or cancel_task to reach ''
           @ task_status_debug status)))
      else do {
        (st1, _) \<leftarrow> retire_expired ser (at_retire clk) False st;
        Some (set_status_locked ser clk i status msg st1)
      })"

definition set_ttl :: "serializer \<Rightarrow> clock \<Rightarrow> string \<Rightarrow> nat \<Rightarrow> store \<Rightarrow> bool op_result" where
  "set_ttl ser clk i ttl_ms st =
     (case map_of (d_tasks st) i of
        None \<Rightarrow> Some (st, Inr False)
      | Some s \<Rightarrow>
          if is_expired_at (s_task s) (at_check clk) then do {
            (st1, _) \<leftarrow> retire_expired ser (at_again clk) False st;
            Some (st1, Inr False)
          }
          else do {
            (st1, _) \<leftarrow> retire_expired ser (at_again clk) False
              (st\<lparr>d_tasks := AList.update i
                 (s\<lparr>s_task := (s_task s)\<lparr>t_ttl := ttl_ms, t_last_updated_at_str := at_stamp clk\<rparr>\<rparr>)
                 (d_tasks st)\<rparr>);
            Some (wake_worker st1, Inr True)
          })"

section \<open>Input requests\<close>

fun same_input_request :: "wire \<Rightarrow> wire \<Rightarrow> bool" where
  "same_input_request a b =
     (case (wire_to_value a, wire_to_value b) of
        (Inr x, Inr y) \<Rightarrow> json_eq x y
      | _ \<Rightarrow> False)"

definition reused_keys :: "task \<Rightarrow> input_requests \<Rightarrow> string list" where
  "reused_keys t requests =
     map fst (filter (\<lambda>(key, request).
        if key \<in> set (t_answered_input_keys t) \<or> key \<in> set (t_superseded_input_keys t) then True
        else case map_of (t_input_requests t) key of
               Some current \<Rightarrow> \<not> same_input_request current request
             | None \<Rightarrow> False) requests)"

definition supersede_dropped :: "task \<Rightarrow> input_requests \<Rightarrow> btree_set" where
  "supersede_dropped t requests =
     fold bs_insert
       (filter (\<lambda>key. key \<notin> fst ` set requests) (map fst (t_input_requests t)))
       (t_superseded_input_keys t)"

fun join_comma :: "string list \<Rightarrow> string" where
  "join_comma [] = ''''"
| "join_comma [s] = s"
| "join_comma (s # ss) = s @ '', '' @ join_comma ss"

definition reuse_error :: "string list \<Rightarrow> task_store_error" where
  "reuse_error reused = InvalidTransition
     (''input request keys must be unique over a task's lifetime, but '' @ join_comma reused
      @ '' already '' @ (if length reused = 1 then ''was'' else ''were'')
      @ '' used by this task; use a new key to ask again'')"

definition require_input_locked ::
  "serializer \<Rightarrow> clock \<Rightarrow> string \<Rightarrow> input_requests \<Rightarrow> string option \<Rightarrow> store
   \<Rightarrow> store \<times> (task_store_error + bool)" where
  "require_input_locked ser clk i requests msg st =
     (case visible (at_check clk) st i of
        None \<Rightarrow> (st, Inr False)
      | Some current \<Rightarrow>
          if is_terminal (t_status (s_task current)) then (st, Inr False)
          else
            (case result_bind (validate_payload ser (wires_doc requests) (d_limits st)) (\<lambda>n.
                    case msg of None \<Rightarrow> Inr n | Some m \<Rightarrow> validate_payload ser (doc_str m) (d_limits st)) of
               Inl e \<Rightarrow> (st, Inl e)
             | Inr _ \<Rightarrow>
                 (let t = s_task current; reused = reused_keys t requests in
                  if reused \<noteq> [] then (st, Inl (reuse_error reused))
                  else store_edited ser clk i
                    (t\<lparr>t_superseded_input_keys := supersede_dropped t requests,
                       t_input_requests := requests,
                       t_status := InputRequired,
                       t_status_message := Some (case msg of Some m \<Rightarrow> m
                                                 | None \<Rightarrow> ''Awaiting client input''),
                       t_last_updated_at_str := at_stamp clk\<rparr>) st)))"

definition require_input ::
  "serializer \<Rightarrow> clock \<Rightarrow> string \<Rightarrow> input_requests \<Rightarrow> string option \<Rightarrow> store \<Rightarrow> bool op_result" where
  "require_input ser clk i requests msg st = do {
     (st1, _) \<leftarrow> retire_expired ser (at_retire clk) False st;
     Some (require_input_locked ser clk i requests msg st1)
   }"

record applied_input_responses =
  ap_accepted :: btree_set
  ap_ignored :: btree_set
  ap_still_outstanding :: btree_set

definition applied_is_complete :: "applied_input_responses \<Rightarrow> bool" where
  "applied_is_complete a \<longleftrightarrow> ap_still_outstanding a = []"

text \<open>The loop over the responses.\<close>

fun apply_responses ::
  "input_responses \<Rightarrow> task \<Rightarrow> applied_input_responses \<Rightarrow> task \<times> applied_input_responses" where
  "apply_responses [] t a = (t, a)"
| "apply_responses ((key, response) # rest) t a =
     (if key \<in> fst ` set (t_input_requests t) then
        apply_responses rest
          (t\<lparr>t_input_requests := AList.delete key (t_input_requests t),
             t_answered_input_keys := bs_insert key (t_answered_input_keys t),
             t_input_responses := AList.update key response (t_input_responses t)\<rparr>)
          (a\<lparr>ap_accepted := bs_insert key (ap_accepted a)\<rparr>)
      else apply_responses rest t (a\<lparr>ap_ignored := bs_insert key (ap_ignored a)\<rparr>))"

definition apply_input_responses_locked ::
  "serializer \<Rightarrow> clock \<Rightarrow> string \<Rightarrow> input_responses \<Rightarrow> store
   \<Rightarrow> store \<times> (task_store_error + applied_input_responses option)" where
  "apply_input_responses_locked ser clk i responses st =
     (case visible (at_check clk) st i of
        None \<Rightarrow> (st, Inr None)
      | Some current \<Rightarrow>
          if is_terminal (t_status (s_task current)) then (st, Inr None)
          else
            (let accepted_payload =
                   filter (\<lambda>kv. fst kv \<in> fst ` set (t_input_requests (s_task current))) responses
             in case (if accepted_payload = [] then Inr 0
                      else validate_payload ser (wires_doc accepted_payload) (d_limits st)) of
                  Inl e \<Rightarrow> (st, Inl e)
                | Inr _ \<Rightarrow>
                    (case apply_responses responses (s_task current)
                            \<lparr>ap_accepted = [], ap_ignored = [], ap_still_outstanding = []\<rparr> of
                       (t1, a1) \<Rightarrow>
                         (let applied = a1\<lparr>ap_still_outstanding := map fst (t_input_requests t1)\<rparr>;
                              t2 = (if ap_accepted applied \<noteq> [] then t1\<lparr>t_last_updated_at_str := at_stamp clk\<rparr> else t1);
                              t3 = (if applied_is_complete applied \<and> t_status t2 = InputRequired
                                    then t2\<lparr>t_status := Working, t_status_message := Some ''Task resumed''\<rparr>
                                    else t2)
                          in case store_edited ser clk i t3 st of
                               (st', Inl e) \<Rightarrow> (st', Inl e)
                             | (st', Inr ok) \<Rightarrow> (st', Inr (if ok then Some applied else None))))))"

definition apply_input_responses ::
  "serializer \<Rightarrow> clock \<Rightarrow> string \<Rightarrow> input_responses \<Rightarrow> store
   \<Rightarrow> applied_input_responses option op_result" where
  "apply_input_responses ser clk i responses st = do {
     (st1, _) \<leftarrow> retire_expired ser (at_retire clk) False st;
     Some (apply_input_responses_locked ser clk i responses st1)
   }"

section \<open>Terminal transitions\<close>

text \<open>
  The end of \<open>complete_task\<close> and \<open>fail_task\<close>, the same code in both: measure the finished
  record (taken out of the map, so \<open>st\<close> is without it), commit it or the fixed retention
  failure, and wake the waiters.
\<close>

definition commit_terminal ::
  "serializer \<Rightarrow> clock \<Rightarrow> string \<Rightarrow> stored_task \<Rightarrow> nat \<Rightarrow> nat \<Rightarrow> store \<Rightarrow> bool op_result" where
  "commit_terminal ser clk i s old_retained old_reserved st =
     (let limits = d_limits st;
          give_up = (\<lambda>s' e. do {
            st' \<leftarrow> commit_retention_failure ser clk st i s' old_retained old_reserved limits;
            Some (st', Inl e) })
      in case retained_payload_size ser (s_task s) (max_retained_bytes limits) of
           Inl e \<Rightarrow> give_up s e
         | Inr bytes \<Rightarrow>
             (let s1 = s\<lparr>s_retained_bytes := bytes, s_reserved_bytes := 0\<rparr>
              in case replacement_totals st old_retained old_reserved bytes 0
                      (max_retained_bytes limits) of
                   Inl e \<Rightarrow> give_up s1 e
                 | Inr (ret, res) \<Rightarrow>
                     Some (notify_waiters i
                       (st\<lparr>d_retained_bytes := ret, d_reserved_bytes := res,
                           d_tasks := AList.update i s1 (d_tasks st)\<rparr>), Inr True)))"

definition complete_task_locked ::
  "serializer \<Rightarrow> clock \<Rightarrow> string \<Rightarrow> wire \<Rightarrow> store \<Rightarrow> bool op_result" where
  "complete_task_locked ser clk i result st =
     (case map_of (d_tasks st) i of
        None \<Rightarrow> Some (st, Inr False)
      | Some s \<Rightarrow>
          (let st0 = st\<lparr>d_tasks := AList.delete i (d_tasks st)\<rparr>;
               back = st0\<lparr>d_tasks := AList.update i s (d_tasks st0)\<rparr> in
           if is_terminal (t_status (s_task s)) then Some (back, Inr False)
           else if is_expired_at (s_task s) (at_check clk) then do {
             (st1, _) \<leftarrow> retire_expired ser (at_again clk) False back;
             Some (st1, Inr False)
           }
           else case validate_payload ser (DWire result) (d_limits st) of
             Inl e \<Rightarrow> do {
               st' \<leftarrow> commit_retention_failure ser clk st0 i s (s_retained_bytes s)
                        (s_reserved_bytes s) (d_limits st);
               Some (st', Inl e)
             }
           | Inr _ \<Rightarrow>
               commit_terminal ser clk i
                 (s\<lparr>s_task := (s_task s)\<lparr>t_status := Completed,
                      t_status_message := Some ''Task completed'', t_result := Some result,
                      t_input_requests := [], t_completed_at := Some (at_done clk),
                      t_last_updated_at_str := at_stamp clk\<rparr>\<rparr>)
                 (s_retained_bytes s) (s_reserved_bytes s) st0))"

definition complete_task ::
  "serializer \<Rightarrow> clock \<Rightarrow> string \<Rightarrow> wire \<Rightarrow> store \<Rightarrow> bool op_result" where
  "complete_task ser clk i result st = do {
     (st1, _) \<leftarrow> retire_expired ser (at_retire clk) False st;
     complete_task_locked ser clk i result st1
   }"

definition fail_task_locked ::
  "serializer \<Rightarrow> clock \<Rightarrow> string \<Rightarrow> json_rpc_error \<Rightarrow> store \<Rightarrow> bool op_result" where
  "fail_task_locked ser clk i err st =
     (case map_of (d_tasks st) i of
        None \<Rightarrow> Some (st, Inr False)
      | Some s \<Rightarrow>
          (let st0 = st\<lparr>d_tasks := AList.delete i (d_tasks st)\<rparr>;
               back = st0\<lparr>d_tasks := AList.update i s (d_tasks st0)\<rparr> in
           if is_terminal (t_status (s_task s)) then Some (back, Inr False)
           else if is_expired_at (s_task s) (at_check clk) then do {
             (st1, _) \<leftarrow> retire_expired ser (at_again clk) False back;
             Some (st1, Inr False)
           }
           else case result_bind (validate_payload ser (error_doc err) (d_limits st)) (\<lambda>_.
                       validate_prefixed_string ser (e_message err) ''Task failed: '' (d_limits st)) of
             Inl e \<Rightarrow> do {
               st' \<leftarrow> commit_retention_failure ser clk st0 i s (s_retained_bytes s)
                        (s_reserved_bytes s) (d_limits st);
               Some (st', Inl e)
             }
           | Inr _ \<Rightarrow>
               commit_terminal ser clk i
                 (s\<lparr>s_task := (s_task s)\<lparr>t_status := Failed,
                      t_status_message := Some (''Task failed: '' @ e_message err),
                      t_error := Some err,
                      t_input_requests := [], t_completed_at := Some (at_done clk),
                      t_last_updated_at_str := at_stamp clk\<rparr>\<rparr>)
                 (s_retained_bytes s) (s_reserved_bytes s) st0))"

definition fail_task ::
  "serializer \<Rightarrow> clock \<Rightarrow> string \<Rightarrow> json_rpc_error \<Rightarrow> store \<Rightarrow> bool op_result" where
  "fail_task ser clk i err st = do {
     (st1, _) \<leftarrow> retire_expired ser (at_retire clk) False st;
     fail_task_locked ser clk i err st1
   }"

definition cancel_requested :: "serializer \<Rightarrow> clock \<Rightarrow> string option \<Rightarrow> retention_limits \<Rightarrow> task \<Rightarrow> task" where
  "cancel_requested ser clk reason limits t =
     (if (case reason of
            Some r \<Rightarrow> result_ok (validate_prefixed_string ser r ''Cancelled: '' limits)
          | None \<Rightarrow> result_ok (validate_payload ser (doc_str ''Task cancelled'') limits))
      then t\<lparr>t_input_requests := [], t_status := Cancelled,
             t_status_message := Some (case reason of Some r \<Rightarrow> ''Cancelled: '' @ r
                                       | None \<Rightarrow> ''Task cancelled''),
             t_completed_at := Some (at_done clk), t_last_updated_at_str := at_stamp clk\<rparr>
      else cancel_with_bounded_status (at_done clk) (at_stamp clk) CANCEL_RETENTION_STATUS True t)"

definition cancel_totals ::
  "serializer \<Rightarrow> task \<Rightarrow> nat \<Rightarrow> nat \<Rightarrow> store \<Rightarrow> task_store_error + nat \<times> nat \<times> nat" where
  "cancel_totals ser t old_retained old_reserved st =
     result_bind (retained_payload_size ser t (max_retained_bytes (d_limits st))) (\<lambda>bytes.
     result_bind (replacement_totals st old_retained old_reserved bytes 0
         (max_retained_bytes (d_limits st)))
       (\<lambda>totals. Inr (bytes, totals)))"

definition cancel_task_locked ::
  "serializer \<Rightarrow> clock \<Rightarrow> string \<Rightarrow> string option \<Rightarrow> store \<Rightarrow> task_object option op_result" where
  "cancel_task_locked ser clk i reason st =
     (case map_of (d_tasks st) i of
        None \<Rightarrow> Some (st, Inr None)
      | Some s \<Rightarrow>
          (let st0 = st\<lparr>d_tasks := AList.delete i (d_tasks st)\<rparr> in
           if is_expired_at (s_task s) (at_check clk) then do {
             (st1, _) \<leftarrow> retire_expired ser (at_again clk) False
                          (st0\<lparr>d_tasks := AList.update i s (d_tasks st0)\<rparr>);
             Some (st1, Inr None)
           }
           else
             (let st1 = cancel_token i st0 in
              if \<not> is_terminal (t_status (s_task s)) then
                (let t = cancel_requested ser clk reason (d_limits st) (s_task s) in do {
                   (t', bytes, ret, res) \<leftarrow>
                     (case cancel_totals ser t (s_retained_bytes s) (s_reserved_bytes s) st1 of
                        Inr (bytes, ret, res) \<Rightarrow> Some (t, bytes, ret, res)
                      | Inl _ \<Rightarrow>
                          (let t2 = cancel_with_bounded_status (at_done clk) (at_stamp clk)
                                      CANCEL_RETENTION_STATUS True t
                           in do {
                             (bytes, ret, res) \<leftarrow> expect
                               (cancel_totals ser t2 (s_retained_bytes s) (s_reserved_bytes s) st1);
                             Some (t2, bytes, ret, res)
                           }));
                   Some (notify_waiters i
                     (st1\<lparr>d_retained_bytes := ret, d_reserved_bytes := res,
                          d_tasks := AList.update i
                            (s\<lparr>s_task := t', s_retained_bytes := bytes, s_reserved_bytes := 0\<rparr>)
                            (d_tasks st1)\<rparr>),
                     Inr (Some (to_task_object t')))
                 })
              else Some (st1\<lparr>d_tasks := AList.update i s (d_tasks st1)\<rparr>,
                         Inr (Some (to_task_object (s_task s)))))))"

definition cancel_task ::
  "serializer \<Rightarrow> clock \<Rightarrow> string \<Rightarrow> string option \<Rightarrow> store \<Rightarrow> task_object option op_result" where
  "cancel_task ser clk i reason st = do {
     (st1, _) \<leftarrow> retire_expired ser (at_retire clk) False st;
     cancel_task_locked ser clk i reason st1
   }"

end
