(* ===== verification/TaskAccounting.thy ===== *)
theory TaskAccounting
  imports TaskOps
begin

text \<open>
  Byte accounting of \<open>MemoryTaskStore\<close> (\<open>crates/tower-mcp/src/async_task.rs\<close>).  The
  invariant \<open>store_inv\<close> says that the two totals are the sums over the records, that their sum
  stays within the configured limit, and that every live record holds enough reserve to be
  replaced by the fixed retention failure.  Every operation keeps it and never panics: the
  \<open>expect\<close> calls of the source cannot fail.
\<close>

section \<open>Sizes of records\<close>

definition psize :: "serializer \<Rightarrow> task \<Rightarrow> nat" where
  "psize ser t = esize ser (retained_payload t)"

definition fallback_size :: "serializer \<Rightarrow> task \<Rightarrow> nat" where
  "fallback_size ser t = psize ser (fail_retention_limit 0 [] t)"

definition payload_overhead :: "serializer \<Rightarrow> nat" where
  "payload_overhead ser = 12 + sum_list (map (\<lambda>k. esize ser (doc_str k) + 1)
     [''tool_name'', ''arguments'', ''status_message'', ''meta'', ''result'', ''error'', ''owner'',
      ''input_requests'', ''answered_input_keys'', ''input_responses'', ''superseded_input_keys''])"

definition payload_encodes :: "serializer \<Rightarrow> task \<Rightarrow> bool" where
  "payload_encodes ser t \<longleftrightarrow> encodes ser (retained_payload t)"

lemma doc_option_simps [simp]:
  "doc_option f None = DJson JNull" "doc_option f (Some x) = f x"
  by (simp_all add: doc_option_def)

lemma encodes_error_doc: "compact_layout ser \<Longrightarrow> encodes ser (error_doc e)"
  by (auto simp: error_doc_def compact_layoutD split: option.splits)

lemma encodes_doc_option:
  "compact_layout ser \<Longrightarrow> (\<And>v. encodes ser (f v)) \<Longrightarrow> encodes ser (doc_option f x)"
  by (cases x) (auto simp: compact_layoutD)

lemma encodes_keys_doc: "compact_layout ser \<Longrightarrow> encodes ser (keys_doc ks)"
  by (auto simp: keys_doc_def compact_layoutD)

lemma payload_encodes_iff:
  assumes "compact_layout ser"
  shows "payload_encodes ser t \<longleftrightarrow>
    encodes ser (doc_option DWire (t_result t)) \<and> encodes ser (wires_doc (t_input_requests t))
    \<and> encodes ser (wires_doc (t_input_responses t))"
  using assms encodes_error_doc [OF assms] encodes_keys_doc [OF assms]
    encodes_doc_option [OF assms, of doc_str] encodes_doc_option [OF assms, of DJson]
    encodes_doc_option [OF assms, of error_doc]
  by (auto simp: payload_encodes_def retained_payload_def compact_layoutD)

lemma psize_eq:
  assumes "compact_layout ser" and "payload_encodes ser t"
  shows "psize ser t = payload_overhead ser + esize ser (doc_str (t_tool_name t))
    + esize ser (DJson (t_arguments t)) + esize ser (doc_option doc_str (t_status_message t))
    + esize ser (doc_option DJson (t_meta t)) + esize ser (doc_option DWire (t_result t))
    + esize ser (doc_option error_doc (t_error t)) + esize ser (doc_option doc_str (t_owner t))
    + esize ser (wires_doc (t_input_requests t)) + esize ser (keys_doc (t_answered_input_keys t))
    + esize ser (wires_doc (t_input_responses t)) + esize ser (keys_doc (t_superseded_input_keys t))"
proof -
  have "encodes ser (retained_payload t)" using assms(2) by (simp add: payload_encodes_def)
  then show ?thesis
    using compact_layoutD(11) [OF assms(1), of
        "[(''tool_name'', doc_str (t_tool_name t)),
      (''arguments'', DJson (t_arguments t)),
      (''status_message'', doc_option doc_str (t_status_message t)),
      (''meta'', doc_option DJson (t_meta t)),
      (''result'', doc_option DWire (t_result t)),
      (''error'', doc_option error_doc (t_error t)),
      (''owner'', doc_option doc_str (t_owner t)),
      (''input_requests'', wires_doc (t_input_requests t)),
      (''answered_input_keys'', keys_doc (t_answered_input_keys t)),
      (''input_responses'', wires_doc (t_input_responses t)),
      (''superseded_input_keys'', keys_doc (t_superseded_input_keys t))]"]
    by (simp add: psize_def retained_payload_def payload_overhead_def)
qed

lemma esize_empty [simp]:
  assumes "compact_layout ser"
  shows "esize ser (wires_doc []) = 2" "esize ser (keys_doc []) = 2"
    "encodes ser (wires_doc [])"
  using assms by (simp_all add: wires_doc_def keys_doc_def compact_layoutD)

lemma esize_containers:
  assumes "compact_layout ser"
  shows "2 \<le> esize ser (keys_doc ks)"
    and "encodes ser (wires_doc ws) \<Longrightarrow> 2 \<le> esize ser (wires_doc ws)"
  using assms encodes_keys_doc [OF assms, of ks]
  by (simp_all add: wires_doc_def keys_doc_def compact_layoutD(9) [OF assms] compact_layoutD(11) [OF assms])

lemma esize_error_doc:
  assumes "compact_layout ser"
  shows "length (e_message e) + 4 \<le> esize ser (error_doc e)"
  using compact_layoutD(11) [OF assms encodes_error_doc [OF assms, of e, unfolded error_doc_def]]
    compact_layoutD(2) [OF assms, of "e_message e"]
  by (simp add: error_doc_def split: option.splits)

lemma esize_statuses:
  assumes "compact_layout ser"
  shows "esize ser (doc_str RETENTION_FAILURE_STATUS) = 39"
    and "esize ser (doc_str CANCEL_RETENTION_STATUS) = 42"
proof -
  have "plain_ascii RETENTION_FAILURE_STATUS" "plain_ascii CANCEL_RETENTION_STATUS"
    by (simp_all add: plain_ascii_def RETENTION_FAILURE_STATUS_def CANCEL_RETENTION_STATUS_def)
  then show "esize ser (doc_str RETENTION_FAILURE_STATUS) = 39"
    and "esize ser (doc_str CANCEL_RETENTION_STATUS) = 42"
    by (simp_all add: compact_layoutD(3) [OF assms] RETENTION_FAILURE_STATUS_def
        CANCEL_RETENTION_STATUS_def)
qed

lemma esize_fallback_error:
  assumes "compact_layout ser"
  shows "20 \<le> esize ser (error_doc (internal_error RETENTION_FAILURE_MESSAGE))"
  using esize_error_doc [OF assms, of "internal_error RETENTION_FAILURE_MESSAGE"]
  by (simp add: internal_error_def json_rpc_error_new_def RETENTION_FAILURE_MESSAGE_def)

section \<open>The fixed replacements\<close>

lemma fallback_payload:
  "retained_payload (fail_retention_limit now stamp t) = retained_payload (fail_retention_limit 0 [] t)"
  by (simp add: retained_payload_def fail_retention_limit_def)

lemma psize_fallback: "psize ser (fail_retention_limit now stamp t) = fallback_size ser t"
  unfolding psize_def fallback_size_def by (subst fallback_payload) (rule refl)

lemma fallback_encodes:
  "compact_layout ser \<Longrightarrow> payload_encodes ser (fail_retention_limit now stamp t)"
  by (simp add: payload_encodes_iff fail_retention_limit_def compact_layoutD)

lemma fallback_size_eq:
  assumes "compact_layout ser"
  shows "fallback_size ser t = payload_overhead ser + esize ser (doc_str (t_tool_name t)) + 4 + 39 + 4 + 4
    + esize ser (error_doc (internal_error RETENTION_FAILURE_MESSAGE))
    + esize ser (doc_option doc_str (t_owner t)) + 8"
  using psize_eq [OF assms fallback_encodes [OF assms, of 0 "[]" t]] assms
  by (simp add: fallback_size_def fail_retention_limit_def esize_statuses compact_layoutD)

lemma fallback_payload_cong:
  "t_tool_name t = t_tool_name u \<Longrightarrow> t_owner t = t_owner u \<Longrightarrow>
   retained_payload (fail_retention_limit 0 [] t) = retained_payload (fail_retention_limit 0 [] u)"
  by (simp add: retained_payload_def fail_retention_limit_def)

lemma fallback_size_cong:
  "t_tool_name t = t_tool_name u \<Longrightarrow> t_owner t = t_owner u \<Longrightarrow> fallback_size ser t = fallback_size ser u"
  unfolding fallback_size_def psize_def by (rule arg_cong [OF fallback_payload_cong])

lemma cancel_bounded_size:
  assumes "compact_layout ser"
  shows "payload_encodes ser (cancel_with_bounded_status now stamp CANCEL_RETENTION_STATUS True t)"
    and "psize ser (cancel_with_bounded_status now stamp CANCEL_RETENTION_STATUS True t)
      \<le> fallback_size ser t"
proof -
  let ?c = "cancel_with_bounded_status now stamp CANCEL_RETENTION_STATUS True t"
  show e: "payload_encodes ser ?c"
    using assms by (simp add: payload_encodes_iff cancel_with_bounded_status_def compact_layoutD)
  show "psize ser ?c \<le> fallback_size ser t"
    using psize_eq [OF assms e] fallback_size_eq [OF assms, of t] esize_fallback_error [OF assms] assms
    by (simp add: cancel_with_bounded_status_def esize_statuses compact_layoutD)
qed

section \<open>Well-formed records\<close>

definition task_wf :: "task \<Rightarrow> bool" where
  "task_wf t \<longleftrightarrow>
     (\<not> is_terminal (t_status t) \<longrightarrow> t_result t = None \<and> t_error t = None)
   \<and> (t_result t = None \<or> t_error t = None)
   \<and> (is_terminal (t_status t) \<longrightarrow> (\<exists>m. t_status_message t = Some m \<and> 11 \<le> length m))"

definition stored_ok :: "serializer \<Rightarrow> stored_task \<Rightarrow> bool" where
  "stored_ok ser s \<longleftrightarrow>
     payload_encodes ser (s_task s) \<and> s_retained_bytes s = psize ser (s_task s)
   \<and> (s_expiry_signalled s \<or> is_terminal (t_status (s_task s)) \<longrightarrow> s_reserved_bytes s = 0)
   \<and> (\<not> s_expiry_signalled s \<longrightarrow> task_wf (s_task s))
   \<and> (\<not> s_expiry_signalled s \<and> \<not> is_terminal (t_status (s_task s)) \<longrightarrow>
        fallback_size ser (s_task s) \<le> s_retained_bytes s + s_reserved_bytes s)"

definition scrubbed :: "stored_task \<Rightarrow> stored_task" where
  "scrubbed s = scrub_expired_payload (s\<lparr>s_expiry_signalled := True\<rparr>)"

lemma scrubbed_encodes: "compact_layout ser \<Longrightarrow> payload_encodes ser (s_task (scrubbed s))"
  by (simp add: payload_encodes_iff scrubbed_def scrub_expired_payload_def compact_layoutD)

lemma scrubbed_size_eq:
  assumes "compact_layout ser"
  shows "psize ser (s_task (scrubbed s)) = payload_overhead ser + 2 + 20
    + esize ser (doc_option doc_str (t_owner (s_task s))) + 8"
proof -
  have "esize ser (doc_str []) = 2"
    using compact_layoutD(3) [OF assms, of "[]"] by (simp add: plain_ascii_def)
  then show ?thesis
    using psize_eq [OF assms scrubbed_encodes [OF assms, of s]] assms
    by (simp add: scrubbed_def scrub_expired_payload_def compact_layoutD)
qed

text \<open>Scrubbing an expired record never needs more than the record and its reserve held.\<close>

lemma scrubbed_size_le:
  assumes ser: "compact_layout ser" and ok: "stored_ok ser s" and new: "\<not> s_expiry_signalled s"
  shows "psize ser (s_task (scrubbed s)) \<le> s_retained_bytes s + s_reserved_bytes s"
proof (cases "is_terminal (t_status (s_task s))")
  case False
  have "2 \<le> esize ser (doc_str (t_tool_name (s_task s)))"
    using compact_layoutD(2) [OF ser, of "t_tool_name (s_task s)"] by simp
  with False ok new show ?thesis
    using fallback_size_eq [OF ser, of "s_task s"] esize_fallback_error [OF ser]
    by (simp add: scrubbed_size_eq [OF ser] stored_ok_def)
next
  case True
  let ?t = "s_task s"
  from ok new True obtain m where m: "t_status_message ?t = Some m" "11 \<le> length m"
    and one: "t_result ?t = None \<or> t_error ?t = None" and enc: "payload_encodes ser ?t"
    and ret: "s_retained_bytes s = psize ser ?t"
    by (auto simp: stored_ok_def task_wf_def)
  have enc': "encodes ser (doc_option DWire (t_result ?t))"
    "encodes ser (wires_doc (t_input_requests ?t))" "encodes ser (wires_doc (t_input_responses ?t))"
    using enc payload_encodes_iff [OF ser] by auto
  have msg: "13 \<le> esize ser (doc_option doc_str (t_status_message ?t))"
    using m compact_layoutD(2) [OF ser, of m] by simp
  have args: "1 \<le> esize ser (DJson (t_arguments ?t))" by (rule compact_layoutD(4) [OF ser])
  have meta: "1 \<le> esize ser (doc_option DJson (t_meta ?t))"
    using compact_layoutD(4) [OF ser] by (cases "t_meta ?t") simp_all
  have tool: "2 \<le> esize ser (doc_str (t_tool_name ?t))"
    using compact_layoutD(2) [OF ser, of "t_tool_name ?t"] by simp
  have res: "5 \<le> esize ser (doc_option DWire (t_result ?t)) + esize ser (doc_option error_doc (t_error ?t))"
  proof (cases "t_result ?t")
    case None
    have "4 \<le> esize ser (error_doc e)" for e
      using esize_error_doc [OF ser, of e] by simp
    then have "4 \<le> esize ser (doc_option error_doc (t_error ?t))"
      using compact_layoutD(1) [OF ser] by (cases "t_error ?t") simp_all
    with None show ?thesis using compact_layoutD(1) [OF ser] by simp
  next
    case (Some w)
    with one enc'(1) show ?thesis
      using compact_layoutD(7) [OF ser, of w] compact_layoutD(1) [OF ser] by simp
  qed
  show ?thesis
    using msg args meta tool res ret psize_eq [OF ser enc] esize_containers [OF ser] enc'
      esize_containers(1) [OF ser, of "t_answered_input_keys ?t"]
      esize_containers(1) [OF ser, of "t_superseded_input_keys ?t"]
      esize_containers(2) [OF ser enc'(2)] esize_containers(2) [OF ser enc'(3)]
    unfolding scrubbed_size_eq [OF ser] by linarith
qed

section \<open>The invariant\<close>

definition entry_ok :: "serializer \<Rightarrow> nat \<Rightarrow> store \<Rightarrow> string \<Rightarrow> stored_task \<Rightarrow> bool" where
  "entry_ok ser now st k s \<longleftrightarrow>
     stored_ok ser s \<and> t_id (s_task s) = k
   \<and> (s_expiry_signalled s \<longrightarrow>
        is_expired_at (s_task s) now \<and> k \<in> set (raised st) \<and> k \<in> set (woken st))"

definition store_inv :: "serializer \<Rightarrow> nat \<Rightarrow> store \<Rightarrow> bool" where
  "store_inv ser now st \<longleftrightarrow>
     limits_ok (d_limits st) \<and> distinct (map fst (d_tasks st))
   \<and> (\<forall>k s. map_of (d_tasks st) k = Some s \<longrightarrow> entry_ok ser now st k s)
   \<and> d_retained_bytes st = alist_sum s_retained_bytes (d_tasks st)
   \<and> d_reserved_bytes st = alist_sum s_reserved_bytes (d_tasks st)
   \<and> d_retained_bytes st + d_reserved_bytes st \<le> max_retained_bytes (d_limits st)
   \<and> length (d_tasks st) \<le> max_tasks (d_limits st)"

lemma is_expired_at_mono: "is_expired_at t now \<Longrightarrow> now \<le> now' \<Longrightarrow> is_expired_at t now'"
  by (auto simp: is_expired_at_def split: option.splits)

lemma store_inv_mono: "store_inv ser now st \<Longrightarrow> now \<le> now' \<Longrightarrow> store_inv ser now' st"
  unfolding store_inv_def entry_ok_def using is_expired_at_mono by blast

lemma store_invD:
  assumes "store_inv ser now st"
  shows "limits_ok (d_limits st)" "distinct (map fst (d_tasks st))"
    "map_of (d_tasks st) k = Some s \<Longrightarrow> entry_ok ser now st k s"
    "d_retained_bytes st = alist_sum s_retained_bytes (d_tasks st)"
    "d_reserved_bytes st = alist_sum s_reserved_bytes (d_tasks st)"
    "d_retained_bytes st + d_reserved_bytes st \<le> max_retained_bytes (d_limits st)"
    "max_retained_bytes (d_limits st) \<le> USIZE_MAX"
    "length (d_tasks st) \<le> max_tasks (d_limits st)"
  using assms by (auto simp: store_inv_def limits_ok_def)

section \<open>Expiry\<close>

definition newly_expired :: "nat \<Rightarrow> stored_task \<Rightarrow> bool" where
  "newly_expired now s \<longleftrightarrow> is_expired_at (s_task s) now \<and> \<not> s_expiry_signalled s"

definition retire_one :: "serializer \<Rightarrow> nat \<Rightarrow> stored_task \<Rightarrow> stored_task" where
  "retire_one ser now s =
     (if newly_expired now s
      then (scrubbed s)\<lparr>s_retained_bytes := psize ser (s_task (scrubbed s))\<rparr> else s)"

definition retire_tasks ::
  "serializer \<Rightarrow> nat \<Rightarrow> (string \<times> stored_task) list \<Rightarrow> (string \<times> stored_task) list" where
  "retire_tasks ser now xs = map (\<lambda>kv. (fst kv, retire_one ser now (snd kv))) xs"

abbreviation newly :: "nat \<Rightarrow> (string \<times> stored_task) list \<Rightarrow> (string \<times> stored_task) list" where
  "newly now xs \<equiv> filter (\<lambda>kv. newly_expired now (snd kv)) xs"

lemma retire_pass_eq:
  assumes ser: "compact_layout ser"
  shows "r_old_retained acc + alist_sum s_retained_bytes (newly now xs) \<le> USIZE_MAX \<Longrightarrow>
   r_old_reserved acc + alist_sum s_reserved_bytes (newly now xs) \<le> USIZE_MAX \<Longrightarrow>
   r_new_retained acc + alist_sum (\<lambda>s. psize ser (s_task (scrubbed s))) (newly now xs) \<le> USIZE_MAX \<Longrightarrow>
   retire_pass ser now xs acc = Some (retire_tasks ser now xs,
     \<lparr>r_signalled = r_signalled acc + length (newly now xs),
      r_old_retained = r_old_retained acc + alist_sum s_retained_bytes (newly now xs),
      r_new_retained = r_new_retained acc + alist_sum (\<lambda>s. psize ser (s_task (scrubbed s))) (newly now xs),
      r_old_reserved = r_old_reserved acc + alist_sum s_reserved_bytes (newly now xs),
      r_ids = rev (map (\<lambda>kv. t_id (s_task (snd kv))) (newly now xs)) @ r_ids acc\<rparr>)"
proof (induction xs arbitrary: acc)
  case Nil
  then show ?case by (simp add: retire_tasks_def)
next
  case (Cons kv xs)
  obtain k s where kv: "kv = (k, s)" by (cases kv)
  show ?case
  proof (cases "newly_expired now s")
    case False
    then show ?thesis
      using Cons kv by (auto simp: newly_expired_def retire_tasks_def retire_one_def)
  next
    case True
    have size: "retained_payload_size ser (s_task (scrubbed s)) USIZE_MAX
        = Inr (psize ser (s_task (scrubbed s)))"
      using scrubbed_encodes [OF ser, of s] Cons.prems(3) True kv
      by (simp add: retained_payload_size_def encoded_size_Inr_iff psize_def payload_encodes_def)
    show ?thesis
      using True Cons.prems kv size
        Cons.IH [of "\<lparr>r_signalled = r_signalled acc + 1,
          r_old_retained = r_old_retained acc + s_retained_bytes s,
          r_new_retained = r_new_retained acc + psize ser (s_task (scrubbed s)),
          r_old_reserved = r_old_reserved acc + s_reserved_bytes s,
          r_ids = t_id (s_task s) # r_ids acc\<rparr>"]
      by (simp add: newly_expired_def Let_def scrubbed_def [symmetric] retire_tasks_def
          retire_one_def add.assoc)
  qed
qed

lemma alist_sum_filter_le: "alist_sum f (filter P xs) \<le> alist_sum f xs"
  by (induction xs) auto

lemma alist_sum_retire:
  "alist_sum f (retire_tasks ser now xs) + alist_sum f (newly now xs) =
   alist_sum f xs
     + alist_sum (\<lambda>s. f ((scrubbed s)\<lparr>s_retained_bytes := psize ser (s_task (scrubbed s))\<rparr>)) (newly now xs)"
  by (induction xs) (auto simp: retire_tasks_def retire_one_def)

lemma alist_sum_mono: "(\<And>kv. kv \<in> set xs \<Longrightarrow> f (snd kv) \<le> g (snd kv)) \<Longrightarrow> alist_sum f xs \<le> alist_sum g xs"
  by (induction xs) (auto intro!: add_le_mono)

lemma alist_sum_add: "alist_sum (\<lambda>s. f s + g s) xs = alist_sum f xs + alist_sum g xs"
  by (induction xs) auto

lemma alist_sum_zero: "alist_sum (\<lambda>s. 0) xs = 0"
  by (induction xs) auto

lemma scrubbed_simps [simp]:
  "s_reserved_bytes (scrubbed s) = 0" "s_expiry_signalled (scrubbed s)"
  "t_id (s_task (scrubbed s)) = t_id (s_task s)"
  "t_owner (s_task (scrubbed s)) = t_owner (s_task s)"
  "t_status (s_task (scrubbed s)) = t_status (s_task s)"
  "is_expired_at (s_task (scrubbed s)) now = is_expired_at (s_task s) now"
  by (simp_all add: scrubbed_def scrub_expired_payload_def is_expired_at_def expires_at_def)

lemma scrubbed_ok: "compact_layout ser \<Longrightarrow>
  stored_ok ser ((scrubbed s)\<lparr>s_retained_bytes := psize ser (s_task (scrubbed s))\<rparr>)"
  by (simp add: stored_ok_def scrubbed_encodes)

text \<open>What the signalling pass of \<open>retire_expired\<close> leaves behind.\<close>

definition retire_marked :: "serializer \<Rightarrow> nat \<Rightarrow> store \<Rightarrow> store" where
  "retire_marked ser now st =
     (let ids = rev (map (\<lambda>kv. t_id (s_task (snd kv))) (newly now (d_tasks st)));
          ts = retire_tasks ser now (d_tasks st)
      in st\<lparr>d_tasks := ts, d_retained_bytes := alist_sum s_retained_bytes ts,
            d_reserved_bytes := alist_sum s_reserved_bytes ts,
            raised := ids @ raised st, woken := ids @ woken st\<rparr>)"

lemma newly_scrub_le:
  assumes "compact_layout ser" and "store_inv ser now st"
  shows "alist_sum (\<lambda>s. psize ser (s_task (scrubbed s))) (newly now' (d_tasks st))
    \<le> alist_sum s_retained_bytes (newly now' (d_tasks st))
      + alist_sum s_reserved_bytes (newly now' (d_tasks st))"
proof -
  have "psize ser (s_task (scrubbed (snd kv))) \<le> s_retained_bytes (snd kv) + s_reserved_bytes (snd kv)"
    if "kv \<in> set (newly now' (d_tasks st))" for kv
  proof -
    from that have "kv \<in> set (d_tasks st)" by simp
    then have "map_of (d_tasks st) (fst kv) = Some (snd kv)"
      using store_invD(2) [OF assms(2)] by simp
    from store_invD(3) [OF assms(2) this] that show ?thesis
      by (intro scrubbed_size_le [OF assms(1)]) (auto simp: entry_ok_def newly_expired_def)
  qed
  then show ?thesis
    unfolding alist_sum_add [symmetric] by (intro alist_sum_mono)
qed

lemma retire_tasks_sums:
  assumes "compact_layout ser" and "store_inv ser now st"
  shows "alist_sum s_retained_bytes (retire_tasks ser now' (d_tasks st))
      + alist_sum s_retained_bytes (newly now' (d_tasks st))
    = d_retained_bytes st + alist_sum (\<lambda>s. psize ser (s_task (scrubbed s))) (newly now' (d_tasks st))"
    and "alist_sum s_reserved_bytes (retire_tasks ser now' (d_tasks st))
      + alist_sum s_reserved_bytes (newly now' (d_tasks st)) = d_reserved_bytes st"
    and "alist_sum s_retained_bytes (retire_tasks ser now' (d_tasks st))
      + alist_sum s_reserved_bytes (retire_tasks ser now' (d_tasks st))
      \<le> d_retained_bytes st + d_reserved_bytes st"
proof -
  show a: "alist_sum s_retained_bytes (retire_tasks ser now' (d_tasks st))
      + alist_sum s_retained_bytes (newly now' (d_tasks st))
    = d_retained_bytes st + alist_sum (\<lambda>s. psize ser (s_task (scrubbed s))) (newly now' (d_tasks st))"
    using alist_sum_retire [of s_retained_bytes ser now' "d_tasks st"] store_invD(4) [OF assms(2)]
    by simp
  show b: "alist_sum s_reserved_bytes (retire_tasks ser now' (d_tasks st))
      + alist_sum s_reserved_bytes (newly now' (d_tasks st)) = d_reserved_bytes st"
    using alist_sum_retire [of s_reserved_bytes ser now' "d_tasks st"] store_invD(5) [OF assms(2)]
    by (simp add: alist_sum_zero)
  from a b newly_scrub_le [OF assms, of now']
  show "alist_sum s_retained_bytes (retire_tasks ser now' (d_tasks st))
      + alist_sum s_reserved_bytes (retire_tasks ser now' (d_tasks st))
      \<le> d_retained_bytes st + d_reserved_bytes st"
    by linarith
qed

lemma charged_bytes_eq:
  "limit \<le> USIZE_MAX \<Longrightarrow>
   charged_bytes r s limit =
     (if r + s \<le> limit then Inr (r + s) else Inl (RetentionLimitExceeded AggregateBytes limit))"
  by (auto simp: charged_bytes_def checked_add_def)

lemma retire_expired_mark:
  assumes ser: "compact_layout ser" and inv: "store_inv ser now st"
  shows "retire_expired ser now' False st =
    Some (retire_marked ser now' st,
          \<lparr>ret_signalled = length (newly now' (d_tasks st)), ret_removed = 0\<rparr>)"
    and "retire_expired ser now' True st =
      (case retire_remove now' (retire_marked ser now' st) of
         None \<Rightarrow> None
       | Some (st', n) \<Rightarrow> Some (st', \<lparr>ret_signalled = length (newly now' (d_tasks st)), ret_removed = n\<rparr>))"
proof -
  let ?n = "newly now' (d_tasks st)"
  have le: "alist_sum s_retained_bytes ?n \<le> d_retained_bytes st"
    "alist_sum s_reserved_bytes ?n \<le> d_reserved_bytes st"
    using store_invD(4,5) [OF inv] by (simp_all add: alist_sum_filter_le)
  have new: "alist_sum (\<lambda>s. psize ser (s_task (scrubbed s))) ?n
      \<le> alist_sum s_retained_bytes ?n + alist_sum s_reserved_bytes ?n"
    by (rule newly_scrub_le [OF ser inv])
  have lim: "d_retained_bytes st + d_reserved_bytes st \<le> max_retained_bytes (d_limits st)"
    "max_retained_bytes (d_limits st) \<le> USIZE_MAX"
    using store_invD(6,7) [OF inv] by simp_all
  have pass: "retire_pass ser now' (d_tasks st)
       \<lparr>r_signalled = 0, r_old_retained = 0, r_new_retained = 0, r_old_reserved = 0, r_ids = []\<rparr> =
    Some (retire_tasks ser now' (d_tasks st),
      \<lparr>r_signalled = length ?n, r_old_retained = alist_sum s_retained_bytes ?n,
       r_new_retained = alist_sum (\<lambda>s. psize ser (s_task (scrubbed s))) ?n,
       r_old_reserved = alist_sum s_reserved_bytes ?n,
       r_ids = rev (map (\<lambda>kv. t_id (s_task (snd kv))) ?n)\<rparr>)"
    using le new lim by (subst retire_pass_eq [OF ser]) simp_all
  note sums = retire_tasks_sums [OF ser inv, of now']
  have r: "d_retained_bytes st - alist_sum s_retained_bytes ?n
      + alist_sum (\<lambda>s. psize ser (s_task (scrubbed s))) ?n
      = alist_sum s_retained_bytes (retire_tasks ser now' (d_tasks st))"
    using sums(1) le(1) by linarith
  have q: "d_reserved_bytes st - alist_sum s_reserved_bytes ?n
      = alist_sum s_reserved_bytes (retire_tasks ser now' (d_tasks st))"
    using sums(2) le(2) by linarith
  have add: "checked_add (d_retained_bytes st - alist_sum s_retained_bytes ?n)
      (alist_sum (\<lambda>s. psize ser (s_task (scrubbed s))) ?n)
      = Some (alist_sum s_retained_bytes (retire_tasks ser now' (d_tasks st)))"
    using r sums(3) lim by (simp add: checked_add_def)
  have ch: "charged_bytes (alist_sum s_retained_bytes (retire_tasks ser now' (d_tasks st)))
      (alist_sum s_reserved_bytes (retire_tasks ser now' (d_tasks st)))
      (max_retained_bytes (d_limits st)) = Inr (alist_sum s_retained_bytes (retire_tasks ser now' (d_tasks st))
        + alist_sum s_reserved_bytes (retire_tasks ser now' (d_tasks st)))"
    using sums(3) lim by (simp add: charged_bytes_eq)
  show "retire_expired ser now' False st =
    Some (retire_marked ser now' st,
          \<lparr>ret_signalled = length ?n, ret_removed = 0\<rparr>)"
    using le by (simp add: retire_expired_def pass add q ch retire_marked_def Let_def)
  show "retire_expired ser now' True st =
      (case retire_remove now' (retire_marked ser now' st) of
         None \<Rightarrow> None
       | Some (st', n) \<Rightarrow> Some (st', \<lparr>ret_signalled = length ?n, ret_removed = n\<rparr>))"
    using le by (simp add: retire_expired_def pass add q ch retire_marked_def Let_def
        split: option.split bind_split)
qed

lemma map_of_retire_tasks:
  "map_of (retire_tasks ser now xs) k = map_option (retire_one ser now) (map_of xs k)"
  unfolding retire_tasks_def by (rule map_of_map_snd)

lemma keys_retire_tasks: "map fst (retire_tasks ser now xs) = map fst xs"
  by (simp add: retire_tasks_def comp_def)

lemma length_retire_tasks: "length (retire_tasks ser now xs) = length xs"
  by (simp add: retire_tasks_def)

lemma retire_one_simps [simp]:
  "t_id (s_task (retire_one ser now s)) = t_id (s_task s)"
  "t_owner (s_task (retire_one ser now s)) = t_owner (s_task s)"
  "is_expired_at (s_task (retire_one ser now s)) now' = is_expired_at (s_task s) now'"
  by (simp_all add: retire_one_def)

lemma retire_one_visible: "\<not> is_expired_at (s_task s) now \<Longrightarrow> retire_one ser now s = s"
  by (simp add: retire_one_def newly_expired_def)

lemma newly_ids:
  assumes "store_inv ser now st" and "map_of (d_tasks st) k = Some s" and "newly_expired now' s"
  shows "k \<in> set (map (\<lambda>kv. t_id (s_task (snd kv))) (newly now' (d_tasks st)))"
proof -
  from assms(2) have "(k, s) \<in> set (newly now' (d_tasks st))"
    using assms(3) by (auto dest: map_of_SomeD)
  moreover from store_invD(3) [OF assms(1,2)] have "t_id (s_task s) = k" by (simp add: entry_ok_def)
  ultimately show ?thesis by force
qed

lemma retire_marked_inv:
  assumes ser: "compact_layout ser" and inv: "store_inv ser now st" and le: "now \<le> now'"
  shows "store_inv ser now' (retire_marked ser now' st)"
proof -
  let ?st = "retire_marked ser now' st"
  have entry: "entry_ok ser now' ?st k s'" if "map_of (d_tasks ?st) k = Some s'" for k s'
  proof -
    from that obtain s where s: "map_of (d_tasks st) k = Some s" "s' = retire_one ser now' s"
      by (auto simp: retire_marked_def Let_def map_of_retire_tasks)
    have old: "entry_ok ser now st k s" by (rule store_invD(3) [OF inv s(1)])
    show ?thesis
    proof (cases "newly_expired now' s")
      case True
      then show ?thesis
        using s(2) old newly_ids [OF inv s(1) True] scrubbed_ok [OF ser, of s]
        by (simp add: entry_ok_def retire_one_def retire_marked_def Let_def newly_expired_def)
    next
      case False
      then show ?thesis
        using s(2) old is_expired_at_mono [OF _ le]
        by (auto simp: entry_ok_def retire_one_def retire_marked_def Let_def)
    qed
  qed
  moreover have "alist_sum s_retained_bytes (retire_tasks ser now' (d_tasks st))
      + alist_sum s_reserved_bytes (retire_tasks ser now' (d_tasks st))
      \<le> max_retained_bytes (d_limits st)"
    using retire_tasks_sums(3) [OF ser inv, of now'] store_invD(6) [OF inv] by linarith
  ultimately show ?thesis
    using store_invD [OF inv]
    by (auto simp: store_inv_def retire_marked_def Let_def keys_retire_tasks length_retire_tasks)
qed

lemma checked_sum_fits: "acc + sum_list xs \<le> USIZE_MAX \<Longrightarrow> checked_sum xs acc = Some (acc + sum_list xs)"
  by (induction xs arbitrary: acc) (auto simp: add.assoc)

definition unexpired :: "nat \<Rightarrow> (string \<times> stored_task) list \<Rightarrow> (string \<times> stored_task) list" where
  "unexpired now xs = filter (\<lambda>kv. \<not> is_expired_at (s_task (snd kv)) now) xs"

definition retire_dropped :: "nat \<Rightarrow> store \<Rightarrow> store" where
  "retire_dropped now st =
     st\<lparr>d_tasks := unexpired now (d_tasks st),
        d_retained_bytes := alist_sum s_retained_bytes (unexpired now (d_tasks st)),
        d_reserved_bytes := alist_sum s_reserved_bytes (unexpired now (d_tasks st))\<rparr>"

lemma retire_remove_eq:
  assumes inv: "store_inv ser now st"
  shows "retire_remove now' st =
    Some (retire_dropped now' st, length (d_tasks st) - length (unexpired now' (d_tasks st)))"
proof -
  let ?g = "filter (\<lambda>kv. is_expired_at (s_task (snd kv)) now') (d_tasks st)"
  have split: "alist_sum f ?g + alist_sum f (unexpired now' (d_tasks st)) = alist_sum f (d_tasks st)" for f
    unfolding unexpired_def by (rule alist_sum_filter_split)
  note r = split [of s_retained_bytes] split [of s_reserved_bytes] store_invD(4-7) [OF inv]
  have "sum_list (map (\<lambda>kv. s_retained_bytes (snd kv)) ?g) = alist_sum s_retained_bytes ?g"
    "sum_list (map (\<lambda>kv. s_reserved_bytes (snd kv)) ?g) = alist_sum s_reserved_bytes ?g"
    by (simp_all add: alist_sum_def)
  moreover have "alist_sum s_retained_bytes ?g \<le> d_retained_bytes st"
    "alist_sum s_reserved_bytes ?g \<le> d_reserved_bytes st"
    "alist_sum s_retained_bytes ?g \<le> USIZE_MAX" "alist_sum s_reserved_bytes ?g \<le> USIZE_MAX"
    "d_retained_bytes st - alist_sum s_retained_bytes ?g
      = alist_sum s_retained_bytes (unexpired now' (d_tasks st))"
    "d_reserved_bytes st - alist_sum s_reserved_bytes ?g
      = alist_sum s_reserved_bytes (unexpired now' (d_tasks st))"
    using r by linarith+
  ultimately show ?thesis
    by (simp add: retire_remove_def Let_def checked_sum_fits retire_dropped_def unexpired_def)
qed

lemma map_of_unexpired:
  assumes "distinct (map fst xs)"
  shows "map_of (unexpired now xs) k =
    (case map_of xs k of None \<Rightarrow> None | Some s \<Rightarrow> if is_expired_at (s_task s) now then None else Some s)"
  unfolding unexpired_def
  using map_of_filter_snd [OF assms, of "\<lambda>s. \<not> is_expired_at (s_task s) now" k]
  by (simp split: option.splits)

lemma retire_dropped_inv:
  assumes inv: "store_inv ser now st"
  shows "store_inv ser now (retire_dropped now' st)"
proof -
  have len: "length (unexpired now' (d_tasks st)) \<le> length (d_tasks st)"
    by (simp add: unexpired_def)
  have sums: "alist_sum f (unexpired now' (d_tasks st)) \<le> alist_sum f (d_tasks st)" for f
    unfolding unexpired_def by (rule alist_sum_filter_le)
  have "alist_sum s_retained_bytes (unexpired now' (d_tasks st))
      + alist_sum s_reserved_bytes (unexpired now' (d_tasks st)) \<le> max_retained_bytes (d_limits st)"
    using sums [of s_retained_bytes] sums [of s_reserved_bytes] store_invD(4-6) [OF inv] by linarith
  then show ?thesis
    using store_invD [OF inv] le_trans [OF len store_invD(8) [OF inv]]
      distinct_keys_filter [OF store_invD(2) [OF inv]]
    by (auto simp: store_inv_def retire_dropped_def entry_ok_def
        map_of_unexpired [OF store_invD(2) [OF inv]] split: option.splits if_splits)
      (simp add: unexpired_def)
qed

lemma retire_expired_eq:
  assumes ser: "compact_layout ser" and inv: "store_inv ser now st" and le: "now \<le> now'"
  shows "retire_expired ser now' False st =
      Some (retire_marked ser now' st, \<lparr>ret_signalled = length (newly now' (d_tasks st)), ret_removed = 0\<rparr>)"
    and "retire_expired ser now' True st =
      Some (retire_dropped now' (retire_marked ser now' st),
        \<lparr>ret_signalled = length (newly now' (d_tasks st)),
         ret_removed = length (d_tasks st) - length (unexpired now' (d_tasks st))\<rparr>)"
proof -
  show "retire_expired ser now' False st =
      Some (retire_marked ser now' st, \<lparr>ret_signalled = length (newly now' (d_tasks st)), ret_removed = 0\<rparr>)"
    by (rule retire_expired_mark(1) [OF ser inv])
  have "length (unexpired now' (retire_tasks ser now' (d_tasks st))) = length (unexpired now' (d_tasks st))"
    by (simp add: unexpired_def retire_tasks_def filter_map comp_def)
  then show "retire_expired ser now' True st =
      Some (retire_dropped now' (retire_marked ser now' st),
        \<lparr>ret_signalled = length (newly now' (d_tasks st)),
         ret_removed = length (d_tasks st) - length (unexpired now' (d_tasks st))\<rparr>)"
    using retire_remove_eq [OF retire_marked_inv [OF ser inv le], of now']
    by (simp add: retire_expired_mark(2) [OF ser inv] retire_marked_def Let_def retire_tasks_def)
qed

lemma retire_expired_inv:
  assumes ser: "compact_layout ser" and inv: "store_inv ser now st" and le: "now \<le> now'"
  shows "\<exists>st' r. retire_expired ser now' remove st = Some (st', r) \<and> store_inv ser now' st'
    \<and> d_limits st' = d_limits st \<and> d_config st' = d_config st"
proof (cases remove)
  case True
  then show ?thesis
    using retire_expired_eq(2) [OF ser inv le]
      retire_dropped_inv [OF retire_marked_inv [OF ser inv le], of now']
    by (auto simp: retire_dropped_def retire_marked_def Let_def)
next
  case False
  then show ?thesis
    using retire_expired_eq(1) [OF ser inv le] retire_marked_inv [OF ser inv le]
    by (auto simp: retire_marked_def Let_def)
qed

end
