(* ===== verification/TaskSafety.thy ===== *)
theory TaskSafety
  imports TaskAccounting
begin

text \<open>
  Every operation of \<open>MemoryTaskStore\<close> keeps the accounting invariant and never panics
  (\<open>crates/tower-mcp/src/async_task.rs\<close>), one critical section at a time, and so does every
  interleaving of them.
\<close>

section \<open>Replacing one record\<close>

definition swapped ::
  "string \<Rightarrow> stored_task \<Rightarrow> stored_task \<Rightarrow> (string \<times> stored_task) list
   \<Rightarrow> (string \<times> stored_task) list \<Rightarrow> bool" where
  "swapped k cur s ts ts' \<longleftrightarrow>
     map_of ts k = Some cur \<and> distinct (map fst ts')
   \<and> (\<forall>j. map_of ts' j = (if j = k then Some s else map_of ts j))
   \<and> length ts' = length ts
   \<and> alist_sum s_retained_bytes ts' + s_retained_bytes cur = alist_sum s_retained_bytes ts + s_retained_bytes s
   \<and> alist_sum s_reserved_bytes ts' + s_reserved_bytes cur = alist_sum s_reserved_bytes ts + s_reserved_bytes s"

lemma swapped_update:
  assumes "distinct (map fst ts)" and "map_of ts k = Some cur"
  shows "swapped k cur s ts (AList.update k s ts)"
proof -
  have "k \<in> fst ` set ts" using assms(2) by (force dest: map_of_SomeD)
  then show ?thesis
    using assms alist_sum_update [OF assms(2)] distinct_keys_update [OF assms(1)]
    by (simp add: swapped_def map_of_update_iff length_update_present)
qed

lemma delete_absent_key: "k \<notin> fst ` set (AList.delete k ts)"
  by (simp add: map_of_eq_None_iff [symmetric] map_of_delete_iff)

lemma swapped_delete_update:
  assumes "distinct (map fst ts)" and "map_of ts k = Some cur"
  shows "swapped k cur s ts (AList.update k s (AList.delete k ts))"
proof -
  have "length (AList.update k s (AList.delete k ts)) = length ts"
    using length_update_fresh [OF delete_absent_key, of k s ts] length_delete_present [OF assms]
    by simp
  moreover have "alist_sum f (AList.update k s (AList.delete k ts)) + f cur = alist_sum f ts + f s" for f
    using alist_sum_update_fresh [OF delete_absent_key, of f k s ts] alist_sum_delete [OF assms, of f]
    by simp
  moreover have "distinct (map fst (AList.update k s (AList.delete k ts)))"
    by (rule distinct_keys_update [OF distinct_delete [OF assms(1)]])
  ultimately show ?thesis
    using assms by (simp add: swapped_def map_of_update_iff map_of_delete_iff)
qed

lemma swapped_inv:
  assumes inv: "store_inv ser now st"
    and sw: "swapped k cur s (d_tasks st) (d_tasks st')"
    and ok: "stored_ok ser s" "t_id (s_task s) = k"
      "s_expiry_signalled s \<Longrightarrow> is_expired_at (s_task s) now \<and> k \<in> set (raised st') \<and> k \<in> set (woken st')"
    and tot: "d_retained_bytes st' + s_retained_bytes cur = d_retained_bytes st + s_retained_bytes s"
      "d_reserved_bytes st' + s_reserved_bytes cur = d_reserved_bytes st + s_reserved_bytes s"
      "d_retained_bytes st' + d_reserved_bytes st' \<le> max_retained_bytes (d_limits st)"
    and same: "d_limits st' = d_limits st" "set (raised st) \<subseteq> set (raised st')"
      "set (woken st) \<subseteq> set (woken st')"
  shows "store_inv ser now st'"
proof -
  have "entry_ok ser now st' j u" if "map_of (d_tasks st') j = Some u" for j u
  proof (cases "j = k")
    case True
    with that sw ok show ?thesis by (auto simp: swapped_def entry_ok_def)
  next
    case False
    with that sw have "map_of (d_tasks st) j = Some u" by (simp add: swapped_def)
    from store_invD(3) [OF inv this] same show ?thesis by (auto simp: entry_ok_def)
  qed
  then show ?thesis
    using sw tot same store_invD [OF inv] by (auto simp: store_inv_def swapped_def)
qed

section \<open>Totals\<close>

lemma entry_sums_le:
  assumes "store_inv ser now st" and "map_of (d_tasks st) k = Some cur"
  shows "s_retained_bytes cur \<le> d_retained_bytes st" "s_reserved_bytes cur \<le> d_reserved_bytes st"
  using alist_sum_ge [OF assms(2)] store_invD(4,5) [OF assms(1)] by simp_all

lemma replacement_totals_eq:
  assumes "old_ret \<le> d_retained_bytes st" and "old_res \<le> d_reserved_bytes st" and "limit \<le> USIZE_MAX"
  shows "replacement_totals st old_ret old_res new_ret new_res limit =
    (let ret = d_retained_bytes st - old_ret + new_ret; res = d_reserved_bytes st - old_res + new_res
     in if ret + res \<le> limit then Inr (ret, res)
        else Inl (RetentionLimitExceeded AggregateBytes limit))"
  using assms by (auto simp: replacement_totals_def Let_def checked_add_def charged_bytes_eq
      split: option.splits)

lemma replacement_totals_tasks [simp]:
  "replacement_totals (st\<lparr>d_tasks := ts\<rparr>) = replacement_totals st"
  "replacement_totals (st\<lparr>raised := rs\<rparr>) = replacement_totals st"
  by (intro ext; simp add: replacement_totals_def cong: option.case_cong)+

lemma replacement_totalsD:
  assumes "replacement_totals st old_ret old_res new_ret new_res limit = Inr (ret, res)"
    and "old_ret \<le> d_retained_bytes st" and "old_res \<le> d_reserved_bytes st" and "limit \<le> USIZE_MAX"
  shows "ret + old_ret = d_retained_bytes st + new_ret" "res + old_res = d_reserved_bytes st + new_res"
    "ret + res \<le> limit"
  using assms by (auto simp: replacement_totals_eq Let_def split: if_splits)

lemma retained_payload_size_Inr_iff:
  "limit \<le> USIZE_MAX \<Longrightarrow>
   retained_payload_size ser t limit = Inr n \<longleftrightarrow>
     n = psize ser t \<and> payload_encodes ser t \<and> psize ser t \<le> limit"
  by (simp add: retained_payload_size_def encoded_size_Inr_iff psize_def payload_encodes_def)

lemma prepare_stored_task_ok:
  assumes "prepare_stored_task ser clk t limits = Inr s" and "limits_ok limits"
  shows "s_task s = t" "\<not> s_expiry_signalled s" "task_wf t \<Longrightarrow> stored_ok ser s"
    "s_retained_bytes s + s_reserved_bytes s \<le> max_retained_bytes limits"
proof -
  have lim: "max_retained_bytes limits \<le> USIZE_MAX" using assms(2) by (simp add: limits_ok_def)
  obtain retained reserved where p:
    "payload_encodes ser t" "retained = psize ser t"
    "reserved = (if is_terminal (t_status t) then 0 else fallback_size ser t - psize ser t)"
    "s = stored_task_new t retained reserved" "retained + reserved \<le> max_retained_bytes limits"
    using assms(1) lim
    by (auto simp: prepare_stored_task_def result_bind_Inr_iff retained_payload_size_Inr_iff
        charged_bytes_eq psize_fallback split: if_splits)
  moreover have "fallback_size ser t \<le> psize ser t + (fallback_size ser t - psize ser t)" by linarith
  ultimately show "s_task s = t" "\<not> s_expiry_signalled s" "task_wf t \<Longrightarrow> stored_ok ser s"
    "s_retained_bytes s + s_reserved_bytes s \<le> max_retained_bytes limits"
    by (simp_all add: stored_task_new_def stored_ok_def)
qed

section \<open>Visible records\<close>

lemma visible_iff:
  "visible now st i = Some s \<longleftrightarrow> map_of (d_tasks st) i = Some s \<and> \<not> is_expired_at (s_task s) now"
  by (auto simp: visible_def split: option.splits if_splits)

lemma unexpired_entry:
  assumes "store_inv ser now st" and "map_of (d_tasks st) i = Some s"
    and "\<not> is_expired_at (s_task s) now'" and "now \<le> now'"
  shows "\<not> s_expiry_signalled s" "stored_ok ser s" "task_wf (s_task s)" "t_id (s_task s) = i"
proof -
  from store_invD(3) [OF assms(1,2)] have e: "entry_ok ser now st i s" .
  with assms(3,4) show u: "\<not> s_expiry_signalled s"
    using is_expired_at_mono by (auto simp: entry_ok_def)
  from e show "stored_ok ser s" "t_id (s_task s) = i" by (auto simp: entry_ok_def)
  with u show "task_wf (s_task s)" by (simp add: stored_ok_def)
qed

lemma store_edited_inv:
  assumes inv: "store_inv ser now st" and cur: "map_of (d_tasks st) i = Some cur"
    and wf: "task_wf t" "t_id t = i"
  shows "store_inv ser now (fst (store_edited ser clk i t st))"
proof (cases "prepare_stored_task ser clk t (d_limits st)")
  case (Inl e)
  then show ?thesis using inv by (simp add: store_edited_def)
next
  case (Inr s)
  note p = prepare_stored_task_ok [OF Inr store_invD(1) [OF inv]]
  note le = entry_sums_le [OF inv cur] store_invD(7) [OF inv]
  show ?thesis
  proof (cases "replacement_totals st (s_retained_bytes cur) (s_reserved_bytes cur)
      (s_retained_bytes s) (s_reserved_bytes s) (max_retained_bytes (d_limits st))")
    case (Inl e)
    then show ?thesis using inv Inr cur by (simp add: store_edited_def replace_stored_task_def)
  next
    case tot: (Inr rr)
    then obtain ret res where rr: "rr = (ret, res)" by (cases rr)
    note t = replacement_totalsD [OF tot [unfolded rr] le]
    let ?st' = "st\<lparr>d_retained_bytes := ret, d_reserved_bytes := res,
        d_tasks := AList.update i s (d_tasks st)\<rparr>"
    have "store_inv ser now ?st'"
      by (rule swapped_inv [OF inv, where k = i and cur = cur and s = s])
        (use swapped_update [OF store_invD(2) [OF inv] cur] p wf t in simp_all)
    then show ?thesis using Inr cur tot rr by (simp add: store_edited_def replace_stored_task_def)
  qed
qed

section \<open>Edits keep the record well formed\<close>

lemma apply_responses_frame:
  "apply_responses rs t a = (t', a') \<Longrightarrow>
   t_status t' = t_status t \<and> t_result t' = t_result t \<and> t_error t' = t_error t
   \<and> t_status_message t' = t_status_message t \<and> t_id t' = t_id t
   \<and> t_tool_name t' = t_tool_name t \<and> t_arguments t' = t_arguments t \<and> t_owner t' = t_owner t
   \<and> t_superseded_input_keys t' = t_superseded_input_keys t
   \<and> t_created_at t' = t_created_at t \<and> t_ttl t' = t_ttl t \<and> t_meta t' = t_meta t"
  by (induction rs t a rule: apply_responses.induct) (auto split: if_splits)

lemma set_task_meta_locked_inv:
  assumes "store_inv ser now st" and "now \<le> at_check clk"
  shows "store_inv ser now (fst (set_task_meta_locked ser clk i meta st))"
proof (cases "visible (at_check clk) st i")
  case None
  then show ?thesis using assms by (simp add: set_task_meta_locked_def)
next
  case (Some s)
  then have m: "map_of (d_tasks st) i = Some s" "\<not> is_expired_at (s_task s) (at_check clk)"
    by (simp_all add: visible_iff)
  note u = unexpired_entry [OF assms(1) m assms(2)]
  have "store_inv ser now (fst (store_edited ser clk i ((s_task s)\<lparr>t_meta := Some meta\<rparr>) st))"
    using u by (intro store_edited_inv [OF assms(1) m(1)]) (auto simp: task_wf_def)
  then show ?thesis using Some assms(1) by (auto simp: set_task_meta_locked_def split: sum.split)
qed

lemma set_status_locked_inv:
  assumes "store_inv ser now st" and "now \<le> at_check clk" and "\<not> is_terminal status"
  shows "store_inv ser now (fst (set_status_locked ser clk i status msg st))"
proof (cases "visible (at_check clk) st i")
  case None
  then show ?thesis using assms by (simp add: set_status_locked_def)
next
  case (Some s)
  then have m: "map_of (d_tasks st) i = Some s" "\<not> is_expired_at (s_task s) (at_check clk)"
    by (simp_all add: visible_iff)
  note u = unexpired_entry [OF assms(1) m assms(2)]
  let ?t = "(s_task s)\<lparr>t_status := status,
      t_status_message := (case msg of None \<Rightarrow> t_status_message (s_task s) | Some m \<Rightarrow> Some m),
      t_last_updated_at_str := at_stamp clk\<rparr>"
  have "store_inv ser now (fst (store_edited ser clk i ?t st))"
    if "\<not> is_terminal (t_status (s_task s))"
    using u that assms(3) by (intro store_edited_inv [OF assms(1) m(1)]) (auto simp: task_wf_def)
  then show ?thesis
    using Some assms(1) by (auto simp: set_status_locked_def split: sum.split)
qed

lemma require_input_locked_inv:
  assumes "store_inv ser now st" and "now \<le> at_check clk"
  shows "store_inv ser now (fst (require_input_locked ser clk i requests msg st))"
proof (cases "visible (at_check clk) st i")
  case None
  then show ?thesis using assms by (simp add: require_input_locked_def)
next
  case (Some s)
  then have m: "map_of (d_tasks st) i = Some s" "\<not> is_expired_at (s_task s) (at_check clk)"
    by (simp_all add: visible_iff)
  note u = unexpired_entry [OF assms(1) m assms(2)]
  let ?t = "(s_task s)\<lparr>t_superseded_input_keys := supersede_dropped (s_task s) requests,
      t_input_requests := requests, t_status := InputRequired,
      t_status_message := Some (case msg of Some m \<Rightarrow> m | None \<Rightarrow> ''Awaiting client input''),
      t_last_updated_at_str := at_stamp clk\<rparr>"
  have "store_inv ser now (fst (store_edited ser clk i ?t st))"
    if "\<not> is_terminal (t_status (s_task s))"
    using u that by (intro store_edited_inv [OF assms(1) m(1)]) (auto simp: task_wf_def)
  then show ?thesis
    using Some assms(1) by (auto simp: require_input_locked_def Let_def split: sum.split)
qed

text \<open>The record \<open>apply_input_responses\<close> stores.\<close>

definition applied_task ::
  "clock \<Rightarrow> input_responses \<Rightarrow> task \<Rightarrow> task \<times> applied_input_responses" where
  "applied_task clk responses t =
     (case apply_responses responses t
             \<lparr>ap_accepted = [], ap_ignored = [], ap_still_outstanding = []\<rparr> of
        (t1, a1) \<Rightarrow>
          (let applied = a1\<lparr>ap_still_outstanding := map fst (t_input_requests t1)\<rparr>;
               t2 = (if ap_accepted applied \<noteq> [] then t1\<lparr>t_last_updated_at_str := at_stamp clk\<rparr> else t1);
               t3 = (if applied_is_complete applied \<and> t_status t2 = InputRequired
                     then t2\<lparr>t_status := Working, t_status_message := Some ''Task resumed''\<rparr>
                     else t2)
           in (t3, applied)))"

lemma applied_task_frame:
  assumes "applied_task clk responses t = (t', a)"
  shows "t_result t' = t_result t" "t_error t' = t_error t" "t_id t' = t_id t"
    "t_tool_name t' = t_tool_name t" "t_arguments t' = t_arguments t" "t_owner t' = t_owner t"
    "t_superseded_input_keys t' = t_superseded_input_keys t"
    "is_terminal (t_status t') = is_terminal (t_status t)"
    "is_terminal (t_status t) \<Longrightarrow> t_status_message t' = t_status_message t"
    "t_created_at t' = t_created_at t" "t_ttl t' = t_ttl t" "t_meta t' = t_meta t"
proof -
  obtain t1 a1 where 1: "apply_responses responses t
      \<lparr>ap_accepted = [], ap_ignored = [], ap_still_outstanding = []\<rparr> = (t1, a1)"
    by (cases "apply_responses responses t
      \<lparr>ap_accepted = [], ap_ignored = [], ap_still_outstanding = []\<rparr>")
  note f = apply_responses_frame [OF 1]
  from assms f show "t_result t' = t_result t" "t_error t' = t_error t" "t_id t' = t_id t"
    "t_tool_name t' = t_tool_name t" "t_arguments t' = t_arguments t" "t_owner t' = t_owner t"
    "t_superseded_input_keys t' = t_superseded_input_keys t"
    "is_terminal (t_status t') = is_terminal (t_status t)"
    "is_terminal (t_status t) \<Longrightarrow> t_status_message t' = t_status_message t"
    "t_created_at t' = t_created_at t" "t_ttl t' = t_ttl t" "t_meta t' = t_meta t"
    by (auto simp: applied_task_def 1 Let_def split: if_splits)
qed

lemma apply_input_responses_locked_eq:
  "apply_input_responses_locked ser clk i responses st =
     (case visible (at_check clk) st i of
        None \<Rightarrow> (st, Inr None)
      | Some s \<Rightarrow>
          if is_terminal (t_status (s_task s)) then (st, Inr None)
          else
            (let accepted_payload =
                   filter (\<lambda>kv. fst kv \<in> fst ` set (t_input_requests (s_task s))) responses
             in case (if accepted_payload = [] then Inr 0
                      else validate_payload ser (wires_doc accepted_payload) (d_limits st)) of
                  Inl e \<Rightarrow> (st, Inl e)
                | Inr _ \<Rightarrow>
                    (case applied_task clk responses (s_task s) of (t3, applied) \<Rightarrow>
                       case store_edited ser clk i t3 st of
                               (st', Inl e) \<Rightarrow> (st', Inl e)
                             | (st', Inr ok) \<Rightarrow> (st', Inr (if ok then Some applied else None)))))"
  by (simp add: apply_input_responses_locked_def applied_task_def Let_def
      split: option.split sum.split prod.split)

lemma apply_input_responses_locked_inv:
  assumes "store_inv ser now st" and "now \<le> at_check clk"
  shows "store_inv ser now (fst (apply_input_responses_locked ser clk i responses st))"
proof (cases "visible (at_check clk) st i")
  case None
  then show ?thesis using assms by (simp add: apply_input_responses_locked_eq)
next
  case (Some s)
  then have m: "map_of (d_tasks st) i = Some s" "\<not> is_expired_at (s_task s) (at_check clk)"
    by (simp_all add: visible_iff)
  note u = unexpired_entry [OF assms(1) m assms(2)]
  obtain t3 a where t3: "applied_task clk responses (s_task s) = (t3, a)"
    by (cases "applied_task clk responses (s_task s)")
  note f = applied_task_frame [OF t3]
  have "store_inv ser now (fst (store_edited ser clk i t3 st))"
    using u f by (intro store_edited_inv [OF assms(1) m(1)]) (auto simp: task_wf_def)
  then show ?thesis
    using Some assms(1) t3
    by (auto simp: apply_input_responses_locked_eq Let_def split: sum.splits prod.splits)
qed

section \<open>Terminal transitions\<close>

text \<open>
  The operation returned (it did not panic), its result state satisfies the invariant, and the
  limits, the configuration and the signals already raised are kept.
\<close>

definition safe_from :: "serializer \<Rightarrow> nat \<Rightarrow> store \<Rightarrow> store option \<Rightarrow> bool" where
  "safe_from ser now st r \<longleftrightarrow>
     (\<exists>st'. r = Some st' \<and> store_inv ser now st' \<and> d_limits st' = d_limits st
        \<and> d_config st' = d_config st
        \<and> set (raised st) \<subseteq> set (raised st') \<and> set (woken st) \<subseteq> set (woken st'))"

abbreviation taken :: "string \<Rightarrow> store \<Rightarrow> store" where
  "taken i st \<equiv> st\<lparr>d_tasks := AList.delete i (d_tasks st)\<rparr>"

lemma put_back_inv:
  assumes inv: "store_inv ser now st" and cur: "map_of (d_tasks st) i = Some cur"
    and ok: "stored_ok ser s" "t_id (s_task s) = i" "\<not> s_expiry_signalled s"
    and tot: "ret + s_retained_bytes cur = d_retained_bytes st + s_retained_bytes s"
      "res + s_reserved_bytes cur = d_reserved_bytes st + s_reserved_bytes s"
      "ret + res \<le> max_retained_bytes (d_limits st)"
    and sig: "set (raised st) \<subseteq> set rs" "set (woken st) \<subseteq> set ws"
  shows "store_inv ser now
    ((taken i st)\<lparr>d_retained_bytes := ret, d_reserved_bytes := res,
        d_tasks := AList.update i s (AList.delete i (d_tasks st)), raised := rs, woken := ws\<rparr>)"
  by (rule swapped_inv [OF inv, where k = i and cur = cur and s = s])
    (use swapped_delete_update [OF store_invD(2) [OF inv] cur] ok tot sig in simp_all)

lemma put_back_same_inv:
  assumes inv: "store_inv ser now st" and cur: "map_of (d_tasks st) i = Some cur"
  shows "store_inv ser now ((taken i st)\<lparr>d_tasks := AList.update i cur (AList.delete i (d_tasks st))\<rparr>)"
  by (rule swapped_inv [OF inv, where k = i and cur = cur and s = cur])
    (use swapped_delete_update [OF store_invD(2) [OF inv] cur] store_invD(3) [OF inv cur]
      store_invD(6) [OF inv] in \<open>simp_all add: entry_ok_def\<close>)

lemma commit_retention_failure_safe:
  assumes ser: "compact_layout ser" and inv: "store_inv ser now st"
    and cur: "map_of (d_tasks st) i = Some cur"
    and live: "\<not> s_expiry_signalled cur" "\<not> is_terminal (t_status (s_task cur))"
    and s: "t_tool_name (s_task s) = t_tool_name (s_task cur)" "t_owner (s_task s) = t_owner (s_task cur)"
      "t_id (s_task s) = t_id (s_task cur)" "\<not> s_expiry_signalled s"
  shows "safe_from ser now st (commit_retention_failure ser clk (taken i st) i s
      (s_retained_bytes cur) (s_reserved_bytes cur) (d_limits st))"
proof -
  let ?t = "fail_retention_limit (at_done clk) (at_stamp clk) (s_task s)"
  have e: "entry_ok ser now st i cur" by (rule store_invD(3) [OF inv cur])
  have fb: "fallback_size ser (s_task s) \<le> s_retained_bytes cur + s_reserved_bytes cur"
    using e live fallback_size_cong [OF s(1,2), of ser] by (simp add: entry_ok_def stored_ok_def)
  note le = entry_sums_le [OF inv cur] store_invD(6,7) [OF inv]
  have size: "retained_payload_size ser ?t (max_retained_bytes (d_limits st))
      = Inr (fallback_size ser (s_task s))"
    using fb le fallback_encodes [OF ser] psize_fallback [of ser]
    by (simp add: retained_payload_size_Inr_iff)
  let ?s = "s\<lparr>s_task := ?t, s_retained_bytes := fallback_size ser (s_task s), s_reserved_bytes := 0\<rparr>"
  let ?ret = "d_retained_bytes st - s_retained_bytes cur + fallback_size ser (s_task s)"
  let ?res = "d_reserved_bytes st - s_reserved_bytes cur"
  have ok: "stored_ok ser ?s"
    using s(4) fallback_encodes [OF ser] psize_fallback [of ser]
    by (simp add: stored_ok_def task_wf_def fail_retention_limit_def RETENTION_FAILURE_STATUS_def)
  have tot: "replacement_totals st (s_retained_bytes cur) (s_reserved_bytes cur)
      (fallback_size ser (s_task s)) 0 (max_retained_bytes (d_limits st)) = Inr (?ret, ?res)"
    using le fb by (simp add: replacement_totals_eq Let_def)
  have "store_inv ser now ((taken i st)\<lparr>d_retained_bytes := ?ret, d_reserved_bytes := ?res,
        d_tasks := AList.update i ?s (AList.delete i (d_tasks st)), raised := raised st,
        woken := i # woken st\<rparr>)"
    using le fb e s(3,4) ok
    by (intro put_back_inv [OF inv cur]) (auto simp: entry_ok_def fail_retention_limit_def)
  then show ?thesis
    by (auto simp: safe_from_def commit_retention_failure_def Let_def size commit_removed_task_def
        tot notify_waiters_def)
qed

lemma commit_terminal_safe:
  assumes ser: "compact_layout ser" and inv: "store_inv ser now st"
    and cur: "map_of (d_tasks st) i = Some cur"
    and live: "\<not> s_expiry_signalled cur" "\<not> is_terminal (t_status (s_task cur))"
    and s: "t_tool_name (s_task s) = t_tool_name (s_task cur)" "t_owner (s_task s) = t_owner (s_task cur)"
      "t_id (s_task s) = t_id (s_task cur)" "\<not> s_expiry_signalled s"
    and fin: "is_terminal (t_status (s_task s))" "task_wf (s_task s)"
  shows "safe_from ser now st (map_option fst (commit_terminal ser clk i s
      (s_retained_bytes cur) (s_reserved_bytes cur) (taken i st)))"
proof -
  have e: "entry_ok ser now st i cur" by (rule store_invD(3) [OF inv cur])
  note le = entry_sums_le [OF inv cur] store_invD(7) [OF inv]
  have give_up: "safe_from ser now st (map_option fst
      (do { st' \<leftarrow> commit_retention_failure ser clk (taken i st) i s' (s_retained_bytes cur)
              (s_reserved_bytes cur) (d_limits st);
            Some (st', x) }))"
    if "s_task s' = s_task s" "\<not> s_expiry_signalled s'" for s' x
    using commit_retention_failure_safe [OF ser inv cur live, of s' clk] s that
    by (auto simp: safe_from_def)
  show ?thesis
  proof (cases "retained_payload_size ser (s_task s) (max_retained_bytes (d_limits st))")
    case (Inl err)
    then show ?thesis using give_up [of s "Inl err"] s(4) by (simp add: commit_terminal_def Let_def)
  next
    case (Inr bytes)
    then have b: "bytes = psize ser (s_task s)" "payload_encodes ser (s_task s)"
      using le(3) by (simp_all add: retained_payload_size_Inr_iff)
    let ?s = "s\<lparr>s_retained_bytes := bytes, s_reserved_bytes := 0\<rparr>"
    show ?thesis
    proof (cases "replacement_totals st (s_retained_bytes cur) (s_reserved_bytes cur) bytes 0
        (max_retained_bytes (d_limits st))")
      case (Inl err)
      then show ?thesis
        using Inr give_up [of ?s "Inl err"] s(4) by (simp add: commit_terminal_def Let_def)
    next
      case tot: (Inr rr)
      then obtain ret res where rr: "rr = (ret, res)" by (cases rr)
      note t = replacement_totalsD [OF tot [unfolded rr] le]
      have ok: "stored_ok ser ?s" using s fin b by (simp add: stored_ok_def)
      have "store_inv ser now ((taken i st)\<lparr>d_retained_bytes := ret, d_reserved_bytes := res,
            d_tasks := AList.update i ?s (AList.delete i (d_tasks st)), raised := raised st,
            woken := i # woken st\<rparr>)"
        using t ok s e by (intro put_back_inv [OF inv cur]) (auto simp: entry_ok_def)
      then show ?thesis
        using Inr tot rr
        by (auto simp: safe_from_def commit_terminal_def Let_def notify_waiters_def)
    qed
  qed
qed

lemma retire_safe:
  assumes ser: "compact_layout ser" and inv: "store_inv ser now st" and le: "now \<le> now'"
  shows "safe_from ser now' st (map_option fst (retire_expired ser now' remove st))"
proof (cases remove)
  case True
  then show ?thesis
    using retire_expired_eq(2) [OF ser inv le]
      retire_dropped_inv [OF retire_marked_inv [OF ser inv le], of now']
    by (auto simp: safe_from_def retire_dropped_def retire_marked_def Let_def)
next
  case False
  then show ?thesis
    using retire_expired_eq(1) [OF ser inv le] retire_marked_inv [OF ser inv le]
    by (auto simp: safe_from_def retire_marked_def Let_def)
qed

lemma safe_from_trans:
  assumes "safe_from ser now st r" and "\<And>st'. r = Some st' \<Longrightarrow> store_inv ser now st' \<Longrightarrow>
     safe_from ser now' st' (f st')"
  shows "safe_from ser now' st (Option.bind r f)"
proof -
  from assms(1) obtain st' where st': "r = Some st'" "store_inv ser now st'"
    "d_limits st' = d_limits st" "d_config st' = d_config st" "set (raised st) \<subseteq> set (raised st')" "set (woken st) \<subseteq> set (woken st')"
    by (auto simp: safe_from_def)
  from assms(2) [OF st'(1,2)] obtain st'' where "f st' = Some st''" "store_inv ser now' st''"
    "d_limits st'' = d_limits st'" "d_config st'' = d_config st'" "set (raised st') \<subseteq> set (raised st'')" "set (woken st') \<subseteq> set (woken st'')"
    by (auto simp: safe_from_def)
  with st' show ?thesis unfolding safe_from_def by auto
qed

lemma safe_from_mono: "safe_from ser now st r \<Longrightarrow> now \<le> now' \<Longrightarrow> safe_from ser now' st r"
  using store_inv_mono by (force simp: safe_from_def)

lemma safe_from_refl: "store_inv ser now st \<Longrightarrow> safe_from ser now st (Some st)"
  by (simp add: safe_from_def)

definition clock_ok :: "nat \<Rightarrow> clock \<Rightarrow> bool" where
  "clock_ok now clk \<longleftrightarrow>
     now \<le> at_retire clk \<and> at_retire clk \<le> at_check clk \<and> at_check clk \<le> at_done clk
   \<and> at_done clk \<le> at_again clk"

lemma retire_after_put_back:
  assumes ser: "compact_layout ser" and inv: "store_inv ser now st"
    and cur: "map_of (d_tasks st) i = Some cur" and le: "now \<le> now'"
  shows "safe_from ser now' st (map_option fst (do {
      (st1, r) \<leftarrow> retire_expired ser now' False
        (st\<lparr>d_tasks := AList.update i cur (AList.delete i (d_tasks st))\<rparr>);
      Some (st1, x) }))"
  using retire_safe [OF ser put_back_same_inv [OF inv cur, simplified] le, of False]
  by (auto simp: safe_from_def split: prod.splits)

text \<open>
  \<open>complete_task\<close> and \<open>fail_task\<close> have one shape: leave terminal and expired records alone,
  commit the retention failure if the payload is refused, commit the edited record otherwise.
\<close>

definition finish_locked ::
  "serializer \<Rightarrow> clock \<Rightarrow> string \<Rightarrow> (store \<Rightarrow> task_store_error + nat) \<Rightarrow> (task \<Rightarrow> task) \<Rightarrow> store
   \<Rightarrow> bool op_result" where
  "finish_locked ser clk i check edit st =
     (case map_of (d_tasks st) i of
        None \<Rightarrow> Some (st, Inr False)
      | Some s \<Rightarrow>
          (let st0 = st\<lparr>d_tasks := AList.delete i (d_tasks st)\<rparr>;
               put = st0\<lparr>d_tasks := AList.update i s (d_tasks st0)\<rparr> in
           if is_terminal (t_status (s_task s)) then Some (put, Inr False)
           else if is_expired_at (s_task s) (at_check clk) then do {
             (st1, _) \<leftarrow> retire_expired ser (at_again clk) False put;
             Some (st1, Inr False)
           }
           else case check st of
             Inl e \<Rightarrow> do {
               st' \<leftarrow> commit_retention_failure ser clk st0 i s (s_retained_bytes s)
                        (s_reserved_bytes s) (d_limits st);
               Some (st', Inl e)
             }
           | Inr _ \<Rightarrow>
               commit_terminal ser clk i (s\<lparr>s_task := edit (s_task s)\<rparr>)
                 (s_retained_bytes s) (s_reserved_bytes s) st0))"

definition completed_edit :: "clock \<Rightarrow> wire \<Rightarrow> task \<Rightarrow> task" where
  "completed_edit clk result t = t\<lparr>t_status := Completed,
      t_status_message := Some ''Task completed'', t_result := Some result,
      t_input_requests := [], t_completed_at := Some (at_done clk),
      t_last_updated_at_str := at_stamp clk\<rparr>"

definition failed_edit :: "clock \<Rightarrow> json_rpc_error \<Rightarrow> task \<Rightarrow> task" where
  "failed_edit clk err t = t\<lparr>t_status := Failed,
      t_status_message := Some (''Task failed: '' @ e_message err), t_error := Some err,
      t_input_requests := [], t_completed_at := Some (at_done clk),
      t_last_updated_at_str := at_stamp clk\<rparr>"

lemma complete_as_finish:
  "complete_task_locked ser clk i result =
     finish_locked ser clk i (\<lambda>st. validate_payload ser (DWire result) (d_limits st))
       (completed_edit clk result)"
  by (rule ext) (unfold complete_task_locked_def finish_locked_def completed_edit_def, rule refl)

lemma fail_as_finish:
  "fail_task_locked ser clk i err =
     finish_locked ser clk i
       (\<lambda>st. result_bind (validate_payload ser (error_doc err) (d_limits st)) (\<lambda>_.
              validate_prefixed_string ser (e_message err) ''Task failed: '' (d_limits st)))
       (failed_edit clk err)"
  by (rule ext) (unfold fail_task_locked_def finish_locked_def failed_edit_def, rule refl)

lemma finish_locked_safe:
  assumes ser: "compact_layout ser" and inv: "store_inv ser now st"
    and clk: "now \<le> at_check clk" "at_check clk \<le> at_again clk"
    and edit: "\<And>t. task_wf t \<Longrightarrow> \<not> is_terminal (t_status t) \<Longrightarrow>
      is_terminal (t_status (edit t)) \<and> task_wf (edit t) \<and> t_id (edit t) = t_id t
      \<and> t_tool_name (edit t) = t_tool_name t \<and> t_owner (edit t) = t_owner t"
  shows "safe_from ser (at_again clk) st (map_option fst (finish_locked ser clk i check edit st))"
proof (cases "map_of (d_tasks st) i")
  case None
  then show ?thesis
    using safe_from_mono [OF safe_from_refl [OF inv]] clk by (simp add: finish_locked_def)
next
  case (Some s)
  have putback: "store_inv ser now (st\<lparr>d_tasks := AList.update i s (AList.delete i (d_tasks st))\<rparr>)"
    using put_back_same_inv [OF inv Some] by simp
  have up: "now \<le> at_again clk" using clk by simp
  consider (terminal) "is_terminal (t_status (s_task s))"
    | (expired) "\<not> is_terminal (t_status (s_task s))" "is_expired_at (s_task s) (at_check clk)"
    | (live) "\<not> is_terminal (t_status (s_task s))" "\<not> is_expired_at (s_task s) (at_check clk)"
    by blast
  then show ?thesis
  proof cases
    case terminal
    then show ?thesis
      using Some store_inv_mono [OF putback up] by (simp add: finish_locked_def Let_def safe_from_def)
  next
    case expired
    then show ?thesis
      using Some retire_after_put_back [OF ser inv Some up, of "Inr False"]
      by (simp add: finish_locked_def Let_def)
  next
    case live
    note u = unexpired_entry [OF inv Some live(2) clk(1)]
    have fail: "safe_from ser now st (commit_retention_failure ser clk (taken i st) i s
        (s_retained_bytes s) (s_reserved_bytes s) (d_limits st))"
      using u live by (intro commit_retention_failure_safe [OF ser inv Some]) auto
    have fin: "safe_from ser now st (map_option fst (commit_terminal ser clk i (s\<lparr>s_task := edit (s_task s)\<rparr>)
        (s_retained_bytes s) (s_reserved_bytes s) (taken i st)))"
      using u live edit [of "s_task s"] by (intro commit_terminal_safe [OF ser inv Some]) auto
    show ?thesis
      using Some live safe_from_mono [OF fail up] safe_from_mono [OF fin up]
      by (auto simp: finish_locked_def Let_def safe_from_def split: sum.split)
  qed
qed

lemma complete_task_locked_safe:
  assumes "compact_layout ser" and "store_inv ser now st"
    and "now \<le> at_check clk" "at_check clk \<le> at_again clk"
  shows "safe_from ser (at_again clk) st (map_option fst (complete_task_locked ser clk i result st))"
  unfolding complete_as_finish
  by (rule finish_locked_safe [OF assms]) (auto simp: completed_edit_def task_wf_def)

lemma fail_task_locked_safe:
  assumes "compact_layout ser" and "store_inv ser now st"
    and "now \<le> at_check clk" "at_check clk \<le> at_again clk"
  shows "safe_from ser (at_again clk) st (map_option fst (fail_task_locked ser clk i err st))"
  unfolding fail_as_finish
  by (rule finish_locked_safe [OF assms]) (auto simp: failed_edit_def task_wf_def)

section \<open>Cancellation\<close>

lemma cancel_totals_tasks [simp]:
  "cancel_totals ser t a b (st\<lparr>raised := rs\<rparr>) = cancel_totals ser t a b st"
  "cancel_totals ser t a b (st\<lparr>d_tasks := ts\<rparr>) = cancel_totals ser t a b st"
  by (simp_all add: cancel_totals_def)

lemma cancel_requested_wf:
  assumes "task_wf t" and "\<not> is_terminal (t_status t)"
  shows "task_wf (cancel_requested ser clk reason limits t)"
    "is_terminal (t_status (cancel_requested ser clk reason limits t))"
    "t_id (cancel_requested ser clk reason limits t) = t_id t"
    "t_tool_name (cancel_requested ser clk reason limits t) = t_tool_name t"
    "t_owner (cancel_requested ser clk reason limits t) = t_owner t"
  using assms
  by (auto simp: cancel_requested_def cancel_with_bounded_status_def task_wf_def
      CANCEL_RETENTION_STATUS_def split: option.split)

lemma cancel_totals_bounded:
  assumes ser: "compact_layout ser" and inv: "store_inv ser now st"
    and cur: "map_of (d_tasks st) i = Some cur"
    and live: "\<not> s_expiry_signalled cur" "\<not> is_terminal (t_status (s_task cur))"
    and t: "t_tool_name t = t_tool_name (s_task cur)" "t_owner t = t_owner (s_task cur)"
  shows "\<exists>ret res. cancel_totals ser (cancel_with_bounded_status now' stamp CANCEL_RETENTION_STATUS True t)
      (s_retained_bytes cur) (s_reserved_bytes cur) st =
    Inr (psize ser (cancel_with_bounded_status now' stamp CANCEL_RETENTION_STATUS True t), ret, res)"
proof -
  let ?c = "cancel_with_bounded_status now' stamp CANCEL_RETENTION_STATUS True t"
  have e: "entry_ok ser now st i cur" by (rule store_invD(3) [OF inv cur])
  have fb: "psize ser ?c \<le> s_retained_bytes cur + s_reserved_bytes cur"
    using cancel_bounded_size(2) [OF ser, of now' stamp t] e live
      fallback_size_cong [OF t, of ser] by (simp add: entry_ok_def stored_ok_def)
  note le = entry_sums_le [OF inv cur] store_invD(6,7) [OF inv]
  have "retained_payload_size ser ?c (max_retained_bytes (d_limits st)) = Inr (psize ser ?c)"
    using fb le cancel_bounded_size(1) [OF ser] by (simp add: retained_payload_size_Inr_iff)
  then show ?thesis
    using fb le by (simp add: cancel_totals_def replacement_totals_eq Let_def)
qed

lemma cancel_task_locked_safe:
  assumes ser: "compact_layout ser" and inv: "store_inv ser now st"
    and clk: "now \<le> at_check clk" "at_check clk \<le> at_again clk"
  shows "safe_from ser (at_again clk) st (map_option fst (cancel_task_locked ser clk i reason st))"
proof (cases "map_of (d_tasks st) i")
  case None
  then show ?thesis
    using safe_from_mono [OF safe_from_refl [OF inv]] clk by (simp add: cancel_task_locked_def)
next
  case (Some s)
  have e: "entry_ok ser now st i s" by (rule store_invD(3) [OF inv Some])
  have up: "now \<le> at_again clk" using clk by simp
  note le = entry_sums_le [OF inv Some] store_invD(6,7) [OF inv]
  consider (expired) "is_expired_at (s_task s) (at_check clk)"
    | (terminal) "\<not> is_expired_at (s_task s) (at_check clk)" "is_terminal (t_status (s_task s))"
    | (live) "\<not> is_expired_at (s_task s) (at_check clk)" "\<not> is_terminal (t_status (s_task s))"
    by blast
  then show ?thesis
  proof cases
    case expired
    then show ?thesis
      using Some retire_after_put_back [OF ser inv Some up, of "Inr None"]
      by (simp add: cancel_task_locked_def Let_def)
  next
    case terminal
    note u = unexpired_entry [OF inv Some terminal(1) clk(1)]
    have "store_inv ser now ((taken i st)\<lparr>d_retained_bytes := d_retained_bytes st,
        d_reserved_bytes := d_reserved_bytes st,
        d_tasks := AList.update i s (AList.delete i (d_tasks st)), raised := i # raised st,
        woken := woken st\<rparr>)"
      using le u by (intro put_back_inv [OF inv Some]) auto
    from store_inv_mono [OF this up] show ?thesis
      using Some terminal by (simp add: cancel_task_locked_def Let_def safe_from_def cancel_token_def)
         (auto elim!: back_subst [of "store_inv ser (at_again clk)"])
  next
    case live
    note u = unexpired_entry [OF inv Some live(1) clk(1)]
    let ?t = "cancel_requested ser clk reason (d_limits st) (s_task s)"
    let ?t2 = "cancel_with_bounded_status (at_done clk) (at_stamp clk) CANCEL_RETENTION_STATUS True ?t"
    note w = cancel_requested_wf [OF u(3) live(2), of ser clk reason "d_limits st"]
    have w2: "task_wf ?t2" "is_terminal (t_status ?t2)" "t_id ?t2 = t_id (s_task s)"
      by (simp_all add: cancel_with_bounded_status_def task_wf_def CANCEL_RETENTION_STATUS_def w)
    have commit: "safe_from ser now st (Some (notify_waiters i
        ((cancel_token i (taken i st))\<lparr>d_retained_bytes := ret, d_reserved_bytes := res,
           d_tasks := AList.update i (s\<lparr>s_task := t', s_retained_bytes := bytes, s_reserved_bytes := 0\<rparr>)
             (AList.delete i (d_tasks st))\<rparr>)))"
      if "cancel_totals ser t' (s_retained_bytes s) (s_reserved_bytes s) st = Inr (bytes, ret, res)"
        and "task_wf t'" "is_terminal (t_status t')" "t_id t' = t_id (s_task s)" for t' bytes ret res
    proof -
      from that(1) have b: "bytes = psize ser t'" "payload_encodes ser t'"
        and tot: "replacement_totals st (s_retained_bytes s) (s_reserved_bytes s) bytes 0
          (max_retained_bytes (d_limits st)) = Inr (ret, res)"
        using le by (auto simp: cancel_totals_def result_bind_Inr_iff retained_payload_size_Inr_iff)
      note t = replacement_totalsD [OF tot le(1,2) le(4)]
      have "store_inv ser now ((taken i st)\<lparr>d_retained_bytes := ret, d_reserved_bytes := res,
          d_tasks := AList.update i (s\<lparr>s_task := t', s_retained_bytes := bytes, s_reserved_bytes := 0\<rparr>)
            (AList.delete i (d_tasks st)), raised := i # raised st, woken := i # woken st\<rparr>)"
        using t u that b by (intro put_back_inv [OF inv Some]) (auto simp: stored_ok_def)
      then show ?thesis
        by (cases st) (auto simp: safe_from_def notify_waiters_def cancel_token_def)
    qed
    show ?thesis
    proof (cases "cancel_totals ser ?t (s_retained_bytes s) (s_reserved_bytes s) st")
      case (Inr r)
      then obtain bytes ret res where r: "r = (bytes, ret, res)" by (cases r)
      from commit [OF Inr [unfolded r]] w u(4) show ?thesis
        using Some live Inr r safe_from_mono [OF _ up]
        by (simp add: cancel_task_locked_def Let_def cancel_token_def)
    next
      case (Inl err)
      obtain ret res where tot: "cancel_totals ser ?t2 (s_retained_bytes s) (s_reserved_bytes s) st
          = Inr (psize ser ?t2, ret, res)"
        using cancel_totals_bounded [OF ser inv Some u(1) live(2), of ?t "at_done clk" "at_stamp clk"] w
        by auto
      from commit [OF tot] w2 show ?thesis
        using Some live Inl tot safe_from_mono [OF _ up]
        by (simp add: cancel_task_locked_def Let_def cancel_token_def)
    qed
  qed
qed

section \<open>Creation, removal and TTL\<close>

lemma create_task_locked_inv:
  assumes inv: "store_inv ser now st" and fresh: "i \<notin> fst ` set (d_tasks st)"
    and s: "stored_ok ser s" "t_id (s_task s) = i" "\<not> s_expiry_signalled s"
  shows "store_inv ser now (fst (create_task_locked i s st))"
proof (cases "length (d_tasks st) < max_tasks (d_limits st) \<and>
    d_retained_bytes st + s_retained_bytes s + (d_reserved_bytes st + s_reserved_bytes s)
      \<le> max_retained_bytes (d_limits st)")
  case True
  note d = store_invD [OF inv]
  have new: "map_of (AList.update i s (d_tasks st)) k = Some u \<Longrightarrow>
      entry_ok ser now (st\<lparr>d_worker_generation := g, d_retained_bytes := a, d_reserved_bytes := b,
        d_tasks := ts\<rparr>) k u" for k u g a b ts
    using d(3) s by (auto simp: map_of_update_iff entry_ok_def split: if_splits)
  have "checked_add (d_retained_bytes st) (s_retained_bytes s) = Some (d_retained_bytes st + s_retained_bytes s)"
    "checked_add (d_reserved_bytes st) (s_reserved_bytes s) = Some (d_reserved_bytes st + s_reserved_bytes s)"
    using True d(7) by simp_all
  then have "fst (create_task_locked i s st) = wake_worker (st\<lparr>
      d_retained_bytes := d_retained_bytes st + s_retained_bytes s,
      d_reserved_bytes := d_reserved_bytes st + s_reserved_bytes s,
      d_tasks := AList.update i s (d_tasks st)\<rparr>)"
    using True d(7) by (simp add: create_task_locked_def Let_def charged_bytes_eq)
  moreover have "alist_sum f (AList.update i s (d_tasks st)) = alist_sum f (d_tasks st) + f s" for f
    by (rule alist_sum_update_fresh [OF fresh])
  ultimately show ?thesis
    using True d(1,2,4,5) new distinct_keys_update [OF d(2), of i s] length_update_fresh [OF fresh, of s]
    by (simp add: store_inv_def wake_worker_def entry_ok_def)
next
  case False
  then have "fst (create_task_locked i s st) = st"
    using store_invD(7) [OF inv]
    by (auto simp: create_task_locked_def Let_def charged_bytes_eq checked_add_def)
  then show ?thesis using inv by simp
qed

lemma create_task_locked_frame:
  "d_limits (fst (create_task_locked i s st)) = d_limits st"
  "d_config (fst (create_task_locked i s st)) = d_config st"
  "raised (fst (create_task_locked i s st)) = raised st"
  "woken (fst (create_task_locked i s st)) = woken st"
  by (auto simp: create_task_locked_def Let_def wake_worker_def split: option.split sum.split)

lemma discard_task_safe:
  assumes inv: "store_inv ser now st"
  shows "safe_from ser now st (map_option fst (discard_task i st))"
proof (cases "map_of (d_tasks st) i")
  case None
  then show ?thesis using safe_from_refl [OF inv] by (simp add: discard_task_def)
next
  case (Some s)
  note d = store_invD [OF inv] and le = entry_sums_le [OF inv Some]
  have sums: "alist_sum f (AList.delete i (d_tasks st)) + f s = alist_sum f (d_tasks st)" for f
    by (rule alist_sum_delete [OF d(2) Some])
  have len: "length (AList.delete i (d_tasks st)) \<le> max_tasks (d_limits st)"
    using length_delete_present [OF d(2) Some] d(8) by linarith
  have tot: "d_retained_bytes st - s_retained_bytes s = alist_sum s_retained_bytes (AList.delete i (d_tasks st))"
    "d_reserved_bytes st - s_reserved_bytes s = alist_sum s_reserved_bytes (AList.delete i (d_tasks st))"
    using sums [of s_retained_bytes] sums [of s_reserved_bytes] d(4,5) by linarith+
  have "store_inv ser now (st\<lparr>d_tasks := AList.delete i (d_tasks st),
      d_retained_bytes := d_retained_bytes st - s_retained_bytes s,
      d_reserved_bytes := d_reserved_bytes st - s_reserved_bytes s\<rparr>)"
    unfolding store_inv_def
  proof (intro conjI allI impI)
    fix k u assume "map_of (d_tasks (st\<lparr>d_tasks := AList.delete i (d_tasks st),
      d_retained_bytes := d_retained_bytes st - s_retained_bytes s,
      d_reserved_bytes := d_reserved_bytes st - s_reserved_bytes s\<rparr>)) k = Some u"
    then have "map_of (d_tasks st) k = Some u" by (simp add: map_of_delete_iff split: if_splits)
    from d(3) [OF this] show "entry_ok ser now (st\<lparr>d_tasks := AList.delete i (d_tasks st),
      d_retained_bytes := d_retained_bytes st - s_retained_bytes s,
      d_reserved_bytes := d_reserved_bytes st - s_reserved_bytes s\<rparr>) k u"
      by (simp add: entry_ok_def)
  qed (use d(1,6) len tot distinct_delete [OF d(2), of i] in simp_all)
  then show ?thesis using Some le by (auto simp: discard_task_def safe_from_def)
qed

lemma set_ttl_put_inv:
  assumes inv: "store_inv ser now st" and cur: "map_of (d_tasks st) i = Some s"
    and live: "\<not> is_expired_at (s_task s) (at_check clk)" and clk: "now \<le> at_check clk"
  shows "store_inv ser now (st\<lparr>d_tasks := AList.update i
    (s\<lparr>s_task := (s_task s)\<lparr>t_ttl := ms, t_last_updated_at_str := at_stamp clk\<rparr>\<rparr>) (d_tasks st)\<rparr>)"
proof -
  note u = unexpired_entry [OF inv cur live clk]
  let ?s = "s\<lparr>s_task := (s_task s)\<lparr>t_ttl := ms, t_last_updated_at_str := at_stamp clk\<rparr>\<rparr>"
  have same: "retained_payload (s_task ?s) = retained_payload (s_task s)"
    "fallback_size ser (s_task ?s) = fallback_size ser (s_task s)"
    by (simp_all add: retained_payload_def fallback_size_def psize_def fail_retention_limit_def)
  have "psize ser (s_task ?s) = psize ser (s_task s)" by (simp only: psize_def same(1))
  moreover have "payload_encodes ser (s_task ?s) = payload_encodes ser (s_task s)"
    by (simp only: payload_encodes_def same(1))
  moreover have "task_wf (s_task ?s) = task_wf (s_task s)" by (simp add: task_wf_def)
  ultimately have "stored_ok ser ?s"
    using u(2) same(2) by (auto simp: stored_ok_def)
  then show ?thesis
    using u store_invD(6) [OF inv] swapped_update [OF store_invD(2) [OF inv] cur]
    by (intro swapped_inv [OF inv, where k = i and cur = s and s = ?s]) simp_all
qed

lemma set_ttl_safe:
  assumes ser: "compact_layout ser" and inv: "store_inv ser now st"
    and clk: "now \<le> at_check clk" "at_check clk \<le> at_again clk"
  shows "safe_from ser (at_again clk) st (map_option fst (set_ttl ser clk i ms st))"
proof (cases "map_of (d_tasks st) i")
  case None
  then show ?thesis
    using safe_from_mono [OF safe_from_refl [OF inv]] clk by (simp add: set_ttl_def)
next
  case (Some s)
  have up: "now \<le> at_again clk" using clk by simp
  show ?thesis
  proof (cases "is_expired_at (s_task s) (at_check clk)")
    case True
    then show ?thesis
      using Some retire_safe [OF ser inv up, of False]
      by (auto simp: set_ttl_def safe_from_def split: prod.splits)
  next
    case False
    note inv' = set_ttl_put_inv [OF inv Some False clk(1), where ms = ms]
    obtain st1 r where st1: "retire_expired ser (at_again clk) False
        (st\<lparr>d_tasks := AList.update i
          (s\<lparr>s_task := (s_task s)\<lparr>t_ttl := ms, t_last_updated_at_str := at_stamp clk\<rparr>\<rparr>) (d_tasks st)\<rparr>)
      = Some (st1, r)"
      and safe: "safe_from ser (at_again clk) st (Some st1)"
      using retire_safe [OF ser inv' up, where remove = False]
      by (auto simp: safe_from_def)
    from safe show ?thesis
      using Some False st1
      by (auto simp: set_ttl_def safe_from_def wake_worker_def store_inv_def entry_ok_def)
  qed
qed

section \<open>Interleavings of critical sections\<close>

text \<open>
  One critical section: a pass of \<open>retire_expired\<close>, or the locked part of one operation.  An
  operation of the trait is a few of them in sequence; in between, other operations run theirs.
\<close>

datatype store_section =
  SecRetire bool
| SecAdmit string string json nat task_owner
| SecDiscard string
| SecMeta string json
| SecStatus string task_status "string option"
| SecTtl string nat
| SecRequire string input_requests "string option"
| SecApply string input_responses
| SecComplete string wire
| SecFail string json_rpc_error
| SecCancel string "string option"

fun run_section :: "serializer \<Rightarrow> clock \<Rightarrow> store_section \<Rightarrow> store \<Rightarrow> store option" where
  "run_section ser clk (SecRetire remove) st = map_option fst (retire_expired ser (at_check clk) remove st)"
| "run_section ser clk (SecAdmit i tool args ttl owner) st =
     (case prepare_stored_task ser clk
              (task_new i tool args ttl owner (at_retire clk) (at_stamp clk)) (d_limits st) of
        Inl e \<Rightarrow> Some st
      | Inr stored \<Rightarrow> Some (fst (create_task_locked i stored st)))"
| "run_section ser clk (SecDiscard i) st = map_option fst (discard_task i st)"
| "run_section ser clk (SecMeta i meta) st = Some (fst (set_task_meta_locked ser clk i meta st))"
| "run_section ser clk (SecStatus i status msg) st =
     (if is_terminal status then Some st else Some (fst (set_status_locked ser clk i status msg st)))"
| "run_section ser clk (SecTtl i ms) st = map_option fst (set_ttl ser clk i ms st)"
| "run_section ser clk (SecRequire i requests msg) st =
     Some (fst (require_input_locked ser clk i requests msg st))"
| "run_section ser clk (SecApply i responses) st =
     Some (fst (apply_input_responses_locked ser clk i responses st))"
| "run_section ser clk (SecComplete i result) st = map_option fst (complete_task_locked ser clk i result st)"
| "run_section ser clk (SecFail i err) st = map_option fst (fail_task_locked ser clk i err st)"
| "run_section ser clk (SecCancel i reason) st = map_option fst (cancel_task_locked ser clk i reason st)"

text \<open>The identifier generator returns an id that is not in use.\<close>

fun section_ok :: "store_section \<Rightarrow> store \<Rightarrow> bool" where
  "section_ok (SecAdmit i tool args ttl owner) st \<longleftrightarrow> i \<notin> fst ` set (d_tasks st)"
| "section_ok _ st \<longleftrightarrow> True"

lemma edited_frame:
  "d_limits (fst (store_edited ser clk i t st)) = d_limits st"
  "d_config (fst (store_edited ser clk i t st)) = d_config st"
  "raised (fst (store_edited ser clk i t st)) = raised st"
  "woken (fst (store_edited ser clk i t st)) = woken st"
  by (auto simp: store_edited_def replace_stored_task_def split: sum.split option.split prod.split)

lemma locked_frame:
  "d_limits (fst (set_task_meta_locked ser clk i meta st)) = d_limits st
   \<and> d_config (fst (set_task_meta_locked ser clk i meta st)) = d_config st
   \<and> raised (fst (set_task_meta_locked ser clk i meta st)) = raised st
   \<and> woken (fst (set_task_meta_locked ser clk i meta st)) = woken st"
  "d_limits (fst (set_status_locked ser clk i status msg st)) = d_limits st
   \<and> d_config (fst (set_status_locked ser clk i status msg st)) = d_config st
   \<and> raised (fst (set_status_locked ser clk i status msg st)) = raised st
   \<and> woken (fst (set_status_locked ser clk i status msg st)) = woken st"
  "d_limits (fst (require_input_locked ser clk i requests msg st)) = d_limits st
   \<and> d_config (fst (require_input_locked ser clk i requests msg st)) = d_config st
   \<and> raised (fst (require_input_locked ser clk i requests msg st)) = raised st
   \<and> woken (fst (require_input_locked ser clk i requests msg st)) = woken st"
  by (simp_all add: set_task_meta_locked_def set_status_locked_def require_input_locked_def Let_def
      edited_frame split: option.split sum.split)

lemma fst_case_sum_option:
  "fst (case r of (st', Inl e) \<Rightarrow> (st', Inl e) | (st', Inr ok) \<Rightarrow> (st', Inr (g ok))) = fst r"
  by (cases r) (auto split: sum.split)

lemma apply_locked_frame:
  "d_limits (fst (apply_input_responses_locked ser clk i responses st)) = d_limits st
   \<and> d_config (fst (apply_input_responses_locked ser clk i responses st)) = d_config st
   \<and> raised (fst (apply_input_responses_locked ser clk i responses st)) = raised st
   \<and> woken (fst (apply_input_responses_locked ser clk i responses st)) = woken st"
  by (auto simp: apply_input_responses_locked_eq Let_def fst_case_sum_option edited_frame
      split: option.split sum.split prod.split)

lemma run_section_safe:
  assumes ser: "compact_layout ser" and inv: "store_inv ser now st" and clk: "clock_ok now clk"
    and ok: "section_ok sec st"
  shows "safe_from ser (at_again clk) st (run_section ser clk sec st)"
proof -
  have t: "now \<le> at_check clk" "at_check clk \<le> at_again clk" "now \<le> at_again clk"
    using clk by (auto simp: clock_ok_def)
  note up = safe_from_mono [where now = now and now' = "at_again clk", OF _ t(3)]
  show ?thesis
  proof (cases sec)
    case (SecRetire r)
    then show ?thesis
      using safe_from_mono [OF retire_safe [OF ser inv t(1)] t(2)] by simp
  next
    case (SecAdmit i tool args ttl owner)
    show ?thesis
    proof (cases "prepare_stored_task ser clk
        (task_new i tool args ttl owner (at_retire clk) (at_stamp clk)) (d_limits st)")
      case (Inl e)
      then show ?thesis using up [OF safe_from_refl [OF inv]] SecAdmit by simp
    next
      case (Inr s)
      note p = prepare_stored_task_ok [OF Inr store_invD(1) [OF inv]]
      have "store_inv ser now (fst (create_task_locked i s st))"
        using p ok SecAdmit
        by (intro create_task_locked_inv [OF inv]) (auto simp: task_wf_def task_new_def)
      then show ?thesis
        using Inr SecAdmit up [of ser st "Some (fst (create_task_locked i s st))"]
        by (simp add: safe_from_def create_task_locked_frame)
    qed
  next
    case (SecDiscard i)
    then show ?thesis using up [OF discard_task_safe [OF inv]] by simp
  next
    case (SecMeta i meta)
    then show ?thesis
      using store_inv_mono [OF set_task_meta_locked_inv [OF inv t(1)] t(3)]
      by (simp add: safe_from_def locked_frame)
  next
    case (SecStatus i status msg)
    then show ?thesis
      using store_inv_mono [OF set_status_locked_inv [OF inv t(1)] t(3)] store_inv_mono [OF inv t(3)]
      by (simp add: safe_from_def locked_frame)
  next
    case (SecTtl i ms)
    then show ?thesis using set_ttl_safe [OF ser inv t(1,2)] by simp
  next
    case (SecRequire i requests msg)
    then show ?thesis
      using store_inv_mono [OF require_input_locked_inv [OF inv t(1)] t(3)]
      by (simp add: safe_from_def locked_frame)
  next
    case (SecApply i responses)
    then show ?thesis
      using store_inv_mono [OF apply_input_responses_locked_inv [OF inv t(1)] t(3)]
      by (simp add: safe_from_def apply_locked_frame)
  next
    case (SecComplete i result)
    then show ?thesis using complete_task_locked_safe [OF ser inv t(1,2)] by simp
  next
    case (SecFail i err)
    then show ?thesis using fail_task_locked_safe [OF ser inv t(1,2)] by simp
  next
    case (SecCancel i reason)
    then show ?thesis using cancel_task_locked_safe [OF ser inv t(1,2)] by simp
  qed
qed

inductive store_reach :: "serializer \<Rightarrow> nat \<Rightarrow> store \<Rightarrow> bool" for ser where
  start: "limits_ok limits \<Longrightarrow> store_reach ser now (memory_task_store_new cfg limits)"
| step: "store_reach ser now st \<Longrightarrow> clock_ok now clk \<Longrightarrow> section_ok sec st \<Longrightarrow>
     run_section ser clk sec st = Some st' \<Longrightarrow> store_reach ser (at_again clk) st'"

lemma new_store_inv: "limits_ok limits \<Longrightarrow> store_inv ser now (memory_task_store_new cfg limits)"
  by (simp add: store_inv_def memory_task_store_new_def)

lemma store_reach_inv:
  assumes "compact_layout ser" and "store_reach ser now st"
  shows "store_inv ser now st"
  using assms(2)
proof (induction rule: store_reach.induct)
  case (start limits now cfg)
  then show ?case by (rule new_store_inv)
next
  case (step now st clk sec st')
  then show ?case
    using run_section_safe [OF assms(1) step.IH step.hyps(2,3)] by (simp add: safe_from_def)
qed

end
