(* ===== verification/TaskMoves.thy ===== *)
theory TaskMoves
  imports TaskSafety
begin

text \<open>
  The few ways in which a critical section of theory \<open>TaskSafety\<close> moves a store: it expires
  records, edits a live record in place, ends one and wakes its waiters, sets a new deadline, or
  changes no record.  The locale \<open>record_moves\<close> states them as laws of a relation between the
  stores before and after, and shows that a relation with these laws holds across every section but
  those that begin or remove records.  Theories \<open>TaskHistory\<close>, \<open>TaskWait\<close> and
  \<open>ExpiryWorker\<close> interpret it.
\<close>

section \<open>Records before and after\<close>

definition outcome :: "task \<Rightarrow> string option \<times> wire option \<times> json_rpc_error option \<times> nat option" where
  "outcome t = (t_status_message t, t_result t, t_error t, t_completed_at t)"

abbreviation ended :: "stored_task \<Rightarrow> bool" where
  "ended s \<equiv> is_terminal (t_status (s_task s))"

text \<open>Two versions of a record that no one has been told has expired.\<close>

definition same_record :: "stored_task \<Rightarrow> stored_task \<Rightarrow> bool" where
  "same_record s s' \<longleftrightarrow> \<not> s_expiry_signalled s \<and> \<not> s_expiry_signalled s'
     \<and> t_id (s_task s') = t_id (s_task s) \<and> t_owner (s_task s') = t_owner (s_task s)
     \<and> t_created_at (s_task s') = t_created_at (s_task s) \<and> t_ttl (s_task s') = t_ttl (s_task s)"

definition put_record :: "string \<Rightarrow> stored_task \<Rightarrow> store \<Rightarrow> store \<Rightarrow> bool" where
  "put_record k s' st st' \<longleftrightarrow> d_worker_generation st' = d_worker_generation st
     \<and> (\<forall>j. map_of (d_tasks st') j = (if j = k then Some s' else map_of (d_tasks st) j))"

definition same_records :: "store \<Rightarrow> store \<Rightarrow> bool" where
  "same_records st st' \<longleftrightarrow> d_worker_generation st' = d_worker_generation st \<and> woken st' = woken st
     \<and> (\<forall>j. map_of (d_tasks st') j = map_of (d_tasks st) j)"

definition retimed :: "string \<Rightarrow> stored_task \<Rightarrow> nat \<Rightarrow> string \<Rightarrow> store \<Rightarrow> store" where
  "retimed k s ms stamp st = st\<lparr>d_tasks := AList.update k
     (s\<lparr>s_task := (s_task s)\<lparr>t_ttl := ms, t_last_updated_at_str := stamp\<rparr>\<rparr>) (d_tasks st)\<rparr>"

text \<open>The sections that neither begin nor remove records.\<close>

fun in_place :: "store_section \<Rightarrow> bool" where
  "in_place (SecRetire remove) \<longleftrightarrow> \<not> remove"
| "in_place (SecAdmit i tool args ttl owner) \<longleftrightarrow> False"
| "in_place (SecDiscard i) \<longleftrightarrow> False"
| "in_place _ \<longleftrightarrow> True"

section \<open>Facts about single operations\<close>

lemma visible_live:
  assumes "store_inv ser now st" and "visible now' st i = Some s" and "now \<le> now'"
  shows "map_of (d_tasks st) i = Some s" "\<not> s_expiry_signalled s" "limits_ok (d_limits st)"
  using assms unexpired_entry [OF assms(1) _ _ assms(3), of i s] store_invD(1) [OF assms(1)]
  by (simp_all add: visible_iff)

lemma map_of_put_back:
  "map_of (AList.update i s (AList.delete i ts)) j = (if j = i then Some s else map_of ts j)"
  by (simp add: map_of_update_iff map_of_delete_iff)

lemma commit_retention_failure_tasks:
  "commit_retention_failure ser clk st i s old_ret old_res limits = Some st' \<Longrightarrow>
   \<exists>bytes. d_tasks st' = AList.update i (s\<lparr>s_task := fail_retention_limit (at_done clk) (at_stamp clk) (s_task s),
       s_retained_bytes := bytes, s_reserved_bytes := 0\<rparr>) (d_tasks st)
     \<and> woken st' = i # woken st \<and> raised st' = raised st
     \<and> d_worker_generation st' = d_worker_generation st"
  by (auto simp: commit_retention_failure_def Let_def commit_removed_task_def notify_waiters_def
      result_bind_Inr_iff split: Option.bind_splits sum.splits prod.splits elim!: expect.elims)
    (rule exI, rule refl)

lemma retire_one_signalled:
  "s_expiry_signalled (retire_one ser now s) \<longleftrightarrow> s_expiry_signalled s \<or> is_expired_at (s_task s) now"
  "t_status (s_task (retire_one ser now s)) = t_status (s_task s)"
  "t_created_at (s_task (retire_one ser now s)) = t_created_at (s_task s)"
  "t_ttl (s_task (retire_one ser now s)) = t_ttl (s_task s)"
  by (auto simp: retire_one_def newly_expired_def scrubbed_def scrub_expired_payload_def)

lemma map_of_retire_marked:
  "map_of (d_tasks (retire_marked ser now st)) k = map_option (retire_one ser now) (map_of (d_tasks st) k)"
  by (simp add: retire_marked_def Let_def map_of_retire_tasks)

section \<open>Relations that hold across sections\<close>

locale record_moves =
  fixes R :: "store \<Rightarrow> store \<Rightarrow> bool"
  assumes no_move [simp, intro]: "R st st"
    and then_move: "same_records st st' \<Longrightarrow> R st' st'' \<Longrightarrow> R st st''"
    and expiry_move: "store_inv ser now st \<Longrightarrow> now \<le> now' \<Longrightarrow> R st (retire_marked ser now' st)"
    and edit_move: "map_of (d_tasks st) k = Some s \<Longrightarrow> same_record s s' \<Longrightarrow> ended s' = ended s \<Longrightarrow>
      (ended s \<Longrightarrow> t_status (s_task s') = t_status (s_task s) \<and> outcome (s_task s') = outcome (s_task s)) \<Longrightarrow>
      put_record k s' st st' \<Longrightarrow> woken st' = woken st \<Longrightarrow> R st st'"
    and end_move: "map_of (d_tasks st) k = Some s \<Longrightarrow> same_record s s' \<Longrightarrow> \<not> ended s \<Longrightarrow> ended s' \<Longrightarrow>
      put_record k s' st st' \<Longrightarrow> woken st' = k # woken st \<Longrightarrow> R st st'"
    and ttl_move: "map_of (d_tasks st) k = Some s \<Longrightarrow> \<not> s_expiry_signalled s \<Longrightarrow>
      store_inv ser now (retimed k s ms stamp st) \<Longrightarrow> now \<le> now' \<Longrightarrow>
      R st (wake_worker (retire_marked ser now' (retimed k s ms stamp st)))"
begin

lemma retire_moves:
  assumes "compact_layout ser" and "store_inv ser now st" and "now \<le> now'"
    and "retire_expired ser now' False st = Some (st', r)"
  shows "R st st'"
  using retire_expired_eq(1) [OF assms(1-3)] assms(4) expiry_move [OF assms(2,3)] by auto

lemma edited_moves:
  assumes vis: "visible now' st k = Some s" and inv: "store_inv ser now st" "now \<le> now'"
    and ids: "t_id t = t_id (s_task s)" "t_owner t = t_owner (s_task s)"
      "t_created_at t = t_created_at (s_task s)" "t_ttl t = t_ttl (s_task s)"
    and fin: "is_terminal (t_status t) = ended s"
      "ended s \<Longrightarrow> t_status t = t_status (s_task s) \<and> outcome t = outcome (s_task s)"
  shows "R st (fst (store_edited ser clk k t st))"
proof (cases "prepare_stored_task ser clk t (d_limits st)")
  case (Inl e)
  then show ?thesis by (simp add: store_edited_def)
next
  case (Inr p)
  note v = visible_live [OF inv(1) vis inv(2)]
  note q = prepare_stored_task_ok [OF Inr v(3)]
  have "same_record s p" "ended p = ended s"
    "ended s \<Longrightarrow> t_status (s_task p) = t_status (s_task s) \<and> outcome (s_task p) = outcome (s_task s)"
    using q(1,2) v(2) ids fin by (simp_all add: same_record_def)
  note put = edit_move [OF v(1) this]
  show ?thesis
    using Inr v(1)
    by (auto simp: store_edited_def replace_stored_task_def put_record_def map_of_update_iff
        split: sum.split prod.split intro!: put)
qed

lemma ttl_moves:
  assumes ser: "compact_layout ser" and inv: "store_inv ser now st"
    and clk: "now \<le> at_check clk" "at_check clk \<le> at_again clk"
    and run: "set_ttl ser clk k ms st = Some (st', r)"
  shows "R st st'"
proof (cases "map_of (d_tasks st) k")
  case None
  then show ?thesis using run by (simp add: set_ttl_def)
next
  case (Some s)
  have up: "now \<le> at_again clk" using clk by simp
  show ?thesis
  proof (cases "is_expired_at (s_task s) (at_check clk)")
    case True
    then show ?thesis
      using run Some retire_moves [OF ser inv up] by (auto simp: set_ttl_def split: Option.bind_splits)
  next
    case False
    note put = set_ttl_put_inv [OF inv Some False clk(1), of ms, folded retimed_def]
    have "r = Inr True \<and> st' = wake_worker (retire_marked ser (at_again clk) (retimed k s ms (at_stamp clk) st))"
      using run Some False retire_expired_eq(1) [OF ser put up] by (simp add: set_ttl_def retimed_def)
    then show ?thesis
      using ttl_move [OF Some unexpired_entry(1) [OF inv Some False clk(1)] put up] by simp
  qed
qed

lemma put_back_moves:
  assumes "map_of (d_tasks st) k = Some s" and "woken st' = woken st"
    and "d_worker_generation st' = d_worker_generation st"
    and "d_tasks st' = AList.update k s (AList.delete k (d_tasks st))"
  shows "R st st'"
  using assms by (intro then_move [OF _ no_move]) (simp add: same_records_def map_of_put_back)

lemma retire_put_back_moves:
  assumes ser: "compact_layout ser" and inv: "store_inv ser now st"
    and cur: "map_of (d_tasks st) k = Some s" and le: "now \<le> now'"
    and run: "retire_expired ser now' False (st\<lparr>d_tasks := AList.update k s (AList.delete k (d_tasks st))\<rparr>)
      = Some (st', r)"
  shows "R st st'"
  using cur
  by (intro then_move [OF _ retire_moves [OF ser put_back_same_inv [OF inv cur, simplified] le run]])
    (simp add: same_records_def map_of_put_back)

lemma put_ended_moves:
  assumes "map_of (d_tasks st) k = Some cur" and "\<not> ended cur"
    and "d_tasks st' = AList.update k s' (AList.delete k (d_tasks st))"
    and "same_record cur s'" and "ended s'"
    and "woken st' = k # woken st" and "d_worker_generation st' = d_worker_generation st"
  shows "R st st'"
  using assms by (intro end_move [OF assms(1,4)]) (simp_all add: put_record_def map_of_put_back)

lemma failure_moves:
  assumes run: "commit_retention_failure ser clk (taken k st) k s old_ret old_res limits = Some st'"
    and cur: "map_of (d_tasks st) k = Some cur" "\<not> ended cur" and same: "same_record cur s"
  shows "R st st'"
proof -
  obtain bytes where "d_tasks st' = AList.update k
      (s\<lparr>s_task := fail_retention_limit (at_done clk) (at_stamp clk) (s_task s),
         s_retained_bytes := bytes, s_reserved_bytes := 0\<rparr>) (AList.delete k (d_tasks st))"
    "woken st' = k # woken st" "d_worker_generation st' = d_worker_generation st"
    using commit_retention_failure_tasks [OF run] by auto
  then show ?thesis
    using same by (intro put_ended_moves [OF cur]) (auto simp: same_record_def fail_retention_limit_def)
qed

lemma commit_moves:
  assumes run: "commit_terminal ser clk k s old_ret old_res (taken k st) = Some (st', r)"
    and cur: "map_of (d_tasks st) k = Some cur" "\<not> ended cur"
    and same: "same_record cur s" "ended s"
  shows "R st st'"
proof -
  have fail: "R st st''"
    if "commit_retention_failure ser clk (taken k st) k s' old_ret old_res (d_limits st) = Some st''"
      and "s_task s' = s_task s" "s_expiry_signalled s' = s_expiry_signalled s" for s' st''
    using failure_moves [OF that(1) cur] that(2,3) same by (simp add: same_record_def)
  have put: "R st st''"
    if "d_tasks st'' = AList.update k s' (AList.delete k (d_tasks st))"
      and "s_task s' = s_task s" "s_expiry_signalled s' = s_expiry_signalled s"
      and "woken st'' = k # woken st" "d_worker_generation st'' = d_worker_generation st" for s' st''
    using that(2-) same by (intro put_ended_moves [OF cur that(1)]) (auto simp: same_record_def)
  show ?thesis
    using run fail put
    by (auto simp: commit_terminal_def Let_def notify_waiters_def split: sum.splits prod.splits Option.bind_splits)
qed

lemma finish_moves:
  assumes ser: "compact_layout ser" and inv: "store_inv ser now st"
    and clk: "now \<le> at_check clk" "at_check clk \<le> at_again clk"
    and edit: "\<And>t. t_id (edit t) = t_id t \<and> t_owner (edit t) = t_owner t \<and> t_created_at (edit t) = t_created_at t
      \<and> t_ttl (edit t) = t_ttl t \<and> is_terminal (t_status (edit t))"
    and run: "finish_locked ser clk k check edit st = Some (st', r)"
  shows "R st st'"
proof (cases "map_of (d_tasks st) k")
  case None
  then show ?thesis using run by (simp add: finish_locked_def)
next
  case (Some s)
  have up: "now \<le> at_again clk" using clk by simp
  consider (terminal) "ended s" | (expired) "\<not> ended s" "is_expired_at (s_task s) (at_check clk)"
    | (live) "\<not> ended s" "\<not> is_expired_at (s_task s) (at_check clk)"
    by blast
  then show ?thesis
  proof cases
    case terminal
    then show ?thesis
      using run Some put_back_moves [OF Some, of st'] by (auto simp: finish_locked_def Let_def)
  next
    case expired
    then show ?thesis
      using run Some retire_put_back_moves [OF ser inv Some up]
      by (auto simp: finish_locked_def Let_def split: Option.bind_splits)
  next
    case live
    have "same_record s s" "same_record s (s\<lparr>s_task := edit (s_task s)\<rparr>)"
      using unexpired_entry(1) [OF inv Some live(2) clk(1)] edit by (simp_all add: same_record_def)
    then show ?thesis
      using run Some live edit [of "s_task s"] failure_moves [OF _ Some live(1)] commit_moves [OF _ Some live(1)]
      by (auto simp: finish_locked_def Let_def split: sum.splits Option.bind_splits)
  qed
qed

lemma cancel_moves:
  assumes ser: "compact_layout ser" and inv: "store_inv ser now st"
    and clk: "now \<le> at_check clk" "at_check clk \<le> at_again clk"
    and run: "cancel_task_locked ser clk k reason st = Some (st', r)"
  shows "R st st'"
proof (cases "map_of (d_tasks st) k")
  case None
  then show ?thesis using run by (simp add: cancel_task_locked_def)
next
  case (Some s)
  have up: "now \<le> at_again clk" using clk by simp
  consider (expired) "is_expired_at (s_task s) (at_check clk)"
    | (terminal) "\<not> is_expired_at (s_task s) (at_check clk)" "ended s"
    | (live) "\<not> is_expired_at (s_task s) (at_check clk)" "\<not> ended s"
    by blast
  then show ?thesis
  proof cases
    case expired
    then show ?thesis
      using run Some retire_put_back_moves [OF ser inv Some up]
      by (auto simp: cancel_task_locked_def Let_def split: Option.bind_splits)
  next
    case terminal
    then show ?thesis
      using run Some put_back_moves [OF Some, of st']
      by (auto simp: cancel_task_locked_def Let_def cancel_token_def)
  next
    case live
    note u = unexpired_entry(1) [OF inv Some live(1) clk(1)]
    show ?thesis
      using run Some live u
      by (auto simp: cancel_task_locked_def Let_def cancel_token_def notify_waiters_def same_record_def
          cancel_requested_def cancel_with_bounded_status_def
          split: Option.bind_splits sum.splits prod.splits if_splits intro!: put_ended_moves [OF Some live(2)])
  qed
qed

lemma apply_moves:
  assumes inv: "store_inv ser now st" "now \<le> at_check clk"
  shows "R st (fst (apply_input_responses_locked ser clk k responses st))"
proof (cases "visible (at_check clk) st k")
  case None
  then show ?thesis by (simp add: apply_input_responses_locked_eq)
next
  case (Some s)
  obtain t a where t: "applied_task clk responses (s_task s) = (t, a)"
    by (cases "applied_task clk responses (s_task s)")
  note f = applied_task_frame [OF t]
  show ?thesis
    using edited_moves [OF Some inv, of t clk] Some f
    by (auto simp: apply_input_responses_locked_eq t Let_def fst_case_sum_option split: sum.split)
qed

lemma section_moves:
  assumes ser: "compact_layout ser" and inv: "store_inv ser now st" and clk: "clock_ok now clk"
    and run: "run_section ser clk sec st = Some st'" and kind: "in_place sec"
  shows "R st st'"
proof -
  have t: "now \<le> at_check clk" "at_check clk \<le> at_again clk" using clk by (auto simp: clock_ok_def)
  note edited = edited_moves [OF _ inv t(1)]
  show ?thesis
  proof (cases sec)
    case (SecRetire r)
    then show ?thesis using run kind retire_moves [OF ser inv t(1)] by auto
  next
    case (SecMeta k m)
    then show ?thesis
      using run
      by (auto simp: set_task_meta_locked_def outcome_def split: option.split sum.split intro!: edited)
  next
    case (SecStatus k status msg)
    then show ?thesis
      using run
      by (auto simp: set_status_locked_def split: option.splits sum.splits if_splits intro!: edited)
  next
    case (SecTtl k ms)
    then show ?thesis using run ttl_moves [OF ser inv t] by auto
  next
    case (SecRequire k requests msg)
    then show ?thesis
      using run
      by (auto simp: require_input_locked_def Let_def split: option.splits sum.splits if_splits intro!: edited)
  next
    case (SecApply k responses)
    then show ?thesis using run apply_moves [OF inv t(1)] by auto
  next
    case (SecComplete k result)
    then show ?thesis
      using run finish_moves [OF ser inv t, where edit = "completed_edit clk result"]
      by (auto simp: complete_as_finish completed_edit_def)
  next
    case (SecFail k err)
    then show ?thesis
      using run finish_moves [OF ser inv t, where edit = "failed_edit clk err"]
      by (auto simp: fail_as_finish failed_edit_def)
  next
    case (SecCancel k reason)
    then show ?thesis using run cancel_moves [OF ser inv t] by auto
  qed (use kind in simp_all)
qed

end

end
