(* ===== verification/TaskHistory.thy ===== *)
theory TaskHistory
  imports TaskMoves
begin

text \<open>
  How one task record changes over the critical sections of theory \<open>TaskSafety\<close>: its identity
  is fixed, a terminal record keeps its outcome, and only expiry or \<open>discard_task\<close> takes it
  away.
\<close>

section \<open>The evolution of one record\<close>

definition evolves :: "stored_task \<Rightarrow> stored_task \<Rightarrow> bool" where
  "evolves s s' \<longleftrightarrow>
     t_id (s_task s') = t_id (s_task s) \<and> t_owner (s_task s') = t_owner (s_task s)
   \<and> t_created_at (s_task s') = t_created_at (s_task s)
   \<and> (s_expiry_signalled s \<longrightarrow> s_expiry_signalled s')
   \<and> (ended s \<longrightarrow> t_status (s_task s') = t_status (s_task s)
      \<and> (\<not> s_expiry_signalled s' \<longrightarrow> outcome (s_task s') = outcome (s_task s)))"

lemma evolves_refl [simp, intro]: "evolves s s"
  by (simp add: evolves_def)

lemma evolves_trans: "evolves s s' \<Longrightarrow> evolves s' s'' \<Longrightarrow> evolves s s''"
  by (simp add: evolves_def) metis

lemma evolves_same:
  "same_record s s' \<Longrightarrow> (ended s \<Longrightarrow> t_status (s_task s') = t_status (s_task s)
     \<and> outcome (s_task s') = outcome (s_task s)) \<Longrightarrow> evolves s s'"
  by (simp add: evolves_def same_record_def)

lemma evolves_retire: "evolves s (retire_one ser now s)"
  by (auto simp: evolves_def retire_one_def scrubbed_def scrub_expired_payload_def newly_expired_def)

definition keeps :: "string \<Rightarrow> store \<Rightarrow> store \<Rightarrow> bool" where
  "keeps j st st' \<longleftrightarrow>
     (\<forall>s. map_of (d_tasks st) j = Some s \<longrightarrow> (\<exists>s'. map_of (d_tasks st') j = Some s' \<and> evolves s s'))"

lemma keeps_trans: "keeps j st st' \<Longrightarrow> keeps j st' st'' \<Longrightarrow> keeps j st st''"
  unfolding keeps_def by (blast intro: evolves_trans)

lemma keeps_retire_marked: "keeps j st (retire_marked ser now st)"
  using evolves_retire by (auto simp: keeps_def map_of_retire_marked)

lemma keeps_put: "map_of (d_tasks st) k = Some s \<Longrightarrow> evolves s s' \<Longrightarrow> put_record k s' st st' \<Longrightarrow> keeps j st st'"
  by (auto simp: keeps_def put_record_def)

lemma keeps_retimed: "map_of (d_tasks st) k = Some s \<Longrightarrow> keeps j st (retimed k s ms stamp st)"
  by (rule keeps_put [where s' = "s\<lparr>s_task := (s_task s)\<lparr>t_ttl := ms, t_last_updated_at_str := stamp\<rparr>\<rparr>"])
    (auto simp: evolves_def outcome_def retimed_def put_record_def map_of_update_iff)

interpretation history: record_moves "keeps j" for j
proof unfold_locales
  show "keeps j st st" for st
    by (auto simp: keeps_def)
  show "keeps j st st''" if "same_records st st'" "keeps j st' st''" for st st' st''
    using that by (simp add: keeps_def same_records_def)
  show "keeps j st (retire_marked ser now' st)" for ser now now' st
    by (rule keeps_retire_marked)
  show "keeps j st st'" if "map_of (d_tasks st) k = Some s" "same_record s s'" "put_record k s' st st'"
    "ended s \<Longrightarrow> t_status (s_task s') = t_status (s_task s) \<and> outcome (s_task s') = outcome (s_task s)"
    for st k s s' st'
    by (rule keeps_put [OF that(1) evolves_same [OF that(2,4)] that(3)])
  show "keeps j st st'" if "map_of (d_tasks st) k = Some s" "same_record s s'" "\<not> ended s"
    "put_record k s' st st'" for st k s s' st'
    using that(3) by (intro keeps_put [OF that(1) evolves_same [OF that(2)] that(4)]) simp
  show "keeps j st (wake_worker (retire_marked ser now' (retimed k s ms stamp st)))"
    if "map_of (d_tasks st) k = Some s" for st k s ser now now' ms stamp
    using keeps_trans [OF keeps_retimed [OF that] keeps_retire_marked]
    by (simp add: keeps_def wake_worker_def)
qed

end
