(* ===== verification/TaskProps.thy ===== *)
theory TaskProps
  imports TaskHistory "HOL-Library.Code_Target_Nat"
begin

text \<open>
  The properties of \<open>MemoryTaskStore\<close>, stated over its reachable states: \<open>store_reach\<close> runs
  the critical sections of all operations in any order, and every property applies to an operation
  that starts in such a state.  The last section of each property's group evaluates it on a store
  that holds a concrete task, with the serializer \<open>compact_emit\<close>.
\<close>

section \<open>A concrete store\<close>

definition demo_clock :: "nat \<Rightarrow> clock" where
  "demo_clock n = \<lparr>at_retire = n, at_check = n, at_done = n, at_again = n, at_stamp = ''T''\<rparr>"

definition demo_empty :: store where
  "demo_empty = memory_task_store_new \<lparr>default_ttl = 1000, cleanup_interval = 1000\<rparr> limits_default"

definition demo_admit :: store_section where
  "demo_admit = SecAdmit ''a'' ''t'' JNull 5 (Some ''me'')"

definition demo_live :: store where
  "demo_live = the (run_section compact_emit (demo_clock 0) demo_admit demo_empty)"

definition demo_done :: store where
  "demo_done = the (run_section compact_emit (demo_clock 1) (SecComplete ''a'' (Encodes (JBool True))) demo_live)"

lemma demo_clock_ok: "m \<le> n \<Longrightarrow> clock_ok m (demo_clock n)"
  by (simp add: clock_ok_def demo_clock_def)

lemma demo_empty_reach: "store_reach compact_emit 0 demo_empty"
  unfolding demo_empty_def by (rule store_reach.start) code_simp

lemma demo_live_reach: "store_reach compact_emit 0 demo_live"
proof -
  have "run_section compact_emit (demo_clock 0) demo_admit demo_empty \<noteq> None" by code_simp
  then have "run_section compact_emit (demo_clock 0) demo_admit demo_empty = Some demo_live"
    by (auto simp: demo_live_def)
  moreover have "section_ok demo_admit demo_empty" by code_simp
  ultimately show ?thesis
    using store_reach.step [OF demo_empty_reach demo_clock_ok [OF le_refl]]
    by (simp add: demo_clock_def)
qed

lemma demo_done_reach: "store_reach compact_emit 1 demo_done"
proof -
  have "run_section compact_emit (demo_clock 1) (SecComplete ''a'' (Encodes (JBool True))) demo_live \<noteq> None"
    by code_simp
  then have "run_section compact_emit (demo_clock 1) (SecComplete ''a'' (Encodes (JBool True))) demo_live = Some demo_done"
    by (auto simp: demo_done_def)
  then show ?thesis
    using store_reach.step [OF demo_live_reach demo_clock_ok [of 0 1],
        of "SecComplete ''a'' (Encodes (JBool True))" demo_done]
    by (simp add: demo_clock_def del: run_section.simps)
qed

section \<open>Safety\<close>

text \<open>
  C1: the critical sections of the in-memory task store never panic.  From any state that any
  interleaving of sections reaches, every further section (with non-decreasing clock readings and,
  for an admission, an unused identifier) returns, so none of the \<open>expect\<close>s on the byte
  counters and on the size of the fixed replacement payloads fails.
\<close>

theorem task_store_never_panics:
  assumes "compact_layout ser" and "store_reach ser now st"
    and "clock_ok now clk" and "section_ok sec st"
  shows "\<exists>st'. run_section ser clk sec st = Some st' \<and> store_reach ser (at_again clk) st'"
  using run_section_safe [OF assms(1) store_reach_inv [OF assms(1,2)] assms(3,4)] store_reach.step [OF assms(2-4)]
  by (auto simp: safe_from_def)

lemma task_store_never_panics_witness:
  "\<exists>st'. run_section compact_emit (demo_clock 2) (SecCancel ''a'' (Some ''why'')) demo_live = Some st'
     \<and> store_reach compact_emit 2 st'"
  using task_store_never_panics [OF compact_emit_layout demo_live_reach demo_clock_ok [of 0 2],
    of "SecCancel ''a'' (Some ''why'')"]
  by (simp add: demo_clock_def)

text \<open>
  C9: the accounting is exact and bounded.  In every reachable state the retained counter is the
  sum of the serialized sizes of the records, the reserved counter the sum of the reservations,
  their total is within the byte limit (so \<open>charged_bytes\<close> does not saturate), and the number
  of records is within the task limit.
\<close>

theorem task_store_accounting:
  assumes "compact_layout ser" and "store_reach ser now st"
  shows "u_retained_bytes (store_usage_of st) = sum_list (map (\<lambda>kv. psize ser (s_task (snd kv))) (d_tasks st))
    \<and> u_reserved_bytes (store_usage_of st) = sum_list (map (\<lambda>kv. s_reserved_bytes (snd kv)) (d_tasks st))
    \<and> usage_charged_bytes (store_usage_of st)
        = u_retained_bytes (store_usage_of st) + u_reserved_bytes (store_usage_of st)
    \<and> usage_charged_bytes (store_usage_of st) \<le> max_retained_bytes (d_limits st)
    \<and> u_task_count (store_usage_of st) \<le> max_tasks (d_limits st)"
proof -
  note inv = store_reach_inv [OF assms]
  have sizes: "map (\<lambda>kv. s_retained_bytes (snd kv)) (d_tasks st) = map (\<lambda>kv. psize ser (s_task (snd kv))) (d_tasks st)"
  proof (rule map_cong [OF refl])
    fix kv assume "kv \<in> set (d_tasks st)"
    then have "map_of (d_tasks st) (fst kv) = Some (snd kv)" using store_invD(2) [OF inv] by simp
    from store_invD(3) [OF inv this] show "s_retained_bytes (snd kv) = psize ser (s_task (snd kv))"
      by (simp add: entry_ok_def stored_ok_def)
  qed
  show ?thesis
    unfolding sizes [symmetric]
    using store_invD(4-8) [OF inv]
    by (simp add: store_usage_of_def usage_charged_bytes_def alist_sum_def saturating_add_def)
qed

lemma task_store_accounting_witness:
  "u_retained_bytes (store_usage_of demo_live) = sum_list (map (\<lambda>kv. psize compact_emit (s_task (snd kv))) (d_tasks demo_live))
   \<and> u_task_count (store_usage_of demo_live) = 1
   \<and> usage_charged_bytes (store_usage_of demo_live) \<le> max_retained_bytes (d_limits demo_live)"
proof -
  have "u_task_count (store_usage_of demo_live) = 1" by code_simp
  then show ?thesis using task_store_accounting [OF compact_emit_layout demo_live_reach] by blast
qed

text \<open>What a section does to one record.\<close>

lemma section_keeps:
  assumes ser: "compact_layout ser" and inv: "store_inv ser now st" and clk: "clock_ok now clk"
    and ok: "section_ok sec st" and run: "run_section ser clk sec st = Some st'"
    and stay: "sec \<noteq> SecDiscard i"
      "sec = SecRetire True \<Longrightarrow> map_of (d_tasks st) i = Some s \<Longrightarrow> \<not> is_expired_at (s_task s) (at_check clk)"
    and cur: "map_of (d_tasks st) i = Some s"
  shows "\<exists>s'. map_of (d_tasks st') i = Some s' \<and> evolves s s'"
proof -
  have t: "now \<le> at_check clk" "at_check clk \<le> at_again clk" using clk by (auto simp: clock_ok_def)
  have "keeps i st st'" if "sec \<noteq> SecRetire True"
  proof (cases sec)
    case (SecAdmit k tool args ttl ow)
    then have "k \<noteq> i" using ok cur by (auto dest: map_of_SomeD intro: rev_image_eqI)
    then show ?thesis
      using run SecAdmit
      by (auto simp: keeps_def create_task_locked_def Let_def wake_worker_def map_of_update_iff
          split: sum.splits option.splits if_splits)
  next
    case (SecDiscard k)
    then show ?thesis
      using run stay(1) by (auto simp: keeps_def discard_task_def map_of_delete_iff
          split: option.splits Option.bind_splits)
  qed (use that history.section_moves [OF ser inv clk run] in auto)
  moreover have "\<exists>s'. map_of (d_tasks st') i = Some s' \<and> evolves s s'" if "sec = SecRetire True"
    using that run stay(2) [OF that cur] retire_expired_eq(2) [OF ser inv t(1)] cur
      store_invD(2) [OF retire_marked_inv [OF ser inv t(1)]] evolves_retire
    by (auto simp: retire_dropped_def map_of_unexpired retire_marked_def Let_def map_of_retire_tasks)
  ultimately show ?thesis using cur by (auto simp: keeps_def)
qed

text \<open>
  C13: a task keeps its identity and, once terminal, its outcome.  No section other than
  \<open>discard_task\<close> of this task or the removal of the expired removes its record; its id, owner and
  creation time never change; and a completed, failed or cancelled task keeps its status for ever
  and its status message, result, error and completion time until its payload expires.
\<close>

theorem terminal_outcome_stable:
  assumes "compact_layout ser" and "store_reach ser now st" and "clock_ok now clk"
    and "section_ok sec st" and "run_section ser clk sec st = Some st'"
    and "map_of (d_tasks st) i = Some s" and "sec \<noteq> SecDiscard i"
    and "\<not> is_expired_at (s_task s) (at_check clk)"
  shows "\<exists>s'. map_of (d_tasks st') i = Some s'
    \<and> t_id (s_task s') = i \<and> t_owner (s_task s') = t_owner (s_task s)
    \<and> t_created_at (s_task s') = t_created_at (s_task s)
    \<and> (is_terminal (t_status (s_task s)) \<longrightarrow> t_status (s_task s') = t_status (s_task s)
        \<and> (s_expiry_signalled s' \<or>
             t_status_message (s_task s') = t_status_message (s_task s)
           \<and> t_result (s_task s') = t_result (s_task s) \<and> t_error (s_task s') = t_error (s_task s)
           \<and> t_completed_at (s_task s') = t_completed_at (s_task s)))"
proof -
  note inv = store_reach_inv [OF assms(1,2)]
  have "t_id (s_task s) = i" using store_invD(3) [OF inv assms(6)] by (simp add: entry_ok_def)
  then show ?thesis
    using section_keeps [OF assms(1) inv assms(3-5,7) _ assms(6)] assms(8)
    by (auto simp: evolves_def outcome_def)
qed

lemma terminal_outcome_stable_witness:
  "\<exists>st' s'. run_section compact_emit (demo_clock 2) (SecFail ''a'' (internal_error ''late'')) demo_done = Some st'
     \<and> map_of (d_tasks st') ''a'' = Some s' \<and> t_owner (s_task s') = Some ''me''
     \<and> t_status (s_task s') = Completed"
proof -
  let ?sec = "SecFail ''a'' (internal_error ''late'')"
  have "run_section compact_emit (demo_clock 2) ?sec demo_done \<noteq> None" by code_simp
  then obtain st' where run: "run_section compact_emit (demo_clock 2) ?sec demo_done = Some st'" by auto
  have "case map_of (d_tasks demo_done) ''a'' of None \<Rightarrow> False
      | Some s \<Rightarrow> t_status (s_task s) = Completed \<and> t_owner (s_task s) = Some ''me''
          \<and> \<not> is_expired_at (s_task s) (at_check (demo_clock 2))"
    by code_simp
  then obtain s where s: "map_of (d_tasks demo_done) ''a'' = Some s" "t_status (s_task s) = Completed"
    "t_owner (s_task s) = Some ''me''" "\<not> is_expired_at (s_task s) (at_check (demo_clock 2))"
    by (auto split: option.splits)
  show ?thesis
    using terminal_outcome_stable [OF compact_emit_layout demo_done_reach demo_clock_ok _ run s(1) _ s(4)]
      run s by auto
qed

section \<open>Terminal transitions\<close>

lemma commit_failure_result:
  assumes ser: "compact_layout ser" and inv: "store_inv ser now st"
    and cur: "map_of (d_tasks st) i = Some cur"
    and live: "\<not> s_expiry_signalled cur" "\<not> is_terminal (t_status (s_task cur))"
    and s: "t_tool_name (s_task s) = t_tool_name (s_task cur)" "t_owner (s_task s) = t_owner (s_task cur)"
      "t_id (s_task s) = t_id (s_task cur)" "\<not> s_expiry_signalled s"
      "fail_retention_limit (at_done clk) (at_stamp clk) (s_task s)
         = fail_retention_limit (at_done clk) (at_stamp clk) (s_task cur)"
  shows "\<exists>st' s'. commit_retention_failure ser clk (taken i st) i s
      (s_retained_bytes cur) (s_reserved_bytes cur) (d_limits st) = Some st'
    \<and> map_of (d_tasks st') i = Some s'
    \<and> s_task s' = fail_retention_limit (at_done clk) (at_stamp clk) (s_task cur)
    \<and> s_reserved_bytes s' = 0 \<and> i \<in> set (woken st')"
proof -
  obtain st' where st': "commit_retention_failure ser clk (taken i st) i s
      (s_retained_bytes cur) (s_reserved_bytes cur) (d_limits st) = Some st'"
    using commit_retention_failure_safe [OF ser inv cur live s(1-4), where clk = clk]
    by (auto simp: safe_from_def)
  then show ?thesis
    using commit_retention_failure_tasks [OF st'] s(5) by (auto simp: map_of_put_back)
qed

lemma completed_edit_same:
  "t_tool_name (completed_edit clk result t) = t_tool_name t" "t_owner (completed_edit clk result t) = t_owner t"
  "t_id (completed_edit clk result t) = t_id t"
  "fail_retention_limit now stamp (completed_edit clk result t) = fail_retention_limit now stamp t"
  by (simp_all add: completed_edit_def fail_retention_limit_def)

text \<open>The commit of an encodable result: stored if it fits, replaced by the snapshot if not.\<close>

lemma commit_terminal_outcome:
  assumes ser: "compact_layout ser" and inv: "store_inv ser now st" and cur: "map_of (d_tasks st) i = Some s"
    and live: "\<not> s_expiry_signalled s" "\<not> is_terminal (t_status (s_task s))"
    and enc: "payload_encodes ser (completed_edit clk result (s_task s))"
  shows "\<exists>st' r s'. commit_terminal ser clk i (s\<lparr>s_task := completed_edit clk result (s_task s)\<rparr>)
        (s_retained_bytes s) (s_reserved_bytes s) (taken i st) = Some (st', r)
    \<and> map_of (d_tasks st') i = Some s' \<and> i \<in> set (woken st') \<and> s_reserved_bytes s' = 0
    \<and> (if d_retained_bytes st - s_retained_bytes s + (d_reserved_bytes st - s_reserved_bytes s)
               + psize ser (completed_edit clk result (s_task s)) \<le> max_retained_bytes (d_limits st)
       then r = Inr True \<and> s_task s' = completed_edit clk result (s_task s)
       else (\<exists>e. r = Inl e) \<and> s_task s' = fail_retention_limit (at_done clk) (at_stamp clk) (s_task s))"
proof -
  note le = entry_sums_le [OF inv cur] and lim = store_invD(1,7) [OF inv]
  let ?t = "completed_edit clk result (s_task s)" and ?L = "d_limits st"
  note failure = commit_failure_result [OF ser inv cur live, where clk = clk]
  have tot: "replacement_totals (taken i st) (s_retained_bytes s) (s_reserved_bytes s) (psize ser ?t) 0
      (max_retained_bytes ?L) =
    (if d_retained_bytes st - s_retained_bytes s + (d_reserved_bytes st - s_reserved_bytes s) + psize ser ?t
          \<le> max_retained_bytes ?L
     then Inr (d_retained_bytes st - s_retained_bytes s + psize ser ?t, d_reserved_bytes st - s_reserved_bytes s)
     else Inl (RetentionLimitExceeded AggregateBytes (max_retained_bytes ?L)))"
    using le lim by (simp add: replacement_totals_eq Let_def ac_simps)
  show ?thesis
  proof (cases "retained_payload_size ser ?t (max_retained_bytes ?L)")
    case (Inl e)
    then have "\<not> psize ser ?t \<le> max_retained_bytes ?L"
      using retained_payload_size_Inr_iff [OF lim(2), of ser ?t] enc by auto
    then show ?thesis
      using failure [of "s\<lparr>s_task := ?t\<rparr>"] live completed_edit_same Inl by (auto simp: commit_terminal_def Let_def)
  next
    case (Inr m)
    then have m: "m = psize ser ?t" using retained_payload_size_Inr_iff [OF lim(2)] by auto
    show ?thesis
      using failure [of "s\<lparr>s_task := ?t, s_retained_bytes := m, s_reserved_bytes := 0\<rparr>"] live completed_edit_same
        Inr m tot
      by (auto simp: commit_terminal_def Let_def notify_waiters_def map_of_put_back)
  qed
qed

text \<open>
  C29: \<open>complete_task\<close> on a live task.  If the result serializes, is within the payload
  limits, and the finished record fits the byte limit in place of the old one, the task is
  Completed with this result and nothing reserved.  Otherwise the call returns an error and the
  task is Failed with the fixed retention-limit snapshot.  Its waiters are woken either way.
\<close>

theorem complete_task_outcome:
  assumes ser: "compact_layout ser" and reach: "store_reach ser now st"
    and cur: "map_of (d_tasks st) i = Some s" and live: "\<not> is_terminal (t_status (s_task s))"
    and unexp: "\<not> is_expired_at (s_task s) (at_check clk)" and clk: "now \<le> at_check clk"
  shows "\<exists>st' r s'. complete_task_locked ser clk i result st = Some (st', r)
    \<and> map_of (d_tasks st') i = Some s' \<and> i \<in> set (woken st') \<and> s_reserved_bytes s' = 0
    \<and> (if encodes ser (DWire result) \<and> esize ser (DWire result) \<le> max_payload_bytes (d_limits st)
          \<and> esize ser (DWire result) \<le> max_retained_bytes (d_limits st)
          \<and> d_retained_bytes st - s_retained_bytes s + (d_reserved_bytes st - s_reserved_bytes s)
              + psize ser (completed_edit clk result (s_task s)) \<le> max_retained_bytes (d_limits st)
        then r = Inr True \<and> s_task s' = completed_edit clk result (s_task s)
        else (\<exists>e. r = Inl e) \<and> s_task s' = fail_retention_limit (at_done clk) (at_stamp clk) (s_task s))"
proof -
  note inv = store_reach_inv [OF ser reach]
  note u = unexpired_entry [OF inv cur unexp clk] and lim = store_invD(1) [OF inv]
  let ?t = "completed_edit clk result (s_task s)" and ?L = "d_limits st"
  have run: "complete_task_locked ser clk i result st =
      (case validate_payload ser (DWire result) ?L of
         Inl e \<Rightarrow> map_option (\<lambda>st'. (st', Inl e)) (commit_retention_failure ser clk (taken i st) i s
                    (s_retained_bytes s) (s_reserved_bytes s) ?L)
       | Inr _ \<Rightarrow> commit_terminal ser clk i (s\<lparr>s_task := ?t\<rparr>) (s_retained_bytes s) (s_reserved_bytes s) (taken i st))"
    using cur live unexp
    by (simp add: complete_as_finish finish_locked_def Let_def map_option_bind_case split: sum.split)
  show ?thesis
  proof (cases "validate_payload ser (DWire result) ?L")
    case (Inl e)
    then have bad: "\<not> (encodes ser (DWire result) \<and> esize ser (DWire result) \<le> max_payload_bytes ?L
        \<and> esize ser (DWire result) \<le> max_retained_bytes ?L)"
      using validate_payload_Inr_iff [OF lim(1), of ser "DWire result"] by auto
    show ?thesis
      using commit_failure_result [OF ser inv cur u(1) live, where clk = clk and s = s] u Inl run bad by auto
  next
    case (Inr n)
    then have good: "encodes ser (DWire result)" "esize ser (DWire result) \<le> max_payload_bytes ?L"
        "esize ser (DWire result) \<le> max_retained_bytes ?L"
      using validate_payload_Inr_iff [OF lim(1), of ser "DWire result"] by auto
    have enc: "payload_encodes ser ?t"
      using u(2) good(1)
      by (simp add: stored_ok_def payload_encodes_iff [OF ser] completed_edit_def esize_empty(3) [OF ser])
    show ?thesis using commit_terminal_outcome [OF ser inv cur u(1) live enc] run Inr good by simp
  qed
qed

text \<open>Reading one record out of a concrete store.\<close>

lemma demo_task:
  "case map_of (d_tasks demo_live) ''a'' of None \<Rightarrow> False
   | Some s \<Rightarrow> t_status (s_task s) = Working \<and> t_created_at (s_task s) = 0 \<and> t_ttl (s_task s) = 5
       \<and> t_owner (s_task s) = Some ''me'' \<and> t_id (s_task s) = ''a'' \<and> t_input_requests (s_task s) = []
       \<and> t_answered_input_keys (s_task s) = [] \<and> t_superseded_input_keys (s_task s) = []
       \<and> s_expiry_signalled s = False"
  by code_simp

lemma demo_taskE:
  obtains s where "map_of (d_tasks demo_live) ''a'' = Some s" "t_status (s_task s) = Working"
    "\<And>n. n < 5000000 \<Longrightarrow> \<not> is_expired_at (s_task s) n" "t_owner (s_task s) = Some ''me''"
    "t_id (s_task s) = ''a''" "t_input_requests (s_task s) = []" "t_answered_input_keys (s_task s) = []"
    "t_superseded_input_keys (s_task s) = []" "\<not> s_expiry_signalled s"
    "\<And>n. 5000000 \<le> n \<Longrightarrow> is_expired_at (s_task s) n"
  using demo_task
  by (auto simp: is_expired_at_def expires_at_def instant_checked_add_def INSTANT_MAX_def split: option.splits)

lemma complete_task_outcome_witness:
  "\<exists>st' r s'. complete_task_locked compact_emit (demo_clock 1) ''a'' (Encodes (JBool True)) demo_live = Some (st', r)
     \<and> map_of (d_tasks st') ''a'' = Some s' \<and> ''a'' \<in> set (woken st')"
proof -
  obtain s where s: "map_of (d_tasks demo_live) ''a'' = Some s" "t_status (s_task s) = Working"
    "\<And>n. n < 5000000 \<Longrightarrow> \<not> is_expired_at (s_task s) n"
    by (rule demo_taskE) (rule that)
  have "\<not> is_terminal (t_status (s_task s))" "\<not> is_expired_at (s_task s) (at_check (demo_clock 1))"
    "0 \<le> at_check (demo_clock 1)"
    using s by (simp_all add: demo_clock_def)
  from complete_task_outcome [OF compact_emit_layout demo_live_reach s(1) this, of "Encodes (JBool True)"]
  show ?thesis by blast
qed

end
