(* ===== verification/TaskProtocol.thy ===== *)
theory TaskProtocol
  imports TaskProps
begin

text \<open>
  What a client sees of the task store: admission, expiry, cancellation, and the exchange of
  input requests and responses.
\<close>

section \<open>Identifiers\<close>

lemma hex_digit_inj: "m < 16 \<Longrightarrow> n < 16 \<Longrightarrow> hex_digit m = hex_digit n \<longleftrightarrow> m = n"
proof -
  have "\<forall>m\<in>{..<16}. \<forall>n\<in>{..<16}. hex_digit m = hex_digit n \<longrightarrow> m = n" by code_simp
  then show "m < 16 \<Longrightarrow> n < 16 \<Longrightarrow> hex_digit m = hex_digit n \<longleftrightarrow> m = n" by auto
qed

lemma unat_lt_256: "unat (w :: 8 word) < 256"
proof -
  have "(unsigned w :: nat) < 2 ^ LENGTH(8)" by (rule unsigned_less)
  then show ?thesis by simp
qed

lemma hex_byte_inj: "hex_byte a = hex_byte b \<longleftrightarrow> a = b"
proof
  assume h: "hex_byte a = hex_byte b"
  have "unat a < 256" "unat b < 256" using unat_lt_256 by simp_all
  then have lt: "unat a div 16 < 16" "unat b div 16 < 16" by presburger+
  with h have "unat a div 16 = unat b div 16" "unat a mod 16 = unat b mod 16"
    by (simp_all add: hex_byte_def hex_digit_inj)
  then have "unat a = unat b" by (metis div_mult_mod_eq)
  then show "a = b" by (simp add: word_unat_eq_iff)
qed simp

lemma hex_byte_length: "length (hex_byte b) = 2"
  by (simp add: hex_byte_def)

lemma generate_task_id_inj:
  "length xs = length ys \<Longrightarrow> generate_task_id xs = generate_task_id ys \<longleftrightarrow> xs = ys"
proof (induction xs ys rule: list_induct2)
  case (Cons x xs y ys)
  then show ?case
    by (simp add: generate_task_id_def hex_byte_length hex_byte_inj)
qed simp

lemma generate_task_id_length: "length (generate_task_id xs) = 2 * length xs"
  by (induction xs) (simp_all add: generate_task_id_def hex_byte_length)

text \<open>
  Task identifiers carry all of their entropy: 16 random bytes give 32 characters, and
  different bytes give different identifiers.
\<close>

theorem task_ids_keep_entropy:
  assumes "length xs = 16" and "length ys = 16"
  shows "length (generate_task_id xs) = 32
    \<and> (generate_task_id xs = generate_task_id ys \<longleftrightarrow> xs = ys)"
  using assms by (simp add: generate_task_id_length generate_task_id_inj)

lemma task_ids_keep_entropy_witness:
  "length (generate_task_id (replicate 16 0)) = 32
   \<and> (generate_task_id (replicate 16 0) = generate_task_id (replicate 16 1) \<longleftrightarrow> replicate 16 (0 :: 8 word) = replicate 16 1)"
  by (rule task_ids_keep_entropy) simp_all

section \<open>Admission\<close>

text \<open>
  The store admits through \<open>create_task\<close> exactly what fits.  Under the second lock it refuses with the
  task-count limit when the map is full, refuses with the byte limit when the record and its
  reservation do not fit beside what is charged already, leaves the store as it was in both cases,
  and otherwise adds the record and its charge.
\<close>

theorem create_task_admission:
  assumes ser: "compact_layout ser" and reach: "store_reach ser now st" and fresh: "i \<notin> fst ` set (d_tasks st)"
  shows "create_task_locked i stored st =
    (if max_tasks (d_limits st) \<le> length (d_tasks st)
     then (st, Inl (RetentionLimitExceeded TaskCount (max_tasks (d_limits st))))
     else if max_retained_bytes (d_limits st)
         < d_retained_bytes st + d_reserved_bytes st + s_retained_bytes stored + s_reserved_bytes stored
     then (st, Inl (RetentionLimitExceeded AggregateBytes (max_retained_bytes (d_limits st))))
     else (st\<lparr>d_tasks := d_tasks st @ [(i, stored)],
              d_retained_bytes := d_retained_bytes st + s_retained_bytes stored,
              d_reserved_bytes := d_reserved_bytes st + s_reserved_bytes stored,
              d_worker_generation := d_worker_generation st + 1\<rparr>, Inr i))"
proof -
  note d = store_invD(6,7) [OF store_reach_inv [OF ser reach]]
  have "AList.update i stored (d_tasks st) = d_tasks st @ [(i, stored)]"
    using fresh by (simp add: alist_update_fresh)
  then show ?thesis
    using d by (cases st) (auto simp: create_task_locked_def Let_def checked_add_def charged_bytes_eq wake_worker_def)
qed

lemma create_task_admission_witness:
  "snd (create_task_locked ''b'' (stored_task_new (task_new ''b'' ''t'' JNull 1 None 0 '''') 70000000 0) demo_live)
   = Inl (RetentionLimitExceeded AggregateBytes (64 * 1024 * 1024))"
proof -
  have "''b'' \<notin> fst ` set (d_tasks demo_live)" by code_simp
  moreover have "d_limits demo_live = limits_default \<and> length (d_tasks demo_live) = 1"
    by code_simp
  ultimately show ?thesis
    using create_task_admission [OF compact_emit_layout demo_live_reach]
    by (simp add: limits_default_def stored_task_new_def)
qed

section \<open>Expiry\<close>

text \<open>
  An expired task is gone for clients and its execution is told to stop.  \<open>get_task\<close>
  answers, with \<open>None\<close> exactly when no record exists or the record's deadline has passed; and
  every task whose deadline has passed has its cancellation token raised and its waiters woken, and
  its payload dropped while the owner is kept for the tombstone.
\<close>

theorem expired_task_hidden:
  assumes ser: "compact_layout ser" and reach: "store_reach ser now st" and clk: "clock_ok now clk"
  shows "\<exists>st' r. get_task ser clk i st = Some (st', Inr r)
    \<and> (r = None \<longleftrightarrow> (\<forall>s. map_of (d_tasks st) i = Some s \<longrightarrow> is_expired_at (s_task s) (at_check clk)))
    \<and> (\<forall>k s. map_of (d_tasks st) k = Some s \<and> is_expired_at (s_task s) (at_retire clk) \<longrightarrow>
          k \<in> set (raised st') \<and> k \<in> set (woken st')
        \<and> (\<exists>s'. map_of (d_tasks st') k = Some s' \<and> t_owner (s_task s') = t_owner (s_task s)
              \<and> s_expiry_signalled s'
              \<and> (s_expiry_signalled s \<or>
                  t_arguments (s_task s') = JNull \<and> t_result (s_task s') = None
                \<and> t_error (s_task s') = None \<and> t_meta (s_task s') = None
                \<and> t_input_responses (s_task s') = [])))"
proof -
  note inv = store_reach_inv [OF ser reach]
  have le: "now \<le> at_retire clk" using clk by (simp add: clock_ok_def)
  let ?st = "retire_marked ser (at_retire clk) st"
  note inv' = retire_marked_inv [OF ser inv le]
  have map: "map_of (d_tasks ?st) k = map_option (retire_one ser (at_retire clk)) (map_of (d_tasks st) k)" for k
    by (simp add: retire_marked_def Let_def map_of_retire_tasks)
  have run: "get_task ser clk i st =
      Some (?st, Inr (map_option (\<lambda>s. to_task_object (s_task s)) (visible (at_check clk) ?st i)))"
    using retire_expired_eq(1) [OF ser inv le] by (simp add: get_task_def read_op_def)
  have vis: "visible (at_check clk) ?st i = None \<longleftrightarrow>
      (\<forall>s. map_of (d_tasks st) i = Some s \<longrightarrow> is_expired_at (s_task s) (at_check clk))"
    by (cases "map_of (d_tasks st) i") (simp_all add: visible_def map)
  have "k \<in> set (raised ?st) \<and> k \<in> set (woken ?st)
      \<and> (\<exists>s'. map_of (d_tasks ?st) k = Some s' \<and> t_owner (s_task s') = t_owner (s_task s) \<and> s_expiry_signalled s'
          \<and> (s_expiry_signalled s \<or> t_arguments (s_task s') = JNull \<and> t_result (s_task s') = None
              \<and> t_error (s_task s') = None \<and> t_meta (s_task s') = None \<and> t_input_responses (s_task s') = []))"
    if k: "map_of (d_tasks st) k = Some s" and e: "is_expired_at (s_task s) (at_retire clk)" for k s
  proof -
    let ?s = "retire_one ser (at_retire clk) s"
    have m: "map_of (d_tasks ?st) k = Some ?s" using k by (simp add: map)
    have sig: "s_expiry_signalled ?s" using e by (simp add: retire_one_def newly_expired_def)
    have "s_expiry_signalled s \<or> t_arguments (s_task ?s) = JNull \<and> t_result (s_task ?s) = None
        \<and> t_error (s_task ?s) = None \<and> t_meta (s_task ?s) = None \<and> t_input_responses (s_task ?s) = []"
      using e by (simp add: retire_one_def newly_expired_def scrubbed_def scrub_expired_payload_def)
    then show ?thesis
      using store_invD(3) [OF inv' m] m sig by (auto simp: entry_ok_def)
  qed
  then show ?thesis using run vis by (cases "visible (at_check clk) ?st i") auto
qed

lemma expired_task_hidden_witness:
  "\<exists>st'. get_task compact_emit (demo_clock 6000000) ''a'' demo_live = Some (st', Inr None) \<and> ''a'' \<in> set (raised st')"
proof -
  obtain s where s: "map_of (d_tasks demo_live) ''a'' = Some s"
    "\<And>n. 5000000 \<le> n \<Longrightarrow> is_expired_at (s_task s) n"
    by (rule demo_taskE) (rule that)
  have c: "at_retire (demo_clock 6000000) = 6000000" "at_check (demo_clock 6000000) = 6000000"
    by (simp_all add: demo_clock_def)
  have e: "is_expired_at (s_task s) 6000000" by (rule s(2)) simp
  obtain st' r where g: "get_task compact_emit (demo_clock 6000000) ''a'' demo_live = Some (st', Inr r)"
    "r = None \<longleftrightarrow> (\<forall>s. map_of (d_tasks demo_live) ''a'' = Some s \<longrightarrow> is_expired_at (s_task s) 6000000)"
    "map_of (d_tasks demo_live) ''a'' = Some s \<and> is_expired_at (s_task s) 6000000 \<longrightarrow> ''a'' \<in> set (raised st')"
    using expired_task_hidden [OF compact_emit_layout demo_live_reach demo_clock_ok [of 0 6000000], of "''a''"] c
    by auto
  then show ?thesis using s(1) e by auto
qed

section \<open>Cancellation\<close>

text \<open>
  Cancelling a visible task always succeeds.  A live task becomes Cancelled, with nothing
  reserved and its waiters woken, even when the requested reason does not fit the limits; a
  terminal one keeps its record.  Either way the token is raised and the caller gets the record's
  current state.
\<close>

theorem cancel_task_outcome:
  assumes ser: "compact_layout ser" and reach: "store_reach ser now st"
    and cur: "map_of (d_tasks st) i = Some s" and unexp: "\<not> is_expired_at (s_task s) (at_check clk)"
    and clk: "now \<le> at_check clk"
  shows "\<exists>st' s'. cancel_task_locked ser clk i reason st = Some (st', Inr (Some (to_task_object (s_task s'))))
    \<and> map_of (d_tasks st') i = Some s' \<and> i \<in> set (raised st')
    \<and> (if is_terminal (t_status (s_task s)) then s' = s
       else t_status (s_task s') = Cancelled \<and> s_reserved_bytes s' = 0 \<and> i \<in> set (woken st')
          \<and> t_input_requests (s_task s') = [] \<and> t_completed_at (s_task s') = Some (at_done clk)
          \<and> t_result (s_task s') = None)"
proof -
  note inv = store_reach_inv [OF ser reach]
  note u = unexpired_entry [OF inv cur unexp clk]
  show ?thesis
  proof (cases "is_terminal (t_status (s_task s))")
    case True
    then show ?thesis
      using cur unexp by (simp add: cancel_task_locked_def Let_def cancel_token_def map_of_put_back)
  next
    case False
    let ?t = "cancel_requested ser clk reason (d_limits st) (s_task s)"
    let ?t2 = "cancel_with_bounded_status (at_done clk) (at_stamp clk) CANCEL_RETENTION_STATUS True ?t"
    note w = cancel_requested_wf [OF u(3) False, of ser clk reason "d_limits st"]
    have r: "t_result (s_task s) = None" using u(3) False by (simp add: task_wf_def)
    have t: "t_status ?t = Cancelled" "t_input_requests ?t = []" "t_completed_at ?t = Some (at_done clk)"
      "t_result ?t = None"
      using r by (simp_all add: cancel_requested_def cancel_with_bounded_status_def Let_def)
    have t2: "t_status ?t2 = Cancelled" "t_input_requests ?t2 = []" "t_completed_at ?t2 = Some (at_done clk)"
      "t_result ?t2 = None"
      by (simp_all add: cancel_with_bounded_status_def Let_def)
    show ?thesis
    proof (cases "cancel_totals ser ?t (s_retained_bytes s) (s_reserved_bytes s) st")
      case (Inr x)
      then show ?thesis
        using cur unexp False t
        by (cases x) (simp add: cancel_task_locked_def Let_def cancel_token_def notify_waiters_def map_of_put_back)
    next
      case (Inl e)
      obtain ret res where "cancel_totals ser ?t2 (s_retained_bytes s) (s_reserved_bytes s) st
          = Inr (psize ser ?t2, ret, res)"
        using cancel_totals_bounded [OF ser inv cur u(1) False, of ?t "at_done clk" "at_stamp clk"] w by auto
      then show ?thesis
        using cur unexp False Inl t2
        by (simp add: cancel_task_locked_def Let_def cancel_token_def notify_waiters_def map_of_put_back)
    qed
  qed
qed

lemma cancel_task_outcome_witness:
  "\<exists>st' s'. cancel_task_locked compact_emit (demo_clock 1) ''a'' None demo_live
       = Some (st', Inr (Some (to_task_object (s_task s'))))
     \<and> map_of (d_tasks st') ''a'' = Some s' \<and> t_status (s_task s') = Cancelled"
proof -
  obtain s where s: "map_of (d_tasks demo_live) ''a'' = Some s" "t_status (s_task s) = Working"
    "\<And>n. n < 5000000 \<Longrightarrow> \<not> is_expired_at (s_task s) n"
    by (rule demo_taskE) (rule that)
  have "\<not> is_expired_at (s_task s) (at_check (demo_clock 1))" "0 \<le> at_check (demo_clock 1)"
    using s by (simp_all add: demo_clock_def)
  from cancel_task_outcome [OF compact_emit_layout demo_live_reach s(1) this, of None] s(2)
  show ?thesis by auto
qed

section \<open>Input requests and responses\<close>

lemma set_fold_bs_insert: "set (fold bs_insert ks acc) = set ks \<union> set acc"
  by (induction ks arbitrary: acc) (auto simp: set_bs_insert)

definition spent_keys :: "task \<Rightarrow> string set" where
  "spent_keys t = set (t_answered_input_keys t) \<union> set (t_superseded_input_keys t)"

lemma store_edited_Inr_True:
  assumes "store_edited ser clk i t st = (st', Inr True)" and "limits_ok (d_limits st)"
  shows "\<exists>s'. map_of (d_tasks st') i = Some s' \<and> s_task s' = t"
  using assms prepare_stored_task_ok(1) [of ser clk t "d_limits st"]
  by (auto simp: store_edited_def replace_stored_task_def map_of_update_iff
      split: sum.splits option.splits prod.splits)

text \<open>
  An input request key means one thing for the whole life of a task.  When
  \<open>require_input\<close> accepts a set of requests, none of its keys was answered or superseded
  before, and a key that is still outstanding comes with the same request; a key it drops joins the
  spent ones; no key leaves the spent set.  The task waits for exactly the new requests.
\<close>

theorem input_keys_never_reissued:
  assumes ser: "compact_layout ser" and reach: "store_reach ser now st"
    and cur: "map_of (d_tasks st) i = Some s"
    and run: "require_input_locked ser clk i requests msg st = (st', Inr True)"
  shows "\<exists>s'. map_of (d_tasks st') i = Some s' \<and> t_status (s_task s') = InputRequired
    \<and> t_input_requests (s_task s') = requests
    \<and> \<not> is_terminal (t_status (s_task s))
    \<and> (\<forall>(key, request)\<in>set requests. key \<notin> spent_keys (s_task s)
         \<and> (\<forall>old. map_of (t_input_requests (s_task s)) key = Some old \<longrightarrow> same_input_request old request))
    \<and> spent_keys (s_task s') =
         spent_keys (s_task s) \<union> (fst ` set (t_input_requests (s_task s)) - fst ` set requests)
    \<and> spent_keys (s_task s') \<inter> fst ` set requests = {}"
proof -
  note lim = store_invD(1) [OF store_reach_inv [OF ser reach]]
  let ?t = "s_task s"
  have live: "\<not> is_terminal (t_status ?t)" and fresh: "reused_keys ?t requests = []"
    and ed: "store_edited ser clk i
       (?t\<lparr>t_superseded_input_keys := supersede_dropped ?t requests, t_input_requests := requests,
          t_status := InputRequired,
          t_status_message := Some (case msg of Some m \<Rightarrow> m | None \<Rightarrow> ''Awaiting client input''),
          t_last_updated_at_str := at_stamp clk\<rparr>) st = (st', Inr True)"
    using run cur
    by (auto simp: require_input_locked_def visible_def Let_def split: if_splits sum.splits option.splits)
  obtain s' where s': "map_of (d_tasks st') i = Some s'"
    "s_task s' = ?t\<lparr>t_superseded_input_keys := supersede_dropped ?t requests, t_input_requests := requests,
          t_status := InputRequired,
          t_status_message := Some (case msg of Some m \<Rightarrow> m | None \<Rightarrow> ''Awaiting client input''),
          t_last_updated_at_str := at_stamp clk\<rparr>"
    using store_edited_Inr_True [OF ed lim] by blast
  have keys: "key \<notin> spent_keys ?t"
    "map_of (t_input_requests ?t) key = Some old \<Longrightarrow> same_input_request old request"
    if "(key, request) \<in> set requests" for key request old
    using fresh that
    by (auto simp: reused_keys_def spent_keys_def filter_empty_conv split: if_splits dest!: bspec)
  have spent: "spent_keys (s_task s') =
      spent_keys ?t \<union> (fst ` set (t_input_requests ?t) - fst ` set requests)"
    by (auto simp: s'(2) spent_keys_def supersede_dropped_def set_fold_bs_insert)
  then have "spent_keys (s_task s') \<inter> fst ` set requests = {}" using keys(1) by auto
  then show ?thesis using s' live keys spent by (intro exI [of _ s']) auto
qed

definition demo_requests :: input_requests where
  "demo_requests = [(''k'', Encodes (JBool True))]"

lemma input_keys_never_reissued_witness:
  "\<exists>s'. map_of (d_tasks (fst (require_input_locked compact_emit (demo_clock 1) ''a'' demo_requests None demo_live))) ''a''
       = Some s' \<and> t_input_requests (s_task s') = demo_requests"
proof -
  obtain s where s: "map_of (d_tasks demo_live) ''a'' = Some s" by (rule demo_taskE) (rule that)
  have "case snd (require_input_locked compact_emit (demo_clock 1) ''a'' demo_requests None demo_live) of
      Inr b \<Rightarrow> b | Inl e \<Rightarrow> False"
    by code_simp
  then obtain st' where run: "require_input_locked compact_emit (demo_clock 1) ''a'' demo_requests None demo_live
      = (st', Inr True)"
    by (cases "require_input_locked compact_emit (demo_clock 1) ''a'' demo_requests None demo_live")
      (auto split: sum.splits)
  show ?thesis using input_keys_never_reissued [OF compact_emit_layout demo_live_reach s run] run by auto
qed

lemma apply_responses_sets:
  assumes "apply_responses rs t a = (t', a')" and "distinct (map fst rs)"
    and "distinct (map fst (t_input_requests t))"
  shows "set (ap_accepted a') = set (ap_accepted a) \<union> (fst ` set rs \<inter> fst ` set (t_input_requests t))
    \<and> set (ap_ignored a') = set (ap_ignored a) \<union> (fst ` set rs - fst ` set (t_input_requests t))
    \<and> t_input_requests t' = filter (\<lambda>kv. fst kv \<notin> fst ` set rs) (t_input_requests t)
    \<and> set (t_answered_input_keys t') =
        set (t_answered_input_keys t) \<union> (fst ` set rs \<inter> fst ` set (t_input_requests t))
    \<and> (\<forall>k. map_of (t_input_responses t') k =
         (if k \<in> fst ` set rs \<inter> fst ` set (t_input_requests t) then map_of rs k
          else map_of (t_input_responses t) k))"
  using assms
proof (induction rs t a arbitrary: t' a' rule: apply_responses.induct)
  case (1 t a)
  then show ?case by simp
next
  case (2 key response rest t a)
  show ?case
  proof (cases "key \<in> fst ` set (t_input_requests t)")
    case True
    let ?u = "t\<lparr>t_input_requests := AList.delete key (t_input_requests t),
             t_answered_input_keys := bs_insert key (t_answered_input_keys t),
             t_input_responses := AList.update key response (t_input_responses t)\<rparr>"
    have d: "distinct (map fst (t_input_requests ?u))" using 2(5) by (simp add: distinct_delete)
    have run: "apply_responses rest ?u (a\<lparr>ap_accepted := bs_insert key (ap_accepted a)\<rparr>) = (t', a')"
      using 2(3) True by simp
    have nk: "key \<notin> fst ` set rest" "distinct (map fst rest)" using 2(4) by auto
    have del: "fst ` set (AList.delete key (t_input_requests t)) = fst ` set (t_input_requests t) - {key}"
      by (simp add: delete_keys [symmetric] AList.delete_eq) (auto simp: image_iff)
    have fil: "filter (\<lambda>kv. fst kv \<notin> fst ` set rest) (AList.delete key (t_input_requests t))
        = filter (\<lambda>kv. fst kv \<notin> fst ` set ((key, response) # rest)) (t_input_requests t)"
      unfolding AList.delete_eq filter_filter by (rule filter_cong [OF refl]) auto
    note ih = 2(1) [OF True run nk(2) d]
    have r: "\<forall>k. map_of (t_input_responses t') k =
        (if k \<in> fst ` set rest \<inter> (fst ` set (t_input_requests t) - {key}) then map_of rest k
         else if k = key then Some response else map_of (t_input_responses t) k)"
      using ih by (simp add: del map_of_update_iff)
    let ?O = "fst ` set (t_input_requests t)" and ?R = "fst ` set rest"
    have k: "fst ` set ((key, response) # rest) = insert key ?R" by simp
    have i: "set (ap_accepted a') = insert key (set (ap_accepted a)) \<union> (?R \<inter> (?O - {key}))"
      "set (ap_ignored a') = set (ap_ignored a) \<union> (?R - (?O - {key}))"
      "set (t_answered_input_keys t') = insert key (set (t_answered_input_keys t)) \<union> (?R \<inter> (?O - {key}))"
      using ih by (simp_all add: set_bs_insert del)
    have j: "insert key A \<union> (?R \<inter> (?O - {key})) = A \<union> (insert key ?R \<inter> ?O)"
      "A \<union> (?R - (?O - {key})) = A \<union> (insert key ?R - ?O)" for A
      using nk(1) True by blast+
    have "\<forall>k. map_of (t_input_responses t') k =
        (if k \<in> insert key ?R \<inter> ?O then map_of ((key, response) # rest) k
         else map_of (t_input_responses t) k)"
      using r nk(1) True by simp
    moreover have "t_input_requests t' =
        filter (\<lambda>kv. fst kv \<notin> fst ` set rest) (AList.delete key (t_input_requests t))"
      using ih by simp
    then have "t_input_requests t' =
        filter (\<lambda>kv. fst kv \<notin> insert key ?R) (t_input_requests t)"
      by (simp only: fil k)
    ultimately show ?thesis unfolding k i j by blast
  next
    case False
    have run: "apply_responses rest t (a\<lparr>ap_ignored := bs_insert key (ap_ignored a)\<rparr>) = (t', a')"
      using 2(3) False by simp
    have nk: "distinct (map fst rest)" using 2(4) by auto
    note ih = 2(2) [OF False run nk 2(5)]
    have fil: "filter (\<lambda>kv. fst kv \<notin> fst ` set rest) (t_input_requests t)
        = filter (\<lambda>kv. fst kv \<notin> fst ` set ((key, response) # rest)) (t_input_requests t)"
      by (rule filter_cong [OF refl]) (use False in force)
    have "t_input_requests t' = filter (\<lambda>kv. fst kv \<notin> fst ` set ((key, response) # rest)) (t_input_requests t)"
      unfolding fil [symmetric] using ih by simp
    then show ?thesis using ih False by (auto simp: set_bs_insert)
  qed
qed

text \<open>
  C31: \<open>apply_input_responses\<close> sorts the response keys exactly: accepted are those that
  were outstanding, ignored the others, still outstanding the requests left.  Accepted keys become
  spent, their responses are recorded, no other response changes, and the task resumes exactly when
  it was waiting for input and nothing is left to answer.
\<close>

theorem input_responses_partition:
  assumes ser: "compact_layout ser" and reach: "store_reach ser now st"
    and cur: "map_of (d_tasks st) i = Some s"
    and run: "apply_input_responses_locked ser clk i responses st = (st', Inr (Some applied))"
    and maps: "distinct (map fst responses)" "distinct (map fst (t_input_requests (s_task s)))"
  shows "\<exists>s'. map_of (d_tasks st') i = Some s'
    \<and> set (ap_accepted applied) = fst ` set responses \<inter> fst ` set (t_input_requests (s_task s))
    \<and> set (ap_ignored applied) = fst ` set responses - fst ` set (t_input_requests (s_task s))
    \<and> set (ap_still_outstanding applied) = fst ` set (t_input_requests (s_task s)) - fst ` set responses
    \<and> ap_still_outstanding applied = map fst (t_input_requests (s_task s'))
    \<and> spent_keys (s_task s') = spent_keys (s_task s) \<union> set (ap_accepted applied)
    \<and> (\<forall>k. map_of (t_input_responses (s_task s')) k =
         (if k \<in> set (ap_accepted applied) then map_of responses k
          else map_of (t_input_responses (s_task s)) k))
    \<and> t_status (s_task s') =
        (if t_status (s_task s) = InputRequired \<and> set (ap_still_outstanding applied) = {} then Working
         else t_status (s_task s))"
proof -
  note lim = store_invD(1) [OF store_reach_inv [OF ser reach]]
  obtain t3 where t3: "applied_task clk responses (s_task s) = (t3, applied)"
    and ed: "store_edited ser clk i t3 st = (st', Inr True)"
    using run cur
    by (auto simp: apply_input_responses_locked_eq visible_def Let_def
        split: if_splits sum.splits prod.splits)
  obtain s' where s': "map_of (d_tasks st') i = Some s'" "s_task s' = t3"
    using store_edited_Inr_True [OF ed lim] by blast
  obtain t1 a1 where 1: "apply_responses responses (s_task s)
      \<lparr>ap_accepted = [], ap_ignored = [], ap_still_outstanding = []\<rparr> = (t1, a1)"
    by (cases "apply_responses responses (s_task s)
      \<lparr>ap_accepted = [], ap_ignored = [], ap_still_outstanding = []\<rparr>")
  note sets = apply_responses_sets [OF 1 maps] and fr = apply_responses_frame [OF 1]
  have ap: "applied = a1\<lparr>ap_still_outstanding := map fst (t_input_requests t1)\<rparr>"
    using t3 by (auto simp: applied_task_def 1 Let_def)
  have fields: "t_input_requests t3 = t_input_requests t1" "t_input_responses t3 = t_input_responses t1"
    "t_answered_input_keys t3 = t_answered_input_keys t1" "t_superseded_input_keys t3 = t_superseded_input_keys t1"
    "t_status t3 = (if t_input_requests t1 = [] \<and> t_status t1 = InputRequired then Working else t_status t1)"
    using t3 by (auto simp: applied_task_def 1 Let_def applied_is_complete_def split: if_splits)
  have acc: "set (ap_accepted applied) = fst ` set responses \<inter> fst ` set (t_input_requests (s_task s))"
    "set (ap_ignored applied) = fst ` set responses - fst ` set (t_input_requests (s_task s))"
    using sets by (simp_all add: ap)
  have reqs: "t_input_requests t1 = filter (\<lambda>kv. fst kv \<notin> fst ` set responses) (t_input_requests (s_task s))"
    using sets by blast
  have still: "set (ap_still_outstanding applied) = fst ` set (t_input_requests (s_task s)) - fst ` set responses"
    by (auto simp: ap reqs)
  have out: "ap_still_outstanding applied = map fst (t_input_requests (s_task s'))"
    by (simp add: ap s'(2) fields)
  have spent: "spent_keys (s_task s') = spent_keys (s_task s) \<union> set (ap_accepted applied)"
    using sets fr by (simp add: spent_keys_def s'(2) fields acc Un_ac)
  have resp: "\<forall>k. map_of (t_input_responses (s_task s')) k =
      (if k \<in> set (ap_accepted applied) then map_of responses k else map_of (t_input_responses (s_task s)) k)"
    using sets by (simp add: s'(2) fields acc)
  have "t_status (s_task s') =
      (if t_status (s_task s) = InputRequired \<and> set (ap_still_outstanding applied) = {} then Working
       else t_status (s_task s))"
    using fr by (simp add: s'(2) fields ap)
  then show ?thesis using s'(1) acc still out spent resp by blast
qed

definition demo_waiting :: store where
  "demo_waiting = fst (require_input_locked compact_emit (demo_clock 1) ''a'' demo_requests None demo_live)"

lemma demo_waiting_reach: "store_reach compact_emit 1 demo_waiting"
  using store_reach.step [OF demo_live_reach demo_clock_ok [of 0 1], of "SecRequire ''a'' demo_requests None"]
  by (simp add: demo_waiting_def) (simp add: demo_clock_def)

lemma input_responses_partition_witness:
  "\<exists>s' applied. snd (apply_input_responses_locked compact_emit (demo_clock 2) ''a''
        [(''k'', Encodes JNull), (''z'', Encodes JNull)] demo_waiting) = Inr (Some applied)
     \<and> map_of (d_tasks (fst (apply_input_responses_locked compact_emit (demo_clock 2) ''a''
        [(''k'', Encodes JNull), (''z'', Encodes JNull)] demo_waiting))) ''a'' = Some s'
     \<and> set (ap_accepted applied) = {''k''} \<and> set (ap_ignored applied) = {''z''} \<and> t_status (s_task s') = Working"
proof -
  let ?rs = "[(''k'', Encodes JNull), (''z'', Encodes JNull)]"
  let ?r = "apply_input_responses_locked compact_emit (demo_clock 2) ''a'' ?rs demo_waiting"
  have "case map_of (d_tasks demo_waiting) ''a'' of None \<Rightarrow> False
      | Some s \<Rightarrow> t_status (s_task s) = InputRequired \<and> t_input_requests (s_task s) = demo_requests"
    by code_simp
  then obtain s where s: "map_of (d_tasks demo_waiting) ''a'' = Some s" "t_status (s_task s) = InputRequired"
    "t_input_requests (s_task s) = demo_requests"
    by (auto split: option.splits)
  have "case snd ?r of Inr (Some a) \<Rightarrow> True | _ \<Rightarrow> False" by code_simp
  then obtain st' applied where r: "?r = (st', Inr (Some applied))"
    by (cases ?r) (auto split: sum.splits option.splits)
  have "distinct (map fst (t_input_requests (s_task s)))" "distinct (map fst ?rs)"
    using s(3) by (simp_all add: demo_requests_def)
  from input_responses_partition [OF compact_emit_layout demo_waiting_reach s(1) r this(2,1)]
  obtain s' where m: "map_of (d_tasks st') ''a'' = Some s'"
    and "set (ap_accepted applied) = fst ` set ?rs \<inter> fst ` set (t_input_requests (s_task s))"
      "set (ap_ignored applied) = fst ` set ?rs - fst ` set (t_input_requests (s_task s))"
      "set (ap_still_outstanding applied) = fst ` set (t_input_requests (s_task s)) - fst ` set ?rs"
      "t_status (s_task s') =
        (if t_status (s_task s) = InputRequired \<and> set (ap_still_outstanding applied) = {} then Working
         else t_status (s_task s))"
    by blast
  then have "set (ap_accepted applied) = {''k''}" "set (ap_ignored applied) = {''z''}"
    "t_status (s_task s') = Working"
    by (simp_all add: s demo_requests_def)
  then show ?thesis using m r by (intro exI [of _ s'] exI [of _ applied]) simp
qed

end
