(* ===== verification/TaskWait.thy ===== *)
theory TaskWait
  imports TaskProtocol
begin

text \<open>
  Waiting for a task: \<open>MemoryTaskStore::wait_for_completion\<close> of
  \<open>crates/tower-mcp/src/async_task.rs\<close> as a future that is polled between the critical
  sections of other operations.  The waiters of a task hang on its \<open>Notify\<close>: a waiter that
  registered when the task had been signalled \<open>n\<close> times is notified as soon as it has been
  signalled more often (\<open>wakes\<close>), whether or not it is polled in between.
\<close>

section \<open>The future\<close>

definition wakes :: "string \<Rightarrow> store \<Rightarrow> nat" where
  "wakes i st = count_list (woken st) i"

text \<open>
  \<open>Fetching\<close> and \<open>Reading\<close> are the two sections of \<open>get_task_result\<close>; they carry the
  registration when they follow a cancellation, and nothing when they are the final read.
\<close>

datatype wait_phase =
  Entered
| Registering
| Selecting nat
| Fetching "nat option"
| Reading "nat option"
| Awaiting nat
| Returned "task_snapshot option"

definition task_snapshot_of :: "nat \<Rightarrow> string \<Rightarrow> store \<Rightarrow> task_snapshot option" where
  "task_snapshot_of now i st = map_option (\<lambda>s. snapshot (s_task s)) (visible now st i)"

fun snapshot_terminal :: "task_snapshot \<Rightarrow> bool" where
  "snapshot_terminal (object, result, err) = is_terminal (o_status object)"

definition wait_register :: "nat \<Rightarrow> string \<Rightarrow> store \<Rightarrow> wait_phase" where
  "wait_register now i st =
     (case visible now st i of
        None \<Rightarrow> Returned None
      | Some s \<Rightarrow>
          if is_terminal (t_status (s_task s)) then Returned (Some (snapshot (s_task s)))
          else Selecting (wakes i st))"

text \<open>\<open>select!\<close> takes either ready branch; \<open>pick\<close> says which when both are.\<close>

definition wait_select :: "bool \<Rightarrow> string \<Rightarrow> store \<Rightarrow> nat \<Rightarrow> wait_phase" where
  "wait_select pick i st n =
     (if n < wakes i st \<and> (pick \<or> i \<notin> set (raised st)) then Fetching None
      else if i \<in> set (raised st) then Fetching (Some n)
      else Selecting n)"

definition wait_read :: "nat \<Rightarrow> string \<Rightarrow> store \<Rightarrow> nat option \<Rightarrow> wait_phase" where
  "wait_read now i st registered =
     (let found = task_snapshot_of now i st in
      case (registered, found) of
        (Some n, Some task) \<Rightarrow> if snapshot_terminal task then Returned found else Awaiting n
      | _ \<Rightarrow> Returned found)"

fun wait_poll ::
  "serializer \<Rightarrow> clock \<Rightarrow> bool \<Rightarrow> string \<Rightarrow> store \<Rightarrow> wait_phase \<Rightarrow> (store \<times> wait_phase) option" where
  "wait_poll ser clk pick i st Entered =
     do { (st1, _) \<leftarrow> retire_expired ser (at_check clk) False st; Some (st1, Registering) }"
| "wait_poll ser clk pick i st Registering = Some (st, wait_register (at_check clk) i st)"
| "wait_poll ser clk pick i st (Selecting n) = Some (st, wait_select pick i st n)"
| "wait_poll ser clk pick i st (Fetching reg) =
     do { (st1, _) \<leftarrow> retire_expired ser (at_check clk) False st; Some (st1, Reading reg) }"
| "wait_poll ser clk pick i st (Reading reg) = Some (st, wait_read (at_check clk) i st reg)"
| "wait_poll ser clk pick i st (Awaiting n) =
     Some (st, if n < wakes i st then Fetching None else Awaiting n)"
| "wait_poll ser clk pick i st (Returned r) = Some (st, Returned r)"

section \<open>What a section does to the waiters of a task\<close>

definition live_task :: "string \<Rightarrow> store \<Rightarrow> bool" where
  "live_task i st = (case map_of (d_tasks st) i of None \<Rightarrow> False
     | Some s \<Rightarrow> \<not> is_terminal (t_status (s_task s)) \<and> \<not> s_expiry_signalled s)"

lemma live_task_iff:
  "live_task i st \<longleftrightarrow> (\<exists>s. map_of (d_tasks st) i = Some s
     \<and> \<not> is_terminal (t_status (s_task s)) \<and> \<not> s_expiry_signalled s)"
  by (simp add: live_task_def split: option.split)

text \<open>No signal without an end, no end without a signal, and no way back.\<close>

definition advances :: "string \<Rightarrow> store \<Rightarrow> store \<Rightarrow> bool" where
  "advances i st st' \<longleftrightarrow> wakes i st \<le> wakes i st'
     \<and> (if live_task i st then live_task i st' = (wakes i st' = wakes i st) else \<not> live_task i st')"

lemma advances_refl [simp, intro]: "advances i st st"
  by (simp add: advances_def)

lemma advances_trans: "advances i st st' \<Longrightarrow> advances i st' st'' \<Longrightarrow> advances i st st''"
  by (auto simp: advances_def split: if_splits)

lemma advances_same:
  "map_of (d_tasks st') i = map_of (d_tasks st) i \<Longrightarrow> wakes i st' = wakes i st \<Longrightarrow> advances i st st'"
  by (simp add: advances_def live_task_iff)

lemma advances_wake_worker [simp]: "advances i st (wake_worker st') = advances i st st'"
  by (auto simp: advances_def live_task_iff wakes_def wake_worker_def)

lemma count_map_key:
  assumes "distinct (map fst xs)" and "\<And>k s. (k, s) \<in> set xs \<Longrightarrow> f s = k"
  shows "count_list (map (\<lambda>kv. f (snd kv)) (filter (\<lambda>kv. P (snd kv)) xs)) i
    = (case map_of xs i of Some s \<Rightarrow> if P s then 1 else 0 | None \<Rightarrow> 0)"
  using assms
proof (induction xs)
  case (Cons kv xs)
  have "count_list (map (\<lambda>kv. f (snd kv)) (filter (\<lambda>kv. P (snd kv)) xs)) i
    = (case map_of xs i of Some s \<Rightarrow> if P s then 1 else 0 | None \<Rightarrow> 0)"
    by (rule Cons.IH) (use Cons.prems in auto)
  moreover have "map_of xs (fst kv) = None" using Cons.prems(1) by (simp add: map_of_eq_None_iff)
  moreover have "f (snd kv) = fst kv" by (rule Cons.prems(2)) simp
  ultimately show ?case by (cases kv) (auto split: option.splits)
qed simp

lemma wakes_retire_marked:
  assumes "store_inv ser now st"
  shows "wakes i (retire_marked ser now' st) = wakes i st
    + (case map_of (d_tasks st) i of Some s \<Rightarrow> if newly_expired now' s then 1 else 0 | None \<Rightarrow> 0)"
proof -
  have "t_id (s_task s) = k" if "(k, s) \<in> set (d_tasks st)" for k s
    using store_invD(3) [OF assms, of k s] store_invD(2) [OF assms] that by (simp add: entry_ok_def)
  from count_map_key [OF store_invD(2) [OF assms] this, where P = "newly_expired now'" and i = i]
  show ?thesis by (simp add: wakes_def retire_marked_def Let_def)
qed

lemma advances_retire_marked:
  assumes "store_inv ser now st"
  shows "advances i st (retire_marked ser now' st)"
  unfolding advances_def live_task_iff wakes_retire_marked [OF assms]
  by (auto simp: map_of_retire_marked retire_one_signalled newly_expired_def split: option.splits)

lemma advances_retire_removed:
  assumes ser: "compact_layout ser" and inv: "store_inv ser now st" and le: "now \<le> now'"
    and run: "retire_expired ser now' True st = Some (st', r)"
  shows "advances i st st'"
proof -
  let ?m = "retire_marked ser now' st"
  note m = retire_marked_inv [OF ser inv le]
  have "\<not> is_expired_at (s_task s) now'" if "map_of (d_tasks ?m) i = Some s" "\<not> s_expiry_signalled s" for s
    using that by (auto simp: map_of_retire_marked retire_one_signalled)
  then have "advances i ?m (retire_dropped now' ?m)"
    by (auto simp: advances_def live_task_iff wakes_def retire_dropped_def
        map_of_unexpired [OF store_invD(2) [OF m]] split: option.splits)
  from advances_trans [OF advances_retire_marked [OF inv] this] show ?thesis
    using run retire_expired_eq(2) [OF ser inv le] by auto
qed

lemma advances_put:
  "map_of (d_tasks st) k = Some s \<Longrightarrow> same_record s s' \<Longrightarrow> ended s' = ended s \<Longrightarrow>
   put_record k s' st st' \<Longrightarrow> woken st' = woken st \<Longrightarrow> advances i st st'"
  by (simp add: advances_def live_task_iff wakes_def put_record_def same_record_def)

lemma advances_end:
  "map_of (d_tasks st) k = Some s \<Longrightarrow> same_record s s' \<Longrightarrow> \<not> ended s \<Longrightarrow> ended s' \<Longrightarrow>
   put_record k s' st st' \<Longrightarrow> woken st' = k # woken st \<Longrightarrow> advances i st st'"
  by (auto simp: advances_def live_task_iff wakes_def put_record_def same_record_def)

lemma advances_retimed: "map_of (d_tasks st) k = Some s \<Longrightarrow> advances i st (retimed k s ms stamp st)"
  by (auto simp: advances_def live_task_iff wakes_def retimed_def map_of_update_iff)

interpretation waiters: record_moves "advances i" for i
proof unfold_locales
  show "advances i st st" for st
    by (rule advances_refl)
  show "advances i st st''" if "same_records st st'" "advances i st' st''" for st st' st''
    by (rule advances_trans [OF advances_same that(2)]) (use that(1) in \<open>simp_all add: same_records_def wakes_def\<close>)
  show "advances i st (retire_marked ser now' st)" if "store_inv ser now st" for ser now now' st
    using that by (rule advances_retire_marked)
  show "advances i st (wake_worker (retire_marked ser now' (retimed k s ms stamp st)))"
    if "map_of (d_tasks st) k = Some s" "store_inv ser now (retimed k s ms stamp st)"
    for st k s ser now now' ms stamp
    using advances_trans [OF advances_retimed [OF that(1)] advances_retire_marked [OF that(2)]] by simp
qed (erule (4) advances_put, erule (5) advances_end)

text \<open>The sections that leave this task in its place, or remove it because it has expired.\<close>

fun same_life :: "string \<Rightarrow> store_section \<Rightarrow> bool" where
  "same_life i (SecAdmit k tool args ttl owner) \<longleftrightarrow> k \<noteq> i"
| "same_life i (SecDiscard k) \<longleftrightarrow> k \<noteq> i"
| "same_life i _ \<longleftrightarrow> True"

lemma advances_section:
  assumes ser: "compact_layout ser" and inv: "store_inv ser now st" and clk: "clock_ok now clk"
    and run: "run_section ser clk sec st = Some st'" and life: "same_life i sec"
  shows "advances i st st'"
proof (cases "in_place sec")
  case True
  then show ?thesis by (rule waiters.section_moves [OF ser inv clk run])
next
  case False
  have t: "now \<le> at_check clk" using clk by (simp add: clock_ok_def)
  show ?thesis
  proof (cases sec)
    case (SecRetire r)
    then show ?thesis using run False advances_retire_removed [OF ser inv t] by auto
  next
    case (SecAdmit k tool args ttl ow)
    then show ?thesis
      using run life
      by (auto simp: create_task_locked_def Let_def wake_worker_def map_of_update_iff wakes_def
          split: sum.splits option.splits if_splits intro!: advances_same)
  next
    case (SecDiscard k)
    then show ?thesis
      using run life
      by (auto simp: discard_task_def map_of_delete_iff wakes_def
          split: option.splits Option.bind_splits intro!: advances_same)
  qed (use False in simp_all)
qed

section \<open>Executions\<close>

text \<open>
  A waiter of task \<open>i\<close> between sections of any operations.  Its polls are interleaved with
  them, the holder of a token may cancel it at any time, and the \<open>k\<close> counts the polls made
  since the task was over.  Left out are the two sections that end or begin the life of the record
  itself: \<open>discard_task\<close> of this task, which only the router calls and only before the
  identifier is known to a client, and an admission that generates the same identifier again.
\<close>

inductive wait_reach :: "serializer \<Rightarrow> string \<Rightarrow> nat \<Rightarrow> nat \<Rightarrow> store \<Rightarrow> wait_phase \<Rightarrow> bool" for ser i where
  enter: "store_reach ser now st \<Longrightarrow> wait_reach ser i 0 now st Entered"
| other: "wait_reach ser i k now st ph \<Longrightarrow> clock_ok now clk \<Longrightarrow> section_ok sec st \<Longrightarrow> same_life i sec \<Longrightarrow>
     run_section ser clk sec st = Some st' \<Longrightarrow> wait_reach ser i k (at_again clk) st' ph"
| token: "wait_reach ser i k now st ph \<Longrightarrow> wait_reach ser i k now (cancel_token j st) ph"
| poll: "wait_reach ser i k now st ph \<Longrightarrow> clock_ok now clk \<Longrightarrow>
     wait_poll ser clk pick i st ph = Some (st', ph') \<Longrightarrow>
     wait_reach ser i (if live_task i st then k else Suc k) (at_again clk) st' ph'"

fun phase_ok :: "string \<Rightarrow> store \<Rightarrow> wait_phase \<Rightarrow> bool" where
  "phase_ok i st (Selecting n) \<longleftrightarrow> n \<le> wakes i st \<and> live_task i st = (wakes i st = n)"
| "phase_ok i st (Awaiting n) \<longleftrightarrow> n \<le> wakes i st \<and> live_task i st = (wakes i st = n)"
| "phase_ok i st (Fetching (Some n)) \<longleftrightarrow> n \<le> wakes i st \<and> live_task i st = (wakes i st = n)"
| "phase_ok i st (Reading (Some n)) \<longleftrightarrow> n \<le> wakes i st \<and> live_task i st = (wakes i st = n)"
| "phase_ok i st (Fetching None) \<longleftrightarrow> \<not> live_task i st"
| "phase_ok i st (Reading None) \<longleftrightarrow> \<not> live_task i st"
| "phase_ok i st (Returned r) \<longleftrightarrow> (case r of None \<Rightarrow> True | Some t \<Rightarrow> snapshot_terminal t)"
| "phase_ok i st _ \<longleftrightarrow> True"

text \<open>Polls that are left once the task is over.\<close>

fun polls_left :: "wait_phase \<Rightarrow> nat" where
  "polls_left (Selecting n) = 3"
| "polls_left (Awaiting n) = 3"
| "polls_left (Fetching r) = 2"
| "polls_left Entered = 2"
| "polls_left (Reading r) = 1"
| "polls_left Registering = 1"
| "polls_left (Returned r) = 0"

lemma phase_ok_advances: "advances i st st' \<Longrightarrow> phase_ok i st ph \<Longrightarrow> phase_ok i st' ph"
  by (cases "(i, st, ph)" rule: phase_ok.cases) (auto simp: advances_def split: if_splits)

lemma snapshot_terminal_snapshot [simp]: "snapshot_terminal (snapshot t) = is_terminal (t_status t)"
  by (simp add: snapshot_def to_task_object_def)

lemma visible_live_task:
  assumes "store_inv ser now st" and "visible now' st i = Some s" and "now \<le> now'"
  shows "live_task i st = (\<not> is_terminal (t_status (s_task s)))"
  using visible_live(1,2) [OF assms] by (simp add: live_task_iff)

lemma wait_register_ok:
  assumes "store_inv ser now st" and "now \<le> now'"
  shows "phase_ok i st (wait_register now' i st)"
    and "\<not> live_task i st \<Longrightarrow> polls_left (wait_register now' i st) = 0"
    and "wait_register now' i st = Returned r \<Longrightarrow> r = task_snapshot_of now' i st"
  using visible_live_task [OF assms(1) _ assms(2), of i]
  by (auto simp: wait_register_def task_snapshot_of_def split: option.splits if_splits)

lemma wait_select_ok:
  assumes "phase_ok i st (Selecting n)"
  shows "phase_ok i st (wait_select pick i st n)"
    and "\<not> live_task i st \<Longrightarrow> polls_left (wait_select pick i st n) = 2"
  using assms by (auto simp: wait_select_def)

lemma wait_read_ok:
  assumes "store_inv ser now st" and "now \<le> now'" and "phase_ok i st (Reading reg)"
  shows "phase_ok i st (wait_read now' i st reg)"
    and "\<not> live_task i st \<Longrightarrow> polls_left (wait_read now' i st reg) = 0"
    and "wait_read now' i st reg = Returned r \<Longrightarrow> r = task_snapshot_of now' i st"
  using visible_live_task [OF assms(1) _ assms(2), of i] assms(3)
  by (auto simp: wait_read_def task_snapshot_of_def Let_def split: option.splits if_splits)

text \<open>One poll: it answers, keeps the invariants and comes closer to the end.\<close>

lemma wait_poll_ok:
  assumes ser: "compact_layout ser" and inv: "store_inv ser now st" and clk: "clock_ok now clk"
    and ph: "phase_ok i st ph"
  shows "\<exists>st' ph'. wait_poll ser clk pick i st ph = Some (st', ph') \<and> store_inv ser (at_again clk) st'
    \<and> advances i st st' \<and> phase_ok i st' ph'
    \<and> (\<forall>r. ph' = Returned r \<longrightarrow> ph = Returned r \<or> r = task_snapshot_of (at_check clk) i st)
    \<and> (\<not> live_task i st \<longrightarrow> polls_left ph' = polls_left ph - 1)"
proof -
  have t: "now \<le> at_check clk" "at_check clk \<le> at_again clk" "now \<le> at_again clk"
    using clk by (auto simp: clock_ok_def)
  note up = store_inv_mono [OF inv t(3)]
  let ?m = "retire_marked ser (at_check clk) st"
  have retire: "retire_expired ser (at_check clk) False st =
      Some (?m, \<lparr>ret_signalled = length (newly (at_check clk) (d_tasks st)), ret_removed = 0\<rparr>)"
    "store_inv ser (at_again clk) ?m" "advances i st ?m"
    using retire_expired_eq(1) [OF ser inv t(1)] store_inv_mono [OF retire_marked_inv [OF ser inv t(1)] t(2)]
      advances_retire_marked [OF inv] by simp_all
  show ?thesis
  proof (cases ph)
    case (Fetching reg)
    then have "phase_ok i ?m (Reading reg)"
      using phase_ok_advances [OF retire(3) ph] by (cases reg) auto
    then show ?thesis using Fetching retire by simp
  next
    case Registering
    then show ?thesis using wait_register_ok [OF inv t(1), of i] up by auto
  next
    case (Selecting n)
    have "wait_select pick i st n \<noteq> Returned r" for r by (simp add: wait_select_def)
    then show ?thesis using Selecting wait_select_ok [OF ph [unfolded Selecting]] up by auto
  next
    case (Reading reg)
    then show ?thesis using wait_read_ok [OF inv t(1), of i reg] ph up by auto
  next
    case (Awaiting n)
    then show ?thesis using ph up by auto
  qed (use ph up retire in auto)
qed

lemma store_inv_token: "store_inv ser now st \<Longrightarrow> store_inv ser now (cancel_token j st)"
  by (auto simp: store_inv_def entry_ok_def cancel_token_def)

lemma wait_reach_ok:
  assumes ser: "compact_layout ser" and reach: "wait_reach ser i k now st ph"
  shows "store_inv ser now st \<and> phase_ok i st ph \<and> (0 < k \<longrightarrow> \<not> live_task i st) \<and> polls_left ph \<le> 3 - k"
  using reach
proof (induction rule: wait_reach.induct)
  case (enter now st)
  then show ?case by (simp add: store_reach_inv [OF ser])
next
  case (other k now st ph clk sec st')
  then have inv: "store_inv ser (at_again clk) st'"
    using run_section_safe [OF ser _ other.hyps(2,3)] by (simp add: safe_from_def)
  have "advances i st st'"
    using other.IH by (intro advances_section [OF ser _ other.hyps(2,5,4)]) auto
  with inv show ?case using other.IH phase_ok_advances by (auto simp: advances_def)
next
  case (token k now st ph j)
  have "advances i st (cancel_token j st)" by (rule advances_same) (simp_all add: cancel_token_def wakes_def)
  then show ?case using token.IH phase_ok_advances store_inv_token by (auto simp: advances_def)
next
  case (poll k now st ph clk pick st' ph')
  then have "store_inv ser (at_again clk) st' \<and> advances i st st' \<and> phase_ok i st' ph'
      \<and> (\<not> live_task i st \<longrightarrow> polls_left ph' = polls_left ph - 1)"
    using wait_poll_ok [OF ser _ poll.hyps(2), of st i ph pick] by auto
  moreover have "polls_left ph' \<le> 3" by (cases ph') auto
  ultimately show ?case using poll.IH by (auto simp: advances_def)
qed

section \<open>A waiter returns exactly when the task is over\<close>


text \<open>A waiter that registers on the live task and is polled again after its completion.\<close>

definition demo_step :: "(bool \<Rightarrow> nat \<Rightarrow> store \<times> wait_phase \<Rightarrow> store \<times> wait_phase)" where
  "demo_step pick t sp = the (wait_poll compact_emit (demo_clock t) pick ''a'' (fst sp) (snd sp))"

definition demo_registered :: "store \<times> wait_phase" where
  "demo_registered = demo_step True 1 (demo_step True 1 (demo_live, Entered))"

definition demo_completed :: store where
  "demo_completed = the (run_section compact_emit (demo_clock 2)
     (SecComplete ''a'' (Encodes (JBool True))) (fst demo_registered))"

definition demo_notified :: "store \<times> wait_phase" where
  "demo_notified = demo_step True 3 (demo_step True 3 (demo_completed, snd demo_registered))"

lemma demo_poll:
  assumes "wait_reach compact_emit ''a'' k now st ph" and "now \<le> t"
    and "wait_poll compact_emit (demo_clock t) pick ''a'' st ph \<noteq> None"
  shows "wait_reach compact_emit ''a'' (if live_task ''a'' st then k else Suc k) t
     (fst (demo_step pick t (st, ph))) (snd (demo_step pick t (st, ph)))"
  using wait_reach.poll [OF assms(1) demo_clock_ok [OF assms(2)], of pick] assms(3)
  by (auto simp: demo_step_def demo_clock_def)

lemma demo_notified_reach:
  "wait_reach compact_emit ''a'' 2 3 (fst demo_notified) (snd demo_notified)"
proof -
  have alive: "live_task ''a'' demo_live" "live_task ''a'' (fst (demo_step True 1 (demo_live, Entered)))"
    by code_simp+
  have over: "\<not> live_task ''a'' demo_completed" by code_simp
  have over': "\<not> live_task ''a'' (fst (demo_step True 3 (demo_completed, snd demo_registered)))"
    by code_simp
  have polls: "wait_poll compact_emit (demo_clock 1) True ''a'' demo_live Entered \<noteq> None"
    "wait_poll compact_emit (demo_clock 1) True ''a'' (fst (demo_step True 1 (demo_live, Entered)))
       (snd (demo_step True 1 (demo_live, Entered))) \<noteq> None"
    by code_simp+
  have ran: "run_section compact_emit (demo_clock 2) (SecComplete ''a'' (Encodes (JBool True)))
      (fst demo_registered) \<noteq> None"
    by code_simp
  have polls': "wait_poll compact_emit (demo_clock 3) True ''a'' demo_completed (snd demo_registered) \<noteq> None"
    by code_simp
  have polls'': "wait_poll compact_emit (demo_clock 3) True ''a''
       (fst (demo_step True 3 (demo_completed, snd demo_registered)))
       (snd (demo_step True 3 (demo_completed, snd demo_registered))) \<noteq> None"
    by code_simp
  have "wait_reach compact_emit ''a'' 0 1 (fst demo_registered) (snd demo_registered)"
    using demo_poll [OF demo_poll [OF wait_reach.enter [OF demo_live_reach] _ polls(1)] _ polls(2)] alive
    by (simp add: demo_registered_def)
  moreover have "run_section compact_emit (demo_clock 2) (SecComplete ''a'' (Encodes (JBool True)))
      (fst demo_registered) = Some demo_completed"
    using ran by (auto simp: demo_completed_def)
  ultimately have "wait_reach compact_emit ''a'' 0 2 demo_completed (snd demo_registered)"
    using wait_reach.other [OF _ demo_clock_ok [of 1 2], where sec = "SecComplete ''a'' (Encodes (JBool True))"]
    by (force simp: demo_clock_def simp del: run_section.simps)
  from demo_poll [OF demo_poll [OF this _ polls'] _ polls''] show ?thesis
    using over over' by (simp add: demo_notified_def numeral_2_eq_2)
qed


end
