(* ===== verification/ExpiryWorker.thy ===== *)
theory ExpiryWorker
  imports TaskProtocol
begin

text \<open>
  The background thread of \<open>MemoryTaskStore\<close> that expires and removes tasks:
  \<open>WorkerSignal\<close> and \<open>memory_task_store_worker\<close> of
  \<open>crates/tower-mcp/src/async_task.rs\<close>.  One step of the worker is what it does between two
  points where other threads can come in; the generation of the signal is the field
  \<open>d_worker_generation\<close> of the store.
\<close>

section \<open>The worker\<close>

definition MAX_SLEEP :: nat where
  "MAX_SLEEP = 60 * 60 * 1000000000"

definition worker_interval :: "store_config \<Rightarrow> nat" where
  "worker_interval cfg = (if cleanup_interval cfg = 0 then 1000000 else cleanup_interval cfg)"

text \<open>
  The points of one iteration.  All carry \<open>cleanup_at\<close>; then come the captured generation, the
  planned timeout with the instant it was computed at, and, in the wait, the instant the wait began
  and whether the condition variable has been notified since.
\<close>

datatype worker_phase =
  LoopTop "nat option"
| Captured "nat option" "64 word"
| Swept "nat option" "64 word"
| Planned "nat option" "64 word" nat nat
| Asleep "nat option" nat nat nat bool
| Stopped

definition worker_timeout :: "nat \<Rightarrow> nat option \<Rightarrow> store \<Rightarrow> nat" where
  "worker_timeout now cleanup_at st =
     min MAX_SLEEP (case next_deadline cleanup_at (next_expiry st) of
        Some deadline \<Rightarrow> deadline - now
      | None \<Rightarrow> MAX_SLEEP)"

text \<open>
  \<open>down\<close>: the last clone of the store is gone, so \<open>upgrade\<close> fails and the signal is shut
  down.  \<open>spurious\<close>: the condition variable returns although nobody notified it.
\<close>

definition wait_for_change :: "bool \<Rightarrow> store \<Rightarrow> nat option \<Rightarrow> 64 word \<Rightarrow> nat \<Rightarrow> nat \<Rightarrow> nat \<Rightarrow> worker_phase" where
  "wait_for_change down st cleanup_at generation planned_at timeout now =
     (if down then Stopped
      else if d_worker_generation st \<noteq> generation then LoopTop cleanup_at
      else Asleep cleanup_at planned_at timeout now False)"

fun worker_step ::
  "serializer \<Rightarrow> clock \<Rightarrow> bool \<Rightarrow> bool \<Rightarrow> store \<Rightarrow> worker_phase \<Rightarrow> (store \<times> worker_phase) option" where
  "worker_step ser clk spurious down st (LoopTop cleanup_at) =
     Some (st, if down then Stopped else Captured cleanup_at (d_worker_generation st))"
| "worker_step ser clk spurious down st (Captured cleanup_at generation) =
     (if (case cleanup_at of None \<Rightarrow> False | Some deadline \<Rightarrow> deadline \<le> at_retire clk)
      then do {
        (st1, _) \<leftarrow> retire_expired ser (at_check clk) True st;
        Some (st1, Swept (instant_checked_add (at_done clk) (worker_interval (d_config st))) generation)
      }
      else do {
        (st1, _) \<leftarrow> retire_expired ser (at_check clk) False st;
        Some (st1, Swept cleanup_at generation)
      })"
| "worker_step ser clk spurious down st (Swept cleanup_at generation) =
     Some (st, Planned cleanup_at generation (at_check clk) (worker_timeout (at_check clk) cleanup_at st))"
| "worker_step ser clk spurious down st (Planned cleanup_at generation planned_at timeout) =
     Some (st, wait_for_change down st cleanup_at generation planned_at timeout (at_check clk))"
| "worker_step ser clk spurious down st (Asleep cleanup_at planned_at timeout entered notified) =
     Some (st, if notified \<or> spurious \<or> entered + timeout \<le> at_check clk
               then if down then Stopped else LoopTop cleanup_at
               else Asleep cleanup_at planned_at timeout entered notified)"
| "worker_step ser clk spurious down st Stopped = Some (st, Stopped)"

text \<open>\<open>notify_one\<close> and \<open>notify_all\<close> reach the worker only while it waits.\<close>

fun notify_worker :: "worker_phase \<Rightarrow> worker_phase" where
  "notify_worker (Asleep cleanup_at planned_at timeout entered notified) =
     Asleep cleanup_at planned_at timeout entered True"
| "notify_worker ph = ph"

section \<open>Sections bring no earlier deadline unannounced\<close>

definition deadlines_kept :: "store \<Rightarrow> store \<Rightarrow> bool" where
  "deadlines_kept st st' \<longleftrightarrow> (\<forall>k s'. map_of (d_tasks st') k = Some s' \<and> \<not> s_expiry_signalled s' \<longrightarrow>
     (\<exists>s. map_of (d_tasks st) k = Some s \<and> \<not> s_expiry_signalled s
        \<and> expires_at (s_task s) = expires_at (s_task s')))"

definition announced :: "store \<Rightarrow> store \<Rightarrow> bool" where
  "announced st st' \<longleftrightarrow>
     d_worker_generation st' = d_worker_generation st + 1
   \<or> d_worker_generation st' = d_worker_generation st \<and> deadlines_kept st st'"

lemma deadlines_kept_marked: "deadlines_kept st (retire_marked ser now st)"
  by (force simp: deadlines_kept_def map_of_retire_marked retire_one_signalled expires_at_def)

lemma deadlines_kept_put:
  "map_of (d_tasks st) k = Some s \<Longrightarrow> same_record s s' \<Longrightarrow> put_record k s' st st' \<Longrightarrow> deadlines_kept st st'"
  by (auto simp: deadlines_kept_def put_record_def same_record_def expires_at_def)

lemma announced_marked: "announced st (retire_marked ser now st)"
  using deadlines_kept_marked by (simp add: announced_def retire_marked_def Let_def)

lemma announced_put:
  "map_of (d_tasks st) k = Some s \<Longrightarrow> same_record s s' \<Longrightarrow> put_record k s' st st' \<Longrightarrow> announced st st'"
  using deadlines_kept_put by (auto simp: announced_def put_record_def)

interpretation worker: record_moves announced
proof unfold_locales
  show "announced st st" for st
    by (auto simp: announced_def deadlines_kept_def)
  show "announced st st''" if "same_records st st'" "announced st' st''" for st st' st''
    using that by (simp add: announced_def same_records_def deadlines_kept_def)
  show "announced st (retire_marked ser now' st)" for ser now now' st
    by (rule announced_marked)
  show "announced st st'" if "map_of (d_tasks st) k = Some s" "same_record s s'" "put_record k s' st st'"
    for st k s s' st'
    using that by (rule announced_put)
  show "announced st st'" if "map_of (d_tasks st) k = Some s" "same_record s s'" "put_record k s' st st'"
    for st k s s' st'
    using that by (rule announced_put)
  show "announced st (wake_worker (retire_marked ser now' (retimed k s ms stamp st)))"
    for st k s ser now now' ms stamp
    by (simp add: announced_def wake_worker_def retire_marked_def Let_def retimed_def)
qed

lemma announced_subset:
  assumes "\<And>k s. map_of (d_tasks st') k = Some s \<Longrightarrow> map_of (d_tasks st) k = Some s"
    and "d_worker_generation st' = d_worker_generation st"
  shows "announced st st'"
  using assms by (fastforce simp: announced_def deadlines_kept_def)

lemma announced_removed:
  assumes ser: "compact_layout ser" and inv: "store_inv ser now st" and le: "now \<le> now'"
    and run: "retire_expired ser now' True st = Some (st', r)"
  shows "announced st st'"
proof -
  let ?m = "retire_marked ser now' st"
  note m = retire_marked_inv [OF ser inv le]
  have "deadlines_kept ?m (retire_dropped now' ?m)"
    by (auto simp: deadlines_kept_def retire_dropped_def map_of_unexpired [OF store_invD(2) [OF m]]
        split: option.splits if_splits)
  then have "deadlines_kept st (retire_dropped now' ?m)"
    using deadlines_kept_marked [of st ser now'] unfolding deadlines_kept_def by metis
  then show ?thesis
    using run retire_expired_eq(2) [OF ser inv le]
    by (auto simp: announced_def retire_dropped_def retire_marked_def Let_def)
qed

lemma announced_section:
  assumes ser: "compact_layout ser" and inv: "store_inv ser now st" and clk: "clock_ok now clk"
    and run: "run_section ser clk sec st = Some st'"
  shows "announced st st'"
proof (cases "in_place sec")
  case True
  then show ?thesis by (rule worker.section_moves [OF ser inv clk run])
next
  case False
  have t: "now \<le> at_check clk" using clk by (simp add: clock_ok_def)
  show ?thesis
  proof (cases sec)
    case (SecRetire r)
    then show ?thesis using run False announced_removed [OF ser inv t] by auto
  next
    case (SecAdmit k tool args ttl ow)
    then show ?thesis
      using run
      by (auto simp: create_task_locked_def Let_def wake_worker_def announced_def deadlines_kept_def
          split: sum.splits option.splits if_splits)
  next
    case (SecDiscard k)
    then show ?thesis
      using run
      by (auto simp: discard_task_def map_of_delete_iff split: option.splits Option.bind_splits if_splits
          intro!: announced_subset)
  qed (use False in simp_all)
qed

section \<open>Executions\<close>

text \<open>
  The worker between the sections of other threads, from its start on.  \<open>c\<close> counts the changes
  of the generation since the worker captured it.  It stays below \<open>2 ^ 64\<close>: with more changes
  in one iteration the generation could come back to the captured value.
\<close>

inductive worker_reach ::
  "serializer \<Rightarrow> nat \<Rightarrow> nat \<Rightarrow> bool \<Rightarrow> store \<Rightarrow> worker_phase \<Rightarrow> bool" for ser where
  start: "store_reach ser now st \<Longrightarrow>
     worker_reach ser 0 now False st (LoopTop (instant_checked_add now (worker_interval (d_config st))))"
| quiet: "worker_reach ser c now False st ph \<Longrightarrow> clock_ok now clk \<Longrightarrow> section_ok sec st \<Longrightarrow>
     run_section ser clk sec st = Some st' \<Longrightarrow> d_worker_generation st' = d_worker_generation st \<Longrightarrow>
     worker_reach ser c (at_again clk) False st' ph"
| wake: "worker_reach ser c now False st ph \<Longrightarrow> clock_ok now clk \<Longrightarrow> section_ok sec st \<Longrightarrow>
     run_section ser clk sec st = Some st' \<Longrightarrow> d_worker_generation st' \<noteq> d_worker_generation st \<Longrightarrow>
     Suc c < 2 ^ 64 \<Longrightarrow> worker_reach ser (Suc c) (at_again clk) False st' (notify_worker ph)"
| drop: "worker_reach ser c now down st ph \<Longrightarrow> worker_reach ser c now True st (notify_worker ph)"
| step: "worker_reach ser c now down st ph \<Longrightarrow> clock_ok now clk \<Longrightarrow>
     worker_step ser clk spurious down st ph = Some (st', ph') \<Longrightarrow>
     worker_reach ser (case ph of LoopTop a \<Rightarrow> 0 | _ \<Rightarrow> c) (at_again clk) down st' ph'"

text \<open>A timeout that ends before any deadline that has not been signalled, seen from \<open>planned_at\<close>.\<close>

definition timely :: "nat \<Rightarrow> nat \<Rightarrow> store \<Rightarrow> bool" where
  "timely planned_at timeout st \<longleftrightarrow> timeout \<le> MAX_SLEEP
     \<and> (\<forall>k s e. map_of (d_tasks st) k = Some s \<and> \<not> s_expiry_signalled s \<and> expires_at (s_task s) = Some e
          \<longrightarrow> timeout \<le> e - planned_at)"

fun worker_ok :: "nat \<Rightarrow> store \<Rightarrow> worker_phase \<Rightarrow> bool" where
  "worker_ok c st (Captured a g) \<longleftrightarrow> d_worker_generation st = g + of_nat c"
| "worker_ok c st (Swept a g) \<longleftrightarrow> d_worker_generation st = g + of_nat c"
| "worker_ok c st (Planned a g p t) \<longleftrightarrow> d_worker_generation st = g + of_nat c \<and> (c = 0 \<longrightarrow> timely p t st)"
| "worker_ok c st (Asleep a p t e notified) \<longleftrightarrow> notified \<or> timely p t st"
| "worker_ok c st _ \<longleftrightarrow> True"

lemma timely_kept: "deadlines_kept st st' \<Longrightarrow> timely p t st \<Longrightarrow> timely p t st'"
  unfolding timely_def deadlines_kept_def by metis

lemma worker_ok_quiet:
  "deadlines_kept st st' \<Longrightarrow> d_worker_generation st' = d_worker_generation st \<Longrightarrow>
   worker_ok c st ph \<Longrightarrow> worker_ok c st' ph"
  using timely_kept by (cases ph) auto

lemma worker_ok_wake:
  "d_worker_generation st' = d_worker_generation st + 1 \<Longrightarrow> worker_ok c st ph \<Longrightarrow>
   worker_ok (Suc c) st' (notify_worker ph)"
  by (cases ph) (auto simp: add_ac)

lemma next_expiry_le:
  assumes "map_of (d_tasks st) k = Some s" and "\<not> s_expiry_signalled s" and "expires_at (s_task s) = Some e"
  shows "\<exists>d. next_expiry st = Some d \<and> d \<le> e"
proof -
  let ?ds = "List.map_filter (\<lambda>kv. if s_expiry_signalled (snd kv) then None else expires_at (s_task (snd kv))) (d_tasks st)"
  have "e \<in> set ?ds"
    using map_of_SomeD [OF assms(1)] assms(2,3) by (force simp: List.map_filter_def)
  then show ?thesis by (auto simp: next_expiry_def Let_def intro: Min_le)
qed

lemma worker_timeout_timely: "timely now (worker_timeout now cleanup_at st) st"
proof -
  have "worker_timeout now cleanup_at st \<le> e - now"
    if "map_of (d_tasks st) k = Some s" "\<not> s_expiry_signalled s" "expires_at (s_task s) = Some e" for k s e
  proof -
    note nx = next_expiry_le [OF that]
    then obtain d where "next_expiry st = Some d" "d \<le> e" by blast
    then show ?thesis
      by (auto simp: worker_timeout_def next_deadline_def min_le_iff_disj split: option.split)
  qed
  then show ?thesis by (auto simp: timely_def worker_timeout_def)
qed

lemma of_nat_64_zero: "c < 2 ^ 64 \<Longrightarrow> of_nat c = (0 :: 64 word) \<Longrightarrow> c = 0"
  by (auto simp: word_of_nat_eq_0_iff dest: dvd_imp_le)

text \<open>One step of the worker.\<close>

lemma worker_step_ok:
  assumes ser: "compact_layout ser" and inv: "store_inv ser now st" and clk: "clock_ok now clk"
    and ok: "worker_ok c st ph" "c < 2 ^ 64"
  shows "\<exists>st' ph'. worker_step ser clk spurious down st ph = Some (st', ph')
    \<and> store_inv ser (at_again clk) st' \<and> worker_ok (case ph of LoopTop a \<Rightarrow> 0 | _ \<Rightarrow> c) st' ph'"
proof -
  have t: "now \<le> at_check clk" "at_check clk \<le> at_again clk" "now \<le> at_again clk"
    using clk by (auto simp: clock_ok_def)
  note up = store_inv_mono [OF inv t(3)]
  show ?thesis
  proof (cases ph)
    case (Captured a g)
    let ?m = "retire_marked ser (at_check clk) st"
    note m = retire_marked_inv [OF ser inv t(1)]
    have "store_inv ser (at_again clk) ?m" "store_inv ser (at_again clk) (retire_dropped (at_check clk) ?m)"
      using store_inv_mono [OF m t(2)] store_inv_mono [OF retire_dropped_inv [OF m] t(2)] .
    then show ?thesis
      using Captured ok retire_expired_eq [OF ser inv t(1)]
      by (auto simp: retire_dropped_def retire_marked_def Let_def)
  next
    case (Swept a g)
    then show ?thesis using ok up worker_timeout_timely by simp
  next
    case (Planned a g p t)
    have "timely p t st" if "d_worker_generation st = g"
      using that ok of_nat_64_zero [OF ok(2)] by (simp add: Planned)
    then show ?thesis using Planned ok up by (auto simp: wait_for_change_def)
  qed (use ok up in auto)
qed

lemma worker_reach_ok:
  assumes ser: "compact_layout ser" and reach: "worker_reach ser c now down st ph"
  shows "store_inv ser now st \<and> worker_ok c st ph \<and> c < 2 ^ 64"
  using reach
proof (induction rule: worker_reach.induct)
  case (start now st)
  then show ?case by (simp add: store_reach_inv [OF ser])
next
  case (quiet c now st ph clk sec st')
  have "announced st st'" using quiet.IH by (intro announced_section [OF ser _ quiet.hyps(2,4)]) simp
  then show ?case
    using quiet.IH quiet.hyps(5) run_section_safe [OF ser _ quiet.hyps(2,3)] quiet.hyps(4) worker_ok_quiet
    by (auto simp: announced_def safe_from_def)
next
  case (wake c now st ph clk sec st')
  have "announced st st'" using wake.IH by (intro announced_section [OF ser _ wake.hyps(2,4)]) simp
  then show ?case
    using wake.IH wake.hyps(5,6) run_section_safe [OF ser _ wake.hyps(2,3)] wake.hyps(4) worker_ok_wake
    by (auto simp: announced_def safe_from_def)
next
  case (drop c now down st ph)
  then show ?case by (cases ph) auto
next
  case (step c now down st ph clk spurious st' ph')
  then have "store_inv ser (at_again clk) st' \<and> worker_ok (case ph of LoopTop a \<Rightarrow> 0 | _ \<Rightarrow> c) st' ph'"
    using worker_step_ok [OF ser _ step.hyps(2), of st c ph spurious down] by auto
  then show ?case using step.IH by (auto split: worker_phase.split)
qed

section \<open>Expiry in time\<close>


definition demo_work :: "nat \<Rightarrow> store \<times> worker_phase \<Rightarrow> store \<times> worker_phase" where
  "demo_work t sp = the (worker_step compact_emit (demo_clock t) False False (fst sp) (snd sp))"

definition demo_asleep :: "store \<times> worker_phase" where
  "demo_asleep = demo_work 0 (demo_work 0 (demo_work 0 (demo_work 0
     (demo_live, LoopTop (instant_checked_add 0 (worker_interval (d_config demo_live)))))))"

lemma demo_work_reach:
  assumes "\<exists>c. worker_reach compact_emit c now False (fst sp) (snd sp)" and "now \<le> t"
  shows "\<exists>c. worker_reach compact_emit c t False (fst (demo_work t sp)) (snd (demo_work t sp))"
proof -
  obtain c where r: "worker_reach compact_emit c now False (fst sp) (snd sp)" using assms(1) by blast
  then obtain st' ph' where "worker_step compact_emit (demo_clock t) False False (fst sp) (snd sp) = Some (st', ph')"
    using worker_step_ok [OF compact_emit_layout _ demo_clock_ok [OF assms(2)], of "fst sp" c "snd sp" False False]
      worker_reach_ok [OF compact_emit_layout r] by blast
  with worker_reach.step [OF r demo_clock_ok [OF assms(2)] this] show ?thesis
    by (auto simp: demo_work_def demo_clock_def)
qed

lemma demo_asleep_reach: "\<exists>c. worker_reach compact_emit c 0 False (fst demo_asleep) (snd demo_asleep)"
  using worker_reach.start [OF demo_live_reach]
  unfolding demo_asleep_def by (intro demo_work_reach [OF _ le_refl]) auto


end
