(* ===== verification/SessionState.thy ===== *)
theory SessionState
  imports Prelude
begin

text \<open>
  Session lifecycle (\<open>crates/tower-mcp/src/session.rs\<close>): the phase kept in an
  \<open>AtomicU8\<close>, the handshake flag, the transitions as the sequence of atomic operations the
  code performs, and the interleaving of any number of threads running them.
\<close>

section \<open>State\<close>

datatype session_phase = Uninitialized | Initializing | Initialized

fun phase_as_u8 :: "session_phase \<Rightarrow> 8 word" where
  "phase_as_u8 Uninitialized = 0"
| "phase_as_u8 Initializing = 1"
| "phase_as_u8 Initialized = 2"

definition phase_from_u8 :: "8 word \<Rightarrow> session_phase" where
  "phase_from_u8 v =
     (if v = 0 then Uninitialized
      else if v = 1 then Initializing
      else if v = 2 then Initialized
      else Uninitialized)"

record session_state =
  phase_cell :: "8 word"
  handshake_cell :: bool

definition session_new :: session_state where
  "session_new = \<lparr>phase_cell = phase_as_u8 Uninitialized, handshake_cell = False\<rparr>"

definition phase :: "session_state \<Rightarrow> session_phase" where
  "phase s = phase_from_u8 (phase_cell s)"

definition is_initialized :: "session_state \<Rightarrow> bool" where
  "is_initialized s \<longleftrightarrow> phase s = Initialized"

text \<open>The phases in the order of their numbers.\<close>

lemma phase_as_u8_cases: "phase_as_u8 p = phase_as_u8 q \<Longrightarrow> p = q"
  by (cases p; cases q) simp_all

instantiation session_phase :: linorder
begin

definition less_eq_session_phase :: "session_phase \<Rightarrow> session_phase \<Rightarrow> bool" where
  "less_eq_session_phase p q \<longleftrightarrow> phase_as_u8 p \<le> phase_as_u8 q"

definition less_session_phase :: "session_phase \<Rightarrow> session_phase \<Rightarrow> bool" where
  "less_session_phase p q \<longleftrightarrow> phase_as_u8 p < phase_as_u8 q"

instance
  by standard (auto simp: less_eq_session_phase_def less_session_phase_def intro: phase_as_u8_cases)

end

section \<open>Operations\<close>

text \<open>\<open>AtomicU8::compare_exchange(..).is_ok()\<close> on the phase cell.\<close>

definition phase_cas :: "session_phase \<Rightarrow> session_phase \<Rightarrow> session_state \<Rightarrow> session_state \<times> bool" where
  "phase_cas expected new s =
     (if phase_cell s = phase_as_u8 expected then (s\<lparr>phase_cell := phase_as_u8 new\<rparr>, True)
      else (s, False))"

definition mark_handshake_started :: "session_state \<Rightarrow> session_state" where
  "mark_handshake_started s = s\<lparr>handshake_cell := True\<rparr>"

definition handshake_started :: "session_state \<Rightarrow> bool" where
  "handshake_started s = handshake_cell s"

definition mark_initializing :: "session_state \<Rightarrow> session_state \<times> bool" where
  "mark_initializing s = phase_cas Uninitialized Initializing (mark_handshake_started s)"

definition mark_initialized :: "session_state \<Rightarrow> session_state \<times> bool" where
  "mark_initialized s =
     (case phase_cas Initializing Initialized s of
        (s1, True) \<Rightarrow> (s1, True)
      | (s1, False) \<Rightarrow>
          if \<not> handshake_started s1 then (s1, False)
          else phase_cas Uninitialized Initialized s1)"

definition mark_preinitialized :: "session_state \<Rightarrow> session_state \<times> bool" where
  "mark_preinitialized s =
     (let s1 = mark_handshake_started s;
          old = phase_cell s1
      in (s1\<lparr>phase_cell := phase_as_u8 Initialized\<rparr>, old \<noteq> phase_as_u8 Initialized))"

definition is_request_allowed :: "session_state \<Rightarrow> string \<Rightarrow> bool" where
  "is_request_allowed s rmethod =
     (case phase s of
        Uninitialized \<Rightarrow> rmethod \<in> {''initialize'', ''ping'', ''server/discover''}
      | Initializing \<Rightarrow> True
      | Initialized \<Rightarrow> True)"

section \<open>Threads interleaving at the atomic operations\<close>

text \<open>
  A thread is idle or inside one of the transitions, at the atomic operation it performs next.
  Each constructor is one program point of the bodies above; \<open>Tick\<close> performs it.
\<close>

datatype session_pc =
  Idle
| InitializingCas
| InitializedFirstCas
| InitializedFlagLoad
| InitializedSecondCas
| PreinitializedSwap

datatype session_call = CallHandshake | CallInitializing | CallInitialized | CallPreinitialized

fun call_enter :: "session_call \<Rightarrow> session_state \<Rightarrow> session_state \<times> session_pc" where
  "call_enter CallHandshake s = (mark_handshake_started s, Idle)"
| "call_enter CallInitializing s = (mark_handshake_started s, InitializingCas)"
| "call_enter CallInitialized s = (s, InitializedFirstCas)"
| "call_enter CallPreinitialized s = (mark_handshake_started s, PreinitializedSwap)"

fun pc_tick :: "session_pc \<Rightarrow> session_state \<Rightarrow> session_state \<times> session_pc \<times> bool option" where
  "pc_tick Idle s = (s, Idle, None)"
| "pc_tick InitializingCas s =
     (case phase_cas Uninitialized Initializing s of (s1, ok) \<Rightarrow> (s1, Idle, Some ok))"
| "pc_tick InitializedFirstCas s =
     (case phase_cas Initializing Initialized s of
        (s1, True) \<Rightarrow> (s1, Idle, Some True)
      | (s1, False) \<Rightarrow> (s1, InitializedFlagLoad, None))"
| "pc_tick InitializedFlagLoad s =
     (if handshake_started s then (s, InitializedSecondCas, None) else (s, Idle, Some False))"
| "pc_tick InitializedSecondCas s =
     (case phase_cas Uninitialized Initialized s of (s1, ok) \<Rightarrow> (s1, Idle, Some ok))"
| "pc_tick PreinitializedSwap s =
     (s\<lparr>phase_cell := phase_as_u8 Initialized\<rparr>, Idle,
      Some (phase_cell s \<noteq> phase_as_u8 Initialized))"

record session_world =
  shared :: session_state
  pcs :: "nat \<Rightarrow> session_pc"

inductive session_step :: "session_world \<Rightarrow> session_world \<Rightarrow> bool" where
  enter: "pcs w i = Idle \<Longrightarrow> call_enter c (shared w) = (s, p) \<Longrightarrow>
     session_step w (w\<lparr>shared := s, pcs := (pcs w)(i := p)\<rparr>)"
| tick: "pcs w i \<noteq> Idle \<Longrightarrow> pc_tick (pcs w i) (shared w) = (s, p, r) \<Longrightarrow>
     session_step w (w\<lparr>shared := s, pcs := (pcs w)(i := p)\<rparr>)"

inductive_cases session_stepE: "session_step w w'"

inductive session_reachable :: "session_world \<Rightarrow> bool" where
  start: "session_reachable \<lparr>shared = session_new, pcs = (\<lambda>_. Idle)\<rparr>"
| step: "session_reachable w \<Longrightarrow> session_step w w' \<Longrightarrow> session_reachable w'"

section \<open>Lemmas\<close>

lemma phase_from_as_u8 [simp]: "phase_from_u8 (phase_as_u8 p) = p"
  by (cases p) (simp_all add: phase_from_u8_def)

lemma phase_as_u8_inj [simp]: "phase_as_u8 p = phase_as_u8 q \<longleftrightarrow> p = q"
  by (metis phase_from_as_u8)

lemmas session_op_defs [op_defs] =
  phase_cas_def mark_handshake_started_def handshake_started_def mark_initializing_def
  mark_initialized_def mark_preinitialized_def

text \<open>The cell only holds one of the three phases, and a started session has its flag up.\<close>

definition session_inv :: "session_state \<Rightarrow> bool" where
  "session_inv s \<longleftrightarrow>
     phase_cell s \<in> {0, 1, 2} \<and> (phase_cell s \<noteq> 0 \<longrightarrow> handshake_cell s)"

text \<open>A thread past the flag check knows that the flag is up, since it is never cleared.\<close>

definition pc_inv :: "session_state \<Rightarrow> session_pc \<Rightarrow> bool" where
  "pc_inv s p \<longleftrightarrow>
     (p \<in> {InitializingCas, InitializedSecondCas, PreinitializedSwap} \<longrightarrow> handshake_cell s)"

definition world_inv :: "session_world \<Rightarrow> bool" where
  "world_inv w \<longleftrightarrow> session_inv (shared w) \<and> (\<forall>i. pc_inv (shared w) (pcs w i))"

lemmas session_inv_defs [inv_defs] = session_inv_def pc_inv_def

lemma call_enter_inv:
  "session_inv s \<Longrightarrow> call_enter c s = (s', p) \<Longrightarrow>
   session_inv s' \<and> pc_inv s' p \<and> (handshake_cell s \<longrightarrow> handshake_cell s')
   \<and> phase_cell s' = phase_cell s"
  by (cases c) (auto simp: op_defs inv_defs)

lemma pc_tick_inv:
  "session_inv s \<Longrightarrow> pc_inv s p \<Longrightarrow> pc_tick p s = (s', p', r) \<Longrightarrow>
   session_inv s' \<and> pc_inv s' p' \<and> (handshake_cell s \<longrightarrow> handshake_cell s')
   \<and> phase_cell s \<le> phase_cell s'"
  by (cases p) (auto simp: op_defs inv_defs split: if_splits bool.splits)

lemma pc_inv_mono: "pc_inv s p \<Longrightarrow> (handshake_cell s \<longrightarrow> handshake_cell s') \<Longrightarrow> pc_inv s' p"
  by (auto simp: pc_inv_def)

lemma session_step_inv:
  assumes "session_step w w'" and "world_inv w"
  shows "world_inv w' \<and> phase_cell (shared w) \<le> phase_cell (shared w')
    \<and> (handshake_cell (shared w) \<longrightarrow> handshake_cell (shared w'))"
  using assms
proof (induction rule: session_step.induct)
  case (enter w i c s p)
  then have "session_inv s \<and> pc_inv s p \<and> (handshake_cell (shared w) \<longrightarrow> handshake_cell s)
      \<and> phase_cell s = phase_cell (shared w)"
    by (intro call_enter_inv) (auto simp: world_inv_def)
  with enter.prems show ?case
    by (auto simp: world_inv_def intro: pc_inv_mono)
next
  case (tick w i s p r)
  then have "session_inv s \<and> pc_inv s p \<and> (handshake_cell (shared w) \<longrightarrow> handshake_cell s)
      \<and> phase_cell (shared w) \<le> phase_cell s"
    by (intro pc_tick_inv [of "shared w" "pcs w i" s p r]) (auto simp: world_inv_def)
  with tick.prems show ?case
    by (auto simp: world_inv_def intro: pc_inv_mono)
qed

lemma session_reachable_inv: "session_reachable w \<Longrightarrow> world_inv w"
proof (induction rule: session_reachable.induct)
  case start
  show ?case by (simp add: world_inv_def inv_defs session_new_def)
next
  case (step w w')
  then show ?case using session_step_inv by blast
qed

text \<open>A thread that runs alone performs exactly the sequential operation.\<close>

definition run_alone :: "session_call \<Rightarrow> session_state \<Rightarrow> session_state \<times> bool option" where
  "run_alone c s =
     (case call_enter c s of (s0, p0) \<Rightarrow>
      case pc_tick p0 s0 of (s1, p1, r1) \<Rightarrow>
      if p1 = Idle then (s1, r1) else
      case pc_tick p1 s1 of (s2, p2, r2) \<Rightarrow>
      if p2 = Idle then (s2, r2) else
      case pc_tick p2 s2 of (s3, p3, r3) \<Rightarrow> (s3, r3))"

section \<open>Properties\<close>

text \<open>
  In every interleaving of the lifecycle calls, a session that has left
  \<open>Uninitialized\<close> has seen an \<open>initialize\<close> request (the handshake flag is up), so an
  unsolicited \<open>initialized\<close> notification never opens a session; and until then only
  \<open>initialize\<close>, \<open>ping\<close> and \<open>server/discover\<close> are allowed.
\<close>

theorem no_session_without_handshake:
  assumes "session_reachable w" and "\<not> handshake_started (shared w)"
  shows "phase (shared w) = Uninitialized
    \<and> (is_request_allowed (shared w) m \<longleftrightarrow> m \<in> {''initialize'', ''ping'', ''server/discover''})"
proof -
  from session_reachable_inv [OF assms(1)] assms(2)
  have "phase (shared w) = Uninitialized"
    by (auto simp: world_inv_def session_inv_def handshake_started_def phase_def phase_from_u8_def)
  then show ?thesis
    by (simp add: is_request_allowed_def)
qed

theorem no_session_without_handshake_witness:
  "phase (shared \<lparr>shared = session_new, pcs = (\<lambda>_. Idle)(0 := InitializedFirstCas)\<rparr>) = Uninitialized
   \<and> \<not> is_request_allowed session_new ''tools/list''"
proof -
  have r: "session_reachable (\<lparr>shared = session_new, pcs = (\<lambda>_. Idle)\<rparr>
      \<lparr>shared := session_new, pcs := (\<lambda>_. Idle)(0 := InitializedFirstCas)\<rparr>)"
    using session_step.enter [of "\<lparr>shared = session_new, pcs = (\<lambda>_. Idle)\<rparr>" 0 CallInitialized]
    by (intro session_reachable.step [OF session_reachable.start]) simp
  show ?thesis
    using no_session_without_handshake [OF r, of "''tools/list''"]
    by (simp add: handshake_started_def session_new_def)
qed

text \<open>
  No interleaving moves a session backwards: along every step the phase does not decrease in
  the order \<open>Uninitialized < Initializing < Initialized\<close>, nor does the cell that holds it,
  and a raised handshake flag stays up.
\<close>

theorem session_phase_monotone:
  assumes "session_reachable w" and "session_step w w'"
  shows "phase (shared w) \<le> phase (shared w')
    \<and> phase_cell (shared w) \<le> phase_cell (shared w')
    \<and> (handshake_started (shared w) \<longrightarrow> handshake_started (shared w'))
    \<and> phase_cell (shared w') \<le> 2"
proof -
  have as_cell: "phase_as_u8 (phase s) = phase_cell s" if "session_inv s" for s
    using that by (auto simp: session_inv_def phase_def phase_from_u8_def)
  note inv = session_step_inv [OF assms(2) session_reachable_inv [OF assms(1)]] session_reachable_inv [OF assms(1)]
  then have "phase (shared w) \<le> phase (shared w')"
    by (simp add: less_eq_session_phase_def as_cell world_inv_def)
  then show ?thesis using inv by (auto simp: world_inv_def session_inv_def handshake_started_def)
qed

theorem session_phase_monotone_witness:
  "phase_cell session_new \<le> phase_cell (mark_handshake_started session_new)"
proof -
  have s: "session_step \<lparr>shared = session_new, pcs = (\<lambda>_. Idle)\<rparr>
      (\<lparr>shared = session_new, pcs = (\<lambda>_. Idle)\<rparr>
        \<lparr>shared := mark_handshake_started session_new, pcs := (\<lambda>_. Idle)(0 := Idle)\<rparr>)"
    using session_step.enter [of "\<lparr>shared = session_new, pcs = (\<lambda>_. Idle)\<rparr>" 0 CallHandshake]
    by simp
  show ?thesis
    using session_phase_monotone [OF session_reachable.start s] by simp
qed

text \<open>
  The lifecycle transitions decide exactly as documented: \<open>mark_initializing\<close> succeeds
  only from \<open>Uninitialized\<close>; \<open>mark_initialized\<close> succeeds from \<open>Initializing\<close>, and
  from \<open>Uninitialized\<close> only once the handshake started; \<open>mark_preinitialized\<close> always
  ends \<open>Initialized\<close> and reports whether the phase changed; and a thread that runs alone through
  the atomic steps computes these functions.
\<close>

theorem session_transitions:
  assumes "phase_cell s = phase_as_u8 p"
  shows "mark_initializing s =
      (s\<lparr>handshake_cell := True,
          phase_cell := phase_as_u8 (if p = Uninitialized then Initializing else p)\<rparr>,
       p = Uninitialized)
    \<and> mark_initialized s =
      (let ok = (p = Initializing \<or> (p = Uninitialized \<and> handshake_cell s))
       in (s\<lparr>phase_cell := phase_as_u8 (if ok then Initialized else p)\<rparr>, ok))
    \<and> mark_preinitialized s =
      (s\<lparr>handshake_cell := True, phase_cell := phase_as_u8 Initialized\<rparr>, p \<noteq> Initialized)
    \<and> run_alone CallInitializing s = map_prod id Some (mark_initializing s)
    \<and> run_alone CallInitialized s = map_prod id Some (mark_initialized s)
    \<and> run_alone CallPreinitialized s = map_prod id Some (mark_preinitialized s)"
  using assms
  by (cases s; cases p; simp add: op_defs run_alone_def Let_def)

theorem session_transitions_witness:
  "mark_initialized session_new = (session_new, False)"
  using session_transitions [of session_new Uninitialized] by (simp add: session_new_def)

end
