(* ===== verification/SessionStore.thy ===== *)
theory SessionStore
  imports Prelude
begin

text \<open>
  The session stores of \<open>crates/tower-mcp/src/session_store.rs\<close>: the record, the in-memory
  store, and the two-tier caching store over any pair of stores.  The \<open>SessionStore\<close> trait is
  the locale \<open>session_backend\<close>; the in-memory store interprets it, and so does the caching store
  over two stores that do.

  A store operation takes the store's state and returns the new state and a result; \<open>create\<close>
  returns \<open>None\<close> where its retry loop does not end.  A \<open>SystemTime\<close> is a signed
  number of nanoseconds since the epoch (seconds are an \<open>i64\<close>), and the clock reading of an operation is an argument.  \<open>client_info\<close> and
  \<open>client_capabilities\<close> are protocol values the stores only carry.
\<close>

section \<open>Records\<close>

type_synonym system_time = int

record session_record =
  sr_id :: string
  sr_protocol_version :: string
  sr_client_info :: "json option"
  sr_client_capabilities :: "json option"
  sr_created_at :: system_time
  sr_last_accessed :: system_time
  sr_expires_at :: system_time
  sr_principal :: "string option"

definition SYSTEM_TIME_MAX :: system_time where
  "SYSTEM_TIME_MAX = 9223372036854775807999999999"

definition SYSTEM_TIME_MIN :: system_time where
  "SYSTEM_TIME_MIN = - 9223372036854775808000000000"

text \<open>\<open>SystemTime + Duration\<close> panics on overflow.\<close>

definition system_time_add :: "system_time \<Rightarrow> nat \<Rightarrow> system_time option" where
  "system_time_add t d = (if t + int d \<le> SYSTEM_TIME_MAX then Some (t + int d) else None)"

definition session_record_new :: "system_time \<Rightarrow> string \<Rightarrow> string \<Rightarrow> nat \<Rightarrow> session_record option" where
  "session_record_new now i version ttl =
     map_option (\<lambda>deadline.
       \<lparr>sr_id = i, sr_protocol_version = version, sr_client_info = None,
        sr_client_capabilities = None, sr_created_at = now, sr_last_accessed = now,
        sr_expires_at = deadline, sr_principal = None\<rparr>) (system_time_add now ttl)"

definition session_touch :: "system_time \<Rightarrow> nat \<Rightarrow> session_record \<Rightarrow> session_record option" where
  "session_touch now ttl r =
     map_option (\<lambda>deadline. r\<lparr>sr_last_accessed := now, sr_expires_at := deadline\<rparr>)
       (system_time_add now ttl)"

definition session_is_expired :: "system_time \<Rightarrow> session_record \<Rightarrow> bool" where
  "session_is_expired now r \<longleftrightarrow> sr_expires_at r \<le> now"

datatype session_store_error =
  SessionEncode string | SessionDecode string | SessionBackend string

text \<open>\<open>Result::and\<close>.\<close>

fun result_and :: "'e + 'a \<Rightarrow> 'e + 'b \<Rightarrow> 'e + 'b" where
  "result_and (Inl e) r = Inl e"
| "result_and (Inr _) r = r"

section \<open>The in-memory store\<close>

type_synonym memory_session_store = "(string \<times> session_record) list"

text \<open>
  The retry loop of \<open>create\<close>: \<open>uuids k\<close> is the \<open>k\<close>-th identifier drawn.
\<close>

partial_function (option) create_loop ::
  "(nat \<Rightarrow> string) \<Rightarrow> nat \<Rightarrow> string \<Rightarrow> memory_session_store \<Rightarrow> string option" where
  "create_loop uuids k i s =
     (if i \<in> fst ` set s then create_loop uuids (Suc k) (uuids k) s else Some i)"

declare create_loop.simps [code]

definition mem_create ::
  "(nat \<Rightarrow> string) \<Rightarrow> session_record \<Rightarrow> memory_session_store
   \<Rightarrow> (memory_session_store \<times> (session_store_error + session_record)) option" where
  "mem_create uuids r s =
     map_option (\<lambda>i. let r' = r\<lparr>sr_id := i\<rparr> in (AList.update (sr_id r') r' s, Inr r'))
       (create_loop uuids 0 (sr_id r) s)"

definition mem_save ::
  "session_record \<Rightarrow> memory_session_store \<Rightarrow> memory_session_store \<times> (session_store_error + unit)" where
  "mem_save r s = (AList.update (sr_id r) r s, Inr ())"

definition mem_load ::
  "system_time \<Rightarrow> string \<Rightarrow> memory_session_store
   \<Rightarrow> memory_session_store \<times> (session_store_error + session_record option)" where
  "mem_load now i s =
     (s, Inr (case map_of s i of
                None \<Rightarrow> None
              | Some r \<Rightarrow> if session_is_expired now r then None else Some r))"

definition mem_delete ::
  "string \<Rightarrow> memory_session_store \<Rightarrow> memory_session_store \<times> (session_store_error + unit)" where
  "mem_delete i s = (AList.delete i s, Inr ())"

definition mem_cleanup_expired :: "system_time \<Rightarrow> memory_session_store \<Rightarrow> memory_session_store \<times> nat" where
  "mem_cleanup_expired now s =
     (let kept = filter (\<lambda>kv. \<not> session_is_expired now (snd kv)) s in (kept, length s - length kept))"

section \<open>The caching store\<close>

text \<open>
  \<open>CachingSessionStore\<close> over any two stores: the operations of the cache and of the backend are
  arguments, and the state is the pair of theirs.
\<close>

definition caching_create ::
  "(session_record \<Rightarrow> 'c \<Rightarrow> 'c \<times> (session_store_error + unit))
   \<Rightarrow> (session_record \<Rightarrow> 's \<Rightarrow> ('s \<times> (session_store_error + session_record)) option)
   \<Rightarrow> session_record \<Rightarrow> 'c \<times> 's \<Rightarrow> (('c \<times> 's) \<times> (session_store_error + session_record)) option" where
  "caching_create cache_save store_create r cs =
     (case cs of (c, s) \<Rightarrow>
        map_option (\<lambda>(s', res).
          case res of
            Inl e \<Rightarrow> ((c, s'), Inl e)
          | Inr r' \<Rightarrow>
              (case cache_save r' c of
                 (c', Inl e) \<Rightarrow> ((c', s'), Inl e)
               | (c', Inr _) \<Rightarrow> ((c', s'), Inr r'))) (store_create r s))"

definition caching_save ::
  "(session_record \<Rightarrow> 'c \<Rightarrow> 'c \<times> (session_store_error + unit))
   \<Rightarrow> (session_record \<Rightarrow> 's \<Rightarrow> 's \<times> (session_store_error + unit))
   \<Rightarrow> session_record \<Rightarrow> 'c \<times> 's \<Rightarrow> ('c \<times> 's) \<times> (session_store_error + unit)" where
  "caching_save cache_save store_save r cs =
     (case cs of (c, s) \<Rightarrow>
        (case store_save r s of
           (s', Inl e) \<Rightarrow> ((c, s'), Inl e)
         | (s', Inr _) \<Rightarrow>
             (case cache_save r c of
                (c', Inl e) \<Rightarrow> ((c', s'), Inl e)
              | (c', Inr _) \<Rightarrow> ((c', s'), Inr ()))))"

definition caching_load ::
  "(system_time \<Rightarrow> string \<Rightarrow> 'c \<Rightarrow> 'c \<times> (session_store_error + session_record option))
   \<Rightarrow> (session_record \<Rightarrow> 'c \<Rightarrow> 'c \<times> (session_store_error + unit))
   \<Rightarrow> (system_time \<Rightarrow> string \<Rightarrow> 's \<Rightarrow> 's \<times> (session_store_error + session_record option))
   \<Rightarrow> system_time \<Rightarrow> string \<Rightarrow> 'c \<times> 's \<Rightarrow> ('c \<times> 's) \<times> (session_store_error + session_record option)" where
  "caching_load cache_load cache_save store_load now i cs =
     (case cs of (c, s) \<Rightarrow>
        (case cache_load now i c of
           (c', Inl e) \<Rightarrow> ((c', s), Inl e)
         | (c', Inr (Some r)) \<Rightarrow> ((c', s), Inr (Some r))
         | (c', Inr None) \<Rightarrow>
             (case store_load now i s of
                (s', Inl e) \<Rightarrow> ((c', s'), Inl e)
              | (s', Inr (Some r)) \<Rightarrow> ((fst (cache_save r c'), s'), Inr (Some r))
              | (s', Inr None) \<Rightarrow> ((c', s'), Inr None))))"

definition caching_delete ::
  "(string \<Rightarrow> 'c \<Rightarrow> 'c \<times> (session_store_error + unit))
   \<Rightarrow> (string \<Rightarrow> 's \<Rightarrow> 's \<times> (session_store_error + unit))
   \<Rightarrow> string \<Rightarrow> 'c \<times> 's \<Rightarrow> ('c \<times> 's) \<times> (session_store_error + unit)" where
  "caching_delete cache_delete store_delete i cs =
     (case cs of (c, s) \<Rightarrow>
        (case (cache_delete i c, store_delete i s) of
           ((c', cr), (s', sr)) \<Rightarrow> ((c', s'), result_and cr sr)))"

section \<open>The trait\<close>

definition live_at :: "system_time \<Rightarrow> session_record option \<Rightarrow> session_record option" where
  "live_at now x = (case x of None \<Rightarrow> None | Some r \<Rightarrow> if session_is_expired now r then None else Some r)"

lemma live_at_simps [simp]:
  "live_at now None = None"
  "live_at now (Some r) = (if session_is_expired now r then None else Some r)"
  by (simp_all add: live_at_def)

lemma live_at_Some: "live_at now x = Some r \<Longrightarrow> x = Some r \<and> \<not> session_is_expired now r"
  by (auto simp: live_at_def split: option.splits if_splits)

text \<open>
  The documented rules of \<open>SessionStore\<close>: \<open>create\<close> never overwrites and stores the record
  under the id it returns, \<open>save\<close> is an upsert of the whole record, \<open>load\<close> returns the stored
  record unless it is unknown or expired, \<open>delete\<close> removes the named record only.  \<open>stored\<close>
  is what the store holds and \<open>ok\<close> its invariant.
\<close>

locale session_backend =
  fixes create :: "session_record \<Rightarrow> 's \<Rightarrow> ('s \<times> (session_store_error + session_record)) option"
    and save :: "session_record \<Rightarrow> 's \<Rightarrow> 's \<times> (session_store_error + unit)"
    and load :: "system_time \<Rightarrow> string \<Rightarrow> 's \<Rightarrow> 's \<times> (session_store_error + session_record option)"
    and delete :: "string \<Rightarrow> 's \<Rightarrow> 's \<times> (session_store_error + unit)"
    and stored :: "'s \<Rightarrow> string \<Rightarrow> session_record option"
    and ok :: "'s \<Rightarrow> bool"
  assumes create_law: "ok s \<Longrightarrow> create r s = Some (s', res) \<Longrightarrow>
      \<exists>i. res = Inr (r\<lparr>sr_id := i\<rparr>) \<and> stored s i = None
        \<and> stored s' = (stored s)(i \<mapsto> r\<lparr>sr_id := i\<rparr>) \<and> ok s'"
    and save_law: "ok s \<Longrightarrow>
      \<exists>s'. save r s = (s', Inr ()) \<and> stored s' = (stored s)(sr_id r \<mapsto> r) \<and> ok s'"
    and load_law: "ok s \<Longrightarrow>
      \<exists>s'. load now i s = (s', Inr (live_at now (stored s i))) \<and> stored s' = stored s \<and> ok s'"
    and id_law: "ok s \<Longrightarrow> stored s i = Some r \<Longrightarrow> sr_id r = i"
    and delete_law: "ok s \<Longrightarrow>
      \<exists>s'. delete i s = (s', Inr ()) \<and> stored s' = (stored s)(i := None) \<and> ok s'"
begin

lemma load_saved:
  assumes "ok s"
  shows "snd (load now i (fst (save r s))) =
    Inr (if i = sr_id r then (if session_is_expired now r then None else Some r)
         else live_at now (stored s i))"
proof -
  obtain s' where s': "save r s = (s', Inr ())" "stored s' = (stored s)(sr_id r \<mapsto> r)" "ok s'"
    using save_law [OF assms] by blast
  show ?thesis using load_law [OF s'(3), of now i] s' by auto
qed

lemma load_deleted:
  assumes "ok s"
  shows "snd (load now i (fst (delete j s))) = Inr (if i = j then None else live_at now (stored s i))"
proof -
  obtain s' where s': "delete j s = (s', Inr ())" "stored s' = (stored s)(j := None)" "ok s'"
    using delete_law [OF assms] by blast
  show ?thesis using load_law [OF s'(3), of now i] s' by auto
qed

lemma load_created:
  assumes "ok s" and "create r s = Some (s', Inr r')"
  shows "live_at now (stored s (sr_id r')) = None"
    and "snd (load now i s') = Inr (if i = sr_id r' then live_at now (Some r') else live_at now (stored s i))"
proof -
  obtain k where k: "r' = r\<lparr>sr_id := k\<rparr>" "stored s k = None" "stored s' = (stored s)(k \<mapsto> r\<lparr>sr_id := k\<rparr>)" "ok s'"
    using create_law [OF assms] by auto
  then show "live_at now (stored s (sr_id r')) = None" by simp
  show "snd (load now i s') = Inr (if i = sr_id r' then live_at now (Some r') else live_at now (stored s i))"
    using load_law [OF k(4), of now i] k by auto
qed

end

lemma create_loop_fresh:
  assumes "create_loop uuids k i s = Some j"
  shows "map_of s j = None"
  by (rule create_loop.raw_induct [where P = "\<lambda>uuids k i s j. map_of s j = None", OF _ assms])
    (auto simp: map_of_eq_None_iff split: if_splits)

definition mem_ok :: "memory_session_store \<Rightarrow> bool" where
  "mem_ok s \<longleftrightarrow> (\<forall>i r. map_of s i = Some r \<longrightarrow> sr_id r = i)"

interpretation mem: session_backend "mem_create uuids" mem_save mem_load mem_delete map_of mem_ok
  for uuids
proof unfold_locales
  fix r s s' res
  assume "mem_ok s" and c: "mem_create uuids r s = Some (s', res)"
  then show "\<exists>i. res = Inr (r\<lparr>sr_id := i\<rparr>) \<and> map_of s i = None
      \<and> map_of s' = (map_of s)(i \<mapsto> r\<lparr>sr_id := i\<rparr>) \<and> mem_ok s'"
    by (auto simp: mem_create_def Let_def update_conv' mem_ok_def create_loop_fresh
        split: if_splits intro!: exI [of _ "sr_id (projr res)"])
qed (auto simp: mem_ok_def mem_save_def mem_load_def mem_delete_def live_at_def update_conv' delete_conv'
    split: option.split)

section \<open>Two tiers\<close>

text \<open>A cache in front of a backend: what the cache holds is what the backend holds.\<close>

definition coherent ::
  "('c \<Rightarrow> string \<Rightarrow> session_record option) \<Rightarrow> ('s \<Rightarrow> string \<Rightarrow> session_record option) \<Rightarrow> 'c \<times> 's \<Rightarrow> bool" where
  "coherent cached stored cs \<longleftrightarrow>
     (\<forall>i r. cached (fst cs) i = Some r \<longrightarrow> stored (snd cs) i = Some r)"

locale session_tiers =
  cache: session_backend c_create c_save c_load c_delete cached c_ok +
  store: session_backend s_create s_save s_load s_delete held s_ok
  for c_create :: "session_record \<Rightarrow> 'c \<Rightarrow> ('c \<times> (session_store_error + session_record)) option"
    and c_save c_load c_delete cached c_ok
    and s_create :: "session_record \<Rightarrow> 's \<Rightarrow> ('s \<times> (session_store_error + session_record)) option"
    and s_save s_load s_delete held s_ok
begin

lemma tiers_create:
  assumes ok: "c_ok (fst cs) \<and> s_ok (snd cs) \<and> coherent cached held cs"
    and run: "caching_create c_save s_create r cs = Some (cs', res)"
  shows "\<exists>i. res = Inr (r\<lparr>sr_id := i\<rparr>) \<and> held (snd cs) i = None
    \<and> held (snd cs') = (held (snd cs))(i \<mapsto> r\<lparr>sr_id := i\<rparr>)
    \<and> c_ok (fst cs') \<and> s_ok (snd cs') \<and> coherent cached held cs'"
proof -
  obtain c s where cs: "cs = (c, s)" by (cases cs)
  obtain s' sres where s': "s_create r s = Some (s', sres)"
    using run by (auto simp: caching_create_def cs)
  obtain i where i: "sres = Inr (r\<lparr>sr_id := i\<rparr>)" "held s i = None"
      "held s' = (held s)(i \<mapsto> r\<lparr>sr_id := i\<rparr>)" "s_ok s'"
    using store.create_law [OF _ s'] ok cs by auto
  obtain c' where c': "c_save (r\<lparr>sr_id := i\<rparr>) c = (c', Inr ())"
      "cached c' = (cached c)(i \<mapsto> r\<lparr>sr_id := i\<rparr>)" "c_ok c'"
    using cache.save_law [of c "r\<lparr>sr_id := i\<rparr>"] ok cs by auto
  show ?thesis
    using run ok s' i c' by (auto simp: caching_create_def cs coherent_def)
qed

lemma tiers_save:
  assumes ok: "c_ok (fst cs) \<and> s_ok (snd cs) \<and> coherent cached held cs"
  shows "\<exists>cs'. caching_save c_save s_save r cs = (cs', Inr ())
    \<and> held (snd cs') = (held (snd cs))(sr_id r \<mapsto> r)
    \<and> c_ok (fst cs') \<and> s_ok (snd cs') \<and> coherent cached held cs'"
proof -
  obtain c s where cs: "cs = (c, s)" by (cases cs)
  obtain s' where "s_save r s = (s', Inr ())" "held s' = (held s)(sr_id r \<mapsto> r)" "s_ok s'"
    using store.save_law [of s r] ok cs by auto
  moreover obtain c' where "c_save r c = (c', Inr ())" "cached c' = (cached c)(sr_id r \<mapsto> r)" "c_ok c'"
    using cache.save_law [of c r] ok cs by auto
  ultimately show ?thesis using ok by (auto simp: caching_save_def cs coherent_def)
qed

lemma tiers_load:
  assumes ok: "c_ok (fst cs) \<and> s_ok (snd cs) \<and> coherent cached held cs"
  shows "\<exists>cs'. caching_load c_load c_save s_load now i cs = (cs', Inr (live_at now (held (snd cs) i)))
    \<and> held (snd cs') = held (snd cs)
    \<and> c_ok (fst cs') \<and> s_ok (snd cs') \<and> coherent cached held cs'"
proof -
  obtain c s where cs: "cs = (c, s)" by (cases cs)
  obtain c' where c': "c_load now i c = (c', Inr (live_at now (cached c i)))" "cached c' = cached c" "c_ok c'"
    using cache.load_law [of c now i] ok cs by auto
  obtain s' where s': "s_load now i s = (s', Inr (live_at now (held s i)))" "held s' = held s" "s_ok s'"
    using store.load_law [of s now i] ok cs by auto
  show ?thesis
  proof (cases "live_at now (cached c i)")
    case (Some r)
    then have "live_at now (held s i) = Some r"
      using live_at_Some [OF Some] ok cs by (auto simp: coherent_def)
    then show ?thesis using Some c' ok by (auto simp: caching_load_def cs coherent_def)
  next
    case None
    show ?thesis
    proof (cases "live_at now (held s i)")
      case None
      then show ?thesis
        using \<open>live_at now (cached c i) = None\<close> c' s' ok by (auto simp: caching_load_def cs coherent_def)
    next
      case (Some r)
      obtain c'' where "c_save r c' = (c'', Inr ())" "cached c'' = (cached c')(sr_id r \<mapsto> r)" "c_ok c''"
        using cache.save_law [OF c'(3)] by blast
      then show ?thesis
        using None Some c' s' ok live_at_Some [OF Some] store.id_law [of s i r]
        by (auto simp: caching_load_def cs coherent_def)
    qed
  qed
qed

lemma tiers_delete:
  assumes ok: "c_ok (fst cs) \<and> s_ok (snd cs) \<and> coherent cached held cs"
  shows "\<exists>cs'. caching_delete c_delete s_delete i cs = (cs', Inr ())
    \<and> held (snd cs') = (held (snd cs))(i := None)
    \<and> c_ok (fst cs') \<and> s_ok (snd cs') \<and> coherent cached held cs'"
proof -
  obtain c s where cs: "cs = (c, s)" by (cases cs)
  obtain s' where "s_delete i s = (s', Inr ())" "held s' = (held s)(i := None)" "s_ok s'"
    using store.delete_law [of s i] ok cs by auto
  moreover obtain c' where "c_delete i c = (c', Inr ())" "cached c' = (cached c)(i := None)" "c_ok c'"
    using cache.delete_law [of c i] ok cs by auto
  ultimately show ?thesis using ok by (auto simp: caching_delete_def cs coherent_def)
qed

end

text \<open>The caching store is itself a \<open>SessionStore\<close>.\<close>

definition tiers_held :: "('s \<Rightarrow> string \<Rightarrow> session_record option) \<Rightarrow> 'c \<times> 's \<Rightarrow> string \<Rightarrow> session_record option" where
  "tiers_held held cs = held (snd cs)"

definition tiers_ok ::
  "('c \<Rightarrow> bool) \<Rightarrow> ('s \<Rightarrow> bool) \<Rightarrow> ('c \<Rightarrow> string \<Rightarrow> session_record option)
   \<Rightarrow> ('s \<Rightarrow> string \<Rightarrow> session_record option) \<Rightarrow> 'c \<times> 's \<Rightarrow> bool" where
  "tiers_ok c_ok s_ok cached held cs \<longleftrightarrow> c_ok (fst cs) \<and> s_ok (snd cs) \<and> coherent cached held cs"

sublocale session_tiers \<subseteq> tiers: session_backend
  "caching_create c_save s_create" "caching_save c_save s_save" "caching_load c_load c_save s_load"
  "caching_delete c_delete s_delete" "tiers_held held" "tiers_ok c_ok s_ok cached held"
proof unfold_locales
  fix cs r cs' res
  assume "tiers_ok c_ok s_ok cached held cs" "caching_create c_save s_create r cs = Some (cs', res)"
  then show "\<exists>i. res = Inr (r\<lparr>sr_id := i\<rparr>) \<and> tiers_held held cs i = None
      \<and> tiers_held held cs' = (tiers_held held cs)(i \<mapsto> r\<lparr>sr_id := i\<rparr>) \<and> tiers_ok c_ok s_ok cached held cs'"
    using tiers_create [of cs r cs' res] by (simp add: tiers_ok_def tiers_held_def)
next
  fix cs r
  assume "tiers_ok c_ok s_ok cached held cs"
  then show "\<exists>cs'. caching_save c_save s_save r cs = (cs', Inr ())
      \<and> tiers_held held cs' = (tiers_held held cs)(sr_id r \<mapsto> r) \<and> tiers_ok c_ok s_ok cached held cs'"
    using tiers_save [of cs r] by (simp add: tiers_ok_def tiers_held_def)
next
  fix cs now i
  assume "tiers_ok c_ok s_ok cached held cs"
  then show "\<exists>cs'. caching_load c_load c_save s_load now i cs = (cs', Inr (live_at now (tiers_held held cs i)))
      \<and> tiers_held held cs' = tiers_held held cs \<and> tiers_ok c_ok s_ok cached held cs'"
    using tiers_load [of cs now i] by (simp add: tiers_ok_def tiers_held_def)
next
  fix cs i r
  assume "tiers_ok c_ok s_ok cached held cs" "tiers_held held cs i = Some r"
  then show "sr_id r = i" using store.id_law [of "snd cs" i r] by (simp add: tiers_ok_def tiers_held_def)
next
  fix cs i
  assume "tiers_ok c_ok s_ok cached held cs"
  then show "\<exists>cs'. caching_delete c_delete s_delete i cs = (cs', Inr ())
      \<and> tiers_held held cs' = (tiers_held held cs)(i := None) \<and> tiers_ok c_ok s_ok cached held cs'"
    using tiers_delete [of cs i] by (simp add: tiers_ok_def tiers_held_def)
qed

interpretation cached: session_tiers
  "mem_create cids" mem_save mem_load mem_delete map_of mem_ok
  "mem_create uuids" mem_save mem_load mem_delete map_of mem_ok
  for cids uuids
  by unfold_locales

section \<open>Reachable two-tier stores\<close>

text \<open>The caching store over two in-memory stores, used by one server through the trait.\<close>

type_synonym two_tier = "memory_session_store \<times> memory_session_store"

datatype session_op =
  OpCreate session_record | OpSave session_record | OpLoad system_time string | OpDelete string

fun run_session_op :: "(nat \<Rightarrow> string) \<Rightarrow> session_op \<Rightarrow> two_tier \<Rightarrow> two_tier option" where
  "run_session_op uuids (OpCreate r) cs = map_option fst (caching_create mem_save (mem_create uuids) r cs)"
| "run_session_op uuids (OpSave r) cs = Some (fst (caching_save mem_save mem_save r cs))"
| "run_session_op uuids (OpLoad now i) cs = Some (fst (caching_load mem_load mem_save mem_load now i cs))"
| "run_session_op uuids (OpDelete i) cs = Some (fst (caching_delete mem_delete mem_delete i cs))"

inductive session_ops_reach :: "(nat \<Rightarrow> string) \<Rightarrow> two_tier \<Rightarrow> bool" for uuids where
  start: "session_ops_reach uuids ([], [])"
| step: "session_ops_reach uuids cs \<Longrightarrow> run_session_op uuids oper cs = Some cs' \<Longrightarrow> session_ops_reach uuids cs'"

abbreviation two_tier_ok :: "two_tier \<Rightarrow> bool" where
  "two_tier_ok \<equiv> tiers_ok mem_ok mem_ok map_of map_of"

lemma session_ops_reach_ok: "session_ops_reach uuids cs \<Longrightarrow> two_tier_ok cs"
proof (induction rule: session_ops_reach.induct)
  case start
  then show ?case by (simp add: tiers_ok_def coherent_def mem_ok_def)
next
  case (step cs oper cs')
  show ?case
  proof (cases oper)
    case (OpCreate r)
    with step.hyps(2) obtain res where "caching_create mem_save (mem_create uuids) r cs = Some (cs', res)"
      by auto
    then show ?thesis using cached.tiers.create_law [OF step.IH] by blast
  next
    case (OpSave r)
    then show ?thesis using cached.tiers.save_law [OF step.IH, of r] step.hyps(2) by auto
  next
    case (OpLoad now i)
    then show ?thesis using cached.tiers.load_law [OF step.IH, of now i] step.hyps(2) by auto
  next
    case (OpDelete i)
    then show ?thesis using cached.tiers.delete_law [OF step.IH, of i] step.hyps(2) by auto
  qed
qed

definition demo_record :: "string \<Rightarrow> system_time \<Rightarrow> session_record" where
  "demo_record i deadline = \<lparr>sr_id = i, sr_protocol_version = ''v'', sr_client_info = None,
     sr_client_capabilities = None, sr_created_at = 0, sr_last_accessed = 0,
     sr_expires_at = deadline, sr_principal = None\<rparr>"

definition demo_tiers :: two_tier where
  "demo_tiers = fst (caching_save mem_save mem_save (demo_record ''s'' 5) ([], []))"

lemma demo_tiers_reach: "session_ops_reach uuids demo_tiers"
  unfolding demo_tiers_def
  by (rule session_ops_reach.step [OF session_ops_reach.start, where oper = "OpSave (demo_record ''s'' 5)"]) simp



section \<open>Creation\<close>

lemma create_loop_draws:
  assumes "uuids (k + n) \<notin> fst ` set s"
  shows "\<exists>j. create_loop uuids k i s = Some j"
  using assms
proof (induction n arbitrary: k i)
  case 0
  then show ?case by (subst create_loop.simps) (subst create_loop.simps, simp)
next
  case (Suc n)
  then show ?case by (subst create_loop.simps) simp
qed

lemma pigeonhole_draw:
  fixes f :: "nat \<Rightarrow> 'a"
  assumes "inj f"
  shows "\<exists>n\<le>length xs. f n \<notin> set xs"
proof (rule ccontr)
  assume "\<not> (\<exists>n\<le>length xs. f n \<notin> set xs)"
  then have "f ` {..length xs} \<subseteq> set xs" by auto
  then have "card (f ` {..length xs}) \<le> card (set xs)" by (simp add: card_mono)
  moreover have "card (f ` {..length xs}) = Suc (length xs)"
    using assms by (simp add: card_image inj_on_subset)
  moreover have "card (set xs) \<le> length xs" by (rule card_length)
  ultimately show False by simp
qed

text \<open>
  C32: \<open>create\<close> ends and never overwrites.  If the generator never repeats an identifier, the
  retry loop returns; the new record differs from the given one at most in its id, is stored under
  that id, which was free, keeps the given id when that was free, and every other session is as
  before.
\<close>

theorem session_create_fresh:
  assumes "inj uuids"
  shows "\<exists>s' r'. mem_create uuids r s = Some (s', Inr r') \<and> r' = r\<lparr>sr_id := sr_id r'\<rparr>
    \<and> map_of s (sr_id r') = None \<and> map_of s' = (map_of s)(sr_id r' \<mapsto> r')
    \<and> (map_of s (sr_id r) = None \<longrightarrow> r' = r)"
proof -
  obtain n where "uuids n \<notin> set (map fst s)" using pigeonhole_draw [OF assms, of "map fst s"] by auto
  then obtain j where j: "create_loop uuids 0 (sr_id r) s = Some j"
    using create_loop_draws [of uuids 0 n s] by auto
  have "map_of s (sr_id r) = None \<longrightarrow> j = sr_id r"
    using j by (subst (asm) create_loop.simps) (auto simp: map_of_eq_None_iff)
  then show ?thesis
    using j create_loop_fresh [OF j] by (auto simp: mem_create_def Let_def update_conv')
qed

lemma session_create_fresh_witness:
  "\<exists>s' r'. mem_create (\<lambda>n. replicate n CHR ''x'') (demo_record '''' 5) [('''', demo_record '''' 9)] = Some (s', Inr r')
     \<and> map_of s' '''' = Some (demo_record '''' 9)"
proof -
  have "inj (\<lambda>n. replicate n CHR ''x'')" by (rule injI) (auto dest: arg_cong [where f = length])
  from session_create_fresh [OF this, of "demo_record '''' 5" "[('''', demo_record '''' 9)]"]
  obtain s' r' where a: "mem_create (\<lambda>n. replicate n CHR ''x'') (demo_record '''' 5) [('''', demo_record '''' 9)] = Some (s', Inr r')"
    "map_of [('''', demo_record '''' 9)] (sr_id r') = None"
    "map_of s' = (map_of [('''', demo_record '''' 9)])(sr_id r' \<mapsto> r')"
    by blast
  then show ?thesis by (auto split: if_splits)
qed

section \<open>Interleaved loads\<close>

text \<open>
  \<open>load\<close> of the caching store awaits three times; other requests run between the steps: it reads
  the cache, then the backend, then writes the record into the cache.
\<close>

definition load_from_backend :: "system_time \<Rightarrow> string \<Rightarrow> two_tier \<Rightarrow> session_record option" where
  "load_from_backend now i cs =
     (case snd (mem_load now i (snd cs)) of Inl e \<Rightarrow> None | Inr x \<Rightarrow> x)"

definition fill_cache :: "session_record \<Rightarrow> two_tier \<Rightarrow> two_tier" where
  "fill_cache r cs = (fst (mem_save r (fst cs)), snd cs)"

lemma load_in_steps:
  "caching_load mem_load mem_save mem_load now i cs =
     (case snd (mem_load now i (fst cs)) of
        Inl e \<Rightarrow> (cs, Inl e)
      | Inr (Some r) \<Rightarrow> (cs, Inr (Some r))
      | Inr None \<Rightarrow>
          (case load_from_backend now i cs of
             None \<Rightarrow> (cs, Inr None)
           | Some r \<Rightarrow> (fill_cache r cs, Inr (Some r))))"
  by (cases cs)
    (auto simp: caching_load_def mem_load_def load_from_backend_def fill_cache_def mem_save_def
      split: option.splits if_splits)

text \<open>
  C33: a \<open>delete\<close> that runs between the backend read and the cache write of a \<open>load\<close> is
  undone in the cache.  Whatever live record the load read, after the delete has removed it from
  both tiers the load's last step puts it back, and every later load returns the deleted session
  until it expires.
\<close>

theorem concurrent_delete_undone:
  assumes "load_from_backend now i cs = Some r" and "sr_id r = i" and "later < sr_expires_at r"
  shows "let cs1 = fst (caching_delete mem_delete mem_delete i cs); cs2 = fill_cache r cs1 in
      snd (caching_load mem_load mem_save mem_load later i cs1) = Inr None
    \<and> map_of (snd cs2) i = None
    \<and> snd (caching_load mem_load mem_save mem_load later i cs2) = Inr (Some r)"
  using assms
  by (cases cs)
    (simp add: Let_def caching_delete_def mem_delete_def caching_load_def mem_load_def fill_cache_def
      mem_save_def update_conv' delete_conv' session_is_expired_def)

lemma concurrent_delete_undone_witness:
  "snd (caching_load mem_load mem_save mem_load 4 ''s''
      (fill_cache (demo_record ''s'' 5)
        (fst (caching_delete mem_delete mem_delete ''s'' ([], [(''s'', demo_record ''s'' 5)])))))
   = Inr (Some (demo_record ''s'' 5))"
  using concurrent_delete_undone [of 3 "''s''" "([], [(''s'', demo_record ''s'' 5)])" "demo_record ''s'' 5" 4]
  by (simp add: load_from_backend_def mem_load_def demo_record_def session_is_expired_def Let_def)

end
