(* ===== verification/EventStore.thy ===== *)
theory EventStore
  imports Prelude "HOL-Library.Sublist"
begin

text \<open>
  The event stores of \<open>crates/tower-mcp/src/event_store.rs\<close>, which keep the events of an SSE
  stream for replay after a reconnect: the in-memory ring buffers and the two-tier caching store.
  The locale \<open>ring_log\<close> is the behaviour both tiers have; the in-memory store interprets it.
\<close>

section \<open>Events and the in-memory store\<close>

record event_record =
  ev_id :: nat
  ev_data :: string
  ev_timestamp :: int

definition event_record_new :: "int \<Rightarrow> nat \<Rightarrow> string \<Rightarrow> event_record" where
  "event_record_new now i payload = \<lparr>ev_id = i, ev_data = payload, ev_timestamp = now\<rparr>"

datatype event_store_error = EventEncode string | EventDecode string | EventBackend string

definition DEFAULT_MAX_EVENTS_PER_SESSION :: nat where
  "DEFAULT_MAX_EVENTS_PER_SESSION = 1000"

record memory_event_store =
  me_inner :: "(string \<times> event_record list) list"
  me_max :: nat

definition memory_event_store_new :: "nat \<Rightarrow> memory_event_store" where
  "memory_event_store_new cap = \<lparr>me_inner = [], me_max = cap\<rparr>"

definition total_events :: "memory_event_store \<Rightarrow> nat" where
  "total_events s = sum_list (map (\<lambda>kv. length (snd kv)) (me_inner s))"

definition session_count :: "memory_event_store \<Rightarrow> nat" where
  "session_count s = length (me_inner s)"

text \<open>\<open>VecDeque\<close>: \<open>pop_front\<close> is \<open>tl\<close>, \<open>push_back\<close> appends.\<close>

definition ring_push :: "nat \<Rightarrow> event_record \<Rightarrow> event_record list \<Rightarrow> event_record list" where
  "ring_push cap e buf = (if cap \<le> length buf then tl buf else buf) @ [e]"

definition buffer_of :: "memory_event_store \<Rightarrow> string \<Rightarrow> event_record list" where
  "buffer_of s sid = (case map_of (me_inner s) sid of None \<Rightarrow> [] | Some buf \<Rightarrow> buf)"

definition mem_append ::
  "string \<Rightarrow> event_record \<Rightarrow> memory_event_store \<Rightarrow> memory_event_store \<times> (event_store_error + unit)" where
  "mem_append sid e s =
     (s\<lparr>me_inner := AList.update sid (ring_push (me_max s) e (buffer_of s sid)) (me_inner s)\<rparr>, Inr ())"

definition mem_replay_after ::
  "string \<Rightarrow> nat \<Rightarrow> memory_event_store \<Rightarrow> memory_event_store \<times> (event_store_error + event_record list)" where
  "mem_replay_after sid after s =
     (s, Inr (case map_of (me_inner s) sid of
                Some buf \<Rightarrow> filter (\<lambda>e. after < ev_id e) buf
              | None \<Rightarrow> []))"

definition mem_purge ::
  "string \<Rightarrow> memory_event_store \<Rightarrow> memory_event_store \<times> (event_store_error + unit)" where
  "mem_purge sid s = (s\<lparr>me_inner := AList.delete sid (me_inner s)\<rparr>, Inr ())"

section \<open>The caching store\<close>

definition caching_append ::
  "(string \<Rightarrow> event_record \<Rightarrow> 'c \<Rightarrow> 'c \<times> (event_store_error + unit))
   \<Rightarrow> (string \<Rightarrow> event_record \<Rightarrow> 's \<Rightarrow> 's \<times> (event_store_error + unit))
   \<Rightarrow> string \<Rightarrow> event_record \<Rightarrow> 'c \<times> 's \<Rightarrow> ('c \<times> 's) \<times> (event_store_error + unit)" where
  "caching_append cache_append store_append sid e cs =
     (case cs of (c, s) \<Rightarrow>
        (case store_append sid e s of
           (s', Inl err) \<Rightarrow> ((c, s'), Inl err)
         | (s', Inr _) \<Rightarrow>
             (case cache_append sid e c of
                (c', Inl err) \<Rightarrow> ((c', s'), Inl err)
              | (c', Inr _) \<Rightarrow> ((c', s'), Inr ()))))"

text \<open>The warming loop: failures are ignored.\<close>

definition warm_cache ::
  "(string \<Rightarrow> event_record \<Rightarrow> 'c \<Rightarrow> 'c \<times> (event_store_error + unit))
   \<Rightarrow> string \<Rightarrow> event_record list \<Rightarrow> 'c \<Rightarrow> 'c" where
  "warm_cache cache_append sid es c = fold (\<lambda>e c. fst (cache_append sid e c)) es c"

definition caching_replay_after ::
  "(string \<Rightarrow> nat \<Rightarrow> 'c \<Rightarrow> 'c \<times> (event_store_error + event_record list))
   \<Rightarrow> (string \<Rightarrow> event_record \<Rightarrow> 'c \<Rightarrow> 'c \<times> (event_store_error + unit))
   \<Rightarrow> (string \<Rightarrow> nat \<Rightarrow> 's \<Rightarrow> 's \<times> (event_store_error + event_record list))
   \<Rightarrow> string \<Rightarrow> nat \<Rightarrow> 'c \<times> 's \<Rightarrow> ('c \<times> 's) \<times> (event_store_error + event_record list)" where
  "caching_replay_after cache_replay cache_append store_replay sid after cs =
     (case cs of (c, s) \<Rightarrow>
        (case cache_replay sid after c of
           (c', Inl err) \<Rightarrow> ((c', s), Inl err)
         | (c', Inr cached) \<Rightarrow>
             if cached \<noteq> [] then ((c', s), Inr cached)
             else
               (case store_replay sid after s of
                  (s', Inl err) \<Rightarrow> ((c', s'), Inl err)
                | (s', Inr from_store) \<Rightarrow>
                    ((warm_cache cache_append sid from_store c', s'), Inr from_store))))"

definition caching_purge ::
  "(string \<Rightarrow> 'c \<Rightarrow> 'c \<times> (event_store_error + unit))
   \<Rightarrow> (string \<Rightarrow> 's \<Rightarrow> 's \<times> (event_store_error + unit))
   \<Rightarrow> string \<Rightarrow> 'c \<times> 's \<Rightarrow> ('c \<times> 's) \<times> (event_store_error + unit)" where
  "caching_purge cache_purge store_purge sid cs =
     (case cs of (c, s) \<Rightarrow>
        (case (cache_purge sid c, store_purge sid s) of
           ((c', Inl err), (s', _)) \<Rightarrow> ((c', s'), Inl err)
         | ((c', Inr _), (s', r)) \<Rightarrow> ((c', s'), r)))"

section \<open>The behaviour of one tier\<close>

text \<open>
  A tier keeps, per session, the most recent events appended, at most a fixed number of them (at
  least one); replaying reads them in order and purging drops those of one session.
\<close>

locale ring_log =
  fixes append :: "string \<Rightarrow> event_record \<Rightarrow> 's \<Rightarrow> 's \<times> (event_store_error + unit)"
    and replay :: "string \<Rightarrow> nat \<Rightarrow> 's \<Rightarrow> 's \<times> (event_store_error + event_record list)"
    and purge :: "string \<Rightarrow> 's \<Rightarrow> 's \<times> (event_store_error + unit)"
    and log :: "'s \<Rightarrow> string \<Rightarrow> event_record list"
    and cap :: "'s \<Rightarrow> nat"
    and ok :: "'s \<Rightarrow> bool"
  assumes append_law: "ok s \<Longrightarrow>
      \<exists>s'. append sid e s = (s', Inr ()) \<and> log s' = (log s)(sid := ring_push (cap s) e (log s sid))
        \<and> cap s' = cap s \<and> ok s'"
    and replay_law: "ok s \<Longrightarrow>
      \<exists>s'. replay sid after s = (s', Inr (filter (\<lambda>e. after < ev_id e) (log s sid)))
        \<and> log s' = log s \<and> cap s' = cap s \<and> ok s'"
    and purge_law: "ok s \<Longrightarrow>
      \<exists>s'. purge sid s = (s', Inr ()) \<and> log s' = (log s)(sid := []) \<and> cap s' = cap s \<and> ok s'"
    and bounded: "ok s \<Longrightarrow> length (log s sid) \<le> max 1 (cap s)"
begin

lemma append_result:
  assumes "ok s"
  shows "snd (append sid e s) = Inr ()" "ok (fst (append sid e s))" "cap (fst (append sid e s)) = cap s"
    "log (fst (append sid e s)) = (log s)(sid := ring_push (cap s) e (log s sid))"
  using append_law [OF assms, of sid e] by auto

lemma replay_result:
  assumes "ok s"
  shows "snd (replay sid after s) = Inr (filter (\<lambda>e. after < ev_id e) (log s sid))"
    "ok (fst (replay sid after s))" "cap (fst (replay sid after s)) = cap s" "log (fst (replay sid after s)) = log s"
  using replay_law [OF assms, of sid after] by auto

lemma purge_result:
  assumes "ok s"
  shows "snd (purge sid s) = Inr ()" "ok (fst (purge sid s))" "cap (fst (purge sid s)) = cap s"
    "log (fst (purge sid s)) = (log s)(sid := [])"
  using purge_law [OF assms, of sid] by auto

lemma warm_result:
  assumes "ok s"
  shows "ok (warm_cache append sid es s) \<and> cap (warm_cache append sid es s) = cap s
    \<and> log (warm_cache append sid es s) = (log s)(sid := fold (ring_push (cap s)) es (log s sid))"
  using assms
proof (induction es arbitrary: s)
  case Nil
  then show ?case by (simp add: warm_cache_def)
next
  case (Cons e es)
  note a = append_result [OF Cons.prems, of sid e]
  show ?case using Cons.IH [OF a(2)] a by (simp add: warm_cache_def fun_upd_def) (auto simp: fun_eq_iff)
qed

end

definition mem_events_ok :: "memory_event_store \<Rightarrow> bool" where
  "mem_events_ok s \<longleftrightarrow> (\<forall>sid. length (buffer_of s sid) \<le> max 1 (me_max s))"

lemma buffer_of_simps:
  "buffer_of (s\<lparr>me_inner := AList.update sid b (me_inner s)\<rparr>) = (buffer_of s)(sid := b)"
  "buffer_of (s\<lparr>me_inner := AList.delete sid (me_inner s)\<rparr>) = (buffer_of s)(sid := [])"
  by (auto simp: buffer_of_def fun_eq_iff map_of_update_iff map_of_delete_iff)

lemma length_ring_push: "length buf \<le> max 1 cap \<Longrightarrow> length (ring_push cap e buf) \<le> max 1 cap"
  by (cases buf) (auto simp: ring_push_def)

interpretation mem_events: ring_log mem_append mem_replay_after mem_purge buffer_of me_max mem_events_ok
proof unfold_locales
  fix s :: memory_event_store and sid e
  assume "mem_events_ok s"
  then show "\<exists>s'. mem_append sid e s = (s', Inr ())
      \<and> buffer_of s' = (buffer_of s)(sid := ring_push (me_max s) e (buffer_of s sid))
      \<and> me_max s' = me_max s \<and> mem_events_ok s'"
    using length_ring_push [of "buffer_of s sid" "me_max s" e]
    by (simp add: mem_append_def buffer_of_simps mem_events_ok_def)
qed (auto simp: mem_replay_after_def mem_purge_def buffer_of_simps mem_events_ok_def buffer_of_def
    map_of_delete_iff split: option.split if_splits)

section \<open>The most recent events\<close>

definition last_n :: "nat \<Rightarrow> 'a list \<Rightarrow> 'a list" where
  "last_n n xs = drop (length xs - n) xs"

lemma ring_push_last_n:
  "ring_push cap e (last_n (max 1 cap) xs) = last_n (max 1 cap) (xs @ [e])"
proof (cases "length xs < max 1 cap")
  case True
  then show ?thesis
    by (auto simp: ring_push_def last_n_def) (cases xs; simp)
next
  case False
  have "tl (drop (length xs - m) xs) = drop (Suc (length xs) - m) xs" if "m \<le> length xs" for m
    using that by (simp add: tl_drop drop_Suc Suc_diff_le)
  then show ?thesis using False
    by (auto simp: ring_push_def last_n_def max_def split: if_splits)
qed

text \<open>The events of one session since its last purge.\<close>

datatype event_op = EvAppend string event_record | EvPurge string

fun run_event_op :: "event_op \<Rightarrow> memory_event_store \<Rightarrow> memory_event_store" where
  "run_event_op (EvAppend sid e) s = fst (mem_append sid e s)"
| "run_event_op (EvPurge sid) s = fst (mem_purge sid s)"

fun event_history :: "event_op list \<Rightarrow> string \<Rightarrow> event_record list \<Rightarrow> event_record list" where
  "event_history [] sid acc = acc"
| "event_history (EvAppend k e # ops) sid acc = event_history ops sid (if k = sid then acc @ [e] else acc)"
| "event_history (EvPurge k # ops) sid acc = event_history ops sid (if k = sid then [] else acc)"

lemma run_event_ops_log:
  assumes "mem_events_ok s" and "buffer_of s sid = last_n (max 1 (me_max s)) acc"
  shows "buffer_of (fold run_event_op ops s) sid = last_n (max 1 (me_max s)) (event_history ops sid acc)
    \<and> me_max (fold run_event_op ops s) = me_max s \<and> mem_events_ok (fold run_event_op ops s)"
  using assms
proof (induction ops arbitrary: s acc)
  case Nil
  then show ?case by simp
next
  case (Cons oper ops)
  show ?case
  proof (cases oper)
    case (EvAppend k e)
    note a = mem_events.append_result [OF Cons.prems(1), of k e]
    have "buffer_of (fst (mem_append k e s)) sid =
        last_n (max 1 (me_max (fst (mem_append k e s)))) (if k = sid then acc @ [e] else acc)"
      using a(3,4) Cons.prems(2) ring_push_last_n [of "me_max s" e acc] by auto
    from Cons.IH [OF a(2) this] show ?thesis using EvAppend a(3) by simp
  next
    case (EvPurge k)
    note p = mem_events.purge_result [OF Cons.prems(1), of k]
    have "buffer_of (fst (mem_purge k s)) sid =
        last_n (max 1 (me_max (fst (mem_purge k s)))) (if k = sid then [] else acc)"
      using p(3,4) Cons.prems(2) by (auto simp: last_n_def)
    from Cons.IH [OF p(2) this] show ?thesis using EvPurge p(3) by simp
  qed
qed

text \<open>
  What \<open>MemoryEventStore\<close> replays.  After any sequence of appends and purges of any
  sessions, replaying a session gives, in the order they were appended, those of its most recent
  events since its last purge whose id is greater than the requested one; at most the configured
  capacity of them (one, for capacity zero) and never another session's.
\<close>

theorem memory_replay_is_recent_history:
  "snd (mem_replay_after sid after (fold run_event_op ops (memory_event_store_new cap))) =
     Inr (filter (\<lambda>e. after < ev_id e) (last_n (max 1 cap) (event_history ops sid [])))"
proof -
  have ok: "mem_events_ok (memory_event_store_new cap)"
    by (simp add: mem_events_ok_def buffer_of_def memory_event_store_new_def)
  have "buffer_of (memory_event_store_new cap) sid = last_n (max 1 (me_max (memory_event_store_new cap))) []"
    by (simp add: buffer_of_def memory_event_store_new_def last_n_def)
  from run_event_ops_log [OF ok this, of ops] show ?thesis
    using mem_events.replay_result(1) by (simp add: memory_event_store_new_def)
qed

section \<open>Two tiers\<close>

definition ids_increase :: "event_record list \<Rightarrow> bool" where
  "ids_increase es \<longleftrightarrow> sorted_wrt (<) (map ev_id es)"

definition tail_of ::
  "('c \<Rightarrow> string \<Rightarrow> event_record list) \<Rightarrow> ('s \<Rightarrow> string \<Rightarrow> event_record list) \<Rightarrow> 'c \<times> 's \<Rightarrow> bool" where
  "tail_of clog slog cs \<longleftrightarrow>
     (\<forall>sid. suffix (clog (fst cs) sid) (slog (snd cs) sid) \<and> ids_increase (slog (snd cs) sid))"

lemma suffix_ring_push:
  assumes "suffix xs ys" and "length ys \<le> max 1 n" and "m \<le> n"
  shows "suffix (ring_push m e xs) (ring_push n e ys)"
proof -
  obtain zs where ys: "ys = zs @ xs" using assms(1) by (auto simp: suffix_def)
  show ?thesis
  proof (cases zs)
    case Nil
    then show ?thesis
      using ys assms by (cases xs) (auto simp: ring_push_def intro: suffix_ConsI)
  next
    case (Cons z zs')
    then show ?thesis
      using ys by (auto simp: ring_push_def suffix_def intro: exI [of _ "zs' @ [hd xs]"] exI [of _ zs'] exI [of _ "z # zs'"])
        (metis Nil_tl append_Cons append_Nil append_assoc hd_Cons_tl)+
  qed
qed

lemma suffix_fold_ring_push:
  "suffix xs ys \<Longrightarrow> suffix (fold (ring_push m) es xs) (ys @ es)"
proof (induction es arbitrary: xs ys)
  case (Cons e es)
  have "suffix (ring_push m e xs) (ys @ [e])"
    using Cons.prems by (auto simp: ring_push_def intro: suffix_tl suffix_order.trans [OF suffix_tl])
  from Cons.IH [OF this] show ?case by simp
qed simp

lemma filter_suffix: "suffix xs ys \<Longrightarrow> suffix (filter P xs) (filter P ys)"
  by (auto simp: suffix_def)

lemma ids_increase_filter_suffix:
  assumes "ids_increase es"
  shows "suffix (filter (\<lambda>e. after < ev_id e) es) es"
  using assms
proof (induction es)
  case (Cons e es)
  show ?case
  proof (cases "after < ev_id e")
    case True
    then have "filter (\<lambda>e. after < ev_id e) (e # es) = e # es"
      using Cons.prems by (auto simp: ids_increase_def intro!: filter_True)
    then show ?thesis by simp
  next
    case False
    then show ?thesis using Cons by (auto simp: ids_increase_def intro: suffix_ConsI)
  qed
qed (simp add: ids_increase_def)

lemma ids_increase_suffix: "ids_increase ys \<Longrightarrow> suffix xs ys \<Longrightarrow> ids_increase xs"
  by (auto simp: ids_increase_def suffix_def sorted_wrt_append)

lemma suffix_warm:
  assumes "suffix xs ys" and "ids_increase ys" and "filter (\<lambda>e. after < ev_id e) xs = []"
  shows "suffix (fold (ring_push m) (filter (\<lambda>e. after < ev_id e) ys) xs) ys"
proof (cases "xs = []")
  case True
  have "suffix (fold (ring_push m) (filter (\<lambda>e. after < ev_id e) ys) []) ([] @ filter (\<lambda>e. after < ev_id e) ys)"
    by (rule suffix_fold_ring_push) simp
  then show ?thesis
    using ids_increase_filter_suffix [OF assms(2), of after] True by (auto intro: suffix_order.trans)
next
  case False
  obtain zs where ys: "ys = zs @ xs" using assms(1) by (auto simp: suffix_def)
  have last: "\<not> after < ev_id (last xs)" using assms(3) False by (auto simp: filter_empty_conv)
  have "\<not> after < ev_id e" if "e \<in> set zs" for e
  proof -
    have "ev_id e < ev_id (last xs)"
      using assms(2) that last_in_set [OF False] by (auto simp: ys ids_increase_def sorted_wrt_append)
    then show ?thesis using last by linarith
  qed
  then have "filter (\<lambda>e. after < ev_id e) ys = []" using assms(3) by (auto simp: ys filter_empty_conv)
  then show ?thesis using assms(1) by simp
qed

locale event_tiers =
  cache: ring_log c_append c_replay c_purge clog c_cap c_ok +
  store: ring_log s_append s_replay s_purge slog s_cap s_ok
  for c_append :: "string \<Rightarrow> event_record \<Rightarrow> 'c \<Rightarrow> 'c \<times> (event_store_error + unit)"
    and c_replay c_purge clog c_cap c_ok
    and s_append :: "string \<Rightarrow> event_record \<Rightarrow> 's \<Rightarrow> 's \<times> (event_store_error + unit)"
    and s_replay s_purge slog s_cap s_ok
begin

lemma tiers_append:
  assumes "c_ok c \<and> s_ok s \<and> c_cap c \<le> s_cap s \<and> tail_of clog slog (c, s)"
    and "\<forall>x\<in>set (slog s sid). ev_id x < ev_id e"
  shows "\<exists>c' s'. caching_append c_append s_append sid e (c, s) = ((c', s'), Inr ())
    \<and> slog s' = (slog s)(sid := ring_push (s_cap s) e (slog s sid))
    \<and> c_ok c' \<and> s_ok s' \<and> c_cap c' = c_cap c \<and> s_cap s' = s_cap s \<and> tail_of clog slog (c', s')"
proof -
  obtain s' where s': "s_append sid e s = (s', Inr ())" "slog s' = (slog s)(sid := ring_push (s_cap s) e (slog s sid))"
      "s_cap s' = s_cap s" "s_ok s'"
    using store.append_law [of s sid e] assms(1) by auto
  obtain c' where c': "c_append sid e c = (c', Inr ())" "clog c' = (clog c)(sid := ring_push (c_cap c) e (clog c sid))"
      "c_cap c' = c_cap c" "c_ok c'"
    using cache.append_law [of c sid e] assms(1) by auto
  have "suffix (ring_push (c_cap c) e (clog c sid)) (ring_push (s_cap s) e (slog s sid))"
    using assms(1) store.bounded [of s sid] by (intro suffix_ring_push) (auto simp: tail_of_def)
  moreover have "ids_increase (ring_push (s_cap s) e (slog s sid))"
  proof -
    have "ids_increase (if s_cap s \<le> length (slog s sid) then tl (slog s sid) else slog s sid)"
      using assms(1) ids_increase_suffix [OF _ suffix_tl, of "slog s sid"] by (auto simp: tail_of_def)
    then show ?thesis
      using assms(2) by (auto simp: ring_push_def ids_increase_def sorted_wrt_append dest: list.set_sel(2) [rotated])
        (metis list.sel(2) list.set_sel(2))
  qed
  ultimately have "tail_of clog slog (c', s')" using assms(1) s' c' by (simp add: tail_of_def)
  then show ?thesis using s' c' by (simp add: caching_append_def)
qed

lemma tiers_replay:
  assumes "c_ok c \<and> s_ok s \<and> c_cap c \<le> s_cap s \<and> tail_of clog slog (c, s)"
  shows "\<exists>c' s' es. caching_replay_after c_replay c_append s_replay sid after (c, s) = ((c', s'), Inr es)
    \<and> suffix es (filter (\<lambda>e. after < ev_id e) (slog s sid))
    \<and> (es = [] \<longrightarrow> filter (\<lambda>e. after < ev_id e) (slog s sid) = [])
    \<and> slog s' = slog s
    \<and> c_ok c' \<and> s_ok s' \<and> c_cap c' = c_cap c \<and> s_cap s' = s_cap s \<and> tail_of clog slog (c', s')"
proof -
  let ?hits = "filter (\<lambda>e. after < ev_id e) (clog c sid)" and ?all = "filter (\<lambda>e. after < ev_id e) (slog s sid)"
  obtain c' where c': "c_replay sid after c = (c', Inr ?hits)" "clog c' = clog c" "c_cap c' = c_cap c" "c_ok c'"
    using cache.replay_law [of c sid after] assms by auto
  obtain s' where s': "s_replay sid after s = (s', Inr ?all)" "slog s' = slog s" "s_cap s' = s_cap s" "s_ok s'"
    using store.replay_law [of s sid after] assms by auto
  have suf: "suffix ?hits ?all" using assms by (auto simp: tail_of_def intro: filter_suffix)
  show ?thesis
  proof (cases "?hits = []")
    case False
    then show ?thesis using assms c' suf by (auto simp: caching_replay_after_def tail_of_def)
  next
    case True
    note w = cache.warm_result [OF c'(4), of sid ?all]
    have "suffix (fold (ring_push (c_cap c)) ?all (clog c sid)) (slog s sid)"
      using assms True by (intro suffix_warm) (auto simp: tail_of_def)
    then have "tail_of clog slog (warm_cache c_append sid ?all c', s')"
      using assms w c' s' by (auto simp: tail_of_def)
    then show ?thesis using True c' s' w by (auto simp: caching_replay_after_def)
  qed
qed

lemma tiers_purge:
  assumes "c_ok c \<and> s_ok s \<and> c_cap c \<le> s_cap s \<and> tail_of clog slog (c, s)"
  shows "\<exists>c' s'. caching_purge c_purge s_purge sid (c, s) = ((c', s'), Inr ())
    \<and> slog s' = (slog s)(sid := [])
    \<and> c_ok c' \<and> s_ok s' \<and> c_cap c' = c_cap c \<and> s_cap s' = s_cap s \<and> tail_of clog slog (c', s')"
  using cache.purge_law [of c sid] store.purge_law [of s sid] assms
  by (auto simp: caching_purge_def tail_of_def ids_increase_def)

end

interpretation mem_tiers: event_tiers
  mem_append mem_replay_after mem_purge buffer_of me_max mem_events_ok
  mem_append mem_replay_after mem_purge buffer_of me_max mem_events_ok
  by unfold_locales

text \<open>
  The caching store over two in-memory stores.  A restart of the process empties the cache and
  keeps the backend; the transport appends the events of a session with increasing ids.
\<close>

type_synonym event_two_tier = "memory_event_store \<times> memory_event_store"

inductive event_tiers_reach :: "nat \<Rightarrow> nat \<Rightarrow> event_two_tier \<Rightarrow> bool" for ccap scap where
  start: "event_tiers_reach ccap scap (memory_event_store_new ccap, memory_event_store_new scap)"
| append: "event_tiers_reach ccap scap cs \<Longrightarrow> \<forall>x\<in>set (buffer_of (snd cs) sid). ev_id x < ev_id e \<Longrightarrow>
    event_tiers_reach ccap scap (fst (caching_append mem_append mem_append sid e cs))"
| replay: "event_tiers_reach ccap scap cs \<Longrightarrow>
    event_tiers_reach ccap scap (fst (caching_replay_after mem_replay_after mem_append mem_replay_after sid after cs))"
| purge: "event_tiers_reach ccap scap cs \<Longrightarrow>
    event_tiers_reach ccap scap (fst (caching_purge mem_purge mem_purge sid cs))"
| restart: "event_tiers_reach ccap scap (c, s) \<Longrightarrow> event_tiers_reach ccap scap (memory_event_store_new ccap, s)"

definition event_tiers_ok :: "nat \<Rightarrow> nat \<Rightarrow> event_two_tier \<Rightarrow> bool" where
  "event_tiers_ok ccap scap cs \<longleftrightarrow> mem_events_ok (fst cs) \<and> mem_events_ok (snd cs)
     \<and> me_max (fst cs) = ccap \<and> me_max (snd cs) = scap \<and> tail_of buffer_of buffer_of cs"

lemma event_tiers_reach_ok:
  assumes "event_tiers_reach ccap scap cs" and "ccap \<le> scap"
  shows "event_tiers_ok ccap scap cs"
  using assms
proof (induction rule: event_tiers_reach.induct)
  case start
  then show ?case
    by (simp add: event_tiers_ok_def memory_event_store_new_def mem_events_ok_def buffer_of_def tail_of_def ids_increase_def)
next
  case (append cs sid e)
  obtain c s where cs: "cs = (c, s)" by (cases cs)
  show ?case
    using mem_tiers.tiers_append [of c s sid e] append cs by (auto simp: event_tiers_ok_def)
next
  case (replay cs sid after)
  obtain c s where cs: "cs = (c, s)" by (cases cs)
  show ?case
    using mem_tiers.tiers_replay [of c s sid after] replay cs by (auto simp: event_tiers_ok_def)
next
  case (purge cs sid)
  obtain c s where cs: "cs = (c, s)" by (cases cs)
  show ?case
    using mem_tiers.tiers_purge [of c s sid] purge cs by (auto simp: event_tiers_ok_def)
next
  case (restart c s)
  then show ?case
    by (auto simp: event_tiers_ok_def memory_event_store_new_def mem_events_ok_def buffer_of_def tail_of_def)
qed

definition demo_event :: "nat \<Rightarrow> event_record" where
  "demo_event i = \<lparr>ev_id = i, ev_data = ''d'', ev_timestamp = 0\<rparr>"

definition demo_backend :: memory_event_store where
  "demo_backend = fold (\<lambda>i. run_event_op (EvAppend ''s'' (demo_event i))) [1, 2, 3] (memory_event_store_new 10)"

lemma demo_backend_buffer: "buffer_of demo_backend ''s'' = [demo_event 1, demo_event 2, demo_event 3]"
  by (simp add: demo_backend_def memory_event_store_new_def mem_append_def buffer_of_def ring_push_def)

lemma demo_backend_reach: "event_tiers_reach 10 10 (memory_event_store_new 10, demo_backend)"
proof -
  note steps = event_tiers_reach.append [where ccap = 10 and scap = 10 and sid = "''s''"]
  have 1: "event_tiers_reach 10 10 (fst (caching_append mem_append mem_append ''s'' (demo_event 1)
      (memory_event_store_new 10, memory_event_store_new 10)))"
    by (rule steps [OF event_tiers_reach.start]) (simp add: buffer_of_def memory_event_store_new_def)
  have 2: "event_tiers_reach 10 10 (fst (caching_append mem_append mem_append ''s'' (demo_event 2)
      (fst (caching_append mem_append mem_append ''s'' (demo_event 1)
        (memory_event_store_new 10, memory_event_store_new 10)))))"
    by (rule steps [OF 1])
      (simp add: buffer_of_def memory_event_store_new_def caching_append_def mem_append_def ring_push_def demo_event_def)
  have 3: "event_tiers_reach 10 10 (fst (caching_append mem_append mem_append ''s'' (demo_event 3)
      (fst (caching_append mem_append mem_append ''s'' (demo_event 2)
        (fst (caching_append mem_append mem_append ''s'' (demo_event 1)
          (memory_event_store_new 10, memory_event_store_new 10)))))))"
    by (rule steps [OF 2])
      (simp add: buffer_of_def memory_event_store_new_def caching_append_def mem_append_def ring_push_def demo_event_def)
  have eq: "snd (fst (caching_append mem_append mem_append ''s'' (demo_event 3)
      (fst (caching_append mem_append mem_append ''s'' (demo_event 2)
        (fst (caching_append mem_append mem_append ''s'' (demo_event 1)
          (memory_event_store_new 10, memory_event_store_new 10))))))) = demo_backend"
    by (simp add: demo_backend_def caching_append_def mem_append_def)
  from 3 have "event_tiers_reach 10 10 (memory_event_store_new 10, snd (fst (caching_append mem_append mem_append ''s'' (demo_event 3)
      (fst (caching_append mem_append mem_append ''s'' (demo_event 2)
        (fst (caching_append mem_append mem_append ''s'' (demo_event 1)
          (memory_event_store_new 10, memory_event_store_new 10))))))))"
    by (metis event_tiers_reach.restart prod.collapse)
  then show ?thesis by (simp only: eq)
qed

text \<open>
  What the caching store replays, whatever was appended, replayed, purged or restarted before
  (the cache being no larger than the backend).  A replay succeeds; it returns a suffix, in order,
  of what the backend would replay, so nothing out of order and nothing from another session; it is
  empty only if the backend has nothing to replay; and it is the backend's whole replay when the
  cache has no hit or holds everything the backend holds for the session.
\<close>

theorem caching_replay_suffix:
  assumes "event_tiers_reach ccap scap (c, s)" and "ccap \<le> scap"
  shows "\<exists>es all.
      snd (caching_replay_after mem_replay_after mem_append mem_replay_after sid after (c, s)) = Inr es
    \<and> snd (mem_replay_after sid after s) = Inr all
    \<and> suffix es all \<and> (es = [] \<longrightarrow> all = [])
    \<and> (snd (mem_replay_after sid after c) = Inr [] \<or> buffer_of c sid = buffer_of s sid \<longrightarrow> es = all)"
proof -
  have ok: "event_tiers_ok ccap scap (c, s)" by (rule event_tiers_reach_ok [OF assms])
  let ?all = "filter (\<lambda>e. after < ev_id e) (buffer_of s sid)"
  obtain es where es: "snd (caching_replay_after mem_replay_after mem_append mem_replay_after sid after (c, s)) = Inr es"
    "suffix es ?all" "es = [] \<longrightarrow> ?all = []"
    using mem_tiers.tiers_replay [of c s sid after] ok assms(2) by (auto simp: event_tiers_ok_def)
  have r: "snd (mem_replay_after sid after x) = Inr (filter (\<lambda>e. after < ev_id e) (buffer_of x sid))" for x
    by (simp add: mem_replay_after_def buffer_of_def split: option.split)
  have "es = ?all" if "snd (mem_replay_after sid after c) = Inr [] \<or> buffer_of c sid = buffer_of s sid"
    using that es(1) r [of c] r [of s]
    by (cases "mem_replay_after sid after c"; cases "mem_replay_after sid after s")
      (auto simp: caching_replay_after_def split: if_splits)
  then show ?thesis using es r [of s] by blast
qed

lemma caching_replay_suffix_witness:
  "\<exists>es. snd (caching_replay_after mem_replay_after mem_append mem_replay_after ''s'' 1
       (memory_event_store_new 10, demo_backend)) = Inr es \<and> suffix es [demo_event 2, demo_event 3]"
proof -
  have "snd (mem_replay_after ''s'' 1 demo_backend) = Inr [demo_event 2, demo_event 3]"
    using demo_backend_buffer
    by (cases "map_of (me_inner demo_backend) ''s''") (auto simp: mem_replay_after_def buffer_of_def demo_event_def)
  then show ?thesis using caching_replay_suffix [OF demo_backend_reach le_refl, of "''s''" 1] by auto
qed

lemma fold_ring_push_fits:
  "length xs + length es \<le> cap \<Longrightarrow> fold (ring_push cap) es xs = xs @ es"
  by (induction es arbitrary: xs) (auto simp: ring_push_def)

text \<open>
  C34: a warmed cache hides older events.  When the cache of a session is empty (a new process) and
  a client reconnects with id \<open>after\<close>, the events beyond \<open>after\<close> fill the cache; from
  then on a replay from any earlier id returns only those, although the backend holds, and would
  replay, the ones in between.
\<close>

theorem warmed_cache_hides_events:
  assumes "mem_events_ok c" and "buffer_of c sid = []" and "earlier \<le> after"
    and "filter (\<lambda>e. after < ev_id e) (buffer_of s sid) \<noteq> []"
    and "length (filter (\<lambda>e. after < ev_id e) (buffer_of s sid)) \<le> me_max c"
  shows "snd (caching_replay_after mem_replay_after mem_append mem_replay_after sid earlier
      (fst (caching_replay_after mem_replay_after mem_append mem_replay_after sid after (c, s))))
    = Inr (filter (\<lambda>e. after < ev_id e) (buffer_of s sid))
    \<and> snd (mem_replay_after sid earlier s) = Inr (filter (\<lambda>e. earlier < ev_id e) (buffer_of s sid))"
proof -
  let ?new = "filter (\<lambda>e. after < ev_id e) (buffer_of s sid)"
  have r: "mem_replay_after sid k x = (x, Inr (filter (\<lambda>e. k < ev_id e) (buffer_of x sid)))" for x k
    by (simp add: mem_replay_after_def buffer_of_def split: option.split)
  have warm: "buffer_of (warm_cache mem_append sid ?new c) sid = ?new"
    using mem_events.warm_result [OF assms(1), of sid ?new] assms(2,5) fold_ring_push_fits [of "[]" ?new "me_max c"]
    by simp
  have "filter (\<lambda>e. earlier < ev_id e) ?new = ?new"
    by (rule filter_True) (use assms(3) in auto)
  then show ?thesis using r warm assms(2,4) by (simp add: caching_replay_after_def)
qed

lemma warmed_cache_hides_events_witness:
  "snd (caching_replay_after mem_replay_after mem_append mem_replay_after ''s'' 0
      (fst (caching_replay_after mem_replay_after mem_append mem_replay_after ''s'' 2
        (memory_event_store_new 10, demo_backend)))) = Inr [demo_event 3]
   \<and> snd (mem_replay_after ''s'' 0 demo_backend) = Inr [demo_event 1, demo_event 2, demo_event 3]"
proof -
  have "mem_events_ok (memory_event_store_new 10)" "buffer_of (memory_event_store_new 10) ''s'' = []"
    by (simp_all add: mem_events_ok_def buffer_of_def memory_event_store_new_def)
  from warmed_cache_hides_events [OF this, of 0 2 demo_backend] show ?thesis
    by (simp add: demo_backend_buffer) (simp add: demo_event_def memory_event_store_new_def)
qed

end
