(* ===== verification/Framing.thy ===== *)
theory Framing
  imports Payload "HOL-Library.Word"
begin

text \<open>
  Newline-delimited framing (\<open>crates/tower-mcp/src/framing.rs\<close>): decoding one frame, the bounded
  asynchronous and blocking readers, and the classification of a decoded JSON-RPC value.

  A reader is the list of buffer fills still to come: what each \<open>fill_buf\<close> returns, an empty fill
  being end of input.  \<open>consume\<close> leaves the rest of a fill in front of the list.  A text line is
  its UTF-8 bytes.
\<close>

section \<open>UTF-8\<close>

type_synonym byte = "8 word"

definition cont_byte :: "byte \<Rightarrow> bool" where
  "cont_byte b \<longleftrightarrow> 128 \<le> unat b \<and> unat b < 192"

text \<open>\<open>str::from_utf8\<close>: one well-formed sequence of the Unicode standard, table 3-7.\<close>

fun utf8_step :: "byte list \<Rightarrow> byte list option" where
  "utf8_step [] = None"
| "utf8_step (a # xs) =
     (let n = unat a in
      if n < 128 then Some xs
      else if 194 \<le> n \<and> n < 224 then
        (case xs of b # ys \<Rightarrow> if cont_byte b then Some ys else None | _ \<Rightarrow> None)
      else if 224 \<le> n \<and> n < 240 then
        (case xs of b # c # ys \<Rightarrow>
           if (if n = 224 then 160 \<le> unat b \<and> unat b < 192
               else if n = 237 then 128 \<le> unat b \<and> unat b < 160 else cont_byte b) \<and> cont_byte c
           then Some ys else None
         | _ \<Rightarrow> None)
      else if 240 \<le> n \<and> n < 245 then
        (case xs of b # c # d # ys \<Rightarrow>
           if (if n = 240 then 144 \<le> unat b \<and> unat b < 192
               else if n = 244 then 128 \<le> unat b \<and> unat b < 144 else cont_byte b)
              \<and> cont_byte c \<and> cont_byte d
           then Some ys else None
         | _ \<Rightarrow> None)
      else None)"

lemma utf8_step_shorter: "utf8_step xs = Some ys \<Longrightarrow> length ys < length xs"
  by (cases xs) (auto simp: Let_def split: if_splits list.splits)

function utf8_valid :: "byte list \<Rightarrow> bool" where
  "utf8_valid xs =
     (if xs = [] then True
      else case utf8_step xs of None \<Rightarrow> False | Some ys \<Rightarrow> utf8_valid ys)"
  by auto
termination by (relation "measure length") (auto dest: utf8_step_shorter)

declare utf8_valid.simps [simp del]

lemma utf8_valid_ascii: "\<forall>b\<in>set xs. unat b < 128 \<Longrightarrow> utf8_valid xs"
  by (induction xs) (simp_all add: utf8_valid.simps Let_def)

section \<open>Frames\<close>

datatype input_frame = Line "byte list" | Undecodable

text \<open>\<open>Vec::last\<close> and \<open>Vec::pop\<close> are \<open>last\<close> and \<open>butlast\<close> of a non-empty list.\<close>

definition decode_input_frame :: "byte list \<Rightarrow> input_frame" where
  "decode_input_frame raw =
     (let raw = (if raw \<noteq> [] \<and> last raw = 10
                 then let raw = butlast raw
                      in if raw \<noteq> [] \<and> last raw = 13 then butlast raw else raw
                 else raw)
      in if utf8_valid raw then Line raw else Undecodable)"

datatype frame_error =
  Transport string
| FrameTooLarge nat nat

datatype fill = Bytes "byte list" | Fault string

text \<open>The bytes up to and including the first newline, and whether there is one.\<close>

fun position_newline :: "byte list \<Rightarrow> nat option" where
  "position_newline [] = None"
| "position_newline (b # bs) = (if b = 10 then Some 0 else map_option Suc (position_newline bs))"

definition consume_fill :: "nat \<Rightarrow> byte list \<Rightarrow> fill list \<Rightarrow> fill list" where
  "consume_fill n filled rest = (if n < length filled then Bytes (drop n filled) # rest else rest)"

record frame_reader =
  fr_reader :: "fill list"
  fr_buf :: "byte list"
  fr_max :: nat

definition frame_reader_new :: "nat \<Rightarrow> fill list \<Rightarrow> frame_reader" where
  "frame_reader_new max_len fills = \<lparr>fr_reader = fills, fr_buf = [], fr_max = max_len\<rparr>"

definition set_max_len :: "nat \<Rightarrow> frame_reader \<Rightarrow> frame_reader" where
  "set_max_len max_len r = r\<lparr>fr_max := max_len\<rparr>"

text \<open>The loop of \<open>next_frame\<close>: the error if it returned one, else the state after the break.\<close>

fun fill_loop :: "nat \<Rightarrow> byte list \<Rightarrow> fill list \<Rightarrow> fill list \<times> byte list \<times> frame_error option" where
  "fill_loop limit buf [] = ([], buf, None)"
| "fill_loop limit buf (Fault e # rest) =
     (rest, buf, Some (Transport (''Failed to read input frame: '' @ e)))"
| "fill_loop limit buf (Bytes filled # rest) =
     (if filled = [] then (rest, buf, None)
      else
        let (take_n, found) = (case position_newline filled of
                                 Some pos \<Rightarrow> (pos + 1, True)
                               | None \<Rightarrow> (length filled, False))
        in if limit < length buf + take_n then
             (consume_fill take_n filled rest, [], Some (FrameTooLarge (length buf + take_n) limit))
           else if found then (consume_fill take_n filled rest, buf @ take take_n filled, None)
           else fill_loop limit (buf @ filled) rest)"

definition next_frame :: "frame_reader \<Rightarrow> frame_reader \<times> (frame_error + input_frame option)" where
  "next_frame r =
     (case fill_loop (fr_max r) (fr_buf r) (fr_reader r) of
        (rest, buf, Some e) \<Rightarrow> (r\<lparr>fr_reader := rest, fr_buf := buf\<rparr>, Inl e)
      | (rest, buf, None) \<Rightarrow>
          if buf = [] then (r\<lparr>fr_reader := rest, fr_buf := buf\<rparr>, Inr None)
          else (r\<lparr>fr_reader := rest, fr_buf := []\<rparr>, Inr (Some (decode_input_frame buf))))"

definition read_frame_blocking ::
  "nat \<Rightarrow> fill list \<Rightarrow> fill list \<times> (frame_error + input_frame option)" where
  "read_frame_blocking limit fills =
     (case fill_loop limit [] fills of
        (rest, buf, Some e) \<Rightarrow> (rest, Inl e)
      | (rest, buf, None) \<Rightarrow> (rest, Inr (if buf = [] then None else Some (decode_input_frame buf))))"

text \<open>
  A \<open>next_frame\<close> future that is dropped while it waits for input: the fills that have arrived are
  consumed, and the bytes stay in \<open>buf\<close>.  It is dropped only while no arrived fill completes the
  frame or exceeds the bound.
\<close>

fun absorb_fills :: "nat \<Rightarrow> byte list \<Rightarrow> byte list list \<Rightarrow> byte list option" where
  "absorb_fills limit buf [] = Some buf"
| "absorb_fills limit buf (b # bs) =
     (if b = [] \<or> 10 \<in> set b \<or> limit < length buf + length b then None
      else absorb_fills limit (buf @ b) bs)"

section \<open>What one frame is\<close>

text \<open>The specification on the bytes alone: the frame is everything up to the first newline.\<close>

definition first_frame :: "byte list \<Rightarrow> byte list" where
  "first_frame bs = (case position_newline bs of None \<Rightarrow> bs | Some p \<Rightarrow> take (Suc p) bs)"

definition after_frame :: "byte list \<Rightarrow> byte list" where
  "after_frame bs = drop (length (first_frame bs)) bs"

fun fills_ok :: "fill list \<Rightarrow> bool" where
  "fills_ok [] = True"
| "fills_ok (Bytes b # rest) = (b \<noteq> [] \<and> fills_ok rest)"
| "fills_ok (Fault e # rest) = False"

fun fill_bytes :: "fill list \<Rightarrow> byte list" where
  "fill_bytes [] = []"
| "fill_bytes (Bytes b # rest) = b @ fill_bytes rest"
| "fill_bytes (Fault e # rest) = fill_bytes rest"

lemma position_newline_None: "position_newline bs = None \<longleftrightarrow> 10 \<notin> set bs"
  by (induction bs) auto

lemma position_newline_Some: "position_newline bs = Some p \<Longrightarrow> p < length bs"
  by (induction bs arbitrary: p) (auto split: if_splits)

lemma position_newline_append:
  "position_newline (xs @ ys) =
     (case position_newline xs of Some p \<Rightarrow> Some p | None \<Rightarrow> map_option (\<lambda>p. length xs + p) (position_newline ys))"
  by (induction xs; cases "position_newline ys") (auto split: option.splits)

lemma first_frame_append:
  "10 \<in> set xs \<Longrightarrow> first_frame (xs @ ys) = first_frame xs"
  using position_newline_None [of xs] position_newline_Some [of xs]
  by (auto simp: first_frame_def position_newline_append Suc_le_eq)

lemma first_frame_no_newline: "10 \<notin> set xs \<Longrightarrow> first_frame (xs @ ys) = xs @ first_frame ys"
  using position_newline_None [of xs]
  by (auto simp: first_frame_def position_newline_append split: option.split)

lemma length_first_frame: "length (first_frame bs) \<le> length bs"
  by (auto simp: first_frame_def split: option.split)

lemma fill_bytes_consume:
  "fills_ok rest \<Longrightarrow> fills_ok (consume_fill n b rest)
    \<and> fill_bytes (consume_fill n b rest) = drop n b @ fill_bytes rest"
  by (auto simp: consume_fill_def)

lemma fill_loop_spec:
  assumes "fills_ok fills" and "10 \<notin> set buf" and "length buf \<le> limit"
  shows "let all = buf @ fill_bytes fills; frame = first_frame all in
    case fill_loop limit buf fills of (rest, buf', err) \<Rightarrow>
      if length frame \<le> limit
      then err = None \<and> buf' = frame \<and> fills_ok rest \<and> fill_bytes rest = after_frame all
      else (\<exists>size. err = Some (FrameTooLarge size limit) \<and> limit < size \<and> size \<le> length frame) \<and> buf' = []"
  using assms
proof (induction limit buf fills rule: fill_loop.induct)
  case (1 limit buf)
  then show ?case
    using first_frame_no_newline [of buf "[]"] by (simp add: first_frame_def after_frame_def)
next
  case (2 limit buf e rest)
  then show ?case by simp
next
  case (3 limit buf filled rest)
  have ne: "filled \<noteq> []" and ok: "fills_ok rest" using 3(2) by auto
  show ?case
  proof (cases "position_newline filled")
    case (Some p)
    have p: "p < length filled" by (rule position_newline_Some [OF Some])
    have nl: "10 \<in> set filled" using Some position_newline_None [of filled] by auto
    have frame: "first_frame (buf @ fill_bytes (Bytes filled # rest)) = buf @ take (Suc p) filled"
      using first_frame_no_newline [OF 3(3), of "filled @ fill_bytes rest"] first_frame_append [OF nl, of "fill_bytes rest"]
      by (simp add: first_frame_def Some)
    have after: "after_frame (buf @ fill_bytes (Bytes filled # rest)) = drop (Suc p) filled @ fill_bytes rest"
      using p by (simp add: after_frame_def frame del: fill_bytes.simps) (simp add: min_def)
    show ?thesis
      using ne Some p ok fill_bytes_consume [OF ok, of "Suc p" filled]
      by (auto simp: Let_def frame after min_def simp del: fill_bytes.simps)
  next
    case None
    have nl: "10 \<notin> set filled" using None position_newline_None [of filled] by simp
    show ?thesis
    proof (cases "limit < length buf + length filled")
      case True
      have "buf @ filled @ fill_bytes rest = (buf @ filled) @ fill_bytes rest" by simp
      then have "length (first_frame (buf @ filled @ fill_bytes rest)) \<ge> length buf + length filled"
        using first_frame_no_newline [of "buf @ filled" "fill_bytes rest"] nl 3(3) by simp
      then show ?thesis using ne None True by (auto simp: Let_def)
    next
      case False
      show ?thesis
        using 3(1) [OF ne refl] None ne ok nl 3(3) False by (simp add: Let_def)
    qed
  qed
qed

lemma next_frame_spec:
  assumes "fills_ok (fr_reader r)" and "10 \<notin> set (fr_buf r)" and "length (fr_buf r) \<le> fr_max r"
  shows "let all = fr_buf r @ fill_bytes (fr_reader r); frame = first_frame all;
             r' = fst (next_frame r); res = snd (next_frame r) in
      fr_buf r' = [] \<and> fr_max r' = fr_max r
    \<and> (if length frame \<le> fr_max r
       then res = Inr (if frame = [] then None else Some (decode_input_frame frame))
          \<and> fills_ok (fr_reader r') \<and> fill_bytes (fr_reader r') = after_frame all
       else \<exists>size. res = Inl (FrameTooLarge size (fr_max r)) \<and> fr_max r < size \<and> size \<le> length frame)"
proof -
  obtain rest buf err where run: "fill_loop (fr_max r) (fr_buf r) (fr_reader r) = (rest, buf, err)"
    by (cases "fill_loop (fr_max r) (fr_buf r) (fr_reader r)")
  show ?thesis
    using fill_loop_spec [OF assms] by (auto simp: Let_def next_frame_def run split: if_splits)
qed


definition demo_reader :: frame_reader where
  "demo_reader = frame_reader_new 4 [Bytes [97], Bytes [98, 13, 10, 99], Bytes [100]]"


section \<open>Cancellation and the blocking reader\<close>

lemma absorb_fills_Some:
  "absorb_fills limit buf bs = Some buf' \<Longrightarrow> length buf \<le> limit \<Longrightarrow>
   buf' = buf @ concat bs \<and> length buf' \<le> limit \<and> 10 \<notin> set (concat bs) \<and> fills_ok (map Bytes bs)"
  by (induction limit buf bs rule: absorb_fills.induct) (auto split: if_splits)

lemma fill_bytes_append: "fill_bytes (xs @ ys) = fill_bytes xs @ fill_bytes ys"
  by (induction xs rule: fill_bytes.induct) auto

lemma fill_bytes_map: "fill_bytes (map Bytes bs) = concat bs"
  by (induction bs) auto

lemma fills_ok_append: "fills_ok (xs @ ys) \<longleftrightarrow> fills_ok xs \<and> fills_ok ys"
  by (induction xs rule: fills_ok.induct) auto

text \<open>
  A cancelled read loses nothing.  If a \<open>next_frame\<close> is dropped after some fills have
  arrived, the next call returns what the undisturbed call would have returned (or refuses exactly
  when that one does), and leaves the same bytes to come.
\<close>

theorem cancelled_read_resumes:
  assumes "fills_ok rest" and "absorb_fills limit [] arrived = Some buf"
  shows "let whole = next_frame \<lparr>fr_reader = map Bytes arrived @ rest, fr_buf = [], fr_max = limit\<rparr>;
             resumed = next_frame \<lparr>fr_reader = rest, fr_buf = buf, fr_max = limit\<rparr> in
      (\<exists>e. snd whole = Inl e) = (\<exists>e. snd resumed = Inl e)
    \<and> (\<forall>x. snd whole = Inr x \<longrightarrow> snd resumed = Inr x
          \<and> fill_bytes (fr_reader (fst resumed)) = fill_bytes (fr_reader (fst whole)))"
proof -
  let ?w = "\<lparr>fr_reader = map Bytes arrived @ rest, fr_buf = [], fr_max = limit\<rparr>"
  let ?r = "\<lparr>fr_reader = rest, fr_buf = buf, fr_max = limit\<rparr>"
  have a: "buf = concat arrived" "length buf \<le> limit" "10 \<notin> set buf" "fills_ok (map Bytes arrived)"
    using absorb_fills_Some [OF assms(2)] by auto
  have w: "fills_ok (fr_reader ?w)" "10 \<notin> set (fr_buf ?w)" "length (fr_buf ?w) \<le> fr_max ?w"
    using a assms(1) by (simp_all add: fills_ok_append)
  have r: "fills_ok (fr_reader ?r)" "10 \<notin> set (fr_buf ?r)" "length (fr_buf ?r) \<le> fr_max ?r"
    using a assms(1) by simp_all
  have same: "fr_buf ?w @ fill_bytes (fr_reader ?w) = fr_buf ?r @ fill_bytes (fr_reader ?r)"
    by (simp add: fill_bytes_append fill_bytes_map a(1))
  show ?thesis
    using next_frame_spec [OF w, unfolded same] next_frame_spec [OF r]
    by (auto simp: Let_def split: if_splits)
qed

lemma cancelled_read_resumes_witness:
  "snd (next_frame \<lparr>fr_reader = [Bytes [98, 10]], fr_buf = [97], fr_max = 4\<rparr>) = Inr (Some (Line [97, 98]))"
proof -
  have "fills_ok [Bytes [98, 10]]" "absorb_fills 4 [] [[97]] = Some [97]" by simp_all
  from cancelled_read_resumes [OF this] show ?thesis
    by (simp add: Let_def next_frame_def decode_input_frame_def utf8_valid.simps split: prod.splits)
qed

text \<open>
  The blocking reader is the asynchronous one.  From an empty buffer both take the same
  fills and return the same frame, end of input or error.
\<close>

theorem blocking_reader_agrees:
  assumes "fr_buf r = []"
  shows "read_frame_blocking (fr_max r) (fr_reader r) = (fr_reader (fst (next_frame r)), snd (next_frame r))"
  using assms by (auto simp: read_frame_blocking_def next_frame_def split: prod.split option.split)

lemma blocking_reader_agrees_witness:
  "read_frame_blocking 4 [Bytes [97], Bytes [98, 13, 10, 99], Bytes [100]]
   = (fr_reader (fst (next_frame demo_reader)), snd (next_frame demo_reader))"
  using blocking_reader_agrees [of demo_reader] by (simp add: demo_reader_def frame_reader_new_def)

section \<open>Reading back what was written\<close>

text \<open>A peer writes each message on a line of its own.\<close>

definition write_lines :: "byte list list \<Rightarrow> byte list" where
  "write_lines ls = concat (map (\<lambda>l. l @ [10]) ls)"

definition line_ok :: "nat \<Rightarrow> byte list \<Rightarrow> bool" where
  "line_ok limit l \<longleftrightarrow>
     10 \<notin> set l \<and> (l = [] \<or> last l \<noteq> 13) \<and> utf8_valid l \<and> length l < limit"

fun read_frames :: "nat \<Rightarrow> frame_reader \<Rightarrow> (frame_error + input_frame option) list" where
  "read_frames 0 r = []"
| "read_frames (Suc n) r = snd (next_frame r) # read_frames n (fst (next_frame r))"

lemma first_frame_line: "10 \<notin> set l \<Longrightarrow> first_frame (l @ 10 # bs) = l @ [10]"
  using first_frame_no_newline [of l "10 # bs"] by (simp add: first_frame_def)

lemma read_frames_lines:
  assumes "fills_ok (fr_reader r)" and "fr_buf r = []" and "fill_bytes (fr_reader r) = write_lines ls"
    and "\<forall>l\<in>set ls. line_ok (fr_max r) l"
  shows "read_frames (length ls + 1) r = map (\<lambda>l. Inr (Some (Line l))) ls @ [Inr None]"
  using assms
proof (induction ls arbitrary: r)
  case Nil
  then show ?case
    using next_frame_spec [of r] by (simp add: Let_def write_lines_def first_frame_def)
next
  case (Cons l ls)
  let ?r = "fst (next_frame r)"
  have l: "line_ok (fr_max r) l" using Cons.prems(4) by simp
  have all: "fr_buf r @ fill_bytes (fr_reader r) = l @ 10 # write_lines ls"
    using Cons.prems(2,3) by (simp add: write_lines_def)
  have frame: "first_frame (l @ 10 # write_lines ls) = l @ [10]" using l by (simp add: line_ok_def first_frame_line)
  have dec: "decode_input_frame (l @ [10]) = Line l" using l by (auto simp: line_ok_def decode_input_frame_def Let_def)
  have step: "snd (next_frame r) = Inr (Some (Line l))" "fills_ok (fr_reader ?r)" "fr_buf ?r = []"
    "fr_max ?r = fr_max r" "fill_bytes (fr_reader ?r) = write_lines ls"
    using next_frame_spec [of r, unfolded all frame] Cons.prems(1,2) l dec
    by (auto simp: Let_def line_ok_def after_frame_def frame)
  show ?case using Cons.IH [OF step(2,3,5)] Cons.prems(4) step by simp
qed

text \<open>
  Round trip.  Messages that are valid UTF-8, hold no newline, do not end in a carriage
  return and fit the bound, written one per line and delivered in any non-empty pieces, are read
  back exactly, in order, followed by the end of input.
\<close>

theorem written_lines_read_back:
  assumes "fills_ok fills" and "fill_bytes fills = write_lines ls" and "\<forall>l\<in>set ls. line_ok limit l"
  shows "read_frames (length ls + 1) (frame_reader_new limit fills)
    = map (\<lambda>l. Inr (Some (Line l))) ls @ [Inr None]"
  using read_frames_lines [of "frame_reader_new limit fills" ls] assms by (simp add: frame_reader_new_def)

lemma written_lines_read_back_witness:
  "read_frames 3 (frame_reader_new 5 [Bytes [123], Bytes [125, 10, 91], Bytes [93, 10]])
   = [Inr (Some (Line [123, 125])), Inr (Some (Line [91, 93])), Inr None]"
  using written_lines_read_back [of "[Bytes [123], Bytes [125, 10, 91], Bytes [93, 10]]" "[[123, 125], [91, 93]]" 5]
  by (simp add: write_lines_def line_ok_def utf8_valid.simps numeral_3_eq_3)

section \<open>Cleaning a line\<close>

text \<open>Characters by code point; \<open>char::is_whitespace\<close> is the Unicode property White_Space.\<close>

definition is_whitespace :: "nat \<Rightarrow> bool" where
  "is_whitespace c \<longleftrightarrow> (9 \<le> c \<and> c \<le> 13) \<or> (8192 \<le> c \<and> c \<le> 8202)
     \<or> c \<in> {32, 133, 160, 5760, 8232, 8233, 8239, 8287, 12288}"

definition trim :: "nat list \<Rightarrow> nat list" where
  "trim s = rev (dropWhile is_whitespace (rev (dropWhile is_whitespace s)))"

text \<open>Code points of a (valid) UTF-8 string, for \<open>str::trim\<close>.\<close>

fun utf8_points :: "nat list \<Rightarrow> nat list" where
  "utf8_points [] = []"
| "utf8_points (b # bs) =
     (let cont = (\<lambda>k. (if k < length bs then bs ! k else 0) mod 64)
      in if b < 128 then b # utf8_points bs
         else if b < 224 then (b mod 32 * 64 + cont 0) # utf8_points (drop 1 bs)
         else if b < 240 then (b mod 16 * 4096 + cont 0 * 64 + cont 1) # utf8_points (drop 2 bs)
         else (b mod 8 * 262144 + cont 0 * 4096 + cont 1 * 64 + cont 2) # utf8_points (drop 3 bs))"

definition blank :: "string \<Rightarrow> bool" where
  "blank s \<longleftrightarrow> trim (utf8_points (map of_char s)) = []"

text \<open>
  A valid UTF-8 string cut into its characters, each a string of one to four bytes, and the
  operations on characters built on it: \<open>split_whitespace\<close>, \<open>trim\<close>,
  \<open>trim_start\<close>.
\<close>

fun utf8_chars :: "string \<Rightarrow> string list" where
  "utf8_chars [] = []"
| "utf8_chars (c # cs) =
     (let n = (of_char c :: nat); k = (if n < 128 then 0 else if n < 224 then 1 else if n < 240 then 2 else 3)
      in (c # take k cs) # utf8_chars (drop k cs))"

definition white_char :: "string \<Rightarrow> bool" where
  "white_char ch \<longleftrightarrow> (\<exists>p\<in>set (utf8_points (map of_char ch)). is_whitespace p)"

fun split_white :: "string list \<Rightarrow> string \<Rightarrow> string list" where
  "split_white [] word = [word]"
| "split_white (ch # chs) word =
     (if white_char ch then word # split_white chs [] else split_white chs (word @ ch))"

definition split_whitespace :: "string \<Rightarrow> string list" where
  "split_whitespace s = filter (\<lambda>w. w \<noteq> []) (split_white (utf8_chars s) [])"

definition trim_start_str :: "string \<Rightarrow> string" where
  "trim_start_str s = concat (dropWhile white_char (utf8_chars s))"

definition trim_str :: "string \<Rightarrow> string" where
  "trim_str s = concat (rev (dropWhile white_char (rev (dropWhile white_char (utf8_chars s)))))"

definition clean_input_line :: "nat list \<Rightarrow> nat list" where
  "clean_input_line s =
     trim (case s of c # cs \<Rightarrow> if c = 65279 then cs else s | [] \<Rightarrow> s)"

section \<open>Classification\<close>

definition LATEST_PROTOCOL_VERSION :: string where
  "LATEST_PROTOCOL_VERSION = ''2025-11-25''"

datatype request_id = IdString string | IdNumber int

definition i64_ok :: "int \<Rightarrow> bool" where
  "i64_ok n \<longleftrightarrow> - (2 ^ 63) \<le> n \<and> n < 2 ^ 63"

text \<open>A finite float is given by its exact value.\<close>

definition integral_float_id :: "rat \<Rightarrow> int option" where
  "integral_float_id f = (if f = of_int \<lfloor>f\<rfloor> \<and> \<bar>f\<bar> \<le> 9007199254740992 then Some \<lfloor>f\<rfloor> else None)"

text \<open>\<open>as_i64\<close> fails above the signed range, and such a number is too large for the float branch.\<close>

fun request_id_from_json :: "json \<Rightarrow> request_id option" where
  "request_id_from_json (JStr s) = Some (IdString s)"
| "request_id_from_json (JNum (NInt n)) =
     (if i64_ok n then Some (IdNumber n) else map_option IdNumber (integral_float_id (of_int n)))"
| "request_id_from_json (JNum (NFloat f)) = map_option IdNumber (integral_float_id f)"
| "request_id_from_json _ = None"

fun request_id_to_json :: "request_id \<Rightarrow> json" where
  "request_id_to_json (IdString s) = JStr s"
| "request_id_to_json (IdNumber n) = JNum (NInt n)"

datatype frame_class = Notification | Response | Request

definition is_response_frame :: "json \<Rightarrow> bool" where
  "is_response_frame v \<longleftrightarrow> \<not> json_is_array v \<and> json_get v ''method'' = None
     \<and> (json_get v ''result'' \<noteq> None \<or> json_get v ''error'' \<noteq> None)"

definition classify_frame :: "json \<Rightarrow> frame_class" where
  "classify_frame v =
     (if \<not> json_is_array v \<and> json_get v ''id'' = None then Notification
      else if is_response_frame v then Response
      else Request)"

definition correlating_id :: "json \<Rightarrow> request_id option" where
  "correlating_id v = Option.bind (json_get v ''id'') request_id_from_json"

definition error_response_id :: "json \<Rightarrow> json_rpc_error \<Rightarrow> request_id option" where
  "error_response_id v err = (if e_code err = - 32600 then None else correlating_id v)"

lemma integral_float_id_Some:
  "integral_float_id f = Some n \<Longrightarrow> i64_ok n \<and> f = of_int n"
  by (auto simp: integral_float_id_def i64_ok_def split: if_splits)

lemma request_id_roundtrip:
  "(case i of IdString s \<Rightarrow> True | IdNumber n \<Rightarrow> i64_ok n) \<Longrightarrow> request_id_from_json (request_id_to_json i) = Some i"
  by (cases i) auto

lemma request_id_in_range: "request_id_from_json j = Some (IdNumber n) \<Longrightarrow> i64_ok n"
  by (induction j rule: request_id_from_json.induct)
    (auto split: if_splits dest: integral_float_id_Some)

text \<open>
  Who gets an answer, and with which id.  A frame is a notification exactly when it is no
  batch and has no id, a response exactly when it has an id and a result or error but no method,
  and otherwise a request, so the malformed are answered.  A rejected notification or batch
  correlates to no id; any other rejected frame with a string or in-range integer id is answered
  with that very id, unless the envelope itself was invalid.
\<close>

theorem frame_classification:
  "(classify_frame v = Notification \<longleftrightarrow> \<not> json_is_array v \<and> json_get v ''id'' = None)
   \<and> (classify_frame v = Response \<longleftrightarrow> json_get v ''id'' \<noteq> None \<and> json_get v ''method'' = None
        \<and> (json_get v ''result'' \<noteq> None \<or> json_get v ''error'' \<noteq> None))
   \<and> ((classify_frame v = Notification \<or> json_is_array v) \<longrightarrow> error_response_id v err = None)
   \<and> (error_response_id v err = Some i \<longleftrightarrow>
        e_code err \<noteq> error_code_value InvalidRequest \<and> Option.bind (json_get v ''id'') request_id_from_json = Some i)
   \<and> (json_get v ''id'' = Some (request_id_to_json i) \<and> (case i of IdString s \<Rightarrow> True | IdNumber n \<Rightarrow> i64_ok n)
        \<and> e_code err \<noteq> error_code_value InvalidRequest
      \<longrightarrow> classify_frame v \<noteq> Notification \<and> error_response_id v err = Some i)"
proof -
  have arr: "json_get v k = None" if "json_is_array v" for k
    using that by (cases v) auto
  have "json_get v ''id'' = Some (request_id_to_json i) \<and> (case i of IdString s \<Rightarrow> True | IdNumber n \<Rightarrow> i64_ok n)
        \<and> e_code err \<noteq> error_code_value InvalidRequest
      \<longrightarrow> classify_frame v \<noteq> Notification \<and> error_response_id v err = Some i"
    using request_id_roundtrip [of i]
    by (auto simp: error_response_id_def correlating_id_def classify_frame_def)
  then show ?thesis
    using arr
    by (auto simp: classify_frame_def is_response_frame_def error_response_id_def correlating_id_def)
qed

lemma frame_classification_witness:
  "classify_frame (JObj [(''id'', JNum (NInt 7)), (''method'', JStr ''m'')]) \<noteq> Notification
   \<and> error_response_id (JObj [(''id'', JNum (NInt 7)), (''method'', JStr ''m'')]) (invalid_params ''bad'') = Some (IdNumber 7)"
  using frame_classification [of "JObj [(''id'', JNum (NInt 7)), (''method'', JStr ''m'')]" "invalid_params ''bad''" "IdNumber 7"]
  by (simp add: invalid_params_def json_rpc_error_new_def i64_ok_def)

end
