(* ===== verification/SessionRegistry.thy ===== *)
theory SessionRegistry
  imports SessionState SessionStore EventStore Framing TaskOps
begin

text \<open>
  Sessions of the HTTP transport: \<open>crates/tower-mcp/src/transport/http/session.rs\<close> and the
  principal binding of \<open>transport/http/principal.rs\<close>.  A live session is shared
  (\<open>Arc<Session>\<close>): the registry keeps a heap of sessions and the map from identifiers to
  addresses, so a handler that holds a session still sees it after the map dropped it.  The stores are
  the in-memory ones the transport uses by default.

  Every operation is split where the code releases the registry lock, and the whole handler composes
  the sections.  \<open>Instant\<close> readings are natural numbers and \<open>SystemTime\<close> readings
  integers, both in nanoseconds; an operation takes the readings of its clocks.  \<open>None\<close> is a
  panic of time arithmetic or an identifier loop that does not end.
\<close>

section \<open>Principals\<close>

datatype session_principal = Resolved "string option" | Invalid

fun into_bound :: "session_principal \<Rightarrow> string option option" where
  "into_bound (Resolved p) = Some p"
| "into_bound Invalid = None"

fun principal_matches :: "session_principal \<Rightarrow> string option \<Rightarrow> bool" where
  "principal_matches (Resolved p) bound = owner_matches bound p"
| "principal_matches Invalid bound = False"

text \<open>What the application's resolver did under \<open>catch_unwind\<close>.\<close>

datatype resolver_outcome = ResolverPanic | ResolverReturned "string option"

fun custom_resolve :: "resolver_outcome \<Rightarrow> session_principal" where
  "custom_resolve (ResolverReturned (Some p)) = (if \<not> blank p then Resolved (Some p) else Invalid)"
| "custom_resolve (ResolverReturned None) = Resolved None"
| "custom_resolve ResolverPanic = Invalid"

section \<open>Live sessions\<close>

text \<open>
  A router-backed session has its own lifecycle state and resource subscriptions
  (\<open>with_fresh_session\<close>); a boxed service shows the transport neither.
\<close>

datatype session_source = RouterSource session_state "string list" | BoxedSource

record live_session =
  ls_id :: string
  ls_principal :: "string option"
  ls_source :: session_source
  ls_sent :: "string list"
  ls_created_at :: nat
  ls_last_accessed :: nat
  ls_pending :: "(request_id \<times> nat) list"
  ls_allocator :: "64 word option"
  ls_protocol_version :: string
  ls_client_info :: "json option"
  ls_client_capabilities :: "json option"
  ls_event_counter :: "64 word"
  ls_initialized_received :: bool

text \<open>
  \<open>ls_sent\<close> is what was sent on the broadcast channel; a pending request keeps the name of the
  waiter whose \<open>oneshot\<close> sender it holds.
\<close>

definition live_session_new :: "nat \<Rightarrow> string \<Rightarrow> bool \<Rightarrow> session_state \<Rightarrow> live_session" where
  "live_session_new now i sampling st =
     \<lparr>ls_id = i, ls_principal = None, ls_source = RouterSource st [], ls_sent = [],
      ls_created_at = now, ls_last_accessed = now, ls_pending = [],
      ls_allocator = (if sampling then Some 1 else None),
      ls_protocol_version = LATEST_PROTOCOL_VERSION, ls_client_info = None,
      ls_client_capabilities = None, ls_event_counter = 0, ls_initialized_received = False\<rparr>"

definition live_session_from_service :: "nat \<Rightarrow> string \<Rightarrow> live_session" where
  "live_session_from_service now i =
     \<lparr>ls_id = i, ls_principal = None, ls_source = BoxedSource, ls_sent = [],
      ls_created_at = now, ls_last_accessed = now, ls_pending = [], ls_allocator = None,
      ls_protocol_version = LATEST_PROTOCOL_VERSION, ls_client_info = None,
      ls_client_capabilities = None, ls_event_counter = 0, ls_initialized_received = False\<rparr>"

definition live_session_restored :: "nat \<Rightarrow> session_record \<Rightarrow> session_state \<Rightarrow> bool \<Rightarrow> live_session" where
  "live_session_restored now r st sampling =
     \<lparr>ls_id = sr_id r, ls_principal = sr_principal r,
      ls_source = RouterSource (fst (mark_preinitialized st)) [], ls_sent = [],
      ls_created_at = now, ls_last_accessed = now, ls_pending = [],
      ls_allocator = (if sampling then Some 1 else None),
      ls_protocol_version = sr_protocol_version r, ls_client_info = sr_client_info r,
      ls_client_capabilities = sr_client_capabilities r, ls_event_counter = 0,
      ls_initialized_received = True\<rparr>"

definition live_session_from_service_restored :: "nat \<Rightarrow> session_record \<Rightarrow> live_session" where
  "live_session_from_service_restored now r =
     \<lparr>ls_id = sr_id r, ls_principal = sr_principal r, ls_source = BoxedSource, ls_sent = [],
      ls_created_at = now, ls_last_accessed = now, ls_pending = [], ls_allocator = None,
      ls_protocol_version = sr_protocol_version r, ls_client_info = sr_client_info r,
      ls_client_capabilities = sr_client_capabilities r, ls_event_counter = 0,
      ls_initialized_received = True\<rparr>"

definition with_principal :: "string option \<Rightarrow> live_session \<Rightarrow> live_session" where
  "with_principal p s = s\<lparr>ls_principal := p\<rparr>"

datatype server_notification = ResourceUpdated string | OtherNotification json

fun is_subscribed :: "string \<Rightarrow> session_source \<Rightarrow> bool" where
  "is_subscribed uri (RouterSource st subs) = (uri \<in> set subs)"
| "is_subscribed uri BoxedSource = False"

definition accepts_external_notification :: "server_notification \<Rightarrow> live_session \<Rightarrow> bool" where
  "accepts_external_notification n s =
     (case (n, ls_source s) of
        (ResourceUpdated uri, RouterSource st subs) \<Rightarrow> is_subscribed uri (RouterSource st subs)
      | _ \<Rightarrow> True)"

definition next_event_id :: "live_session \<Rightarrow> live_session \<times> 64 word" where
  "next_event_id s = (s\<lparr>ls_event_counter := ls_event_counter s + 1\<rparr>, ls_event_counter s)"

definition ls_touch :: "nat \<Rightarrow> live_session \<Rightarrow> live_session" where
  "ls_touch now s = s\<lparr>ls_last_accessed := now\<rparr>"

text \<open>\<open>Instant::elapsed\<close> saturates at zero.\<close>

definition ls_is_expired :: "nat \<Rightarrow> nat \<Rightarrow> live_session \<Rightarrow> bool" where
  "ls_is_expired now ttl s \<longleftrightarrow> ttl < now - ls_last_accessed s"

definition add_pending_request :: "request_id \<Rightarrow> nat \<Rightarrow> live_session \<Rightarrow> live_session" where
  "add_pending_request i waiter s = s\<lparr>ls_pending := AList.update i waiter (ls_pending s)\<rparr>"

text \<open>The result is the waiter that was answered; the code returns whether there was one.\<close>

definition complete_pending_request :: "request_id \<Rightarrow> live_session \<Rightarrow> live_session \<times> nat option" where
  "complete_pending_request i s =
     (s\<lparr>ls_pending := AList.delete i (ls_pending s)\<rparr>, map_of (ls_pending s) i)"

fun fail_pending_requests :: "request_id list \<Rightarrow> live_session \<Rightarrow> live_session \<times> nat list" where
  "fail_pending_requests [] s = (s, [])"
| "fail_pending_requests (i # is) s =
     (case complete_pending_request i s of
        (s1, None) \<Rightarrow> fail_pending_requests is s1
      | (s1, Some w) \<Rightarrow> (case fail_pending_requests is s1 of (s2, ws) \<Rightarrow> (s2, w # ws)))"

section \<open>The registry\<close>

definition DEFAULT_SESSION_TTL :: nat where
  "DEFAULT_SESSION_TTL = 1800 * 1000000000"

definition DEFAULT_CLEANUP_INTERVAL :: nat where
  "DEFAULT_CLEANUP_INTERVAL = 60 * 1000000000"

record session_config =
  sc_ttl :: nat
  sc_max_sessions :: "nat option"
  sc_cleanup_interval :: nat
  sc_strict_initialization :: bool

definition session_config_default :: session_config where
  "session_config_default = \<lparr>sc_ttl = DEFAULT_SESSION_TTL, sc_max_sessions = None,
     sc_cleanup_interval = DEFAULT_CLEANUP_INTERVAL, sc_strict_initialization = True\<rparr>"

text \<open>
  \<open>rg_router\<close> tells whether the service source is a router or a boxed service.
\<close>

record registry =
  rg_config :: session_config
  rg_sampling :: bool
  rg_router :: bool
  rg_auto_reinit :: bool
  rg_heap :: "live_session list"
  rg_sessions :: "(string \<times> nat) list"
  rg_store :: memory_session_store
  rg_events :: memory_event_store

definition registry_new ::
  "session_config \<Rightarrow> bool \<Rightarrow> memory_session_store \<Rightarrow> memory_event_store \<Rightarrow> bool \<Rightarrow> bool \<Rightarrow> registry" where
  "registry_new cfg sampling store events router auto_reinit =
     \<lparr>rg_config = cfg, rg_sampling = sampling, rg_router = router, rg_auto_reinit = auto_reinit,
      rg_heap = [], rg_sessions = [], rg_store = store, rg_events = events\<rparr>"

text \<open>The readings of \<open>Instant::now\<close> and \<open>SystemTime::now\<close> in one section.\<close>

record clock =
  mono :: nat
  wall :: system_time

definition session_at :: "nat \<Rightarrow> registry \<Rightarrow> live_session" where
  "session_at a rg = rg_heap rg ! a"

definition update_session :: "nat \<Rightarrow> (live_session \<Rightarrow> live_session) \<Rightarrow> registry \<Rightarrow> registry" where
  "update_session a f rg = rg\<lparr>rg_heap := (rg_heap rg)[a := f (session_at a rg)]\<rparr>"

definition at_capacity :: "registry \<Rightarrow> bool" where
  "at_capacity rg \<longleftrightarrow>
     (case sc_max_sessions (rg_config rg) of None \<Rightarrow> False | Some n \<Rightarrow> n \<le> length (rg_sessions rg))"

definition insert_session :: "string \<Rightarrow> live_session \<Rightarrow> registry \<Rightarrow> registry \<times> nat" where
  "insert_session i s rg =
     (rg\<lparr>rg_heap := rg_heap rg @ [s], rg_sessions := AList.update i (length (rg_heap rg)) (rg_sessions rg)\<rparr>,
      length (rg_heap rg))"

text \<open>\<open>SystemTime::checked_sub\<close>.\<close>

definition system_time_sub :: "system_time \<Rightarrow> nat \<Rightarrow> system_time option" where
  "system_time_sub t d = (if SYSTEM_TIME_MIN \<le> t - int d then Some (t - int d) else None)"

definition record_for :: "clock \<Rightarrow> live_session \<Rightarrow> registry \<Rightarrow> session_record option" where
  "record_for c s rg =
     (case session_record_new (wall c) (ls_id s) (ls_protocol_version s) (sc_ttl (rg_config rg)) of
        None \<Rightarrow> None
      | Some r \<Rightarrow>
          (let created_ago = mono c - ls_created_at s;
               last_accessed_ago = mono c - ls_last_accessed s;
               last = (case system_time_sub (wall c) last_accessed_ago of Some t \<Rightarrow> t | None \<Rightarrow> wall c);
               created = (case system_time_sub (wall c) created_ago of Some t \<Rightarrow> t | None \<Rightarrow> wall c)
           in map_option (\<lambda>deadline. r\<lparr>sr_client_info := ls_client_info s,
                sr_client_capabilities := ls_client_capabilities s, sr_principal := ls_principal s,
                sr_created_at := created, sr_last_accessed := last, sr_expires_at := deadline\<rparr>)
                (system_time_add last (sc_ttl (rg_config rg)))))"

definition persist_new :: "(nat \<Rightarrow> string) \<Rightarrow> clock \<Rightarrow> nat \<Rightarrow> registry \<Rightarrow> registry option" where
  "persist_new uuids c a rg =
     (case record_for c (session_at a rg) rg of
        None \<Rightarrow> None
      | Some r \<Rightarrow> map_option (\<lambda>(st, res). rg\<lparr>rg_store := st\<rparr>) (mem_create uuids r (rg_store rg)))"

definition save_record :: "clock \<Rightarrow> nat \<Rightarrow> registry \<Rightarrow> registry option" where
  "save_record c a rg =
     map_option (\<lambda>r. rg\<lparr>rg_store := fst (mem_save r (rg_store rg))\<rparr>) (record_for c (session_at a rg) rg)"

section \<open>Creating sessions\<close>

text \<open>
  The critical section of the four ways to create a session: the limit, then the insertion.  The new
  session carries the identifier \<open>i\<close> drawn for it.
\<close>

definition admit_session :: "live_session \<Rightarrow> registry \<Rightarrow> registry \<times> nat option" where
  "admit_session s rg =
     (if at_capacity rg then (rg, None)
      else case insert_session (ls_id s) s rg of (rg1, a) \<Rightarrow> (rg1, Some a))"

definition admit_and_persist ::
  "(nat \<Rightarrow> string) \<Rightarrow> clock \<Rightarrow> live_session \<Rightarrow> registry \<Rightarrow> (registry \<times> nat option) option" where
  "admit_and_persist uuids c s rg =
     (case admit_session s rg of
        (rg1, None) \<Rightarrow> Some (rg1, None)
      | (rg1, Some a) \<Rightarrow> map_option (\<lambda>rg2. (rg2, Some a)) (persist_new uuids c a rg1))"

definition reg_create ::
  "(nat \<Rightarrow> string) \<Rightarrow> clock \<Rightarrow> string \<Rightarrow> string option \<Rightarrow> registry \<Rightarrow> (registry \<times> nat option) option" where
  "reg_create uuids c i p rg =
     admit_and_persist uuids c
       (with_principal p (live_session_new (mono c) i (rg_sampling rg) (mark_handshake_started session_new))) rg"

definition reg_create_from_service ::
  "(nat \<Rightarrow> string) \<Rightarrow> clock \<Rightarrow> string \<Rightarrow> string option \<Rightarrow> registry \<Rightarrow> (registry \<times> nat option) option" where
  "reg_create_from_service uuids c i p rg =
     admit_and_persist uuids c (with_principal p (live_session_from_service (mono c) i)) rg"

definition reg_create_initialized ::
  "(nat \<Rightarrow> string) \<Rightarrow> clock \<Rightarrow> string \<Rightarrow> registry \<Rightarrow> (registry \<times> nat option) option" where
  "reg_create_initialized uuids c i rg =
     admit_and_persist uuids c
       ((live_session_new (mono c) i (rg_sampling rg) (fst (mark_preinitialized session_new)))
          \<lparr>ls_initialized_received := True\<rparr>) rg"

definition reg_create_initialized_from_service ::
  "(nat \<Rightarrow> string) \<Rightarrow> clock \<Rightarrow> string \<Rightarrow> registry \<Rightarrow> (registry \<times> nat option) option" where
  "reg_create_initialized_from_service uuids c i rg =
     admit_and_persist uuids c ((live_session_from_service (mono c) i)\<lparr>ls_initialized_received := True\<rparr>) rg"

section \<open>Finding and restoring sessions\<close>

datatype restore_outcome = RestoreFull | RestoreExisting nat | RestoreInserted nat

definition restored_session :: "clock \<Rightarrow> session_record \<Rightarrow> registry \<Rightarrow> live_session" where
  "restored_session c r rg =
     (if rg_router rg then live_session_restored (mono c) r session_new (rg_sampling rg)
      else live_session_from_service_restored (mono c) r)"

text \<open>\<open>restore_from_record\<close>: the section under the registry lock, the seeding of the event
  counter, and the refresh of the stored record.\<close>

definition restore_insert :: "clock \<Rightarrow> session_record \<Rightarrow> registry \<Rightarrow> registry \<times> restore_outcome" where
  "restore_insert c r rg =
     (if at_capacity rg then (rg, RestoreFull)
      else case map_of (rg_sessions rg) (sr_id r) of
        Some a \<Rightarrow> (update_session a (ls_touch (mono c)) rg, RestoreExisting a)
      | None \<Rightarrow>
          (case insert_session (sr_id r) (restored_session c r rg) rg of (rg1, a) \<Rightarrow> (rg1, RestoreInserted a)))"

definition seed_counter :: "string \<Rightarrow> nat \<Rightarrow> registry \<Rightarrow> registry" where
  "seed_counter i a rg =
     (case mem_replay_after i 0 (rg_events rg) of
        (ev, Inl e) \<Rightarrow> rg\<lparr>rg_events := ev\<rparr>
      | (ev, Inr []) \<Rightarrow> rg\<lparr>rg_events := ev\<rparr>
      | (ev, Inr es) \<Rightarrow>
          update_session a (\<lambda>s. s\<lparr>ls_event_counter := of_nat (Max (ev_id ` set es)) + 1\<rparr>) (rg\<lparr>rg_events := ev\<rparr>))"

definition refresh_stored :: "clock \<Rightarrow> session_record \<Rightarrow> registry \<Rightarrow> registry option" where
  "refresh_stored c r rg =
     map_option (\<lambda>r'. rg\<lparr>rg_store := fst (mem_save r' (rg_store rg))\<rparr>)
       (session_touch (wall c) (sc_ttl (rg_config rg)) r)"

definition restore_from_record ::
  "clock \<Rightarrow> session_record \<Rightarrow> registry \<Rightarrow> (registry \<times> nat option) option" where
  "restore_from_record c r rg =
     (case restore_insert c r rg of
        (rg1, RestoreFull) \<Rightarrow> Some (rg1, None)
      | (rg1, RestoreExisting a) \<Rightarrow> Some (rg1, Some a)
      | (rg1, RestoreInserted a) \<Rightarrow>
          map_option (\<lambda>rg2. (rg2, Some a)) (refresh_stored c r (seed_counter (sr_id r) a rg1)))"

definition auto_recovered_info :: json where
  "auto_recovered_info = JObj [(''name'', JStr ''auto-recovered''), (''version'', JStr ''unknown'')]"

definition auto_reinitialize ::
  "(nat \<Rightarrow> string) \<Rightarrow> clock \<Rightarrow> string \<Rightarrow> string option \<Rightarrow> registry \<Rightarrow> (registry \<times> nat option) option" where
  "auto_reinitialize uuids c i p rg =
     (case session_record_new (wall c) i LATEST_PROTOCOL_VERSION (sc_ttl (rg_config rg)) of
        None \<Rightarrow> None
      | Some r0 \<Rightarrow>
          (let r = r0\<lparr>sr_client_info := Some auto_recovered_info,
                 sr_client_capabilities := Some (JObj []), sr_principal := p\<rparr>
           in case mem_create uuids r (rg_store rg) of
                None \<Rightarrow> None
              | Some (st, Inl e) \<Rightarrow> restore_from_record c r (rg\<lparr>rg_store := st\<rparr>)
              | Some (st, Inr r') \<Rightarrow> restore_from_record c r' (rg\<lparr>rg_store := st\<rparr>)))"

text \<open>The fast path of \<open>get\<close>, all under the read lock: a result of \<open>None\<close> inside says that
  the identifier is not live.\<close>

definition get_live ::
  "clock \<Rightarrow> string \<Rightarrow> session_principal \<Rightarrow> registry \<Rightarrow> (registry \<times> nat option option) option" where
  "get_live c i p rg =
     (case map_of (rg_sessions rg) i of
        None \<Rightarrow> Some (rg, None)
      | Some a \<Rightarrow>
          if \<not> principal_matches p (ls_principal (session_at a rg)) then Some (rg, Some None)
          else map_option (\<lambda>rg1. (rg1, Some (Some a)))
                 (save_record c a (update_session a (ls_touch (mono c)) rg)))"

definition get_auto ::
  "(nat \<Rightarrow> string) \<Rightarrow> clock \<Rightarrow> string \<Rightarrow> session_principal \<Rightarrow> registry \<Rightarrow> (registry \<times> nat option) option" where
  "get_auto uuids c i p rg =
     (if rg_auto_reinit rg then
        (case p of Resolved bound \<Rightarrow> auto_reinitialize uuids c i bound rg | Invalid \<Rightarrow> Some (rg, None))
      else Some (rg, None))"

definition get_stored ::
  "(nat \<Rightarrow> string) \<Rightarrow> clock \<Rightarrow> string \<Rightarrow> session_principal \<Rightarrow> registry \<Rightarrow> (registry \<times> nat option) option" where
  "get_stored uuids c i p rg =
     (case mem_load (wall c) i (rg_store rg) of
        (st, Inr (Some r)) \<Rightarrow>
          if \<not> principal_matches p (sr_principal r) then Some (rg\<lparr>rg_store := st\<rparr>, None)
          else (case restore_from_record c r (rg\<lparr>rg_store := st\<rparr>) of
                  None \<Rightarrow> None
                | Some (rg1, Some a) \<Rightarrow> Some (rg1, Some a)
                | Some (rg1, None) \<Rightarrow> get_auto uuids c i p rg1)
      | (st, _) \<Rightarrow> get_auto uuids c i p (rg\<lparr>rg_store := st\<rparr>))"

definition reg_get ::
  "(nat \<Rightarrow> string) \<Rightarrow> clock \<Rightarrow> string \<Rightarrow> session_principal \<Rightarrow> registry \<Rightarrow> (registry \<times> nat option) option" where
  "reg_get uuids c i p rg =
     (case get_live c i p rg of
        None \<Rightarrow> None
      | Some (rg1, Some res) \<Rightarrow> Some (rg1, res)
      | Some (rg1, None) \<Rightarrow> get_stored uuids c i p rg1)"

section \<open>Removing sessions\<close>

definition finish_removal :: "string \<Rightarrow> bool \<Rightarrow> registry \<Rightarrow> registry" where
  "finish_removal i removed rg =
     (if removed then
        rg\<lparr>rg_store := fst (mem_delete i (rg_store rg)), rg_events := fst (mem_purge i (rg_events rg))\<rparr>
      else rg)"

definition drop_live :: "string \<Rightarrow> registry \<Rightarrow> registry" where
  "drop_live i rg = rg\<lparr>rg_sessions := AList.delete i (rg_sessions rg)\<rparr>"

definition reg_remove :: "string \<Rightarrow> registry \<Rightarrow> registry \<times> bool" where
  "reg_remove i rg =
     (let removed = (map_of (rg_sessions rg) i \<noteq> None)
      in (finish_removal i removed (drop_live i rg), removed))"

definition remove_stored :: "clock \<Rightarrow> string \<Rightarrow> session_principal \<Rightarrow> registry \<Rightarrow> registry \<times> bool" where
  "remove_stored c i p rg =
     (case mem_load (wall c) i (rg_store rg) of
        (st, Inr (Some r)) \<Rightarrow>
          (let rg0 = rg\<lparr>rg_store := st\<rparr> in
           if session_is_expired (wall c) r then (rg0, False)
           else if \<not> principal_matches p (sr_principal r) then (rg0, False)
           else
             let rg1 = (case map_of (rg_sessions rg0) i of
                          Some a \<Rightarrow> if principal_matches p (ls_principal (session_at a rg0)) then drop_live i rg0
                                    else rg0
                        | None \<Rightarrow> rg0)
             in (finish_removal i True rg1, True))
      | (st, _) \<Rightarrow> (rg\<lparr>rg_store := st\<rparr>, False))"

definition reg_remove_for :: "clock \<Rightarrow> string \<Rightarrow> session_principal \<Rightarrow> registry \<Rightarrow> registry \<times> bool" where
  "reg_remove_for c i p rg =
     (case map_of (rg_sessions rg) i of
        Some a \<Rightarrow>
          if principal_matches p (ls_principal (session_at a rg)) then
            (finish_removal i True (drop_live i rg), True)
          else (finish_removal i False rg, False)
      | None \<Rightarrow> remove_stored c i p rg)"

definition expired_ids :: "clock \<Rightarrow> registry \<Rightarrow> string list" where
  "expired_ids c rg =
     map fst (filter (\<lambda>(i, a). ls_is_expired (mono c) (sc_ttl (rg_config rg)) (session_at a rg)) (rg_sessions rg))"

definition reg_cleanup_expired :: "clock \<Rightarrow> registry \<Rightarrow> registry \<times> nat" where
  "reg_cleanup_expired c rg =
     (let expired = expired_ids c rg
      in (fold (\<lambda>i. finish_removal i True) expired (fold drop_live expired rg), length expired))"

definition broadcast_external_notification :: "server_notification \<Rightarrow> string \<Rightarrow> registry \<Rightarrow> registry" where
  "broadcast_external_notification n json rg =
     fold (\<lambda>(i, a). update_session a (\<lambda>s.
             if accepts_external_notification n s then s\<lparr>ls_sent := ls_sent s @ [json]\<rparr> else s))
       (rg_sessions rg) rg"

text \<open>SSE events of a session: the append fails softly, and a failing replay is empty.\<close>

definition buffer_event :: "clock \<Rightarrow> nat \<Rightarrow> 64 word \<Rightarrow> string \<Rightarrow> registry \<Rightarrow> registry" where
  "buffer_event c a i payload rg =
     rg\<lparr>rg_events := fst (mem_append (ls_id (session_at a rg))
          (event_record_new (wall c) (unat i) payload) (rg_events rg))\<rparr>"

definition get_events_after :: "nat \<Rightarrow> nat \<Rightarrow> registry \<Rightarrow> registry \<times> event_record list" where
  "get_events_after a after rg =
     (case mem_replay_after (ls_id (session_at a rg)) after (rg_events rg) of
        (ev, Inr es) \<Rightarrow> (rg\<lparr>rg_events := ev\<rparr>, es)
      | (ev, Inl e) \<Rightarrow> (rg\<lparr>rg_events := ev\<rparr>, []))"

section \<open>The handle\<close>

record session_info =
  si_id :: string
  si_created_at :: nat
  si_last_activity :: nat

definition handle_session_count :: "registry \<Rightarrow> nat" where
  "handle_session_count rg = length (rg_sessions rg)"

definition list_sessions :: "clock \<Rightarrow> registry \<Rightarrow> session_info list" where
  "list_sessions c rg =
     map (\<lambda>(i, a). let s = session_at a rg in
            \<lparr>si_id = ls_id s, si_created_at = mono c - ls_created_at s,
             si_last_activity = mono c - ls_last_accessed s\<rparr>) (rg_sessions rg)"

definition terminate_session :: "string \<Rightarrow> registry \<Rightarrow> registry \<times> bool" where
  "terminate_session = reg_remove"

section \<open>Reachable registries\<close>

text \<open>
  What a handler does to a session it holds.
\<close>

datatype held_op =
  HTouch nat | HNextEvent | HAddPending request_id nat | HComplete request_id
| HFail "request_id list" | HNegotiated string "json option" "json option" | HInitialized

fun run_held :: "held_op \<Rightarrow> live_session \<Rightarrow> live_session" where
  "run_held (HTouch now) s = ls_touch now s"
| "run_held HNextEvent s = fst (next_event_id s)"
| "run_held (HAddPending i w) s = add_pending_request i w s"
| "run_held (HComplete i) s = fst (complete_pending_request i s)"
| "run_held (HFail is) s = fst (fail_pending_requests is s)"
| "run_held (HNegotiated v ci cc) s =
     s\<lparr>ls_protocol_version := v, ls_client_info := ci, ls_client_capabilities := cc\<rparr>"
| "run_held HInitialized s = s\<lparr>ls_initialized_received := True\<rparr>"

text \<open>
  The sections of all handlers, in any order, with any clock readings; the stores are shared with
  other instances, which may change them in between as the traits allow.
\<close>

inductive registry_step :: "registry \<Rightarrow> registry \<Rightarrow> bool" where
  admit: "admit_session s rg = (rg', res) \<Longrightarrow> registry_step rg rg'"
| persist: "a < length (rg_heap rg) \<Longrightarrow> persist_new uuids c a rg = Some rg' \<Longrightarrow> registry_step rg rg'"
| live: "get_live c i p rg = Some (rg', res) \<Longrightarrow> registry_step rg rg'"
| insert: "restore_insert c r rg = (rg', res) \<Longrightarrow> registry_step rg rg'"
| seed: "a < length (rg_heap rg) \<Longrightarrow> registry_step rg (seed_counter i a rg)"
| refresh: "refresh_stored c r rg = Some rg' \<Longrightarrow> registry_step rg rg'"
| remove: "registry_step rg (drop_live i rg)"
| finish: "registry_step rg (finish_removal i removed rg)"
| held: "a < length (rg_heap rg) \<Longrightarrow> registry_step rg (update_session a (run_held op) rg)"
| event: "a < length (rg_heap rg) \<Longrightarrow> registry_step rg (buffer_event c a n payload rg)"
| broadcast: "registry_step rg (broadcast_external_notification n json rg)"
| others: "mem_ok st \<Longrightarrow> registry_step rg (rg\<lparr>rg_store := st, rg_events := ev\<rparr>)"

inductive registry_reach :: "registry \<Rightarrow> bool" where
  start: "mem_ok st \<Longrightarrow> registry_reach (registry_new cfg sampling st ev router auto_reinit)"
| step: "registry_reach rg \<Longrightarrow> registry_step rg rg' \<Longrightarrow> registry_reach rg'"

inductive_cases registry_stepE: "registry_step rg rg'"

text \<open>
  The invariant: identifiers are distinct keys, each leads to a session of the heap with that very
  identifier, two identifiers never share a session, the limit holds, and the stored records carry
  the identifiers they are stored under.
\<close>

definition registry_ok :: "registry \<Rightarrow> bool" where
  "registry_ok rg \<longleftrightarrow>
     distinct (map fst (rg_sessions rg))
   \<and> (\<forall>i a. map_of (rg_sessions rg) i = Some a \<longrightarrow> a < length (rg_heap rg) \<and> ls_id (session_at a rg) = i)
   \<and> (\<forall>n. sc_max_sessions (rg_config rg) = Some n \<longrightarrow> length (rg_sessions rg) \<le> n)
   \<and> mem_ok (rg_store rg)"

section \<open>The invariant holds\<close>

definition same_binding :: "live_session \<Rightarrow> live_session \<Rightarrow> bool" where
  "same_binding s s' \<longleftrightarrow> ls_id s' = ls_id s \<and> ls_principal s' = ls_principal s"

text \<open>Sessions already on the heap keep their identifier and their principal.\<close>

definition keeps_bindings :: "registry \<Rightarrow> registry \<Rightarrow> bool" where
  "keeps_bindings rg rg' \<longleftrightarrow>
     rg_config rg' = rg_config rg \<and> length (rg_heap rg) \<le> length (rg_heap rg')
   \<and> (\<forall>a < length (rg_heap rg). same_binding (session_at a rg) (session_at a rg'))"

lemma same_binding_refl [simp]: "same_binding s s"
  by (simp add: same_binding_def)

lemma same_binding_run_held: "same_binding s (run_held op s)"
proof (cases op)
  case (HFail ids)
  have "same_binding s (fst (fail_pending_requests ids s))"
    by (induction ids s rule: fail_pending_requests.induct)
      (auto simp: same_binding_def complete_pending_request_def split: option.split prod.split)
  then show ?thesis by (simp add: HFail)
qed (simp_all add: same_binding_def ls_touch_def next_event_id_def add_pending_request_def
    complete_pending_request_def)

lemma keeps_bindings_refl [simp]: "keeps_bindings rg rg"
  by (simp add: keeps_bindings_def)

lemma keeps_bindings_trans [trans]:
  "keeps_bindings rg rg1 \<Longrightarrow> keeps_bindings rg1 rg2 \<Longrightarrow> keeps_bindings rg rg2"
  by (force simp: keeps_bindings_def same_binding_def)

lemma update_session_simps [simp]:
  "rg_sessions (update_session a f rg) = rg_sessions rg"
  "rg_config (update_session a f rg) = rg_config rg"
  "rg_store (update_session a f rg) = rg_store rg"
  "rg_events (update_session a f rg) = rg_events rg"
  "rg_auto_reinit (update_session a f rg) = rg_auto_reinit rg"
  "length (rg_heap (update_session a f rg)) = length (rg_heap rg)"
  by (simp_all add: update_session_def)

lemma session_at_update:
  "session_at b (update_session a f rg) =
     (if a = b \<and> a < length (rg_heap rg) then f (session_at a rg) else session_at b rg)"
  by (cases "a < length (rg_heap rg)"; cases "a = b")
    (simp_all add: session_at_def update_session_def list_update_beyond)

lemma session_at_stores [simp]:
  "session_at a (rg\<lparr>rg_store := st\<rparr>) = session_at a rg"
  "session_at a (rg\<lparr>rg_events := ev\<rparr>) = session_at a rg"
  "session_at a (rg\<lparr>rg_sessions := ss\<rparr>) = session_at a rg"
  by (simp_all add: session_at_def)

lemma registry_ok_update:
  assumes "registry_ok rg" and "\<And>s. same_binding s (f s)"
  shows "registry_ok (update_session a f rg)" and "keeps_bindings rg (update_session a f rg)"
  using assms by (auto simp: registry_ok_def keeps_bindings_def session_at_update same_binding_def)

lemma registry_ok_stores:
  assumes "registry_ok rg" and "mem_ok st"
  shows "registry_ok (rg\<lparr>rg_store := st\<rparr>)" and "registry_ok (rg\<lparr>rg_store := st, rg_events := ev\<rparr>)"
    and "keeps_bindings rg (rg\<lparr>rg_store := st\<rparr>)" and "keeps_bindings rg (rg\<lparr>rg_store := st, rg_events := ev\<rparr>)"
  using assms by (simp_all add: registry_ok_def keeps_bindings_def)

lemma registry_ok_events:
  assumes "registry_ok rg"
  shows "registry_ok (rg\<lparr>rg_events := ev\<rparr>)" and "keeps_bindings rg (rg\<lparr>rg_events := ev\<rparr>)"
  using assms by (simp_all add: registry_ok_def keeps_bindings_def)

lemma registry_ok_drop:
  assumes "registry_ok rg"
  shows "registry_ok (drop_live i rg)" and "keeps_bindings rg (drop_live i rg)"
proof -
  have "length (AList.delete i (rg_sessions rg)) \<le> length (rg_sessions rg)" by (rule length_delete_le)
  then show "registry_ok (drop_live i rg)"
    using assms by (force simp: registry_ok_def drop_live_def map_of_delete_iff distinct_delete split: if_splits)
qed (simp add: keeps_bindings_def drop_live_def)

lemma registry_ok_insert_session:
  assumes ok: "registry_ok rg" and room: "\<not> at_capacity rg" and i: "ls_id s = i"
    and run: "insert_session i s rg = (rg', a)"
  shows "registry_ok rg'" and "keeps_bindings rg rg'"
proof -
  have a: "a = length (rg_heap rg)" and rg': "rg' = rg\<lparr>rg_heap := rg_heap rg @ [s],
      rg_sessions := AList.update i (length (rg_heap rg)) (rg_sessions rg)\<rparr>"
    using run by (auto simp: insert_session_def)
  have len: "length (AList.update i b xs) \<le> Suc (length xs)" for b and xs :: "(string \<times> nat) list"
    by (induction xs) auto
  have old: "session_at b rg' = session_at b rg" if "b < length (rg_heap rg)" for b
    using that by (simp add: rg' session_at_def nth_append)
  have new: "session_at (length (rg_heap rg)) rg' = s" by (simp add: rg' session_at_def)
  have "length (rg_sessions rg') \<le> n" if "sc_max_sessions (rg_config rg) = Some n" for n
    using that room len [of "length (rg_heap rg)" "rg_sessions rg"] by (simp add: at_capacity_def rg')
  moreover have "b < length (rg_heap rg') \<and> ls_id (session_at b rg') = j"
    if "map_of (rg_sessions rg') j = Some b" for j b
  proof (cases "j = i")
    case True
    then have "b = length (rg_heap rg)" using that by (simp add: rg' map_of_update_iff)
    then show ?thesis using True new i by (simp add: rg')
  next
    case False
    then have "map_of (rg_sessions rg) j = Some b" using that by (simp add: rg' map_of_update_iff)
    then have "b < length (rg_heap rg)" "ls_id (session_at b rg) = j" using ok by (auto simp: registry_ok_def)
    then show ?thesis by (simp add: old) (simp add: rg')
  qed
  ultimately show "registry_ok rg'"
    using ok by (simp add: registry_ok_def rg' distinct_update)
  show "keeps_bindings rg rg'" using old by (simp add: keeps_bindings_def) (simp add: rg')
qed

lemma mem_ok_ops:
  assumes "mem_ok st"
  shows "mem_ok (fst (mem_save r st))" and "mem_ok (fst (mem_delete i st))"
    and "mem_create uuids r st = Some (st', res) \<Longrightarrow> mem_ok st'"
    and "mem_load now i st = (st', lres) \<Longrightarrow> st' = st"
  using assms
  by (auto simp: mem_ok_def mem_save_def mem_delete_def mem_create_def mem_load_def Let_def
      map_of_update_iff map_of_delete_iff split: if_splits)

lemma at_capacity_update [simp]: "at_capacity (update_session a f rg) = at_capacity rg"
  by (simp add: at_capacity_def split: option.split)

lemma registry_ok_admit:
  assumes "registry_ok rg" and "admit_session s rg = (rg', res)"
  shows "registry_ok rg' \<and> keeps_bindings rg rg'"
  using assms registry_ok_insert_session [where i = "ls_id s" and s = s and rg = rg]
  by (auto simp: admit_session_def split: if_splits prod.splits)

lemma registry_ok_save:
  assumes "registry_ok rg" and "save_record c a rg = Some rg'"
  shows "registry_ok rg' \<and> keeps_bindings rg rg'"
  using assms registry_ok_stores [where rg = rg] mem_ok_ops(1) [of "rg_store rg"]
  by (auto simp: save_record_def registry_ok_def)

lemma registry_ok_persist:
  assumes ok: "registry_ok rg" and run: "persist_new uuids c a rg = Some rg'"
  shows "registry_ok rg' \<and> keeps_bindings rg rg'"
proof -
  obtain r st res where "mem_create uuids r (rg_store rg) = Some (st, res)" and rg': "rg' = rg\<lparr>rg_store := st\<rparr>"
    using run by (auto simp: persist_new_def split: option.splits)
  moreover have "mem_ok (rg_store rg)" using ok by (simp add: registry_ok_def)
  ultimately have "mem_ok st" using mem_ok_ops(3) by blast
  then show ?thesis using registry_ok_stores [OF ok] by (simp add: rg')
qed

lemma registry_ok_refresh:
  assumes "registry_ok rg" and "refresh_stored c r rg = Some rg'"
  shows "registry_ok rg' \<and> keeps_bindings rg rg'"
  using assms registry_ok_stores [where rg = rg] mem_ok_ops(1) [of "rg_store rg"]
  by (auto simp: refresh_stored_def registry_ok_def)

lemma same_binding_touch [simp]: "same_binding s (ls_touch now s)"
  by (simp add: same_binding_def ls_touch_def)

lemma registry_ok_live:
  assumes ok: "registry_ok rg" and run: "get_live c i p rg = Some (rg', res)"
  shows "registry_ok rg' \<and> keeps_bindings rg rg'"
proof (cases "rg' = rg")
  case False
  then obtain a where "save_record c a (update_session a (ls_touch (mono c)) rg) = Some rg'"
    using run by (auto simp: get_live_def split: option.splits if_splits)
  moreover have "registry_ok (update_session a (ls_touch (mono c)) rg)"
    "keeps_bindings rg (update_session a (ls_touch (mono c)) rg)"
    by (simp_all add: registry_ok_update [OF ok])
  ultimately show ?thesis using registry_ok_save keeps_bindings_trans by blast
qed (simp add: ok)

lemma restored_session_id:
  "ls_id (restored_session c r rg) = sr_id r"
  by (simp add: restored_session_def live_session_restored_def live_session_from_service_restored_def)

lemma registry_ok_restore_insert:
  assumes ok: "registry_ok rg" and run: "restore_insert c r rg = (rg', res)"
  shows "registry_ok rg' \<and> keeps_bindings rg rg'"
proof (cases "at_capacity rg")
  case True
  then show ?thesis using ok run by (simp add: restore_insert_def)
next
  case room: False
  show ?thesis
  proof (cases "map_of (rg_sessions rg) (sr_id r)")
    case None
    obtain a where "insert_session (sr_id r) (restored_session c r rg) rg = (rg', a)"
      using None room run by (auto simp: restore_insert_def split: prod.splits)
    moreover have "ls_id (restored_session c r rg) = sr_id r" by (rule restored_session_id)
    ultimately show ?thesis using registry_ok_insert_session [OF ok room] by blast
  next
    case (Some a)
    then show ?thesis using room run registry_ok_update [OF ok same_binding_touch]
      by (auto simp: restore_insert_def)
  qed
qed

lemma registry_ok_seed:
  assumes ok: "registry_ok rg"
  shows "registry_ok (seed_counter i a rg) \<and> keeps_bindings rg (seed_counter i a rg)"
proof -
  have bind: "same_binding s (s\<lparr>ls_event_counter := n\<rparr>)" for s :: live_session and n
    by (simp add: same_binding_def)
  have "registry_ok (update_session a (\<lambda>s. s\<lparr>ls_event_counter := n\<rparr>) (rg\<lparr>rg_events := ev\<rparr>)) \<and>
      keeps_bindings rg (update_session a (\<lambda>s. s\<lparr>ls_event_counter := n\<rparr>) (rg\<lparr>rg_events := ev\<rparr>))" for n ev
    using registry_ok_update [OF registry_ok_events(1) [OF ok], where f = "\<lambda>s. s\<lparr>ls_event_counter := n\<rparr>"]
      registry_ok_events(2) [OF ok] keeps_bindings_trans bind by blast
  then show ?thesis
    using registry_ok_events [OF ok] by (simp add: seed_counter_def split: prod.split sum.split list.split)
qed

lemma broadcast_fold:
  assumes "registry_ok rg"
  shows "registry_ok (fold (\<lambda>(i, a). update_session a (\<lambda>s.
           if accepts_external_notification n s then s\<lparr>ls_sent := ls_sent s @ [json]\<rparr> else s)) xs rg)
    \<and> keeps_bindings rg (fold (\<lambda>(i, a). update_session a (\<lambda>s.
           if accepts_external_notification n s then s\<lparr>ls_sent := ls_sent s @ [json]\<rparr> else s)) xs rg)"
  using assms
proof (induction xs arbitrary: rg)
  case (Cons x xs)
  let ?f = "\<lambda>s. if accepts_external_notification n s then s\<lparr>ls_sent := ls_sent s @ [json]\<rparr> else s"
  have "same_binding s (?f s)" for s by (simp add: same_binding_def)
  then have "registry_ok (update_session (snd x) ?f rg)" "keeps_bindings rg (update_session (snd x) ?f rg)"
    using registry_ok_update [OF Cons.prems, where f = ?f] by blast+
  then show ?case using Cons.IH keeps_bindings_trans by (simp add: case_prod_unfold)
qed simp

lemma registry_step_ok:
  assumes "registry_step rg rg'" and ok: "registry_ok rg"
  shows "registry_ok rg' \<and> keeps_bindings rg rg'"
  using assms(1)
proof cases
  case (admit s res)
  then show ?thesis using registry_ok_admit [OF ok] by blast
next
  case (persist a uuids c)
  then show ?thesis using registry_ok_persist [OF ok] by blast
next
  case (live c i p res)
  then show ?thesis using registry_ok_live [OF ok] by blast
next
  case (insert c r res)
  then show ?thesis using registry_ok_restore_insert [OF ok] by blast
next
  case (seed a i)
  then show ?thesis using registry_ok_seed [OF ok] by blast
next
  case (refresh c r)
  then show ?thesis using registry_ok_refresh [OF ok] by blast
next
  case (remove i)
  then show ?thesis using registry_ok_drop [OF ok] by blast
next
  case (finish i removed)
  have "mem_ok (fst (mem_delete i (rg_store rg)))" using ok mem_ok_ops(2) by (simp add: registry_ok_def)
  then show ?thesis using finish ok registry_ok_stores [OF ok] by (simp add: finish_removal_def)
next
  case (held a op)
  then show ?thesis
    using registry_ok_update [OF ok, where f = "run_held op", OF same_binding_run_held] by blast
next
  case (event a c n payload)
  then show ?thesis using registry_ok_events [OF ok] by (simp add: buffer_event_def)
next
  case (broadcast n json)
  then show ?thesis using broadcast_fold [OF ok] by (simp add: broadcast_external_notification_def)
next
  case (others st ev)
  then show ?thesis using registry_ok_stores [OF ok] by blast
qed

lemma registry_reach_ok: "registry_reach rg \<Longrightarrow> registry_ok rg"
proof (induction rule: registry_reach.induct)
  case (start st cfg sampling ev router auto_reinit)
  then show ?case by (simp add: registry_ok_def registry_new_def)
next
  case (step rg rg')
  then show ?case using registry_step_ok by blast
qed

text \<open>
  C23: sessions stay bound to their creator and within the limit.  In every registry that any
  interleaving of handlers reaches, with other instances changing the shared stores meanwhile, each
  live identifier leads to the session with that identifier, the configured maximum holds, and every
  further step leaves the identifier and the principal of every session as they are.
\<close>

theorem sessions_bound_and_limited:
  assumes "registry_reach rg"
  shows "(\<forall>i a. map_of (rg_sessions rg) i = Some a \<longrightarrow>
            a < length (rg_heap rg) \<and> ls_id (session_at a rg) = i)
    \<and> (\<forall>n. sc_max_sessions (rg_config rg) = Some n \<longrightarrow> handle_session_count rg \<le> n)
    \<and> (registry_step rg rg' \<longrightarrow> a < length (rg_heap rg) \<longrightarrow>
         ls_principal (session_at a rg') = ls_principal (session_at a rg)
       \<and> ls_id (session_at a rg') = ls_id (session_at a rg))"
proof -
  note ok = registry_reach_ok [OF assms]
  have "ls_principal (session_at a rg') = ls_principal (session_at a rg) \<and> ls_id (session_at a rg') = ls_id (session_at a rg)"
    if "registry_step rg rg'" "a < length (rg_heap rg)"
    using registry_step_ok [OF that(1) ok] that(2) by (simp add: keeps_bindings_def same_binding_def)
  moreover have "handle_session_count rg \<le> n" if "sc_max_sessions (rg_config rg) = Some n" for n
    using ok that by (simp add: registry_ok_def handle_session_count_def)
  ultimately show ?thesis using ok by (simp add: registry_ok_def)
qed

definition demo_registry :: registry where
  "demo_registry = registry_new (session_config_default\<lparr>sc_max_sessions := Some 2\<rparr>) False []
     (memory_event_store_new 10) True False"

definition demo_live :: live_session where
  "demo_live = with_principal (Some ''alice'')
     (live_session_new 0 ''s1'' False (mark_handshake_started session_new))"

definition demo_one :: registry where
  "demo_one = fst (admit_session demo_live demo_registry)"

lemma demo_one_eq: "demo_one = demo_registry\<lparr>rg_heap := [demo_live], rg_sessions := [(''s1'', 0)]\<rparr>"
  by (simp add: demo_one_def admit_session_def at_capacity_def insert_session_def demo_registry_def
      registry_new_def demo_live_def with_principal_def live_session_new_def session_config_default_def)

lemma demo_one_reach: "registry_reach demo_one"
  unfolding demo_one_def
  by (rule registry_reach.step [OF registry_reach.start registry_step.admit, of "[]"])
    (simp_all add: demo_registry_def mem_ok_def prod_eq_iff)

lemma sessions_bound_and_limited_witness:
  "handle_session_count demo_one \<le> 2
   \<and> ls_principal (session_at 0 (seed_counter ''s1'' 0 demo_one)) = ls_principal (session_at 0 demo_one)"
proof -
  have "sc_max_sessions (rg_config demo_one) = Some 2" "0 < length (rg_heap demo_one)"
    by (simp_all add: demo_one_eq demo_registry_def registry_new_def)
  then show ?thesis
    using sessions_bound_and_limited [OF demo_one_reach, of "seed_counter ''s1'' 0 demo_one" 0]
      registry_step.seed [of 0 demo_one "''s1''"] by blast
qed

section \<open>Principal isolation\<close>

text \<open>The principal an identifier belongs to: that of the live session, else of the unexpired record.\<close>

definition bound_principal :: "clock \<Rightarrow> string \<Rightarrow> registry \<Rightarrow> string option option" where
  "bound_principal c i rg =
     (case map_of (rg_sessions rg) i of
        Some a \<Rightarrow> Some (ls_principal (session_at a rg))
      | None \<Rightarrow>
          (case map_of (rg_store rg) i of
             Some r \<Rightarrow> if session_is_expired (wall c) r then None else Some (sr_principal r)
           | None \<Rightarrow> None))"

lemma principal_matches_iff: "principal_matches p b \<longleftrightarrow> p = Resolved b"
  by (cases p) (auto simp: owner_matches_def)

text \<open>
  C17: a leaked identifier is useless to another caller.  Whoever resolves to another principal than
  the one a session is bound to (anonymous callers, failed resolutions and other users alike) gets no
  session from \<open>get\<close> and removes nothing, and neither call changes anything: the session is not
  refreshed, restored or re-created.
\<close>

theorem foreign_principal_sees_nothing:
  assumes "bound_principal c i rg = Some b" and "p \<noteq> Resolved b"
  shows "reg_get uuids c i p rg = Some (rg, None) \<and> reg_remove_for c i p rg = (rg, False)"
  using assms
  by (auto simp: bound_principal_def principal_matches_iff reg_get_def get_live_def get_stored_def
      mem_load_def reg_remove_for_def remove_stored_def finish_removal_def Let_def
      split: option.splits if_splits)

lemma foreign_principal_sees_nothing_witness:
  "reg_get (\<lambda>k. ''x'') \<lparr>mono = 5, wall = 5\<rparr> ''s1'' (Resolved (Some ''mallory'')) demo_one = Some (demo_one, None)"
proof -
  have "bound_principal \<lparr>mono = 5, wall = 5\<rparr> ''s1'' demo_one = Some (Some ''alice'')"
    by (simp add: bound_principal_def demo_one_eq session_at_def demo_live_def with_principal_def)
  then show ?thesis
    using foreign_principal_sees_nothing [of "\<lparr>mono = 5, wall = 5\<rparr>" "''s1''" demo_one "Some ''alice''"] by simp
qed

section \<open>Termination\<close>

lemma finish_removal_effect:
  "rg_sessions (finish_removal i True rg) = rg_sessions rg"
  "rg_config (finish_removal i b rg) = rg_config rg"
  "rg_auto_reinit (finish_removal i b rg) = rg_auto_reinit rg"
  "map_of (rg_store (finish_removal i True rg)) j = (if j = i then None else map_of (rg_store rg) j)"
  "buffer_of (rg_events (finish_removal i True rg)) j = (if j = i then [] else buffer_of (rg_events rg) j)"
  by (simp_all add: finish_removal_def mem_delete_def mem_purge_def buffer_of_def map_of_delete_iff)

lemma drop_live_effect [simp]:
  "map_of (rg_sessions (drop_live i rg)) j = (if j = i then None else map_of (rg_sessions rg) j)"
  "rg_store (drop_live i rg) = rg_store rg" "rg_events (drop_live i rg) = rg_events rg"
  "rg_config (drop_live i rg) = rg_config rg" "rg_auto_reinit (drop_live i rg) = rg_auto_reinit rg"
  by (simp_all add: drop_live_def map_of_delete_iff)

lemma remove_for_True:
  assumes "reg_remove_for c i p rg = (rg', True)"
  shows "\<exists>rg1. rg' = finish_removal i True rg1 \<and> rg_store rg1 = rg_store rg \<and> rg_events rg1 = rg_events rg
    \<and> rg_auto_reinit rg1 = rg_auto_reinit rg \<and> rg_config rg1 = rg_config rg
    \<and> (\<forall>j. map_of (rg_sessions rg1) j = (if j = i then None else map_of (rg_sessions rg) j))"
proof (cases "map_of (rg_sessions rg) i")
  case None
  then have "rg' = finish_removal i True rg"
    using assms by (auto simp: reg_remove_for_def remove_stored_def mem_load_def Let_def split: option.splits if_splits)
  then show ?thesis using None by auto
next
  case (Some a)
  then have "rg' = finish_removal i True (drop_live i rg)"
    using assms by (auto simp: reg_remove_for_def split: if_splits)
  then show ?thesis by auto
qed

text \<open>
  DELETE ends a session.  When \<open>remove_for\<close> reports success the identifier has no live
  session, no stored record and no buffered event; without auto-reinitialization no later request of
  any caller gets a session by it; and every other identifier keeps its session, record and events.
\<close>

theorem terminated_session_is_gone:
  assumes "reg_remove_for c i p rg = (rg', True)"
  shows "map_of (rg_sessions rg') i = None \<and> map_of (rg_store rg') i = None \<and> buffer_of (rg_events rg') i = []
    \<and> (\<not> rg_auto_reinit rg \<longrightarrow> reg_get uuids c' i q rg' = Some (rg', None))
    \<and> (j \<noteq> i \<longrightarrow> map_of (rg_sessions rg') j = map_of (rg_sessions rg) j
         \<and> map_of (rg_store rg') j = map_of (rg_store rg) j \<and> buffer_of (rg_events rg') j = buffer_of (rg_events rg) j)"
proof -
  obtain rg1 where rg': "rg' = finish_removal i True rg1"
    and same: "rg_store rg1 = rg_store rg" "rg_events rg1 = rg_events rg" "rg_auto_reinit rg1 = rg_auto_reinit rg"
    and live: "\<And>j. map_of (rg_sessions rg1) j = (if j = i then None else map_of (rg_sessions rg) j)"
    using remove_for_True [OF assms] by blast
  have gone: "map_of (rg_sessions rg') i = None" "map_of (rg_store rg') i = None"
    by (simp_all add: rg' finish_removal_effect live)
  have "reg_get uuids c' i q rg' = Some (rg', None)" if "\<not> rg_auto_reinit rg"
    using that gone same
    by (simp add: reg_get_def get_live_def get_stored_def mem_load_def get_auto_def rg' finish_removal_effect)
  then show ?thesis using gone same by (simp add: rg' finish_removal_effect live)
qed

lemma terminated_session_is_gone_witness:
  "snd (reg_remove_for \<lparr>mono = 5, wall = 5\<rparr> ''s1'' (Resolved (Some ''alice'')) demo_one)
   \<and> map_of (rg_sessions (fst (reg_remove_for \<lparr>mono = 5, wall = 5\<rparr> ''s1'' (Resolved (Some ''alice'')) demo_one))) ''s1'' = None"
proof -
  let ?r = "reg_remove_for \<lparr>mono = 5, wall = 5\<rparr> ''s1'' (Resolved (Some ''alice'')) demo_one"
  have "snd ?r"
    by (simp add: reg_remove_for_def demo_one_eq session_at_def principal_matches_iff demo_live_def with_principal_def)
  moreover from this have "?r = (fst ?r, True)" by (simp add: prod_eq_iff)
  ultimately show ?thesis using terminated_session_is_gone by blast
qed

section \<open>Restoring a session in another process\<close>

lemma restore_insert_new:
  assumes "\<not> at_capacity rg" and "map_of (rg_sessions rg) (sr_id r) = None"
  shows "restore_insert c r rg =
      (rg\<lparr>rg_heap := rg_heap rg @ [restored_session c r rg],
          rg_sessions := AList.update (sr_id r) (length (rg_heap rg)) (rg_sessions rg)\<rparr>,
       RestoreInserted (length (rg_heap rg)))"
  using assms by (simp add: restore_insert_def insert_session_def)

text \<open>The sessions a restore starts from: past the handshake, with nothing in flight.\<close>

definition restored_from :: "session_record \<Rightarrow> live_session \<Rightarrow> bool" where
  "restored_from r s \<longleftrightarrow> ls_id s = sr_id r \<and> ls_principal s = sr_principal r
     \<and> ls_protocol_version s = sr_protocol_version r \<and> ls_client_info s = sr_client_info r
     \<and> ls_client_capabilities s = sr_client_capabilities r
     \<and> ls_initialized_received s \<and> ls_pending s = []
     \<and> (case ls_source s of RouterSource st subs \<Rightarrow> is_initialized st \<and> subs = [] | BoxedSource \<Rightarrow> True)"

lemma restored_session_fields:
  "restored_from r (restored_session c r rg)" "ls_event_counter (restored_session c r rg) = 0"
  by (simp_all add: restored_from_def restored_session_def live_session_restored_def
      live_session_from_service_restored_def is_initialized_def phase_def mark_preinitialized_def phase_from_u8_def Let_def)

definition with_counter :: "64 word \<Rightarrow> live_session \<Rightarrow> live_session" where
  "with_counter n s = s\<lparr>ls_event_counter := n\<rparr>"

lemma with_counter_simps [simp]:
  "restored_from r (with_counter n s) = restored_from r s" "ls_event_counter (with_counter n s) = n"
  by (simp_all add: with_counter_def restored_from_def)

text \<open>What seeding does to the counter: nothing when every buffered identifier is 0.\<close>

lemma seed_counter_eq:
  "seed_counter i a rg =
     (let es = filter (\<lambda>e. 0 < ev_id e) (buffer_of (rg_events rg) i)
      in if es = [] then rg else update_session a (with_counter (of_nat (Max (ev_id ` set es)) + 1)) rg)"
proof -
  have replay: "mem_replay_after i 0 (rg_events rg) =
      (rg_events rg, Inr (filter (\<lambda>e. 0 < ev_id e) (buffer_of (rg_events rg) i)))"
    by (simp add: mem_replay_after_def buffer_of_def split: option.split)
  have [simp]: "rg\<lparr>rg_events := rg_events rg\<rparr> = rg" by simp
  show ?thesis
    by (cases "filter (\<lambda>e. 0 < ev_id e) (buffer_of (rg_events rg) i)")
      (simp_all add: seed_counter_def replay Let_def with_counter_def [abs_def])
qed

lemma seeded_above:
  assumes "e \<in> set es" and "\<forall>e\<in>set es. ev_id e < 2 ^ 64 - 1"
  shows "ev_id e < unat (of_nat (Max (ev_id ` set es)) + 1 :: 64 word)"
proof -
  have "Max (ev_id ` set es) \<in> ev_id ` set es" using assms(1) by (intro Max_in) auto
  then have m: "Max (ev_id ` set es) < 2 ^ 64 - 1" using assms(2) by auto
  have word: "(of_nat (Max (ev_id ` set es)) + 1 :: 64 word) = of_nat (Suc (Max (ev_id ` set es)))" by simp
  have "unat (of_nat (Max (ev_id ` set es)) + 1 :: 64 word) = Suc (Max (ev_id ` set es)) mod 2 ^ 64"
    unfolding word by (simp only: unat_of_nat len_bit0 len_num1) simp
  then have "unat (of_nat (Max (ev_id ` set es)) + 1 :: 64 word) = Suc (Max (ev_id ` set es))"
    using m by simp
  moreover have "ev_id e \<le> Max (ev_id ` set es)" using assms(1) by simp
  ultimately show ?thesis by simp
qed

text \<open>A request for an identifier that is only stored, by the caller it belongs to.\<close>

lemma get_restores:
  assumes room: "\<not> at_capacity rg" and dead: "map_of (rg_sessions rg) i = None"
    and stored: "map_of (rg_store rg) i = Some r" and i: "sr_id r = i" and live: "\<not> session_is_expired (wall c) r"
    and deadline: "wall c + int (sc_ttl (rg_config rg)) \<le> SYSTEM_TIME_MAX"
  shows "\<exists>rg' n. reg_get uuids c i (Resolved (sr_principal r)) rg = Some (rg', Some (length (rg_heap rg)))
    \<and> session_at (length (rg_heap rg)) rg' = with_counter n (restored_session c r rg)
    \<and> (let es = filter (\<lambda>e. 0 < ev_id e) (buffer_of (rg_events rg) i)
       in n = (if es = [] then 0 else of_nat (Max (ev_id ` set es)) + 1))"
proof -
  let ?a = "length (rg_heap rg)" and ?s = "restored_session c r rg"
  let ?rg1 = "rg\<lparr>rg_heap := rg_heap rg @ [?s], rg_sessions := AList.update i ?a (rg_sessions rg)\<rparr>"
  have ins: "restore_insert c r rg = (?rg1, RestoreInserted ?a)"
    using restore_insert_new [OF room, of r c] dead i by simp
  obtain r' where touch: "session_touch (wall c) (sc_ttl (rg_config rg)) r = Some r'"
    using deadline by (simp add: session_touch_def system_time_add_def)
  let ?es = "filter (\<lambda>e. 0 < ev_id e) (buffer_of (rg_events rg) i)"
  define n :: "64 word" where "n = (if ?es = [] then 0 else of_nat (Max (ev_id ` set ?es)) + 1)"
  have at1: "session_at ?a ?rg1 = ?s" by (simp add: session_at_def)
  have zero: "with_counter 0 ?s = ?s" by (simp add: with_counter_def restored_session_fields)
  have at: "session_at ?a (seed_counter i ?a ?rg1) = with_counter n ?s"
    using at1 zero by (simp add: seed_counter_eq Let_def session_at_update n_def)
  have cfg: "rg_config (seed_counter i ?a ?rg1) = rg_config rg"
    by (simp add: seed_counter_eq Let_def)
  obtain st where "refresh_stored c r (seed_counter i ?a ?rg1) = Some ((seed_counter i ?a ?rg1)\<lparr>rg_store := st\<rparr>)"
    using touch by (simp add: refresh_stored_def cfg)
  then have "restore_from_record c r rg = Some ((seed_counter i ?a ?rg1)\<lparr>rg_store := st\<rparr>, Some ?a)"
    by (simp add: restore_from_record_def ins i)
  moreover have "mem_load (wall c) i (rg_store rg) = (rg_store rg, Inr (Some r))"
    using stored live by (simp add: mem_load_def)
  ultimately have "reg_get uuids c i (Resolved (sr_principal r)) rg
      = Some ((seed_counter i ?a ?rg1)\<lparr>rg_store := st\<rparr>, Some ?a)"
    using dead by (simp add: reg_get_def get_live_def get_stored_def principal_matches_iff)
  then show ?thesis using at by (auto simp: n_def Let_def)
qed

text \<open>
  A session survives a restart.  Save a live session, start a new process on the same stores and
  ask for the identifier as the session's principal before the record expires: the session found has
  the identifier, principal, protocol version, client information and capabilities it was saved with,
  is past the handshake with no requests in flight, and numbers its events above everything still
  buffered, provided some buffered identifier is not 0 (and none is at the end of \<open>u64\<close>).
\<close>

theorem session_survives_restart:
  assumes reach: "registry_reach rg" and live: "map_of (rg_sessions rg) i = Some a"
    and saved: "save_record c a rg = Some rg1" and room: "sc_max_sessions cfg \<noteq> Some 0"
    and early: "map_of (rg_store rg1) i = Some r" "\<not> session_is_expired (wall c') r"
    and clk: "wall c' + int (sc_ttl cfg) \<le> SYSTEM_TIME_MAX"
  shows "\<exists>rg2 b. reg_get uuids c' i (Resolved (ls_principal (session_at a rg)))
        (registry_new cfg sampling (rg_store rg1) (rg_events rg1) router auto_reinit) = Some (rg2, Some b)
    \<and> (let s = session_at a rg; s' = session_at b rg2; es = buffer_of (rg_events rg) i in
         ls_id s' = i \<and> ls_principal s' = ls_principal s \<and> ls_protocol_version s' = ls_protocol_version s
       \<and> ls_client_info s' = ls_client_info s \<and> ls_client_capabilities s' = ls_client_capabilities s
       \<and> ls_initialized_received s' \<and> ls_pending s' = []
       \<and> (case ls_source s' of RouterSource st subs \<Rightarrow> is_initialized st \<and> subs = [] | BoxedSource \<Rightarrow> True)
       \<and> ((\<exists>e\<in>set es. ev_id e \<noteq> 0) \<longrightarrow> (\<forall>e\<in>set es. ev_id e < 2 ^ 64 - 1) \<longrightarrow>
            (\<forall>e\<in>set es. ev_id e < unat (ls_event_counter s'))))"
proof -
  let ?rg = "registry_new cfg sampling (rg_store rg1) (rg_events rg1) router auto_reinit"
  let ?s = "session_at a rg" and ?es = "filter (\<lambda>e. 0 < ev_id e) (buffer_of (rg_events rg) i)"
  have "ls_id ?s = i" using registry_reach_ok [OF reach] live by (simp add: registry_ok_def)
  then have r: "record_for c ?s rg = Some r" and ev: "rg_events rg1 = rg_events rg"
    using saved early(1) by (auto simp: save_record_def mem_save_def record_for_def session_record_new_def Let_def
        map_of_update_iff split: option.splits)
  have same: "sr_id r = i" "sr_principal r = ls_principal ?s" "sr_protocol_version r = ls_protocol_version ?s"
    "sr_client_info r = ls_client_info ?s" "sr_client_capabilities r = ls_client_capabilities ?s"
    using r \<open>ls_id ?s = i\<close> by (auto simp: record_for_def session_record_new_def Let_def split: option.splits)
  have "\<not> at_capacity ?rg" using room by (auto simp: at_capacity_def registry_new_def split: option.split)
  moreover have "map_of (rg_sessions ?rg) i = None" "rg_store ?rg = rg_store rg1" "rg_config ?rg = cfg"
    "rg_events ?rg = rg_events rg" by (simp_all add: registry_new_def ev)
  ultimately obtain rg2 n where get: "reg_get uuids c' i (Resolved (sr_principal r)) ?rg = Some (rg2, Some (length (rg_heap ?rg)))"
    and s': "session_at (length (rg_heap ?rg)) rg2 = with_counter n (restored_session c' r ?rg)"
    and n: "n = (if ?es = [] then 0 else of_nat (Max (ev_id ` set ?es)) + 1)"
    using get_restores [of ?rg i r c' uuids] early clk same(1) by (auto simp: Let_def)
  have above: "ev_id e < unat n" if nz: "\<exists>e\<in>set (buffer_of (rg_events rg) i). ev_id e \<noteq> 0"
    "\<forall>e\<in>set (buffer_of (rg_events rg) i). ev_id e < 2 ^ 64 - 1" "e \<in> set (buffer_of (rg_events rg) i)" for e
  proof -
    obtain e1 where e1: "e1 \<in> set ?es" using nz by auto
    have "?es \<noteq> []" "\<forall>e\<in>set ?es. ev_id e < 2 ^ 64 - 1" using e1 that(2) by (force simp: filter_empty_conv)+
    then have pos: "ev_id e' < unat n" if "e' \<in> set ?es" for e' using seeded_above [OF that] n by simp
    show ?thesis using pos [of e] pos [OF e1] that(3) by (cases "0 < ev_id e") auto
  qed
  have fields: "restored_from r (session_at (length (rg_heap ?rg)) rg2)"
    and cnt: "ls_event_counter (session_at (length (rg_heap ?rg)) rg2) = n"
    unfolding s' by (simp_all add: restored_session_fields)
  show ?thesis
    unfolding Let_def
    by (rule exI [of _ rg2], rule exI [of _ "length (rg_heap ?rg)"], intro conjI impI ballI)
      (use get fields same in \<open>simp_all add: restored_from_def cnt above\<close>)
qed

text \<open>A session with two buffered events, saved and restored.\<close>

definition demo_two_events :: registry where
  "demo_two_events =
     (let ev = (\<lambda>n. \<lparr>ev_id = n, ev_data = ''x'', ev_timestamp = 0\<rparr>)
      in demo_one\<lparr>rg_store := [],
           rg_events := \<lparr>me_inner = [(''s1'', [ev 0, ev 1])], me_max = 10\<rparr>\<rparr>)"

lemma demo_two_events_reach: "registry_reach demo_two_events"
  unfolding demo_two_events_def Let_def
  by (rule registry_reach.step [OF demo_one_reach registry_step.others]) (simp add: mem_ok_def)

definition demo_clock :: "nat \<Rightarrow> clock" where
  "demo_clock n = \<lparr>mono = n, wall = int n\<rparr>"

lemma session_survives_restart_witness:
  "\<exists>rg1 rg2 b. save_record (demo_clock 5) 0 demo_two_events = Some rg1
     \<and> reg_get (\<lambda>k. ''x'') (demo_clock 9) ''s1'' (Resolved (Some ''alice''))
         (registry_new session_config_default False (rg_store rg1) (rg_events rg1) True False) = Some (rg2, Some b)
     \<and> 1 < unat (ls_event_counter (session_at b rg2))"
proof -
  have at: "session_at 0 demo_two_events = demo_live"
    by (simp add: demo_two_events_def Let_def demo_one_eq session_at_def)
  have cfg: "sc_ttl (rg_config demo_two_events) = DEFAULT_SESSION_TTL" "rg_store demo_two_events = []"
    "buffer_of (rg_events demo_two_events) ''s1'' = [\<lparr>ev_id = 0, ev_data = ''x'', ev_timestamp = 0\<rparr>,
       \<lparr>ev_id = 1, ev_data = ''x'', ev_timestamp = 0\<rparr>]" "map_of (rg_sessions demo_two_events) ''s1'' = Some 0"
    by (simp_all add: demo_two_events_def Let_def demo_one_eq demo_registry_def registry_new_def
        session_config_default_def buffer_of_def)
  have live: "ls_id demo_live = ''s1''" "ls_created_at demo_live = 0" "ls_last_accessed demo_live = 0"
    "ls_principal demo_live = Some ''alice''"
    by (simp_all add: demo_live_def with_principal_def live_session_new_def)
  obtain r where r: "record_for (demo_clock 5) demo_live demo_two_events = Some r"
    and exp: "sr_expires_at r = int DEFAULT_SESSION_TTL" and i: "sr_id r = ''s1''"
    by (simp add: record_for_def session_record_new_def system_time_add_def system_time_sub_def live cfg Let_def
        demo_clock_def SYSTEM_TIME_MAX_def SYSTEM_TIME_MIN_def DEFAULT_SESSION_TTL_def)
  let ?rg1 = "demo_two_events\<lparr>rg_store := fst (mem_save r (rg_store demo_two_events))\<rparr>"
  have saved: "save_record (demo_clock 5) 0 demo_two_events = Some ?rg1"
    using r at by (simp add: save_record_def)
  have stored: "map_of (rg_store ?rg1) ''s1'' = Some r" "\<not> session_is_expired (wall (demo_clock 9)) r"
    using exp i by (simp_all add: map_of_update_iff mem_save_def session_is_expired_def demo_clock_def DEFAULT_SESSION_TTL_def)
  have clk: "wall (demo_clock 9) + int (sc_ttl session_config_default) \<le> SYSTEM_TIME_MAX"
    and room: "sc_max_sessions session_config_default \<noteq> Some 0"
    by (simp_all add: demo_clock_def session_config_default_def DEFAULT_SESSION_TTL_def SYSTEM_TIME_MAX_def)
  show ?thesis
    using session_survives_restart [OF demo_two_events_reach cfg(4) saved room stored clk,
        of "\<lambda>k. ''x''" False True False] saved live(4)
    by (fastforce simp: at cfg(3) Let_def)
qed

section \<open>Where restoring goes wrong\<close>

text \<open>
  C35: event 0 is lost on a restore.  Identifiers start at 0, and the counter is seeded from the events
  after 0.  A session of which only event 0 is buffered is restored with the counter at 0: its
  next event is numbered 0 again, and a client that has seen the first event 0 and reconnects with
  that identifier is never replayed the second.
\<close>

theorem restored_counter_repeats_zero:
  assumes ins: "restore_insert c r rg = (rg1, RestoreInserted a)"
    and zero: "\<forall>e\<in>set (buffer_of (rg_events rg) (sr_id r)). ev_id e = 0"
  shows "let rg2 = seed_counter (sr_id r) a rg1; n = snd (next_event_id (session_at a rg2));
             rg3 = buffer_event c' a n payload rg2
         in n = 0 \<and> snd (get_events_after a 0 rg3) = []"
proof -
  have new: "\<not> at_capacity rg" "map_of (rg_sessions rg) (sr_id r) = None"
    using ins by (auto simp: restore_insert_def split: if_splits option.splits prod.splits)
  then have rg1: "rg1 = rg\<lparr>rg_heap := rg_heap rg @ [restored_session c r rg],
        rg_sessions := AList.update (sr_id r) (length (rg_heap rg)) (rg_sessions rg)\<rparr>" "a = length (rg_heap rg)"
    using ins restore_insert_new [OF new, of c] by auto
  then have ev: "rg_events rg1 = rg_events rg" and at: "session_at a rg1 = restored_session c r rg"
    by (simp_all add: session_at_def)
  have none: "filter (\<lambda>e. 0 < ev_id e) (buffer_of (rg_events rg) (sr_id r)) = []"
    using zero by (auto simp: filter_empty_conv)
  then have seed: "seed_counter (sr_id r) a rg1 = rg1" by (simp add: seed_counter_eq ev)
  have ring: "filter (\<lambda>e. 0 < ev_id e) (ring_push cap \<lparr>ev_id = 0, ev_data = payload, ev_timestamp = t\<rparr> es) = []"
    if "filter (\<lambda>e. 0 < ev_id e) es = []" for cap t es
    using that by (cases es) (auto simp: ring_push_def split: if_splits)
  have id: "ls_id (session_at a rg1) = sr_id r" by (simp add: at restored_session_id)
  have "snd (get_events_after a 0 (buffer_event c' a 0 payload rg1)) = []"
    using ring [OF none] id
    by (simp add: get_events_after_def buffer_event_def mem_append_def mem_replay_after_def ev
        event_record_new_def map_of_update_iff)
  then show ?thesis
    unfolding Let_def seed using restored_session_fields(2) [of c r rg] by (simp add: next_event_id_def at)
qed

definition demo_alice :: session_record where
  "demo_alice = \<lparr>sr_id = ''s1'', sr_protocol_version = LATEST_PROTOCOL_VERSION, sr_client_info = None,
     sr_client_capabilities = None, sr_created_at = 0, sr_last_accessed = 0, sr_expires_at = 100,
     sr_principal = Some ''alice''\<rparr>"

text \<open>The event buffered first by a new session, as another instance left it.\<close>

definition demo_restart :: registry where
  "demo_restart = demo_registry\<lparr>rg_store := [(''s1'', demo_alice)],
     rg_events := rg_events (buffer_event (demo_clock 1) 0 (snd (next_event_id demo_live)) ''first'' demo_one)\<rparr>"

lemma demo_restart_insert:
  "restore_insert (demo_clock 5) demo_alice demo_restart =
     (demo_restart\<lparr>rg_heap := [restored_session (demo_clock 5) demo_alice demo_restart], rg_sessions := [(''s1'', 0)]\<rparr>,
      RestoreInserted 0)"
  using restore_insert_new [of demo_restart demo_alice "demo_clock 5"]
  by (simp add: demo_restart_def demo_registry_def registry_new_def at_capacity_def session_config_default_def
      demo_alice_def)

lemma restored_counter_repeats_zero_witness:
  "\<exists>rg1. restore_insert (demo_clock 5) demo_alice demo_restart = (rg1, RestoreInserted 0)
     \<and> map ev_data (buffer_of (rg_events demo_restart) ''s1'') = [''first'']
     \<and> snd (get_events_after 0 0 (buffer_event (demo_clock 6) 0
         (snd (next_event_id (session_at 0 (seed_counter ''s1'' 0 rg1)))) ''second'' (seed_counter ''s1'' 0 rg1))) = []"
proof -
  have buf: "buffer_of (rg_events demo_restart) ''s1'' = [\<lparr>ev_id = 0, ev_data = ''first'', ev_timestamp = 1\<rparr>]"
    by (simp add: demo_restart_def buffer_event_def mem_append_def buffer_of_def demo_one_eq session_at_def
        demo_live_def with_principal_def live_session_new_def demo_registry_def registry_new_def
        memory_event_store_new_def ring_push_def event_record_new_def next_event_id_def demo_clock_def)
  have i: "sr_id demo_alice = ''s1''" by (simp add: demo_alice_def)
  show ?thesis
    using restored_counter_repeats_zero [OF demo_restart_insert, of "demo_clock 6" "''second''"]
    unfolding i buf Let_def by (auto simp: demo_restart_insert)
qed

text \<open>
  C36: a restore can undo a DELETE.  Restoring releases the registry lock before it refreshes the
  stored record.  If the session is deleted in between, the deletion succeeds and leaves neither a
  live session nor a record, but the refresh then stores the record again, and the terminated session
  is served to the next request that names it.
\<close>

theorem restore_undoes_delete:
  assumes ins: "restore_insert c r rg = (rg1, RestoreInserted a)"
    and clk: "wall c2 + int (sc_ttl (rg_config rg)) \<le> SYSTEM_TIME_MAX"
    and later: "wall c3 < wall c2 + int (sc_ttl (rg_config rg))"
      "wall c3 + int (sc_ttl (rg_config rg)) \<le> SYSTEM_TIME_MAX"
  shows "\<exists>rg2 rg3. reg_remove_for c1 (sr_id r) (Resolved (sr_principal r)) rg1 = (rg2, True)
    \<and> map_of (rg_store rg2) (sr_id r) = None \<and> map_of (rg_sessions rg2) (sr_id r) = None
    \<and> refresh_stored c2 r (seed_counter (sr_id r) a rg2) = Some rg3
    \<and> (\<exists>rg4 b. reg_get uuids c3 (sr_id r) (Resolved (sr_principal r)) rg3 = Some (rg4, Some b))"
proof -
  let ?i = "sr_id r"
  have new: "\<not> at_capacity rg" "map_of (rg_sessions rg) ?i = None"
    using ins by (auto simp: restore_insert_def split: if_splits option.splits prod.splits)
  then have rg1: "rg1 = rg\<lparr>rg_heap := rg_heap rg @ [restored_session c r rg],
        rg_sessions := AList.update ?i (length (rg_heap rg)) (rg_sessions rg)\<rparr>" "a = length (rg_heap rg)"
    using ins restore_insert_new [OF new, of c] by auto
  have bound: "ls_principal (session_at a rg1) = sr_principal r"
    using restored_session_fields(1) [of r c rg] by (simp add: rg1 session_at_def restored_from_def)
  define rg2 where "rg2 = finish_removal ?i True (drop_live ?i rg1)"
  have del: "reg_remove_for c1 ?i (Resolved (sr_principal r)) rg1 = (rg2, True)"
    using bound by (simp add: reg_remove_for_def rg2_def rg1 map_of_update_iff principal_matches_iff)
  have gone: "map_of (rg_store rg2) ?i = None" "map_of (rg_sessions rg2) ?i = None" "buffer_of (rg_events rg2) ?i = []"
    "rg_config rg2 = rg_config rg"
    by (simp_all add: rg2_def finish_removal_effect map_of_delete_iff) (simp add: rg1)
  have seed: "seed_counter ?i a rg2 = rg2" by (simp add: seed_counter_eq gone)
  define r' where "r' = r\<lparr>sr_last_accessed := wall c2, sr_expires_at := wall c2 + int (sc_ttl (rg_config rg))\<rparr>"
  define rg3 where "rg3 = rg2\<lparr>rg_store := fst (mem_save r' (rg_store rg2))\<rparr>"
  have ref: "refresh_stored c2 r (seed_counter ?i a rg2) = Some rg3"
    using clk by (simp add: seed refresh_stored_def session_touch_def system_time_add_def gone rg3_def r'_def)
  have sess: "rg_sessions rg2 = AList.delete ?i (AList.update ?i (length (rg_heap rg)) (rg_sessions rg))"
    by (simp add: rg2_def finish_removal_def drop_live_def rg1)
  have "length (AList.delete ?i (AList.update ?i b xs)) \<le> length xs" for b and xs :: "(string \<times> nat) list"
    by (induction xs) (auto intro: le_SucI length_delete_le)
  then have "\<not> at_capacity rg3"
    using new(1) gone(4) sess by (fastforce simp: at_capacity_def rg3_def split: option.splits dest: le_trans)
  moreover have "map_of (rg_sessions rg3) ?i = None" "map_of (rg_store rg3) ?i = Some r'"
    "rg_config rg3 = rg_config rg" "sr_id r' = ?i" "sr_principal r' = sr_principal r" "\<not> session_is_expired (wall c3) r'"
    using gone later by (simp_all add: rg3_def mem_save_def map_of_update_iff r'_def session_is_expired_def)
  ultimately have "\<exists>rg4 b. reg_get uuids c3 ?i (Resolved (sr_principal r)) rg3 = Some (rg4, Some b)"
    using get_restores [of rg3 ?i r' c3 uuids] later(2) by auto
  then show ?thesis using del gone ref by blast
qed

lemma restore_undoes_delete_witness:
  "\<exists>rg1 rg2. restore_insert (demo_clock 5) demo_alice demo_restart = (rg1, RestoreInserted 0)
     \<and> reg_remove_for (demo_clock 6) ''s1'' (Resolved (Some ''alice'')) rg1 = (rg2, True)
     \<and> map_of (rg_store rg2) ''s1'' = None"
proof -
  have demo: "sr_id demo_alice = ''s1''" "sr_principal demo_alice = Some ''alice''"
    by (simp_all add: demo_alice_def)
  have "sc_ttl (rg_config demo_restart) = DEFAULT_SESSION_TTL"
    by (simp add: demo_restart_def demo_registry_def registry_new_def session_config_default_def)
  then have clk: "wall (demo_clock 7) + int (sc_ttl (rg_config demo_restart)) \<le> SYSTEM_TIME_MAX"
    "wall (demo_clock 8) < wall (demo_clock 7) + int (sc_ttl (rg_config demo_restart))"
    "wall (demo_clock 8) + int (sc_ttl (rg_config demo_restart)) \<le> SYSTEM_TIME_MAX"
    by (simp_all add: demo_clock_def DEFAULT_SESSION_TTL_def SYSTEM_TIME_MAX_def)
  show ?thesis
    using restore_undoes_delete [OF demo_restart_insert clk, of "demo_clock 6"] demo_restart_insert
    unfolding demo by blast
qed

end
