(* ===== verification/ResponseCache.thy ===== *)
theory ResponseCache
  imports Prelude "HOL-Library.Word"
begin

text \<open>
  The client's response cache (\<open>crates/tower-mcp/src/client/response_cache.rs\<close>): lookups and
  writes partitioned by authorization context, the generation slots that keep a response that was
  invalidated while in flight out of the cache, and the bound on resource entries.

  \<open>Instant\<close> and \<open>Duration\<close> are nanoseconds; the clock reading of an operation is an argument.
\<close>

section \<open>State\<close>

datatype cache_scope = ScopePublic | ScopePrivate

record client_cache_config =
  cc_enabled :: bool
  cc_default_ttl :: nat
  cc_max_ttl :: nat
  cc_max_resource_entries :: nat
  cc_serve_stale_on_error :: bool
  cc_partition :: string

definition DEFAULT_MAX_CACHE_TTL :: nat where
  "DEFAULT_MAX_CACHE_TTL = 24 * 60 * 60 * 1000000000"

definition cache_config_default :: client_cache_config where
  "cache_config_default = \<lparr>cc_enabled = True, cc_default_ttl = 0, cc_max_ttl = DEFAULT_MAX_CACHE_TTL,
     cc_max_resource_entries = 512, cc_serve_stale_on_error = False, cc_partition = ''''\<rparr>"

definition cache_config_disabled :: client_cache_config where
  "cache_config_disabled = cache_config_default\<lparr>cc_enabled := False\<rparr>"

datatype cache_partition = PublicPart | PrivatePart string

record cache_key =
  ck_method :: string
  ck_params :: string
  ck_partition :: cache_partition

record cache_entry =
  ce_value :: json
  ce_expires_at :: nat
  ce_scope :: cache_scope

datatype cache_lookup = Fresh json | Stale json | Miss

record logical_key =
  lk_method :: string
  lk_params :: "string option"

record generation_slot =
  gs_generation :: "64 word"
  gs_in_flight :: nat

record cache_state =
  cs_entries :: "(cache_key \<times> cache_entry) list"
  cs_resource_order :: "cache_key list"
  cs_generations :: "(logical_key \<times> generation_slot) list"
  cs_partition :: string

definition response_cache_new :: "client_cache_config \<Rightarrow> cache_state" where
  "response_cache_new cfg = \<lparr>cs_entries = [], cs_resource_order = [], cs_generations = [],
     cs_partition = cc_partition cfg\<rparr>"

section \<open>Generations\<close>

definition generation_key :: "string \<Rightarrow> string \<Rightarrow> logical_key" where
  "generation_key m p = \<lparr>lk_method = m, lk_params = (if m = ''resources/read'' then Some p else None)\<rparr>"

definition bump_slot :: "generation_slot \<Rightarrow> generation_slot" where
  "bump_slot s = s\<lparr>gs_generation := gs_generation s + 1\<rparr>"

definition bump_all :: "(logical_key \<times> generation_slot) list \<Rightarrow> (logical_key \<times> generation_slot) list" where
  "bump_all gs = map (\<lambda>kv. (fst kv, bump_slot (snd kv))) gs"

definition bump_key ::
  "logical_key \<Rightarrow> (logical_key \<times> generation_slot) list \<Rightarrow> (logical_key \<times> generation_slot) list" where
  "bump_key k gs = (case map_of gs k of None \<Rightarrow> gs | Some s \<Rightarrow> AList.update k (bump_slot s) gs)"

definition capture_generation :: "string \<Rightarrow> string \<Rightarrow> cache_state \<Rightarrow> cache_state \<times> 64 word" where
  "capture_generation m p st =
     (let k = generation_key m p;
          s = (case map_of (cs_generations st) k of
                 Some s \<Rightarrow> s | None \<Rightarrow> \<lparr>gs_generation = 0, gs_in_flight = 0\<rparr>);
          s' = s\<lparr>gs_in_flight := saturating_add (gs_in_flight s) 1\<rparr>
      in (st\<lparr>cs_generations := AList.update k s' (cs_generations st)\<rparr>, gs_generation s'))"

definition finish_generation ::
  "logical_key \<Rightarrow> 64 word option \<Rightarrow> cache_state \<Rightarrow> cache_state \<times> bool" where
  "finish_generation k captured st =
     (case map_of (cs_generations st) k of
        None \<Rightarrow> (st, False)
      | Some s \<Rightarrow>
          (let valid = (case captured of None \<Rightarrow> True | Some g \<Rightarrow> gs_generation s = g);
               s' = s\<lparr>gs_in_flight := gs_in_flight s - 1\<rparr>
           in (st\<lparr>cs_generations :=
                   (if gs_in_flight s' = 0 then AList.delete k (cs_generations st)
                    else AList.update k s' (cs_generations st))\<rparr>, valid)))"

definition release_generation :: "string \<Rightarrow> string \<Rightarrow> cache_state \<Rightarrow> cache_state" where
  "release_generation m p st = fst (finish_generation (generation_key m p) None st)"

section \<open>Lookups and writes\<close>

definition classify_entry :: "nat \<Rightarrow> cache_entry \<Rightarrow> cache_lookup" where
  "classify_entry now e = (if now < ce_expires_at e then Fresh (ce_value e) else Stale (ce_value e))"

definition lookup :: "client_cache_config \<Rightarrow> nat \<Rightarrow> string \<Rightarrow> string \<Rightarrow> cache_state \<Rightarrow> cache_lookup" where
  "lookup cfg now m p st =
     (if \<not> cc_enabled cfg then Miss
      else case map_of (cs_entries st)
             \<lparr>ck_method = m, ck_params = p, ck_partition = PrivatePart (cs_partition st)\<rparr> of
        Some e \<Rightarrow> classify_entry now e
      | None \<Rightarrow>
          (case map_of (cs_entries st) \<lparr>ck_method = m, ck_params = p, ck_partition = PublicPart\<rparr> of
             Some e \<Rightarrow> if ce_scope e = ScopePublic then classify_entry now e else Miss
           | None \<Rightarrow> Miss))"

definition retain_keys :: "(cache_key \<Rightarrow> bool) \<Rightarrow> cache_state \<Rightarrow> cache_state" where
  "retain_keys P st = st\<lparr>cs_entries := filter (\<lambda>kv. P (fst kv)) (cs_entries st),
     cs_resource_order := filter P (cs_resource_order st)\<rparr>"

definition remove_logical_entries :: "string \<Rightarrow> string \<Rightarrow> cache_state \<Rightarrow> cache_state" where
  "remove_logical_entries m p = retain_keys (\<lambda>k. ck_method k \<noteq> m \<or> ck_params k \<noteq> p)"

fun enforce_loop ::
  "nat \<Rightarrow> (cache_key \<times> cache_entry) list \<Rightarrow> cache_key list
   \<Rightarrow> (cache_key \<times> cache_entry) list \<times> cache_key list" where
  "enforce_loop n es [] = (es, [])"
| "enforce_loop n es (k # ks) =
     (if n < length (k # ks) then enforce_loop n (AList.delete k es) ks else (es, k # ks))"

definition enforce_resource_bound :: "nat \<Rightarrow> cache_state \<Rightarrow> cache_state" where
  "enforce_resource_bound n st =
     (if n = 0 then st
      else case enforce_loop n (cs_entries st) (cs_resource_order st) of
             (es, order) \<Rightarrow> st\<lparr>cs_entries := es, cs_resource_order := order\<rparr>)"

definition cache_ttl :: "client_cache_config \<Rightarrow> nat option \<Rightarrow> nat" where
  "cache_ttl cfg ttl_ms =
     min ((case ttl_ms of Some ms \<Rightarrow> ms
           | None \<Rightarrow> if cc_default_ttl cfg div 1000000 \<le> U64_MAX then cc_default_ttl cfg div 1000000 else U64_MAX)
          * 1000000) (cc_max_ttl cfg)"

definition insert_entry ::
  "client_cache_config \<Rightarrow> string \<Rightarrow> cache_key \<Rightarrow> cache_entry \<Rightarrow> cache_state \<Rightarrow> cache_state" where
  "insert_entry cfg m k e st =
     (let st1 = st\<lparr>cs_entries := AList.update k e (cs_entries st)\<rparr>
      in if m = ''resources/read'' then
           enforce_resource_bound (cc_max_resource_entries cfg)
             (st1\<lparr>cs_resource_order := filter (\<lambda>x. x \<noteq> k) (cs_resource_order st1) @ [k]\<rparr>)
         else st1)"

definition cache_write ::
  "client_cache_config \<Rightarrow> nat \<Rightarrow> string \<Rightarrow> string \<Rightarrow> 64 word \<Rightarrow> json \<Rightarrow> nat option \<Rightarrow> cache_scope option
   \<Rightarrow> cache_state \<Rightarrow> cache_state" where
  "cache_write cfg now m p captured v ttl_ms scope st =
     (if \<not> cc_enabled cfg then st
      else case finish_generation (generation_key m p) (Some captured) st of
        (st1, False) \<Rightarrow> st1
      | (st1, True) \<Rightarrow>
          (let st2 = remove_logical_entries m p st1; ttl = cache_ttl cfg ttl_ms in
           if ttl = 0 then st2
           else
             let sc = (case scope of Some s \<Rightarrow> s | None \<Rightarrow> ScopePrivate);
                 part = (case sc of ScopePublic \<Rightarrow> PublicPart | ScopePrivate \<Rightarrow> PrivatePart (cs_partition st2));
                 k = \<lparr>ck_method = m, ck_params = p, ck_partition = part\<rparr>
             in case instant_checked_add now ttl of
                  None \<Rightarrow> st2
                | Some deadline \<Rightarrow>
                    insert_entry cfg m k \<lparr>ce_value = v, ce_expires_at = deadline, ce_scope = sc\<rparr> st2))"

section \<open>Invalidation\<close>

definition set_partition :: "string \<Rightarrow> cache_state \<Rightarrow> cache_state" where
  "set_partition q st =
     (if cs_partition st = q then st
      else (retain_keys (\<lambda>k. ck_partition k = PublicPart)
              (st\<lparr>cs_generations := bump_all (cs_generations st)\<rparr>))\<lparr>cs_partition := q\<rparr>)"

definition clear :: "cache_state \<Rightarrow> cache_state" where
  "clear st = st\<lparr>cs_generations := bump_all (cs_generations st), cs_entries := [], cs_resource_order := []\<rparr>"

definition evict_method :: "string \<Rightarrow> cache_state \<Rightarrow> cache_state" where
  "evict_method m st =
     retain_keys (\<lambda>k. ck_method k \<noteq> m)
       (st\<lparr>cs_generations := bump_key (generation_key m '''') (cs_generations st)\<rparr>)"

definition evict_resource :: "string \<Rightarrow> cache_state \<Rightarrow> cache_state" where
  "evict_resource uri st =
     remove_logical_entries ''resources/read'' uri
       (st\<lparr>cs_generations := bump_key (generation_key ''resources/read'' uri) (cs_generations st)\<rparr>)"

section \<open>Requests in flight\<close>

text \<open>
  The client captures a generation before a request and finishes it once, by a write or a release.
  A token is such a request; \<open>tk_hits\<close> is a ghost count of the invalidations of its key since.
\<close>

record token =
  tk_method :: string
  tk_params :: string
  tk_gen :: "64 word"
  tk_hits :: nat

definition tk_key :: "token \<Rightarrow> logical_key" where
  "tk_key t = generation_key (tk_method t) (tk_params t)"

type_synonym cache_world = "cache_state \<times> token list"

definition hit :: "(logical_key \<Rightarrow> bool) \<Rightarrow> token list \<Rightarrow> token list" where
  "hit P ts = map (\<lambda>t. if P (tk_key t) then t\<lparr>tk_hits := Suc (tk_hits t)\<rparr> else t) ts"

inductive cache_reach :: "client_cache_config \<Rightarrow> cache_world \<Rightarrow> bool" for cfg where
  new: "cache_reach cfg (response_cache_new cfg, [])"
| capture: "cache_reach cfg (st, ts) \<Longrightarrow> length ts < USIZE_MAX \<Longrightarrow> capture_generation m p st = (st', g) \<Longrightarrow>
    cache_reach cfg (st', \<lparr>tk_method = m, tk_params = p, tk_gen = g, tk_hits = 0\<rparr> # ts)"
| respond: "cache_reach cfg (st, us @ t # vs) \<Longrightarrow> cc_enabled cfg \<Longrightarrow>
    cache_reach cfg (cache_write cfg now (tk_method t) (tk_params t) (tk_gen t) v ttl_ms scope st, us @ vs)"
| release: "cache_reach cfg (st, us @ t # vs) \<Longrightarrow>
    cache_reach cfg (release_generation (tk_method t) (tk_params t) st, us @ vs)"
| partition: "cache_reach cfg (st, ts) \<Longrightarrow>
    cache_reach cfg (set_partition q st, if cs_partition st = q then ts else hit (\<lambda>k. True) ts)"
| clear: "cache_reach cfg (st, ts) \<Longrightarrow> cache_reach cfg (clear st, hit (\<lambda>k. True) ts)"
| evict: "cache_reach cfg (st, ts) \<Longrightarrow>
    cache_reach cfg (evict_method m st, hit (\<lambda>k. k = generation_key m '''') ts)"
| evict_resource: "cache_reach cfg (st, ts) \<Longrightarrow>
    cache_reach cfg (evict_resource uri st, hit (\<lambda>k. k = generation_key ''resources/read'' uri) ts)"

definition key_count :: "logical_key \<Rightarrow> token list \<Rightarrow> nat" where
  "key_count k ts = length (filter (\<lambda>t. tk_key t = k) ts)"

definition slots_ok :: "cache_state \<Rightarrow> token list \<Rightarrow> bool" where
  "slots_ok st ts \<longleftrightarrow> length ts \<le> USIZE_MAX
   \<and> (\<forall>k s. map_of (cs_generations st) k = Some s \<longrightarrow> gs_in_flight s = key_count k ts)
   \<and> (\<forall>t\<in>set ts. \<exists>s. map_of (cs_generations st) (tk_key t) = Some s
         \<and> gs_generation s = tk_gen t + of_nat (tk_hits t))"

lemma key_count_simps [simp]:
  "key_count k [] = 0"
  "key_count k (t # ts) = (if tk_key t = k then 1 else 0) + key_count k ts"
  "key_count k (us @ vs) = key_count k us + key_count k vs"
  by (simp_all add: key_count_def)

lemma key_count_le: "key_count k ts \<le> length ts"
  by (simp add: key_count_def)

lemma key_count_zero: "key_count k ts = 0 \<longleftrightarrow> (\<forall>t\<in>set ts. tk_key t \<noteq> k)"
  by (auto simp: key_count_def filter_empty_conv)

lemma tk_key_hits [simp]: "tk_key (t\<lparr>tk_hits := n\<rparr>) = tk_key t"
  by (simp add: tk_key_def)

lemma key_count_hit [simp]: "key_count k (hit P ts) = key_count k ts"
  by (induction ts) (simp_all add: hit_def)

lemma length_hit [simp]: "length (hit P ts) = length ts"
  by (simp add: hit_def)

lemma retain_keys_generations [simp]: "cs_generations (retain_keys P st) = cs_generations st"
  by (simp add: retain_keys_def)

lemma remove_logical_generations [simp]: "cs_generations (remove_logical_entries m p st) = cs_generations st"
  by (simp add: remove_logical_entries_def)

lemma enforce_generations [simp]: "cs_generations (enforce_resource_bound n st) = cs_generations st"
  by (simp add: enforce_resource_bound_def split: prod.split)

lemma insert_entry_generations [simp]: "cs_generations (insert_entry cfg m k e st) = cs_generations st"
  by (simp add: insert_entry_def Let_def)

lemma write_generations:
  "cs_generations (cache_write cfg now m p g v ttl_ms scope st) =
     (if cc_enabled cfg then cs_generations (fst (finish_generation (generation_key m p) (Some g) st))
      else cs_generations st)"
  by (auto simp: cache_write_def Let_def split: prod.split bool.split option.split)

lemma finish_generation_state:
  "cs_generations (fst (finish_generation k c st)) = cs_generations (fst (finish_generation k None st))"
  by (simp add: finish_generation_def Let_def split: option.split)

lemma slots_okD:
  assumes "slots_ok st ts"
  shows "length ts \<le> USIZE_MAX"
    "map_of (cs_generations st) k = Some s \<Longrightarrow> gs_in_flight s = key_count k ts"
    "t \<in> set ts \<Longrightarrow> map_of (cs_generations st) (tk_key t) = Some s' \<Longrightarrow>
       gs_generation s' = tk_gen t + of_nat (tk_hits t)"
    "t \<in> set ts \<Longrightarrow> map_of (cs_generations st) (tk_key t) \<noteq> None"
  using assms by (force simp: slots_ok_def)+

lemma slots_okI:
  assumes "length ts \<le> USIZE_MAX"
    and "\<And>k s. map_of (cs_generations st) k = Some s \<Longrightarrow> gs_in_flight s = key_count k ts"
    and "\<And>t. t \<in> set ts \<Longrightarrow> \<exists>s. map_of (cs_generations st) (tk_key t) = Some s
       \<and> gs_generation s = tk_gen t + of_nat (tk_hits t)"
  shows "slots_ok st ts"
  using assms by (simp add: slots_ok_def)

lemma slots_ok_capture:
  assumes ok: "slots_ok st ts" and room: "length ts < USIZE_MAX" and run: "capture_generation m p st = (st', g)"
  shows "slots_ok st' (\<lparr>tk_method = m, tk_params = p, tk_gen = g, tk_hits = 0\<rparr> # ts)"
proof -
  let ?k = "generation_key m p"
  let ?t = "\<lparr>tk_method = m, tk_params = p, tk_gen = g, tk_hits = 0\<rparr>"
  have kt: "tk_key ?t = ?k" by (simp add: tk_key_def)
  define s where "s = (case map_of (cs_generations st) ?k of
      Some s \<Rightarrow> s | None \<Rightarrow> \<lparr>gs_generation = 0, gs_in_flight = 0\<rparr>)"
  have count: "gs_in_flight s = key_count ?k ts"
  proof (cases "map_of (cs_generations st) ?k")
    case None
    then have "\<forall>t\<in>set ts. tk_key t \<noteq> ?k" using slots_okD(4) [OF ok] by metis
    then show ?thesis using None by (simp add: s_def key_count_zero [symmetric])
  next
    case (Some s')
    then show ?thesis using slots_okD(2) [OF ok Some] by (simp add: s_def)
  qed
  have "key_count ?k ts < USIZE_MAX" using room key_count_le [of ?k ts] by simp
  then have sat: "saturating_add (gs_in_flight s) 1 = Suc (key_count ?k ts)"
    by (simp add: count saturating_add_def)
  have st': "cs_generations st' = AList.update ?k (s\<lparr>gs_in_flight := Suc (key_count ?k ts)\<rparr>) (cs_generations st)"
    and g: "g = gs_generation s"
    using run sat by (auto simp: capture_generation_def Let_def s_def)
  show ?thesis
  proof (rule slots_okI)
    show "length (?t # ts) \<le> USIZE_MAX" using room by simp
  next
    fix k u assume "map_of (cs_generations st') k = Some u"
    then show "gs_in_flight u = key_count k (?t # ts)"
      using slots_okD(2) [OF ok, of k u] kt by (auto simp: st' map_of_update_iff split: if_splits)
  next
    fix t assume t: "t \<in> set (?t # ts)"
    show "\<exists>s. map_of (cs_generations st') (tk_key t) = Some s \<and> gs_generation s = tk_gen t + of_nat (tk_hits t)"
    proof (cases "t = ?t")
      case True
      then show ?thesis using kt g by (simp add: st' map_of_update_iff)
    next
      case False
      then have t: "t \<in> set ts" using t by simp
      obtain s' where s': "map_of (cs_generations st) (tk_key t) = Some s'" using slots_okD(4) [OF ok t] by auto
      then show ?thesis
        using slots_okD(3) [OF ok t s'] by (auto simp: st' map_of_update_iff s_def)
    qed
  qed
qed

lemma slots_ok_finish:
  assumes ok: "slots_ok st (us @ t # vs)"
  shows "slots_ok (fst (finish_generation (tk_key t) c st)) (us @ vs)"
proof -
  let ?k = "tk_key t" and ?n = "key_count (tk_key t) (us @ vs)"
  obtain s where s: "map_of (cs_generations st) ?k = Some s" using slots_okD(4) [OF ok, of t] by auto
  then have n: "gs_in_flight s = Suc ?n" using slots_okD(2) [OF ok s] by simp
  let ?st' = "fst (finish_generation ?k c st)"
  have gens: "map_of (cs_generations ?st') j =
      (if j = ?k then (if ?n = 0 then None else Some (s\<lparr>gs_in_flight := ?n\<rparr>)) else map_of (cs_generations st) j)" for j
    by (simp add: finish_generation_def Let_def s n map_of_update_iff map_of_delete_iff)
  show ?thesis
  proof (rule slots_okI)
    show "length (us @ vs) \<le> USIZE_MAX" using slots_okD(1) [OF ok] by simp
  next
    fix k u assume "map_of (cs_generations ?st') k = Some u"
    then show "gs_in_flight u = key_count k (us @ vs)"
      using slots_okD(2) [OF ok, of k u] by (auto simp: gens split: if_splits)
  next
    fix u assume u: "u \<in> set (us @ vs)"
    then have u': "u \<in> set (us @ t # vs)" by auto
    obtain s' where s': "map_of (cs_generations st) (tk_key u) = Some s'" using slots_okD(4) [OF ok u'] by auto
    have g: "gs_generation s' = tk_gen u + of_nat (tk_hits u)" by (rule slots_okD(3) [OF ok u' s'])
    show "\<exists>s. map_of (cs_generations ?st') (tk_key u) = Some s \<and> gs_generation s = tk_gen u + of_nat (tk_hits u)"
    proof (cases "tk_key u = ?k")
      case True
      then have "?n \<noteq> 0" using u unfolding key_count_zero by blast
      then show ?thesis using True s s' g by (simp add: gens)
    next
      case False
      then show ?thesis using s' g by (simp add: gens)
    qed
  qed
qed

lemma slots_ok_bump:
  assumes ok: "slots_ok st ts"
    and gens: "\<And>k. map_of (cs_generations st') k =
      map_option (\<lambda>s. if P k then bump_slot s else s) (map_of (cs_generations st) k)"
  shows "slots_ok st' (hit P ts)"
  unfolding slots_ok_def
proof (intro conjI allI impI ballI)
  show "length (hit P ts) \<le> USIZE_MAX" using ok by (simp add: slots_ok_def)
next
  fix k s assume "map_of (cs_generations st') k = Some s"
  then obtain s0 where "map_of (cs_generations st) k = Some s0" "gs_in_flight s = gs_in_flight s0"
    by (auto simp: gens bump_slot_def)
  then show "gs_in_flight s = key_count k (hit P ts)" using ok by (simp add: slots_ok_def)
next
  fix t assume "t \<in> set (hit P ts)"
  then obtain u where u: "u \<in> set ts" "t = (if P (tk_key u) then u\<lparr>tk_hits := Suc (tk_hits u)\<rparr> else u)"
    by (auto simp: hit_def)
  obtain s where s: "map_of (cs_generations st) (tk_key u) = Some s"
    "gs_generation s = tk_gen u + of_nat (tk_hits u)"
    using ok u(1) by (auto simp: slots_ok_def)
  have "tk_key t = tk_key u" by (simp add: u(2))
  then show "\<exists>s. map_of (cs_generations st') (tk_key t) = Some s \<and> gs_generation s = tk_gen t + of_nat (tk_hits t)"
    using s by (simp add: gens u(2) bump_slot_def)
qed

lemma slots_ok_bump_all:
  "slots_ok st ts \<Longrightarrow> cs_generations st' = bump_all (cs_generations st) \<Longrightarrow> slots_ok st' (hit (\<lambda>k. True) ts)"
  by (rule slots_ok_bump) (simp_all add: bump_all_def map_of_map_snd)

lemma map_of_bump_key:
  "map_of (bump_key k gs) j = map_option (\<lambda>s. if j = k then bump_slot s else s) (map_of gs j)"
  by (cases "map_of gs j"; cases "map_of gs k") (auto simp: bump_key_def map_of_update_iff)

lemma slots_ok_bump_key:
  "slots_ok st ts \<Longrightarrow> cs_generations st' = bump_key k (cs_generations st) \<Longrightarrow> slots_ok st' (hit (\<lambda>j. j = k) ts)"
  by (rule slots_ok_bump) (simp_all add: map_of_bump_key)

lemma cache_reach_slots: "cache_reach cfg (st, ts) \<Longrightarrow> slots_ok st ts"
proof (induction "(st, ts)" arbitrary: st ts rule: cache_reach.induct)
  case new
  then show ?case by (simp add: slots_ok_def response_cache_new_def)
next
  case (capture st ts m p st' g)
  then show ?case using slots_ok_capture by blast
next
  case (respond st us t vs now v ttl_ms scope)
  have "slots_ok (fst (finish_generation (tk_key t) (Some (tk_gen t)) st)) (us @ vs)"
    by (rule slots_ok_finish) (use respond in simp)
  then show ?case using respond.hyps(3) by (simp add: slots_ok_def write_generations tk_key_def)
next
  case (release st us t vs)
  then show ?case using slots_ok_finish [of st us t vs None] by (simp add: release_generation_def tk_key_def)
next
  case (partition st ts q)
  then show ?case using slots_ok_bump_all [of st ts "set_partition q st"]
    by (auto simp: set_partition_def)
next
  case (clear st ts)
  then show ?case using slots_ok_bump_all [of st ts "clear st"] by (simp add: clear_def)
next
  case (evict st ts m)
  then show ?case using slots_ok_bump_key [of st ts "evict_method m st"] by (simp add: evict_method_def)
next
  case (evict_resource st ts uri)
  then show ?case
    using slots_ok_bump_key [of st ts "evict_resource uri st"] by (simp add: evict_resource_def)
qed

section \<open>The bound on resource entries\<close>

lemma enforce_loop_eq:
  "enforce_loop n es ks =
     (filter (\<lambda>kv. fst kv \<notin> set (take (length ks - n) ks)) es, drop (length ks - n) ks)"
proof (induction n es ks rule: enforce_loop.induct)
  case (1 n es)
  then show ?case by simp
next
  case (2 n es k ks)
  show ?case
  proof (cases "n < length (k # ks)")
    case True
    then have n: "length (k # ks) - n = Suc (length ks - n)" by (simp add: Suc_diff_le)
    have "filter (\<lambda>kv. fst kv \<notin> set (take (length ks - n) ks)) (AList.delete k es)
        = filter (\<lambda>kv. fst kv \<notin> set (take (length (k # ks) - n) (k # ks))) es"
      unfolding n AList.delete_eq filter_filter by (rule filter_cong [OF refl]) auto
    then show ?thesis using 2 [OF True] True n by simp
  next
    case False
    then show ?thesis by simp
  qed
qed

definition resource_keys :: "cache_state \<Rightarrow> cache_key set" where
  "resource_keys st = {k \<in> fst ` set (cs_entries st). ck_method k = ''resources/read''}"

definition entry_placed :: "string \<Rightarrow> cache_key \<times> cache_entry \<Rightarrow> bool" where
  "entry_placed part kv \<longleftrightarrow>
     (ck_partition (fst kv) = PublicPart \<and> ce_scope (snd kv) = ScopePublic)
   \<or> (ck_partition (fst kv) = PrivatePart part \<and> ce_scope (snd kv) = ScopePrivate)"

definition entries_ok :: "nat \<Rightarrow> cache_state \<Rightarrow> bool" where
  "entries_ok n st \<longleftrightarrow>
     distinct (map fst (cs_entries st)) \<and> distinct (cs_resource_order st)
   \<and> set (cs_resource_order st) = resource_keys st
   \<and> (n \<noteq> 0 \<longrightarrow> length (cs_resource_order st) \<le> n)
   \<and> (\<forall>kv\<in>set (cs_entries st). entry_placed (cs_partition st) kv)"

lemma entries_ok_generations:
  "entries_ok n (st\<lparr>cs_generations := gs\<rparr>) = entries_ok n st"
  by (simp add: entries_ok_def resource_keys_def)

lemma finish_generation_entries:
  "entries_ok n (fst (finish_generation k c st)) = entries_ok n st"
  "cs_entries (fst (finish_generation k c st)) = cs_entries st"
  "cs_resource_order (fst (finish_generation k c st)) = cs_resource_order st"
  "cs_partition (fst (finish_generation k c st)) = cs_partition st"
  by (simp_all add: finish_generation_def Let_def entries_ok_generations split: option.split)

lemma entries_ok_retain:
  assumes "entries_ok n st"
  shows "entries_ok n (retain_keys P st)"
proof -
  show ?thesis
    using assms distinct_keys_filter [of "cs_entries st" "\<lambda>kv. P (fst kv)"]
    by (auto simp: entries_ok_def retain_keys_def resource_keys_def
        intro: le_trans [OF length_filter_le])
qed

lemma entries_ok_insert:
  assumes ok: "entries_ok (cc_max_resource_entries cfg) st"
    and absent: "k \<notin> fst ` set (cs_entries st)" and m: "ck_method k = m"
    and place: "entry_placed (cs_partition st) (k, e)"
  shows "entries_ok (cc_max_resource_entries cfg) (insert_entry cfg m k e st)"
    and "map_of (cs_entries (insert_entry cfg m k e st)) k = Some e"
    and "j \<noteq> k \<Longrightarrow> map_of (cs_entries st) j = None \<Longrightarrow> map_of (cs_entries (insert_entry cfg m k e st)) j = None"
    and "cs_partition (insert_entry cfg m k e st) = cs_partition st"
proof -
  let ?n = "cc_max_resource_entries cfg" and ?es = "cs_entries st @ [(k, e)]"
  have es: "AList.update k e (cs_entries st) = ?es" by (rule alist_update_fresh [OF absent])
  have k: "k \<notin> set (cs_resource_order st)" using ok absent by (auto simp: entries_ok_def resource_keys_def)
  have mk: "map_of (cs_entries st) k = None" using absent by (simp add: map_of_eq_None_iff)
  have d: "distinct (map fst ?es)" using ok absent by (auto simp: entries_ok_def)
  show "cs_partition (insert_entry cfg m k e st) = cs_partition st"
    by (simp add: insert_entry_def Let_def enforce_resource_bound_def split: prod.split)
  have "entries_ok ?n (insert_entry cfg m k e st) \<and> map_of (cs_entries (insert_entry cfg m k e st)) k = Some e
    \<and> (j \<noteq> k \<longrightarrow> map_of (cs_entries st) j = None \<longrightarrow> map_of (cs_entries (insert_entry cfg m k e st)) j = None)"
  proof (cases "m = ''resources/read''")
    case False
    then show ?thesis
      using ok d place m mk
      by (auto simp: insert_entry_def Let_def es entries_ok_def resource_keys_def map_add_def)
  next
    case True
    let ?order = "cs_resource_order st @ [k]"
    have order: "filter (\<lambda>x. x \<noteq> k) (cs_resource_order st) @ [k] = ?order" using k by (auto simp: filter_id_conv)
    let ?st1 = "st\<lparr>cs_entries := ?es, cs_resource_order := ?order\<rparr>"
    have ins: "insert_entry cfg m k e st = enforce_resource_bound ?n ?st1"
      by (simp add: insert_entry_def Let_def True es order)
    have keys: "set ?order = resource_keys ?st1" "distinct ?order"
      using ok m True k by (auto simp: entries_ok_def resource_keys_def)
    show ?thesis
    proof (cases "?n = 0")
      case True
      then show ?thesis
        using ok keys d place mk ins
        by (auto simp: enforce_resource_bound_def entries_ok_def resource_keys_def map_add_def)
    next
      case False
      define c where "c = length ?order - ?n"
      have c: "c \<le> length (cs_resource_order st)" using False by (auto simp: c_def)
      define gone where "gone = set (take c ?order)"
      define left where "left = drop c ?order"
      define kept where "kept = filter (\<lambda>kv. fst kv \<notin> gone) ?es"
      have new: "k \<notin> gone" using c k by (auto simp: gone_def dest: in_set_takeD)
      let ?st2 = "enforce_resource_bound ?n ?st1"
      have st2: "?st2 = ?st1\<lparr>cs_entries := kept, cs_resource_order := left\<rparr>"
        using False by (simp add: enforce_resource_bound_def enforce_loop_eq c_def kept_def left_def gone_def)
      have "set ?order = gone \<union> set left" by (simp only: gone_def left_def set_append [symmetric] append_take_drop_id)
      moreover have "gone \<inter> set left = {}"
        using keys(2) unfolding gone_def left_def by (rule set_take_disj_set_drop_if_distinct) simp
      ultimately have "set left = set ?order - gone" by blast
      then have order2: "set left = resource_keys ?st2"
        using keys(1) by (auto simp: st2 resource_keys_def kept_def)
      have dl: "distinct left" using keys(2) by (simp add: left_def distinct_drop del: drop_append)
      have len: "length left \<le> ?n" by (simp add: left_def c_def del: drop_append)
      have dk: "distinct (map fst kept)" unfolding kept_def by (rule distinct_keys_filter [OF d])
      have pl: "\<forall>kv\<in>set kept. entry_placed (cs_partition st) kv"
        using ok place by (auto simp: entries_ok_def kept_def)
      have mo: "map_of kept i = (if i \<in> gone then None else map_of ?es i)" for i
        using map_of_filter_key [of "\<lambda>i. i \<notin> gone" ?es i] by (simp add: kept_def del: filter_append)
      have "entries_ok ?n ?st2"
        unfolding entries_ok_def order2 [symmetric] using dl len dk pl by (simp add: st2)
      moreover have "map_of (cs_entries ?st2) k = Some e" using new mk by (simp add: st2 mo map_add_def)
      moreover have "j \<noteq> k \<longrightarrow> map_of (cs_entries st) j = None \<longrightarrow> map_of (cs_entries ?st2) j = None"
        by (simp add: st2 mo)
      ultimately show ?thesis unfolding ins by blast
    qed
  qed
  then show "entries_ok ?n (insert_entry cfg m k e st)"
    and "map_of (cs_entries (insert_entry cfg m k e st)) k = Some e"
    and "j \<noteq> k \<Longrightarrow> map_of (cs_entries st) j = None \<Longrightarrow> map_of (cs_entries (insert_entry cfg m k e st)) j = None"
    by blast+
qed

section \<open>Reachable caches\<close>

text \<open>A write whose generation is current: what the cache holds then.\<close>

lemma absent_after_remove: "ck_method k = m \<Longrightarrow> ck_params k = p \<Longrightarrow>
    k \<notin> fst ` set (cs_entries (remove_logical_entries m p st))"
  by (auto simp: remove_logical_entries_def retain_keys_def)

lemma retain_partition [simp]: "cs_partition (retain_keys P st) = cs_partition st"
  by (simp add: retain_keys_def)

lemma remove_partition [simp]: "cs_partition (remove_logical_entries m p st) = cs_partition st"
  by (simp add: remove_logical_entries_def)

definition scope_key :: "string \<Rightarrow> string \<Rightarrow> cache_scope option \<Rightarrow> string \<Rightarrow> cache_key" where
  "scope_key m p scope part = \<lparr>ck_method = m, ck_params = p,
     ck_partition = (case scope of Some ScopePublic \<Rightarrow> PublicPart | _ \<Rightarrow> PrivatePart part)\<rparr>"

definition write_entry :: "json \<Rightarrow> nat \<Rightarrow> cache_scope option \<Rightarrow> cache_entry" where
  "write_entry v deadline scope = \<lparr>ce_value = v, ce_expires_at = deadline,
     ce_scope = (case scope of Some s \<Rightarrow> s | None \<Rightarrow> ScopePrivate)\<rparr>"

lemma cache_write_eq:
  "cache_write cfg now m p g v ttl_ms scope st =
     (if \<not> cc_enabled cfg then st
      else case finish_generation (generation_key m p) (Some g) st of
        (st1, False) \<Rightarrow> st1
      | (st1, True) \<Rightarrow>
          (let st2 = remove_logical_entries m p st1; ttl = cache_ttl cfg ttl_ms in
           if ttl = 0 then st2
           else case instant_checked_add now ttl of
                  None \<Rightarrow> st2
                | Some deadline \<Rightarrow>
                    insert_entry cfg m (scope_key m p scope (cs_partition st2)) (write_entry v deadline scope) st2))"
  by (auto simp: cache_write_def Let_def scope_key_def write_entry_def
      split: prod.split bool.split option.split cache_scope.split)

lemma scope_placed: "entry_placed part (scope_key m p scope part, write_entry v d scope)"
  by (auto simp: entry_placed_def scope_key_def write_entry_def split: option.split cache_scope.split)

lemma entries_ok_write:
  assumes "entries_ok (cc_max_resource_entries cfg) st"
  shows "entries_ok (cc_max_resource_entries cfg) (cache_write cfg now m p g v ttl_ms scope st)"
proof -
  let ?st1 = "fst (finish_generation (generation_key m p) (Some g) st)"
  let ?st2 = "remove_logical_entries m p ?st1"
  have 1: "entries_ok (cc_max_resource_entries cfg) ?st1" using assms by (simp add: finish_generation_entries)
  have 2: "entries_ok (cc_max_resource_entries cfg) ?st2"
    unfolding remove_logical_entries_def by (rule entries_ok_retain [OF 1])
  have 3: "entries_ok (cc_max_resource_entries cfg)
      (insert_entry cfg m (scope_key m p scope (cs_partition ?st2)) (write_entry v d scope) ?st2)" for d
    by (rule entries_ok_insert(1) [OF 2])
      (rule absent_after_remove, simp_all add: scope_key_def scope_placed [unfolded scope_key_def])
  obtain st1 valid where run: "finish_generation (generation_key m p) (Some g) st = (st1, valid)"
    by (cases "finish_generation (generation_key m p) (Some g) st")
  show ?thesis
    using 1 2 3 assms by (auto simp: cache_write_eq run Let_def split: option.split bool.split)
qed

lemma entries_ok_partition:
  assumes "entries_ok n st"
  shows "entries_ok n (set_partition q st)"
proof (cases "cs_partition st = q")
  case True
  then show ?thesis using assms by (simp add: set_partition_def)
next
  case False
  let ?st = "retain_keys (\<lambda>k. ck_partition k = PublicPart) (st\<lparr>cs_generations := bump_all (cs_generations st)\<rparr>)"
  have "entries_ok n ?st" by (rule entries_ok_retain) (use assms in \<open>simp add: entries_ok_generations\<close>)
  moreover have "entry_placed q kv" if "kv \<in> set (cs_entries ?st)" for kv
    using that assms by (auto simp: retain_keys_def entries_ok_def entry_placed_def)
  ultimately show ?thesis
    using False by (simp add: set_partition_def entries_ok_def resource_keys_def)
qed

lemma cache_reach_entries: "cache_reach cfg (st, ts) \<Longrightarrow> entries_ok (cc_max_resource_entries cfg) st"
proof (induction "(st, ts)" arbitrary: st ts rule: cache_reach.induct)
  case new
  then show ?case by (simp add: entries_ok_def response_cache_new_def resource_keys_def)
next
  case (capture st ts m p st' g)
  then show ?case by (auto simp: capture_generation_def Let_def entries_ok_generations)
next
  case (respond st us t vs now v ttl_ms scope)
  then show ?case by (simp add: entries_ok_write)
next
  case (release st us t vs)
  then show ?case by (simp add: release_generation_def finish_generation_entries)
next
  case (partition st ts q)
  then show ?case by (simp add: entries_ok_partition)
next
  case (clear st ts)
  then show ?case by (simp add: clear_def entries_ok_def resource_keys_def)
next
  case (evict st ts m)
  then show ?case unfolding evict_method_def by (intro entries_ok_retain) (simp add: entries_ok_generations)
next
  case (evict_resource st ts uri)
  then show ?case
    unfolding evict_resource_def remove_logical_entries_def
    by (intro entries_ok_retain) (simp add: entries_ok_generations)
qed

lemma finish_token:
  assumes "cache_reach cfg (st, us @ t # vs)"
  shows "snd (finish_generation (tk_key t) (Some (tk_gen t)) st) \<longleftrightarrow> (of_nat (tk_hits t) :: 64 word) = 0"
proof -
  note ok = cache_reach_slots [OF assms]
  obtain s where s: "map_of (cs_generations st) (tk_key t) = Some s" using slots_okD(4) [OF ok, of t] by auto
  then have "gs_generation s = tk_gen t + of_nat (tk_hits t)" using slots_okD(3) [OF ok _ s] by simp
  then show ?thesis using s by (simp add: finish_generation_def Let_def)
qed

lemma hits_zero: "n < 2 ^ 64 \<Longrightarrow> (of_nat n :: 64 word) = 0 \<longleftrightarrow> n = 0"
  by (simp add: word_of_nat_eq_0_iff dvd_def) auto

lemma lookup_after_insert:
  assumes ok: "entries_ok (cc_max_resource_entries cfg) st" and en: "cc_enabled cfg"
    and gone: "\<And>part. \<lparr>ck_method = m, ck_params = p, ck_partition = part\<rparr> \<notin> fst ` set (cs_entries st)"
  shows "lookup cfg now m p (insert_entry cfg m (scope_key m p scope (cs_partition st)) (write_entry v d scope) st)
    = (if now < d then Fresh v else Stale v)"
proof -
  let ?k = "scope_key m p scope (cs_partition st)" and ?e = "write_entry v d scope"
  let ?st = "insert_entry cfg m ?k ?e st"
  have a: "?k \<notin> fst ` set (cs_entries st)" using gone by (simp add: scope_key_def)
  have mk: "ck_method ?k = m" by (simp add: scope_key_def)
  note i = entries_ok_insert [OF ok a mk scope_placed [of "cs_partition st" m p scope v d]]
  have none: "map_of (cs_entries st) \<lparr>ck_method = m, ck_params = p, ck_partition = part\<rparr> = None" for part
    using gone by (simp add: map_of_eq_None_iff)
  have cls: "classify_entry now ?e = (if now < d then Fresh v else Stale v)"
    by (simp add: classify_entry_def write_entry_def)
  show ?thesis
  proof (cases "scope = Some ScopePublic")
    case True
    then have k: "?k = \<lparr>ck_method = m, ck_params = p, ck_partition = PublicPart\<rparr>" by (simp add: scope_key_def)
    have "map_of (cs_entries ?st) \<lparr>ck_method = m, ck_params = p, ck_partition = PrivatePart (cs_partition st)\<rparr> = None"
      by (rule i(3)) (simp_all add: k none)
    then show ?thesis
      using i(2,4) True k cls by (simp add: lookup_def en write_entry_def)
  next
    case False
    then have "?k = \<lparr>ck_method = m, ck_params = p, ck_partition = PrivatePart (cs_partition st)\<rparr>"
      by (auto simp: scope_key_def split: option.split cache_scope.split)
    then show ?thesis using i(2,4) cls by (simp add: lookup_def en)
  qed
qed

text \<open>
  C21: a response that was invalidated while in flight never enters the cache.  For a request that
  captured its generation and whose key has since been hit by \<open>n\<close> invalidations (evictions,
  clears and partition changes, with fewer than \<open>2 ^ 64\<close> of them): if there was one, the write
  leaves the entries as they were; if there was none, the value is stored and every lookup until the
  capped time to live is over finds it fresh, whatever the bound on resource entries evicts.
\<close>

theorem invalidated_write_dropped:
  assumes reach: "cache_reach cfg (st, us @ t # vs)" and en: "cc_enabled cfg" and few: "tk_hits t < 2 ^ 64"
  shows "let st' = cache_write cfg now (tk_method t) (tk_params t) (tk_gen t) v ttl_ms scope st in
    if tk_hits t \<noteq> 0 then cs_entries st' = cs_entries st \<and> cs_resource_order st' = cs_resource_order st
    else now + cache_ttl cfg ttl_ms \<le> INSTANT_MAX \<longrightarrow>
      (\<forall>later. later < now + cache_ttl cfg ttl_ms \<longrightarrow> cache_ttl cfg ttl_ms \<noteq> 0 \<longrightarrow>
         lookup cfg later (tk_method t) (tk_params t) st' = Fresh v)"
proof -
  let ?fin = "finish_generation (generation_key (tk_method t) (tk_params t)) (Some (tk_gen t)) st"
  obtain st1 valid where fin: "?fin = (st1, valid)" by (cases ?fin)
  have valid: "valid \<longleftrightarrow> tk_hits t = 0"
    using finish_token [OF reach] hits_zero [OF few] fin by (simp add: tk_key_def)
  have st1: "cs_entries st1 = cs_entries st" "cs_resource_order st1 = cs_resource_order st"
    "entries_ok (cc_max_resource_entries cfg) st1"
    using finish_generation_entries [where c = "Some (tk_gen t)" and st = st and
        k = "generation_key (tk_method t) (tk_params t)"] fin cache_reach_entries [OF reach] by auto
  show ?thesis
  proof (cases "tk_hits t = 0")
    case False
    then show ?thesis using valid fin st1 by (simp add: Let_def cache_write_eq en)
  next
    case True
    let ?st2 = "remove_logical_entries (tk_method t) (tk_params t) st1"
    have ok2: "entries_ok (cc_max_resource_entries cfg) ?st2"
      unfolding remove_logical_entries_def by (rule entries_ok_retain [OF st1(3)])
    have gone: "\<lparr>ck_method = tk_method t, ck_params = tk_params t, ck_partition = part\<rparr> \<notin> fst ` set (cs_entries ?st2)" for part
      by (rule absent_after_remove) simp_all
    show ?thesis
      using True valid fin lookup_after_insert [OF ok2 en gone]
      by (simp add: Let_def cache_write_eq en instant_checked_add_def)
  qed
qed

definition demo_cfg :: client_cache_config where
  "demo_cfg = cache_config_default\<lparr>cc_max_resource_entries := 1\<rparr>"

definition demo_capture :: cache_state where
  "demo_capture = fst (capture_generation ''tools/list'' '''' (response_cache_new demo_cfg))"

lemma demo_capture_reach:
  "cache_reach demo_cfg (demo_capture, [\<lparr>tk_method = ''tools/list'', tk_params = '''', tk_gen = 0, tk_hits = 0\<rparr>])"
  by (rule cache_reach.capture [OF cache_reach.new])
    (simp_all add: demo_capture_def capture_generation_def Let_def response_cache_new_def USIZE_MAX_def)

lemma invalidated_write_dropped_witness:
  "cs_entries (cache_write demo_cfg 0 ''tools/list'' '''' 0 (JBool True) (Some 5) None
      (evict_method ''tools/list'' demo_capture)) = cs_entries (evict_method ''tools/list'' demo_capture)
   \<and> lookup demo_cfg 4 ''tools/list'' '''' (cache_write demo_cfg 0 ''tools/list'' '''' 0 (JBool True) (Some 5) None demo_capture)
     = Fresh (JBool True)"
proof -
  let ?t = "\<lparr>tk_method = ''tools/list'', tk_params = '''', tk_gen = 0, tk_hits = 0\<rparr>"
  have hit: "hit (\<lambda>k. k = generation_key ''tools/list'' '''') [?t] = [] @ [?t\<lparr>tk_hits := 1\<rparr>]"
    by (simp add: hit_def tk_key_def)
  have r: "cache_reach demo_cfg (evict_method ''tools/list'' demo_capture, [] @ [?t\<lparr>tk_hits := 1\<rparr>])"
    using cache_reach.evict [OF demo_capture_reach, of "''tools/list''"] unfolding hit .
  have en: "cc_enabled demo_cfg" by (simp add: demo_cfg_def cache_config_default_def)
  have ttl: "cache_ttl demo_cfg (Some 5) = 5000000"
    by (simp add: cache_ttl_def demo_cfg_def cache_config_default_def DEFAULT_MAX_CACHE_TTL_def)
  show ?thesis
    using invalidated_write_dropped [OF r en, of 0 "JBool True" "Some 5" None]
      invalidated_write_dropped [of demo_cfg demo_capture "[]" ?t "[]" 0 "JBool True" "Some 5" None] demo_capture_reach en ttl
    by (simp add: Let_def INSTANT_MAX_def)
qed

text \<open>
  Private entries never cross authorization contexts, and the resource entries are bounded.
  In every reachable cache each entry is public or belongs to the current partition; after a change
  of partition a lookup can hit only what was public; and with a non-zero bound there are at most
  that many \<open>resources/read\<close> entries.
\<close>

theorem cache_partition_isolation:
  assumes "cache_reach cfg (st, ts)"
  shows "(\<forall>(k, e)\<in>set (cs_entries st).
       ck_partition k = PublicPart \<and> ce_scope e = ScopePublic
     \<or> ck_partition k = PrivatePart (cs_partition st) \<and> ce_scope e = ScopePrivate)
    \<and> (q \<noteq> cs_partition st \<longrightarrow> lookup cfg now m p (set_partition q st) \<noteq> Miss \<longrightarrow>
        (\<exists>e. map_of (cs_entries st) \<lparr>ck_method = m, ck_params = p, ck_partition = PublicPart\<rparr> = Some e
           \<and> ce_scope e = ScopePublic \<and> lookup cfg now m p (set_partition q st) = classify_entry now e))
    \<and> (cc_max_resource_entries cfg \<noteq> 0 \<longrightarrow>
        card {k \<in> fst ` set (cs_entries st). ck_method k = ''resources/read''} \<le> cc_max_resource_entries cfg)"
proof -
  note ok = cache_reach_entries [OF assms]
  have placed: "\<forall>(k, e)\<in>set (cs_entries st).
       ck_partition k = PublicPart \<and> ce_scope e = ScopePublic
     \<or> ck_partition k = PrivatePart (cs_partition st) \<and> ce_scope e = ScopePrivate"
    using ok by (auto simp: entries_ok_def entry_placed_def)
  have kept: "map_of (filter (\<lambda>kv. ck_partition (fst kv) = PublicPart) (cs_entries st)) k =
      (if ck_partition k = PublicPart then map_of (cs_entries st) k else None)" for k
    by (rule map_of_filter_key)
  have hit: "\<exists>e. map_of (cs_entries st) \<lparr>ck_method = m, ck_params = p, ck_partition = PublicPart\<rparr> = Some e
      \<and> ce_scope e = ScopePublic \<and> lookup cfg now m p (set_partition q st) = classify_entry now e"
    if "q \<noteq> cs_partition st" "lookup cfg now m p (set_partition q st) \<noteq> Miss"
  proof -
    let ?k = "\<lparr>ck_method = m, ck_params = p, ck_partition = PublicPart\<rparr>"
    have "lookup cfg now m p (set_partition q st) =
        (if \<not> cc_enabled cfg then Miss
         else case map_of (cs_entries st) ?k of
           Some e \<Rightarrow> if ce_scope e = ScopePublic then classify_entry now e else Miss
         | None \<Rightarrow> Miss)"
      using that(1) by (simp add: lookup_def set_partition_def retain_keys_def kept)
    then show ?thesis using that(2) by (cases "map_of (cs_entries st) ?k") (simp_all split: if_splits)
  qed
  have "distinct (cs_resource_order st)" "set (cs_resource_order st) = resource_keys st"
    using ok by (simp_all add: entries_ok_def)
  then have "card (resource_keys st) = length (cs_resource_order st)" using distinct_card by metis
  then have "cc_max_resource_entries cfg \<noteq> 0 \<longrightarrow>
      card {k \<in> fst ` set (cs_entries st). ck_method k = ''resources/read''} \<le> cc_max_resource_entries cfg"
    using ok by (simp add: entries_ok_def resource_keys_def)
  then show ?thesis using placed hit by blast
qed

lemma cache_partition_isolation_witness:
  "card {k \<in> fst ` set (cs_entries demo_capture). ck_method k = ''resources/read''} \<le> 1"
  using cache_partition_isolation [OF demo_capture_reach] by (auto simp: demo_cfg_def)

end
