(* ===== verification/TraceContext.thy ===== *)
theory TraceContext
  imports Framing "HOL-Library.Code_Target_Nat"
begin

text \<open>
  W3C trace context in request metadata: \<open>crates/tower-mcp/src/trace_context.rs\<close>, the parser of
  \<open>traceparent\<close> and \<open>tracestate\<close> and the formatting that sends a context on.
\<close>

section \<open>Parsing\<close>

definition TRACEPARENT_LEN :: nat where "TRACEPARENT_LEN = 55"
definition MAX_TRACESTATE_LEN :: nat where "MAX_TRACESTATE_LEN = 512"
definition MAX_TRACESTATE_MEMBERS :: nat where "MAX_TRACESTATE_MEMBERS = 32"

record trace_context =
  tc_version :: "8 word"
  tc_trace_id :: string
  tc_parent_id :: string
  tc_trace_flags :: "8 word"
  tc_tracestate :: "string option"

definition is_ascii :: "string \<Rightarrow> bool" where
  "is_ascii s \<longleftrightarrow> (\<forall>c\<in>set s. (of_char c :: nat) < 128)"

definition lower_hex_char :: "char \<Rightarrow> bool" where
  "lower_hex_char c \<longleftrightarrow> (48 \<le> (of_char c :: nat) \<and> (of_char c :: nat) \<le> 57)
     \<or> (97 \<le> (of_char c :: nat) \<and> (of_char c :: nat) \<le> 102)"

definition is_lower_hex :: "string \<Rightarrow> bool" where
  "is_lower_hex s \<longleftrightarrow> (\<forall>c\<in>set s. lower_hex_char c)"

definition is_all_zero :: "string \<Rightarrow> bool" where
  "is_all_zero s \<longleftrightarrow> (\<forall>c\<in>set s. c = CHR ''0'')"

text \<open>\<open>u8::from_str_radix(s, 16)\<close>: an optional sign, digits of either case, no overflow.\<close>

definition hex_value :: "char \<Rightarrow> nat option" where
  "hex_value c =
     (let n = (of_char c :: nat)
      in if 48 \<le> n \<and> n \<le> 57 then Some (n - 48)
         else if 97 \<le> n \<and> n \<le> 102 then Some (n - 87)
         else if 65 \<le> n \<and> n \<le> 70 then Some (n - 55)
         else None)"

fun hex_digits :: "nat \<Rightarrow> string \<Rightarrow> nat option" where
  "hex_digits acc [] = Some acc"
| "hex_digits acc (c # cs) =
     (case hex_value c of None \<Rightarrow> None
      | Some d \<Rightarrow> if 16 * acc + d < 256 then hex_digits (16 * acc + d) cs else None)"

definition u8_from_hex :: "string \<Rightarrow> 8 word option" where
  "u8_from_hex s =
     (case s of
        [] \<Rightarrow> None
      | c # cs \<Rightarrow> map_option of_nat (hex_digits 0 (if c = CHR ''+'' \<and> cs \<noteq> [] then cs else s)))"

text \<open>\<open>value.get(a..b)\<close> on an ASCII string.\<close>

definition slice :: "nat \<Rightarrow> nat \<Rightarrow> string \<Rightarrow> string" where
  "slice a b s = take (b - a) (drop a s)"

definition parse_traceparent :: "string \<Rightarrow> (8 word \<times> string \<times> string \<times> 8 word) option" where
  "parse_traceparent v =
     (if \<not> is_ascii v \<or> length v < TRACEPARENT_LEN then None
      else if v ! 2 \<noteq> CHR ''-'' \<or> v ! 35 \<noteq> CHR ''-'' \<or> v ! 52 \<noteq> CHR ''-'' then None
      else
        let version = slice 0 2 v; trace_id = slice 3 35 v; parent_id = slice 36 52 v; flags = slice 53 55 v
        in if \<not> is_lower_hex version \<or> \<not> is_lower_hex trace_id \<or> \<not> is_lower_hex parent_id
              \<or> \<not> is_lower_hex flags then None
           else if is_all_zero trace_id \<or> is_all_zero parent_id then None
           else case u8_from_hex version of
             None \<Rightarrow> None
           | Some ver \<Rightarrow>
               if ver = 255 then None
               else if ver = 0 \<and> length v \<noteq> TRACEPARENT_LEN then None
               else if length v > TRACEPARENT_LEN \<and> v ! TRACEPARENT_LEN \<noteq> CHR ''-'' then None
               else map_option (\<lambda>fl. (ver, trace_id, parent_id, fl)) (u8_from_hex flags))"

definition valid_tracestate :: "string \<Rightarrow> string option" where
  "valid_tracestate v =
     (if MAX_TRACESTATE_LEN < length (utf8_points (map of_char v)) then None
      else
        let members = length (filter (\<lambda>member. \<not> blank member) (split_on (CHR '','') v))
        in if members = 0 \<or> MAX_TRACESTATE_MEMBERS < members then None else Some v)"

definition trace_parse :: "string \<Rightarrow> string option \<Rightarrow> trace_context option" where
  "trace_parse traceparent tracestate =
     map_option (\<lambda>(version, trace_id, parent_id, flags).
       \<lparr>tc_version = version, tc_trace_id = trace_id, tc_parent_id = parent_id, tc_trace_flags = flags,
        tc_tracestate = Option.bind tracestate valid_tracestate\<rparr>) (parse_traceparent traceparent)"

definition trace_from_meta :: "json \<Rightarrow> trace_context option" where
  "trace_from_meta meta =
     (if \<not> json_is_object meta then None
      else case json_get meta ''traceparent'' of
        None \<Rightarrow> None
      | Some tp \<Rightarrow>
          (case json_as_str tp of
             None \<Rightarrow> None
           | Some s \<Rightarrow> trace_parse s (Option.bind (json_get meta ''tracestate'') json_as_str)))"

section \<open>Formatting\<close>

definition hex_char :: "nat \<Rightarrow> char" where
  "hex_char d = ''0123456789abcdef'' ! d"

text \<open>\<open>format!("{:02x}", b)\<close>.\<close>

definition hex2 :: "8 word \<Rightarrow> string" where
  "hex2 b = [hex_char (unat b div 16), hex_char (unat b mod 16)]"

definition sampled :: "trace_context \<Rightarrow> bool" where
  "sampled c \<longleftrightarrow> and (tc_trace_flags c) 1 \<noteq> 0"

definition trace_traceparent :: "trace_context \<Rightarrow> string" where
  "trace_traceparent c =
     hex2 (tc_version c) @ ''-'' @ tc_trace_id c @ ''-'' @ tc_parent_id c @ ''-'' @ hex2 (tc_trace_flags c)"

definition trace_entries :: "trace_context \<Rightarrow> (string \<times> string) list" where
  "trace_entries c =
     (''traceparent'', trace_traceparent c)
       # (case tc_tracestate c of None \<Rightarrow> [] | Some s \<Rightarrow> [(''tracestate'', s)])"

section \<open>Lemmas\<close>

lemma lower_hex_chars: "lower_hex_char c \<Longrightarrow> c \<in> set ''0123456789abcdef''"
proof -
  let ?ns = "{48, 49, 50, 51, 52, 53, 54, 55, 56, 57, 97, 98, 99, 100, 101, 102} :: nat set"
  assume "lower_hex_char c"
  then have "(of_char c :: nat) \<in> ?ns"
    unfolding lower_hex_char_def insert_iff empty_iff by presburger
  then have "c \<in> char_of ` ?ns" by (metis char_of_char image_eqI)
  also have "char_of ` ?ns = set ''0123456789abcdef''" by code_simp
  finally show ?thesis .
qed

lemma hex_value_lower: "lower_hex_char c \<Longrightarrow> \<exists>d<16. hex_value c = Some d \<and> hex_char d = c"
  by (drule lower_hex_chars) (auto simp: hex_value_def hex_char_def)

lemma lower_hex_ascii: "lower_hex_char c \<Longrightarrow> (of_char c :: nat) < 128 \<and> c \<noteq> CHR ''+''"
  by (auto simp: lower_hex_char_def)

lemma u8_from_hex_pair:
  assumes "is_lower_hex s" and "length s = 2"
  shows "\<exists>b. u8_from_hex s = Some b \<and> hex2 b = s"
proof -
  obtain a b where s: "s = [a, b]" using assms(2) by (auto simp: length_Suc_conv numeral_2_eq_2)
  obtain x where x: "x < 16" "hex_value a = Some x" "hex_char x = a"
    using assms(1) hex_value_lower [of a] by (auto simp: s is_lower_hex_def)
  obtain y where y: "y < 16" "hex_value b = Some y" "hex_char y = b"
    using assms(1) hex_value_lower [of b] by (auto simp: s is_lower_hex_def)
  have "a \<noteq> CHR ''+''" using assms(1) lower_hex_ascii [of a] by (simp add: s is_lower_hex_def)
  moreover have "16 * x + y < 256" using x(1) y(1) by simp
  ultimately have "u8_from_hex s = Some (of_nat (16 * x + y))"
    using x y by (simp add: u8_from_hex_def s)
  moreover have "unat (of_nat (16 * x + y) :: 8 word) = (16 * x + y) mod 2 ^ 8"
    by (simp only: unat_of_nat len_bit0 len_num1) simp
  then have "unat (of_nat (16 * x + y) :: 8 word) = 16 * x + y" using \<open>16 * x + y < 256\<close> by simp
  then have "hex2 (of_nat (16 * x + y)) = s"
    using x y unfolding hex2_def s by simp
  ultimately show ?thesis by blast
qed

lemma u8_from_hex_back:
  assumes "u8_from_hex s = Some b" and "is_lower_hex s" and "length s = 2"
  shows "hex2 b = s"
  using u8_from_hex_pair [OF assms(2,3)] assms(1) by auto

lemma valid_tracestate_id: "valid_tracestate v = Some w \<Longrightarrow> w = v"
  by (auto simp: valid_tracestate_def Let_def split: if_splits)

lemma slices:
  assumes "55 \<le> length v" and "v ! 2 = CHR ''-''" and "v ! 35 = CHR ''-''" and "v ! 52 = CHR ''-''"
  shows "take 55 v = slice 0 2 v @ ''-'' @ slice 3 35 v @ ''-'' @ slice 36 52 v @ ''-'' @ slice 53 55 v"
proof -
  have cut: "take (b - a) (drop a v) = take (k - a) (drop a v) @ v ! k # take (b - Suc k) (drop (Suc k) v)"
    if "a \<le> k" "k < b" "b \<le> length v" for a b k
  proof -
    have "take (b - a) (drop a v) = take (k - a) (drop a v) @ take (b - k) (drop k v)"
      using that take_add [of "k - a" "b - k" "drop a v"] by simp
    moreover have "drop k v = v ! k # drop (Suc k) v" using that by (simp add: Cons_nth_drop_Suc)
    moreover have "b - k = Suc (b - Suc k)" using that by simp
    ultimately show ?thesis by simp
  qed
  show ?thesis
    using cut [of 0 2 55] cut [of 3 35 55] cut [of 36 52 55] assms by (simp add: slice_def numeral_3_eq_3 [symmetric])
qed

text \<open>What the parser accepts.\<close>

lemma parse_traceparent_Some:
  assumes "parse_traceparent v = Some (ver, tid, pid, fl)"
  shows "take 55 v = hex2 ver @ ''-'' @ tid @ ''-'' @ pid @ ''-'' @ hex2 fl"
    and "length tid = 32" "length pid = 16" "is_lower_hex tid" "is_lower_hex pid"
    "\<not> is_all_zero tid" "\<not> is_all_zero pid" "ver \<noteq> 255"
proof -
  let ?s = "slice 0 2 v" and ?f = "slice 53 55 v"
  have len: "55 \<le> length v" using assms by (auto simp: parse_traceparent_def TRACEPARENT_LEN_def split: if_splits)
  have dash: "v ! 2 = CHR ''-''" "v ! 35 = CHR ''-''" "v ! 52 = CHR ''-''"
    using assms by (auto simp: parse_traceparent_def split: if_splits)
  have parts: "tid = slice 3 35 v" "pid = slice 36 52 v" "u8_from_hex ?s = Some ver" "u8_from_hex ?f = Some fl"
    "is_lower_hex ?s" "is_lower_hex ?f" "is_lower_hex tid" "is_lower_hex pid" "ver \<noteq> 255"
    "\<not> is_all_zero tid" "\<not> is_all_zero pid"
    using assms by (auto simp: parse_traceparent_def Let_def split: if_splits option.splits)
  have "length ?s = 2" "length ?f = 2" using len by (simp_all add: slice_def)
  then show "take 55 v = hex2 ver @ ''-'' @ tid @ ''-'' @ pid @ ''-'' @ hex2 fl"
    using slices [OF len dash] u8_from_hex_back parts by simp
  show "length tid = 32" "length pid = 16" using len parts(1,2) by (simp_all add: slice_def)
qed (use assms in \<open>auto simp: parse_traceparent_def Let_def split: if_splits option.splits\<close>)

text \<open>The first 55 characters alone decide, but for the extra fields of a later version.\<close>

lemma parse_traceparent_prefix:
  assumes "parse_traceparent v = Some r"
  shows "parse_traceparent (take 55 v) = Some r"
proof -
  have len: "55 \<le> length v" using assms by (auto simp: parse_traceparent_def TRACEPARENT_LEN_def split: if_splits)
  have sl: "slice a b (take 55 v) = slice a b v" if "b \<le> 55" for a b
    using that by (simp add: slice_def drop_take min_absorb1)
  have asc: "is_ascii (take 55 v)"
    using assms by (auto simp: parse_traceparent_def is_ascii_def split: if_splits dest: in_set_takeD)
  show ?thesis
    using assms asc len
    by (simp add: parse_traceparent_def sl Let_def TRACEPARENT_LEN_def min_absorb2 split: if_splits option.splits)
qed

text \<open>
  A trace context survives being passed on.  What the parser accepts is well formed (32 and 16
  lowercase hex digits, neither all zeros, a version other than \<open>ff\<close>); sending it
  reproduces the first 55 characters of the header received, and a server that reads the sent
  metadata gets the same context back, trace state and flags included.
\<close>

theorem trace_context_roundtrip:
  assumes "trace_parse tp ts = Some c"
  shows "length (tc_trace_id c) = 32 \<and> length (tc_parent_id c) = 16
    \<and> is_lower_hex (tc_trace_id c) \<and> is_lower_hex (tc_parent_id c)
    \<and> \<not> is_all_zero (tc_trace_id c) \<and> \<not> is_all_zero (tc_parent_id c) \<and> tc_version c \<noteq> 255
    \<and> trace_traceparent c = take 55 tp
    \<and> trace_from_meta (JObj (map (\<lambda>(k, v). (k, JStr v)) (trace_entries c))) = Some c"
proof -
  obtain ver tid pid fl where p: "parse_traceparent tp = Some (ver, tid, pid, fl)"
    and c: "c = \<lparr>tc_version = ver, tc_trace_id = tid, tc_parent_id = pid, tc_trace_flags = fl,
      tc_tracestate = Option.bind ts valid_tracestate\<rparr>"
    using assms by (auto simp: trace_parse_def)
  note parts = parse_traceparent_Some [OF p]
  have sent: "trace_traceparent c = take 55 tp" using parts(1) by (simp add: c trace_traceparent_def)
  have state: "Option.bind (tc_tracestate c) valid_tracestate = tc_tracestate c"
    by (cases ts; cases "valid_tracestate (the ts)") (auto simp: c dest: valid_tracestate_id)
  have "trace_parse (take 55 tp) (tc_tracestate c) = Some c"
    using parse_traceparent_prefix [OF p] state by (simp add: trace_parse_def) (simp add: c)
  moreover have "json_get (JObj (map (\<lambda>(k, v). (k, JStr v)) (trace_entries c))) ''traceparent'' = Some (JStr (take 55 tp))"
    by (simp add: trace_entries_def sent)
  moreover have "Option.bind (json_get (JObj (map (\<lambda>(k, v). (k, JStr v)) (trace_entries c))) ''tracestate'') json_as_str
      = tc_tracestate c"
    by (simp add: trace_entries_def split: option.split)
  ultimately have "trace_from_meta (JObj (map (\<lambda>(k, v). (k, JStr v)) (trace_entries c))) = Some c"
    by (simp add: trace_from_meta_def)
  then show ?thesis using parts sent by (simp add: c)
qed

lemma trace_context_roundtrip_witness:
  "\<exists>c. trace_parse ''01-4bf92f3577b34da6a3ce929d0e0e4736-00f067aa0ba902b7-01-more'' (Some ''vendor=value'') = Some c
     \<and> trace_traceparent c = ''01-4bf92f3577b34da6a3ce929d0e0e4736-00f067aa0ba902b7-01''"
proof -
  have "trace_parse ''01-4bf92f3577b34da6a3ce929d0e0e4736-00f067aa0ba902b7-01-more'' (Some ''vendor=value'') \<noteq> None"
    by code_simp
  then obtain c where "trace_parse ''01-4bf92f3577b34da6a3ce929d0e0e4736-00f067aa0ba902b7-01-more'' (Some ''vendor=value'') = Some c"
    by auto
  from trace_context_roundtrip [OF this] this show ?thesis by (simp add: numeral_eq_Suc)
qed

end
