(* ===== verification/Pagination.thy ===== *)
theory Pagination
  imports Framing Timestamp Payload
begin

text \<open>
  Cursors and pages of the \<open>*/list\<close> methods: \<open>crates/tower-mcp/src/router/pagination.rs\<close>.
  The base64 engine is third-party: \<open>enc\<close> and \<open>dec\<close> stand for its \<open>encode\<close> and
  \<open>decode\<close>, and what the code relies on is that decoding gives back the bytes encoded.
\<close>

section \<open>Operations\<close>

text \<open>\<open>str::parse::<usize>\<close>: an optional plus sign, at least one digit, no overflow.\<close>

definition is_digit :: "char \<Rightarrow> bool" where
  "is_digit c \<longleftrightarrow> 48 \<le> (of_char c :: nat) \<and> (of_char c :: nat) \<le> 57"

definition parse_usize :: "string \<Rightarrow> nat option" where
  "parse_usize s =
     (let ds = (case s of c # cs \<Rightarrow> if c = CHR ''+'' \<and> cs \<noteq> [] then cs else s | [] \<Rightarrow> [])
      in if ds = [] \<or> \<not> list_all is_digit ds then None
         else if USIZE_MAX < read_nat ds then None else Some (read_nat ds))"

definition invalid_cursor :: json_rpc_error where
  "invalid_cursor = invalid_params ''Invalid pagination cursor''"

definition decode_cursor :: "(string \<Rightarrow> string option) \<Rightarrow> string \<Rightarrow> json_rpc_error + nat" where
  "decode_cursor dec cursor =
     (case dec cursor of
        None \<Rightarrow> Inl invalid_cursor
      | Some bytes \<Rightarrow>
          if \<not> utf8_valid (map of_char bytes) then Inl invalid_cursor
          else (case parse_usize bytes of None \<Rightarrow> Inl invalid_cursor | Some n \<Rightarrow> Inr n))"

definition encode_cursor :: "(string \<Rightarrow> string) \<Rightarrow> nat \<Rightarrow> string" where
  "encode_cursor enc offset = enc (show_nat offset)"

text \<open>
  A page; \<open>None\<close> is a panic: when \<open>offset + page_size\<close> overflows, a debug build panics there,
  and a release build at the range whose end wrapped below its start.
\<close>

definition paginate ::
  "(string \<Rightarrow> string) \<Rightarrow> (string \<Rightarrow> string option) \<Rightarrow> 'a list \<Rightarrow> string option \<Rightarrow> nat option
   \<Rightarrow> (json_rpc_error + 'a list \<times> string option) option" where
  "paginate enc dec items cursor page_size =
     (case page_size of
        None \<Rightarrow> Some (Inr (items, None))
      | Some n \<Rightarrow>
          (case (case cursor of Some c \<Rightarrow> decode_cursor dec c | None \<Rightarrow> Inr 0) of
             Inl e \<Rightarrow> Some (Inl e)
           | Inr offset \<Rightarrow>
               if length items \<le> offset then Some (Inr ([], None))
               else map_option (\<lambda>sum.
                 let stop = min sum (length items);
                     next_cursor = (if stop < length items then Some (encode_cursor enc stop) else None)
                 in Inr (take (stop - offset) (drop offset items), next_cursor)) (checked_add offset n)))"

text \<open>A client that follows the cursors, for at most \<open>fuel\<close> requests.\<close>

fun fetch_all ::
  "(string \<Rightarrow> string) \<Rightarrow> (string \<Rightarrow> string option) \<Rightarrow> 'a list \<Rightarrow> nat option \<Rightarrow> nat \<Rightarrow> string option
   \<Rightarrow> 'a list list option" where
  "fetch_all enc dec items page_size 0 cursor = None"
| "fetch_all enc dec items page_size (Suc fuel) cursor =
     (case paginate enc dec items cursor page_size of
        Some (Inr (page, None)) \<Rightarrow> Some [page]
      | Some (Inr (page, Some c)) \<Rightarrow> map_option (\<lambda>ps. page # ps) (fetch_all enc dec items page_size fuel (Some c))
      | _ \<Rightarrow> None)"

section \<open>Lemmas\<close>

lemma digit_char_digit: "d < 10 \<Longrightarrow> is_digit (digit_char d)"
  using of_digit_char [of d] by (simp add: is_digit_def)

lemma show_nat_digits: "list_all is_digit (show_nat n) \<and> show_nat n \<noteq> []"
proof (induction n rule: show_nat.induct)
  case (1 n)
  then show ?case by (cases "n < 10") (simp_all add: show_nat.simps [of n] digit_char_digit)
qed

lemma parse_show_nat:
  assumes "n \<le> USIZE_MAX"
  shows "parse_usize (show_nat n) = Some n"
proof -
  obtain c cs where s: "show_nat n = c # cs" using show_nat_digits [of n] by (cases "show_nat n") auto
  then have "is_digit c" using show_nat_digits [of n] by simp
  then have "c \<noteq> CHR ''+''" by (auto simp: is_digit_def)
  then have ds: "(case show_nat n of d # ds \<Rightarrow> if d = CHR ''+'' \<and> ds \<noteq> [] then ds else show_nat n | [] \<Rightarrow> [])
      = show_nat n" by (simp add: s)
  have "read_nat (show_nat n) = n" by (simp add: read_nat_def read_show_nat)
  then show ?thesis
    unfolding parse_usize_def ds Let_def using show_nat_digits [of n] assms by simp
qed

lemma decode_encode_cursor:
  assumes "\<And>s. dec (enc s) = Some s" and "n \<le> USIZE_MAX"
  shows "decode_cursor dec (encode_cursor enc n) = Inr n"
proof -
  have "unat (of_char c :: 8 word) < 128" if "c \<in> set (show_nat n)" for c
  proof -
    have "(of_char c :: nat) \<le> 57" using show_nat_digits [of n] that by (simp add: list_all_iff is_digit_def)
    moreover have "(of_char c :: 8 word) = of_nat (of_char c)" by (rule of_nat_of_char [symmetric])
    moreover have "unat (of_nat (of_char c) :: 8 word) \<le> (of_char c :: nat)"
      by (simp only: unat_of_nat mod_less_eq_dividend)
    ultimately show ?thesis by simp
  qed
  then have "utf8_valid (map of_char (show_nat n))" by (intro utf8_valid_ascii) auto
  then show ?thesis using assms by (simp add: decode_cursor_def encode_cursor_def parse_show_nat)
qed

lemma paginate_page:
  assumes codec: "\<And>s. dec (enc s) = Some s" and n: "0 < n" and room: "length items + n \<le> USIZE_MAX"
    and c: "cursor = (if off = 0 then None else Some (encode_cursor enc off))" and off: "off < length items"
  shows "paginate enc dec items cursor (Some n) =
    Some (Inr (take n (drop off items),
      if off + n < length items then Some (encode_cursor enc (off + n)) else None))"
proof -
  have "(case cursor of Some c \<Rightarrow> decode_cursor dec c | None \<Rightarrow> Inr 0) = Inr off"
    using decode_encode_cursor [of dec enc off] codec c off room by simp
  moreover have "checked_add off n = Some (off + n)" using off room by simp
  moreover have "take (min (off + n) (length items) - off) (drop off items) = take n (drop off items)"
    using off by (auto simp: min_def)
  ultimately show ?thesis using off by (auto simp: paginate_def Let_def min_def)
qed

lemma fetch_all_from:
  assumes codec: "\<And>s. dec (enc s) = Some s" and n: "0 < n" and room: "length items + n \<le> USIZE_MAX"
    and "cursor = (if off = 0 then None else Some (encode_cursor enc off))"
    and "off < length items" and "length items \<le> off + n * fuel"
  shows "\<exists>pages. fetch_all enc dec items (Some n) fuel cursor = Some pages \<and> concat pages = drop off items
    \<and> pages \<noteq> [] \<and> (\<forall>p\<in>set (butlast pages). length p = n) \<and> (\<forall>p\<in>set pages. p \<noteq> [] \<and> length p \<le> n)"
  using assms(4-6)
proof (induction fuel arbitrary: off cursor)
  case 0
  then show ?case by simp
next
  case (Suc fuel)
  note page = paginate_page [where dec = dec and enc = enc, OF codec n room Suc.prems(1,2)]
  show ?case
  proof (cases "off + n < length items")
    case False
    then show ?thesis using page Suc.prems(2) n by simp
  next
    case True
    have "\<exists>pages. fetch_all enc dec items (Some n) fuel (Some (encode_cursor enc (off + n))) = Some pages
      \<and> concat pages = drop (off + n) items \<and> pages \<noteq> []
      \<and> (\<forall>p\<in>set (butlast pages). length p = n) \<and> (\<forall>p\<in>set pages. p \<noteq> [] \<and> length p \<le> n)"
      by (rule Suc.IH) (use n True Suc.prems(3) in simp_all)
    then obtain pages where p: "fetch_all enc dec items (Some n) fuel (Some (encode_cursor enc (off + n))) = Some pages"
      "concat pages = drop (off + n) items" "pages \<noteq> []"
      "\<forall>p\<in>set (butlast pages). length p = n" "\<forall>p\<in>set pages. p \<noteq> [] \<and> length p \<le> n" by blast
    have "take n (drop off items) @ drop (off + n) items = drop off items"
      by (metis add.commute append_take_drop_id drop_drop)
    moreover have "length (take n (drop off items)) = n" using True by simp
    ultimately show ?thesis using page True p n Suc.prems(2) by auto
  qed
qed

text \<open>A page size of 0 repeats the empty first page.\<close>

lemma fetch_all_zero:
  assumes codec: "\<And>s. dec (enc s) = Some s" and "items \<noteq> []" and "cursor \<in> {None, Some (encode_cursor enc 0)}"
  shows "fetch_all enc dec items (Some 0) fuel cursor = None"
  using assms(3)
proof (induction fuel arbitrary: cursor)
  case (Suc fuel)
  have "(case cursor of Some c \<Rightarrow> decode_cursor dec c | None \<Rightarrow> Inr 0) = Inr 0"
    using Suc.prems decode_encode_cursor [of dec enc 0] codec by auto
  then have "paginate enc dec items cursor (Some 0) = Some (Inr ([], Some (encode_cursor enc 0)))"
    using assms(2) by (simp add: paginate_def Let_def checked_add_def)
  then show ?case using Suc.IH [of "Some (encode_cursor enc 0)"] by simp
qed simp

lemma fetch_all_items:
  assumes codec: "\<And>s. dec (enc s) = Some s" and room: "length items + n \<le> USIZE_MAX"
    and n: "n \<noteq> 0 \<or> items = []"
  shows "\<exists>pages. fetch_all enc dec items (Some n) (max 1 (length items)) None = Some pages \<and> concat pages = items
      \<and> (\<forall>p\<in>set (butlast pages). length p = n) \<and> (\<forall>p\<in>set pages. length p \<le> n)"
proof (cases "items = []")
  case True
  show ?thesis unfolding True by (rule exI [of _ "[[]]"]) (simp add: paginate_def)
next
  case False
  then have len: "max 1 (length items) = length items" by (cases items) simp_all
  have "length items \<le> 0 + n * length items" "0 < n" using n False by (cases n; simp)+
  then obtain pages where "fetch_all enc dec items (Some n) (length items) None = Some pages" "concat pages = items"
    "\<forall>p\<in>set (butlast pages). length p = n" "\<forall>p\<in>set pages. p \<noteq> [] \<and> length p \<le> n"
    using fetch_all_from [where dec = dec and enc = enc, OF codec _ room, of None 0 "length items"] False
    by (metis drop0 length_greater_0_conv)
  then show ?thesis unfolding len by blast
qed

text \<open>
  Following the cursors delivers everything.  With a positive page size, a client that starts
  without a cursor and follows each next cursor gets, within \<open>length items\<close> requests (one if
  there are none), pages that concatenate to exactly the items in order, all full but the last; with
  no page size one request delivers them; and a page size of 0 never gets past empty pages, however
  many requests are made.
\<close>

theorem pages_deliver_everything:
  assumes codec: "\<And>s. dec (enc s) = Some s" and room: "length items + n \<le> USIZE_MAX"
  shows "if n = 0 \<and> items \<noteq> [] then fetch_all enc dec items (Some n) fuel None = None
    else (\<exists>pages. fetch_all enc dec items (Some n) (max 1 (length items)) None = Some pages \<and> concat pages = items
      \<and> (\<forall>p\<in>set (butlast pages). length p = n) \<and> (\<forall>p\<in>set pages. length p \<le> n))
    \<and> fetch_all enc dec items None 1 None = Some [items]"
proof (cases "n = 0 \<and> items \<noteq> []")
  case True
  then show ?thesis using fetch_all_zero [where dec = dec and enc = enc, OF codec, of items None] by simp
next
  case False
  then have n: "n \<noteq> 0 \<or> items = []" by simp
  have "fetch_all enc dec items None 1 None = Some [items]" by (simp add: paginate_def)
  then show ?thesis
    unfolding if_not_P [OF False]
    using fetch_all_items [where dec = dec and enc = enc, OF codec room n] by blast
qed

lemma pages_deliver_everything_witness:
  "\<exists>pages. fetch_all (\<lambda>s. s) Some [1::nat, 2, 3, 4, 5] (Some 2) 5 None = Some pages \<and> concat pages = [1, 2, 3, 4, 5]"
proof -
  let ?xs = "[1, 2, 3, 4, 5] :: nat list"
  have room: "length ?xs + 2 \<le> USIZE_MAX" by (simp add: USIZE_MAX_def)
  have "max 1 (length ?xs) = 5" by simp
  then show ?thesis
    using pages_deliver_everything [of Some "\<lambda>s. s", OF refl room, of 0] by (metis zero_neq_numeral)
qed

end
