(* ===== verification/OAuth.thy ===== *)
theory OAuth
  imports Framing Payload "HOL-Library.Code_Target_Nat"
begin

text \<open>
  OAuth 2.1 protection of the server: the claims of a token and the adapter for plain validators
  (\<open>oauth/token.rs\<close>), errors and the \<open>WWW-Authenticate\<close> header (\<open>oauth/error.rs\<close>),
  scope policies and their enforcement on requests (\<open>oauth/scope.rs\<close>), the HTTP middleware
  (\<open>oauth/middleware.rs\<close>), and the matching of authentication schemes (\<open>auth.rs\<close>,
  \<open>ascii.rs\<close>).

  The token validator and the scope matcher are parameters, as they are in the code.  A
  \<open>HashSet\<close> of scopes is a list whose order stands for the unspecified iteration order.
\<close>

section \<open>Authentication schemes\<close>

definition ascii_lower :: "char \<Rightarrow> char" where
  "ascii_lower c = (let n = (of_char c :: nat) in if 65 \<le> n \<and> n \<le> 90 then char_of (n + 32) else c)"

definition eq_ignore_ascii_case :: "string \<Rightarrow> string \<Rightarrow> bool" where
  "eq_ignore_ascii_case s t \<longleftrightarrow> map ascii_lower s = map ascii_lower t"

text \<open>\<open>str::get(..n)\<close> fails past the end and inside a character.\<close>

definition char_boundary :: "nat \<Rightarrow> string \<Rightarrow> bool" where
  "char_boundary n s \<longleftrightarrow> n \<le> length s
     \<and> (n = 0 \<or> n = length s \<or> \<not> (128 \<le> (of_char (s ! n) :: nat) \<and> (of_char (s ! n) :: nat) < 192))"

definition strip_prefix_ignore_ascii_case :: "string \<Rightarrow> string \<Rightarrow> string option" where
  "strip_prefix_ignore_ascii_case s prefix =
     (if \<not> char_boundary (length prefix) s then None
      else if eq_ignore_ascii_case (take (length prefix) s) prefix then Some (drop (length prefix) s) else None)"

definition strip_scheme :: "string \<Rightarrow> string \<Rightarrow> string option" where
  "strip_scheme header scheme =
     (case strip_prefix_ignore_ascii_case header scheme of
        None \<Rightarrow> None
      | Some rest \<Rightarrow> (case rest of c # cs \<Rightarrow> if c = CHR '' '' then Some (trim_start_str rest) else None | [] \<Rightarrow> None))"

section \<open>Claims\<close>

datatype token_audience = AudSingle string | AudMultiple "string list"

fun aud_contains :: "token_audience \<Rightarrow> string \<Rightarrow> bool" where
  "aud_contains (AudSingle s) v = (s = v)"
| "aud_contains (AudMultiple ss) v = (v \<in> set ss)"

record token_claims =
  tk_sub :: "string option"
  tk_iss :: "string option"
  tk_aud :: "token_audience option"
  tk_exp :: "nat option"
  tk_scope :: "string option"
  tk_client_id :: "string option"
  tk_extra :: "(string \<times> json) list"

definition token_scopes :: "token_claims \<Rightarrow> string list" where
  "token_scopes c = remdups (split_whitespace (case tk_scope c of None \<Rightarrow> [] | Some s \<Rightarrow> s))"

definition has_scope :: "token_claims \<Rightarrow> string \<Rightarrow> bool" where
  "has_scope c s \<longleftrightarrow> s \<in> set (token_scopes c)"

definition audience_matches :: "token_claims \<Rightarrow> string \<Rightarrow> bool" where
  "audience_matches c resource = (case tk_aud c of Some aud \<Rightarrow> aud_contains aud resource | None \<Rightarrow> False)"

text \<open>\<open>now\<close> is the clock in seconds since the epoch, 0 before it.\<close>

definition token_is_expired :: "nat \<Rightarrow> token_claims \<Rightarrow> bool" where
  "token_is_expired now c = (case tk_exp c of Some e \<Rightarrow> e < now | None \<Rightarrow> False)"

section \<open>Errors\<close>

datatype oauth_error =
  MissingToken
| InvalidToken string
| InsufficientScope "string list" "string list"
| InvalidAudience
| ExpiredToken

fun status_code :: "oauth_error \<Rightarrow> nat" where
  "status_code (InsufficientScope req prov) = 403"
| "status_code _ = 401"

fun join_with :: "string \<Rightarrow> string list \<Rightarrow> string" where
  "join_with sep [] = []"
| "join_with sep [x] = x"
| "join_with sep (x # y # xs) = x @ sep @ join_with sep (y # xs)"

text \<open>One character of \<open>auth_parameter\<close>: escaped, replaced, or kept.\<close>

definition auth_escape :: "string \<Rightarrow> string" where
  "auth_escape ch =
     (case ch of
        [c] \<Rightarrow>
          (let n = (of_char c :: nat)
           in if n = 34 \<or> n = 92 then [CHR 0x5C, c]
              else if n < 32 \<or> n = 127 then '' ''
              else if 128 \<le> n then ''?''
              else [c])
      | _ \<Rightarrow> ''?'')"

definition QUOTE :: char where "QUOTE = CHR 0x22"

definition auth_parameter :: "string \<Rightarrow> string \<Rightarrow> string" where
  "auth_parameter name v = name @ ''='' @ [QUOTE] @ concat (map auth_escape (utf8_chars v)) @ [QUOTE]"

definition www_authenticate :: "oauth_error \<Rightarrow> string option \<Rightarrow> string" where
  "www_authenticate err url =
     (let parts = (case url of None \<Rightarrow> [] | Some u \<Rightarrow> [auth_parameter ''resource_metadata'' u]);
          invalid = ''error='' @ [QUOTE] @ ''invalid_token'' @ [QUOTE]
      in case err of
        MissingToken \<Rightarrow> if parts = [] then ''Bearer'' else ''Bearer '' @ join_with '', '' parts
      | InvalidToken d \<Rightarrow>
          ''Bearer '' @ join_with '', '' (parts @ [invalid, auth_parameter ''error_description'' d])
      | InsufficientScope req prov \<Rightarrow>
          ''Bearer '' @ join_with '', '' (parts @ [''error='' @ [QUOTE] @ ''insufficient_scope'' @ [QUOTE]]
             @ (if req \<noteq> [] then [auth_parameter ''scope'' (join_with '' '' req)] else []))
      | InvalidAudience \<Rightarrow>
          ''Bearer '' @ join_with '', '' (parts @ [invalid, ''error_description='' @ [QUOTE]
             @ ''The token audience does not match this resource'' @ [QUOTE]])
      | ExpiredToken \<Rightarrow>
          ''Bearer '' @ join_with '', '' (parts @ [invalid, ''error_description='' @ [QUOTE]
             @ ''The access token has expired'' @ [QUOTE]]))"

fun oauth_error_display :: "oauth_error \<Rightarrow> string" where
  "oauth_error_display MissingToken = ''missing bearer token''"
| "oauth_error_display (InvalidToken d) = ''invalid token: '' @ d"
| "oauth_error_display (InsufficientScope req prov) =
     ''insufficient scope: required ['' @ join_with '', '' req @ ''], provided ['' @ join_with '', '' prov @ '']''"
| "oauth_error_display InvalidAudience = ''token audience does not match''"
| "oauth_error_display ExpiredToken = ''token has expired''"

section \<open>The adapter for plain validators\<close>

record auth_info =
  ai_client_id :: string
  ai_claims :: "json option"

datatype auth_result = Authenticated "auth_info option" | Failed string

record validate_adapter =
  va_audience :: "string option"

definition validate_adapter_new :: validate_adapter where
  "validate_adapter_new = \<lparr>va_audience = None\<rparr>"

definition with_audience :: "string \<Rightarrow> validate_adapter \<Rightarrow> validate_adapter" where
  "with_audience aud v = v\<lparr>va_audience := Some aud\<rparr>"

text \<open>\<open>serde_json::from_value\<close> into a map succeeds on objects.\<close>

definition adapter_extra :: "auth_info option \<Rightarrow> (string \<times> json) list" where
  "adapter_extra info =
     (case Option.bind info ai_claims of Some (JObj kvs) \<Rightarrow> kvs | _ \<Rightarrow> [])"

definition adapter_validate ::
  "validate_adapter \<Rightarrow> (string \<Rightarrow> auth_result) \<Rightarrow> string \<Rightarrow> oauth_error + token_claims" where
  "adapter_validate v inner token =
     (case inner token of
        Authenticated info \<Rightarrow>
          Inr \<lparr>tk_sub = map_option ai_client_id info, tk_iss = None,
               tk_aud = map_option AudSingle (va_audience v), tk_exp = None, tk_scope = None,
               tk_client_id = map_option ai_client_id info, tk_extra = adapter_extra info\<rparr>
      | Failed msg \<Rightarrow> Inl (InvalidToken msg))"

section \<open>Scope policies\<close>

type_synonym scope_requirement = "string list"
type_synonym scope_matcher = "string \<Rightarrow> string \<Rightarrow> bool"

definition exact_matcher :: scope_matcher where
  "exact_matcher granted required \<longleftrightarrow> granted = required"

definition require_scope :: "string \<Rightarrow> scope_requirement \<Rightarrow> scope_requirement" where
  "require_scope s req = (if s \<in> set req then req else req @ [s])"

definition check_with :: "scope_matcher \<Rightarrow> scope_requirement \<Rightarrow> token_claims \<Rightarrow> oauth_error + unit" where
  "check_with matches req claims =
     (if req = [] then Inr ()
      else
        let provided = token_scopes claims in
        if list_all (\<lambda>required. list_ex (\<lambda>granted. matches granted required) provided) req then Inr ()
        else Inl (InsufficientScope req provided))"

definition scope_check :: "scope_requirement \<Rightarrow> token_claims \<Rightarrow> oauth_error + unit" where
  "scope_check = check_with exact_matcher"

record scope_policy =
  sp_default :: scope_requirement
  sp_tool :: "(string \<times> scope_requirement) list"
  sp_resource :: "(string \<times> scope_requirement) list"
  sp_prompt :: "(string \<times> scope_requirement) list"
  sp_matcher :: scope_matcher

definition scope_policy_new :: scope_policy where
  "scope_policy_new = \<lparr>sp_default = [], sp_tool = [], sp_resource = [], sp_prompt = [], sp_matcher = exact_matcher\<rparr>"

definition add_scope :: "string \<Rightarrow> string \<Rightarrow> (string \<times> scope_requirement) list \<Rightarrow> (string \<times> scope_requirement) list" where
  "add_scope name s m =
     AList.update name (require_scope s (case map_of m name of Some req \<Rightarrow> req | None \<Rightarrow> [])) m"

definition default_scope :: "string \<Rightarrow> scope_policy \<Rightarrow> scope_policy" where
  "default_scope s p = p\<lparr>sp_default := require_scope s (sp_default p)\<rparr>"

definition default_scopes :: "scope_requirement \<Rightarrow> scope_policy \<Rightarrow> scope_policy" where
  "default_scopes req p = p\<lparr>sp_default := req\<rparr>"

definition tool_scope :: "string \<Rightarrow> string \<Rightarrow> scope_policy \<Rightarrow> scope_policy" where
  "tool_scope name s p = p\<lparr>sp_tool := add_scope name s (sp_tool p)\<rparr>"

definition tool_scopes :: "string \<Rightarrow> scope_requirement \<Rightarrow> scope_policy \<Rightarrow> scope_policy" where
  "tool_scopes name req p = p\<lparr>sp_tool := AList.update name req (sp_tool p)\<rparr>"

definition resource_scope :: "string \<Rightarrow> string \<Rightarrow> scope_policy \<Rightarrow> scope_policy" where
  "resource_scope uri s p = p\<lparr>sp_resource := add_scope uri s (sp_resource p)\<rparr>"

definition prompt_scope :: "string \<Rightarrow> string \<Rightarrow> scope_policy \<Rightarrow> scope_policy" where
  "prompt_scope name s p = p\<lparr>sp_prompt := add_scope name s (sp_prompt p)\<rparr>"

definition check_default :: "scope_policy \<Rightarrow> token_claims \<Rightarrow> oauth_error + unit" where
  "check_default p claims = check_with (sp_matcher p) (sp_default p) claims"

text \<open>The three checks of an operation with requirements of its own.\<close>

definition check_named ::
  "scope_policy \<Rightarrow> (string \<times> scope_requirement) list \<Rightarrow> string \<Rightarrow> token_claims \<Rightarrow> oauth_error + unit" where
  "check_named p m name claims =
     result_bind (check_with (sp_matcher p) (sp_default p) claims) (\<lambda>_.
       case map_of m name of Some req \<Rightarrow> check_with (sp_matcher p) req claims | None \<Rightarrow> Inr ())"

definition check_tool :: "scope_policy \<Rightarrow> string \<Rightarrow> token_claims \<Rightarrow> oauth_error + unit" where
  "check_tool p = check_named p (sp_tool p)"

definition check_resource :: "scope_policy \<Rightarrow> string \<Rightarrow> token_claims \<Rightarrow> oauth_error + unit" where
  "check_resource p = check_named p (sp_resource p)"

definition check_prompt :: "scope_policy \<Rightarrow> string \<Rightarrow> token_claims \<Rightarrow> oauth_error + unit" where
  "check_prompt p = check_named p (sp_prompt p)"

section \<open>Enforcement on requests\<close>

datatype mcp_request = CallTool string | ReadResource string | GetPrompt string | OtherRequest string

record router_request =
  rq_id :: request_id
  rq_inner :: mcp_request
  rq_claims :: "token_claims option"

definition forbidden :: "string \<Rightarrow> json_rpc_error" where
  "forbidden msg = \<lparr>e_code = -32007, e_message = msg, e_data = None\<rparr>"

definition request_check :: "scope_policy \<Rightarrow> mcp_request \<Rightarrow> token_claims \<Rightarrow> oauth_error + unit" where
  "request_check p req claims =
     (case req of
        CallTool name \<Rightarrow> check_tool p name claims
      | ReadResource uri \<Rightarrow> check_resource p uri claims
      | GetPrompt name \<Rightarrow> check_prompt p name claims
      | OtherRequest _ \<Rightarrow> check_default p claims)"

text \<open>\<open>Inr\<close> is the request handed to the inner service, \<open>Inl\<close> the error response.\<close>

definition scope_enforce ::
  "scope_policy \<Rightarrow> bool \<Rightarrow> router_request \<Rightarrow> (request_id \<times> json_rpc_error) + router_request" where
  "scope_enforce p require_claims req =
     (case rq_claims req of
        None \<Rightarrow>
          if require_claims then Inl (rq_id req, forbidden ''authenticated token claims are required'')
          else Inr req
      | Some claims \<Rightarrow>
          (case request_check p (rq_inner req) claims of
             Inl err \<Rightarrow> Inl (rq_id req, forbidden (oauth_error_display err))
           | Inr _ \<Rightarrow> Inr req))"

section \<open>The HTTP middleware\<close>

text \<open>
  \<open>hq_authorization\<close> is the \<open>Authorization\<close> header, where it is present and visible
  ASCII; \<open>hq_claims\<close> the claims in the request extensions.
\<close>

record http_request =
  hq_path :: string
  hq_authorization :: "string option"
  hq_claims :: "token_claims option"

record http_error =
  he_status :: nat
  he_www_authenticate :: string
  he_body :: json

definition bearer_token :: "http_request \<Rightarrow> string option" where
  "bearer_token req =
     map_option trim_str (Option.bind (hq_authorization req) (\<lambda>h. strip_scheme h ''Bearer''))"

text \<open>\<open>header_ok\<close> is whether \<open>HeaderValue::from_str\<close> accepts the text.\<close>

definition oauth_error_response :: "(string \<Rightarrow> bool) \<Rightarrow> oauth_error \<Rightarrow> string option \<Rightarrow> http_error" where
  "oauth_error_response header_ok err url =
     \<lparr>he_status = (if status_code err = 401 then 401 else if status_code err = 403 then 403 else 401),
      he_www_authenticate = (if header_ok (www_authenticate err url) then www_authenticate err url else ''Bearer''),
      he_body = JObj [(''jsonrpc'', JStr ''2.0''),
        (''error'', JObj [(''code'', JNum (NInt (-32001))), (''message'', JStr (oauth_error_display err))]),
        (''id'', JNull)]\<rparr>"

record oauth_service =
  os_resource :: string
  os_metadata_url :: "string option"
  os_policy :: scope_policy
  os_public_paths :: "string list"

definition oauth_call ::
  "(string \<Rightarrow> bool) \<Rightarrow> (string \<Rightarrow> oauth_error + token_claims) \<Rightarrow> oauth_service \<Rightarrow> http_request
   \<Rightarrow> http_error + http_request" where
  "oauth_call header_ok validate_token os req =
     (let fail = (\<lambda>err. Inl (oauth_error_response header_ok err (os_metadata_url os))) in
      if hq_path req \<in> set (os_public_paths os) then Inr req
      else case bearer_token req of
        None \<Rightarrow> fail MissingToken
      | Some token \<Rightarrow>
          (case validate_token token of
             Inl err \<Rightarrow> fail err
           | Inr claims \<Rightarrow>
               if \<not> audience_matches claims (os_resource os) then fail InvalidAudience
               else (case check_default (os_policy os) claims of
                       Inl err \<Rightarrow> fail err
                     | Inr _ \<Rightarrow> Inr (req\<lparr>hq_claims := Some claims\<rparr>))))"

section \<open>What the checks decide\<close>

definition satisfies :: "scope_matcher \<Rightarrow> scope_requirement \<Rightarrow> token_claims \<Rightarrow> bool" where
  "satisfies matches req claims \<longleftrightarrow>
     list_all (\<lambda>required. list_ex (\<lambda>granted. matches granted required) (token_scopes claims)) req"

lemma check_with_eq:
  "check_with matches req claims =
     (if satisfies matches req claims then Inr () else Inl (InsufficientScope req (token_scopes claims)))"
  by (simp add: check_with_def satisfies_def Let_def)

lemma satisfies_append: "satisfies m (a @ b) c \<longleftrightarrow> satisfies m a c \<and> satisfies m b c"
  by (simp add: satisfies_def)

text \<open>The requirement of an operation beyond the default one.\<close>

definition own_requirement :: "scope_policy \<Rightarrow> mcp_request \<Rightarrow> scope_requirement" where
  "own_requirement p req =
     (case (case req of
              CallTool name \<Rightarrow> map_of (sp_tool p) name
            | ReadResource uri \<Rightarrow> map_of (sp_resource p) uri
            | GetPrompt name \<Rightarrow> map_of (sp_prompt p) name
            | OtherRequest _ \<Rightarrow> None) of None \<Rightarrow> [] | Some r \<Rightarrow> r)"

lemma request_check_ok:
  "result_ok (request_check p req claims) \<longleftrightarrow> satisfies (sp_matcher p) (sp_default p @ own_requirement p req) claims"
proof -
  have named: "result_ok (check_named p m name claims) \<longleftrightarrow>
      satisfies (sp_matcher p) (sp_default p @ (case map_of m name of None \<Rightarrow> [] | Some r \<Rightarrow> r)) claims" for m name
    by (auto simp: check_named_def check_with_eq satisfies_append satisfies_def split: option.split)
  show ?thesis
    by (cases req) (simp_all add: request_check_def own_requirement_def check_tool_def check_resource_def
        check_prompt_def named check_default_def check_with_eq)
qed

lemma satisfies_require_scope:
  "satisfies m (require_scope s req) c \<longleftrightarrow> satisfies m req c \<and> satisfies m [s] c"
  by (auto simp: require_scope_def satisfies_def list_all_iff)

lemma satisfies_none [simp]: "satisfies m [] c"
  by (simp add: satisfies_def)

lemma own_requirement_tool_scope:
  "satisfies m (own_requirement (tool_scope name s p) (CallTool n)) c \<longleftrightarrow>
     satisfies m (own_requirement p (CallTool n)) c \<and> (name = n \<longrightarrow> satisfies m [s] c)"
  by (auto simp: own_requirement_def tool_scope_def add_scope_def map_of_update_iff satisfies_require_scope
      split: option.split)

text \<open>
  Requests are let through by scope alone.  The enforcement service hands a request on, unchanged,
  exactly when the token in its extensions grants, under the policy's matcher, every default scope and
  every scope of the tool, resource or prompt named; without claims exactly in permissive mode.
  Everything else is answered with the request's own id and the code -32007.  Adding a tool scope
  restricts that tool by that scope and no other operation.
\<close>

theorem scope_enforcement_exact:
  "scope_enforce p require_claims req =
     (case rq_claims req of
        None \<Rightarrow> if require_claims then Inl (rq_id req, forbidden ''authenticated token claims are required'')
                 else Inr req
      | Some c \<Rightarrow>
          if satisfies (sp_matcher p) (sp_default p @ own_requirement p (rq_inner req)) c then Inr req
          else Inl (rq_id req, forbidden (oauth_error_display
             (projl (request_check p (rq_inner req) c)))))
   \<and> result_ok (scope_enforce (tool_scope name s p) require_claims (req\<lparr>rq_inner := CallTool name, rq_claims := Some c\<rparr>)) =
       (result_ok (scope_enforce p require_claims (req\<lparr>rq_inner := CallTool name, rq_claims := Some c\<rparr>))
        \<and> satisfies (sp_matcher p) [s] c)
   \<and> e_code (forbidden msg) = -32007"
proof -
  have run: "scope_enforce q require_claims r =
      (case rq_claims r of
         None \<Rightarrow> if require_claims then Inl (rq_id r, forbidden ''authenticated token claims are required'')
                  else Inr r
       | Some c \<Rightarrow>
           if satisfies (sp_matcher q) (sp_default q @ own_requirement q (rq_inner r)) c then Inr r
           else Inl (rq_id r, forbidden (oauth_error_display (projl (request_check q (rq_inner r) c)))))" for q r
    unfolding request_check_ok [symmetric]
    by (auto simp: scope_enforce_def split: option.split sum.split)
  have "sp_matcher (tool_scope name s p) = sp_matcher p" "sp_default (tool_scope name s p) = sp_default p"
    by (simp_all add: tool_scope_def)
  then have "result_ok (scope_enforce (tool_scope name s p) require_claims (req\<lparr>rq_inner := CallTool name, rq_claims := Some c\<rparr>)) =
       (result_ok (scope_enforce p require_claims (req\<lparr>rq_inner := CallTool name, rq_claims := Some c\<rparr>))
        \<and> satisfies (sp_matcher p) [s] c)"
    by (simp add: run satisfies_append own_requirement_tool_scope)
  then show ?thesis using run [of p req] by (simp add: forbidden_def)
qed


definition demo_claims :: token_claims where
  "demo_claims = \<lparr>tk_sub = None, tk_iss = None, tk_aud = Some (AudSingle ''r''), tk_exp = None,
     tk_scope = Some ''mcp:read'', tk_client_id = None, tk_extra = []\<rparr>"

definition demo_service :: oauth_service where
  "demo_service = \<lparr>os_resource = ''r'', os_metadata_url = None,
     os_policy = default_scope ''mcp:admin'' scope_policy_new, os_public_paths = []\<rparr>"


section \<open>The header cannot be broken out of\<close>

definition printable :: "char \<Rightarrow> bool" where
  "printable c \<longleftrightarrow> 32 \<le> (of_char c :: nat) \<and> (of_char c :: nat) < 127"

text \<open>
  A quoted string (RFC 9110) up to its closing quote, with the backslash pairs undone, and the rest.
\<close>

fun read_quoted :: "string \<Rightarrow> (string \<times> string) option" where
  "read_quoted [] = None"
| "read_quoted (c # cs) =
     (if c = QUOTE then Some ([], cs)
      else if c = CHR 0x5C then
        (case cs of [] \<Rightarrow> None | d # ds \<Rightarrow> map_option (\<lambda>(v, rest). (d # v, rest)) (read_quoted ds))
      else map_option (\<lambda>(v, rest). (c # v, rest)) (read_quoted cs))"

text \<open>The value a parameter transmits: printable ASCII is kept, the rest replaced.\<close>

definition sanitize :: "string \<Rightarrow> string" where
  "sanitize v = map (\<lambda>ch. case ch of [c] \<Rightarrow> if printable c then c
                               else if (of_char c :: nat) < 128 then CHR '' '' else CHR ''?''
                           | _ \<Rightarrow> CHR ''?'') (utf8_chars v)"

lemma quote_code: "c = QUOTE \<longleftrightarrow> (of_char c :: nat) = 34" "c = CHR 0x5C \<longleftrightarrow> (of_char c :: nat) = 92"
proof -
  have "of_char c = (of_char d :: nat) \<longleftrightarrow> c = d" for d by (metis char_of_char)
  from this [of QUOTE] this [of "CHR 0x5C"]
  show "c = QUOTE \<longleftrightarrow> (of_char c :: nat) = 34" "c = CHR 0x5C \<longleftrightarrow> (of_char c :: nat) = 92"
    by (auto simp: QUOTE_def)
qed

lemma auth_escape_printable: "list_all printable (auth_escape ch)"
  by (auto simp: auth_escape_def printable_def Let_def split: list.split)

lemma read_quoted_escape:
  "read_quoted (concat (map auth_escape chs) @ QUOTE # rest)
    = Some (map (\<lambda>ch. case ch of [c] \<Rightarrow> if printable c then c
                        else if (of_char c :: nat) < 128 then CHR '' '' else CHR ''?''
                    | _ \<Rightarrow> CHR ''?'') chs, rest)"
proof (induction chs)
  case (Cons ch chs)
  show ?case
  proof (cases "\<exists>c. ch = [c]")
    case False
    then have "auth_escape ch = ''?''" by (auto simp: auth_escape_def split: list.split)
    then show ?thesis using Cons False by (auto simp: QUOTE_def split: list.split)
  next
    case True
    then obtain c where ch: "ch = [c]" by blast
    consider "c = QUOTE \<or> c = CHR 0x5C" | "c \<noteq> QUOTE" "c \<noteq> CHR 0x5C" "printable c" | "\<not> printable c"
      by blast
    then show ?thesis
    proof cases
      case 1
      then have "auth_escape ch = [CHR 0x5C, c]" "printable c"
        by (auto simp: auth_escape_def ch quote_code printable_def QUOTE_def)
      then show ?thesis using Cons by (simp add: ch QUOTE_def)
    next
      case 2
      then have "auth_escape ch = [c]" by (auto simp: auth_escape_def ch quote_code printable_def Let_def)
      then show ?thesis using Cons 2 by (simp add: ch)
    next
      case 3
      then have "auth_escape ch = (if (of_char c :: nat) < 128 then '' '' else ''?'')"
        by (auto simp: auth_escape_def ch printable_def Let_def)
      then show ?thesis using Cons 3 by (simp add: ch QUOTE_def)
    qed
  qed
qed (simp add: QUOTE_def)

lemma join_with_printable:
  "list_all printable sep \<Longrightarrow> list_all (list_all printable) xs \<Longrightarrow> list_all printable (join_with sep xs)"
  by (induction sep xs rule: join_with.induct) auto

lemma auth_parameter_printable: "list_all printable name \<Longrightarrow> list_all printable (auth_parameter name v)"
proof -
  have "list_all printable (concat (map auth_escape chs))" for chs
    using auth_escape_printable by (induction chs) auto
  then show "list_all printable name \<Longrightarrow> ?thesis"
    by (simp add: auth_parameter_def QUOTE_def printable_def)
qed

text \<open>
  No header injection.  Whatever the error description, the scopes and the metadata URL contain,
  the \<open>WWW-Authenticate\<close> value is printable ASCII, so it is always a legal header value
  and the bare \<open>Bearer\<close> fallback is never sent; and a parameter reads back as one quoted string
  with its value made printable, leaving what follows it untouched.
\<close>

theorem www_authenticate_safe:
  assumes "\<And>s. list_all printable s \<Longrightarrow> header_ok s"
  shows "list_all printable (www_authenticate err url)
    \<and> he_www_authenticate (oauth_error_response header_ok err url) = www_authenticate err url
    \<and> take (length name + 2) (auth_parameter name v @ rest) = name @ ''='' @ [QUOTE]
    \<and> read_quoted (drop (length name + 2) (auth_parameter name v @ rest)) = Some (sanitize v, rest)"
proof -
  have param: "list_all printable (auth_parameter n w)"
    if "n \<in> {''resource_metadata'', ''error_description'', ''scope''}" for n w
    using that auth_parameter_printable [of n w] by (auto simp: printable_def)
  have url: "list_all (list_all printable) (case url of None \<Rightarrow> [] | Some u \<Rightarrow> [auth_parameter ''resource_metadata'' u])"
    using param by (simp split: option.split)
  have all: "list_all printable (www_authenticate err url)"
    using url by (cases err) (simp_all add: www_authenticate_def Let_def join_with_printable param printable_def QUOTE_def)
  have "auth_parameter name v @ rest =
      (name @ ''='' @ [QUOTE]) @ concat (map auth_escape (utf8_chars v)) @ QUOTE # rest"
    by (simp add: auth_parameter_def)
  then have "read_quoted (drop (length name + 2) (auth_parameter name v @ rest)) = Some (sanitize v, rest)"
    "take (length name + 2) (auth_parameter name v @ rest) = name @ ''='' @ [QUOTE]"
    by (simp_all add: read_quoted_escape sanitize_def)
  then show ?thesis using all assms by (simp add: oauth_error_response_def)
qed

lemma www_authenticate_safe_witness:
  "list_all printable (www_authenticate (InvalidToken ''a'') (Some ''b''))
   \<and> read_quoted (drop (length ''scope'' + 2) (auth_parameter ''scope'' ''x'' @ '' , y''))
       = Some (sanitize ''x'', '' , y'')"
  using www_authenticate_safe [where header_ok = "\<lambda>s. True" and err = "InvalidToken ''a''" and url = "Some ''b''"
      and name = "''scope''" and v = "''x''" and rest = "'' , y''", OF TrueI]
  by blast

end
