(* ===== verification/Jwks.thy ===== *)
theory Jwks
  imports OAuth
begin

text \<open>
  The JWKS validator of \<open>crates/tower-mcp/src/oauth/token.rs\<close>: the key cache, its refresh and
  its lookup, the lifetime taken from \<open>Cache-Control\<close>, and the keys taken from a JWK set.

  The HTTP fetch is an outcome given to the operation that performs it.  A decoding key is opaque
  (\<open>'k\<close>), and building one from a JWK is a parameter.  A map of keys is an association list
  whose order stands for the unspecified iteration order.  \<open>Instant\<close>s are in nanoseconds.
\<close>

section \<open>Keys\<close>

datatype algorithm = RS256 | RS384 | RS512 | ES256 | ES384 | PS256 | PS384 | PS512 | EdDSA

text \<open>The algorithms a JWK may name; \<open>KOther\<close> is any without a counterpart above.\<close>

datatype key_algorithm = KRS256 | KRS384 | KRS512 | KES256 | KES384 | KPS256 | KPS384 | KPS512 | KEdDSA | KOther

fun key_algorithm_to_algorithm :: "key_algorithm \<Rightarrow> algorithm option" where
  "key_algorithm_to_algorithm KRS256 = Some RS256"
| "key_algorithm_to_algorithm KRS384 = Some RS384"
| "key_algorithm_to_algorithm KRS512 = Some RS512"
| "key_algorithm_to_algorithm KES256 = Some ES256"
| "key_algorithm_to_algorithm KES384 = Some ES384"
| "key_algorithm_to_algorithm KPS256 = Some PS256"
| "key_algorithm_to_algorithm KPS384 = Some PS384"
| "key_algorithm_to_algorithm KPS512 = Some PS512"
| "key_algorithm_to_algorithm KEdDSA = Some EdDSA"
| "key_algorithm_to_algorithm KOther = None"

datatype elliptic_curve = P256 | P384 | OtherCurve
datatype key_params = RsaKey | EcKey elliptic_curve | OkpKey | OtherKey

fun infer_algorithm_from_key_type :: "key_params \<Rightarrow> algorithm option" where
  "infer_algorithm_from_key_type RsaKey = Some RS256"
| "infer_algorithm_from_key_type (EcKey P256) = Some ES256"
| "infer_algorithm_from_key_type (EcKey P384) = Some ES384"
| "infer_algorithm_from_key_type (EcKey OtherCurve) = None"
| "infer_algorithm_from_key_type OkpKey = Some EdDSA"
| "infer_algorithm_from_key_type OtherKey = None"

record jwk =
  jwk_alg :: "key_algorithm option"
  jwk_kid :: "string option"
  jwk_params :: key_params

record 'k cached_key =
  ck_key :: 'k
  ck_algorithm :: algorithm

datatype jwks_error = JwksFetch string | JwksParse string | JwksKeyNotFound "string option" | JwksInvalidKey string

type_synonym 'k key_map = "(string option \<times> 'k cached_key) list"

text \<open>
  \<open>from_jwk\<close> is \<open>DecodingKey::from_jwk\<close>; \<open>shown\<close> renders a key identifier with
  \<open>{:?}\<close>.
\<close>

definition jwk_algorithm :: "jwk \<Rightarrow> algorithm option" where
  "jwk_algorithm j =
     (case Option.bind (jwk_alg j) key_algorithm_to_algorithm of
        Some a \<Rightarrow> Some a
      | None \<Rightarrow> infer_algorithm_from_key_type (jwk_params j))"

fun parse_jwk_set ::
  "(jwk \<Rightarrow> string + 'k) \<Rightarrow> (string option \<Rightarrow> string) \<Rightarrow> jwk list \<Rightarrow> 'k key_map \<Rightarrow> jwks_error + 'k key_map" where
  "parse_jwk_set from_jwk shown [] keys = Inr keys"
| "parse_jwk_set from_jwk shown (j # js) keys =
     (case jwk_algorithm j of
        None \<Rightarrow> Inl (JwksInvalidKey (''cannot determine algorithm for key '' @ shown (jwk_kid j)))
      | Some a \<Rightarrow>
          (case from_jwk j of
             Inl e \<Rightarrow> Inl (JwksInvalidKey (''failed to create DecodingKey: '' @ e))
           | Inr k \<Rightarrow> parse_jwk_set from_jwk shown js
                        (AList.update (jwk_kid j) \<lparr>ck_key = k, ck_algorithm = a\<rparr> keys)))"

section \<open>Lifetimes\<close>

definition parse_u64 :: "string \<Rightarrow> nat option" where
  "parse_u64 s =
     (let ds = (case s of c # cs \<Rightarrow> if c = CHR ''+'' \<and> cs \<noteq> [] then cs else s | [] \<Rightarrow> []);
          digit = (\<lambda>c. 48 \<le> (of_char c :: nat) \<and> (of_char c :: nat) \<le> 57);
          n = foldl (\<lambda>a c. 10 * a + (of_char c - 48)) 0 ds
      in if ds = [] \<or> \<not> list_all digit ds then None else if U64_MAX < n then None else Some n)"

fun first_max_age :: "string list \<Rightarrow> nat option" where
  "first_max_age [] = None"
| "first_max_age (d # ds) =
     (case Option.bind (strip_prefix_ignore_ascii_case (trim_str d) ''max-age='') (\<lambda>v. parse_u64 (trim_str v)) of
        Some seconds \<Rightarrow> Some (seconds * 1000000000)
      | None \<Rightarrow> first_max_age ds)"

definition parse_cache_control_max_age :: "string option \<Rightarrow> nat option" where
  "parse_cache_control_max_age header = Option.bind header (\<lambda>h. first_max_age (split_on (CHR '','') h))"

section \<open>The cache\<close>

record 'k jwks_cache =
  jc_keys :: "'k key_map"
  jc_fetched_at :: nat
  jc_ttl :: nat

definition cache_is_expired :: "nat \<Rightarrow> 'k jwks_cache \<Rightarrow> bool" where
  "cache_is_expired now c \<longleftrightarrow> jc_ttl c < now - jc_fetched_at c"

definition lookup_key :: "'k key_map \<Rightarrow> string option \<Rightarrow> 'k cached_key option" where
  "lookup_key keys kid =
     (case map_of keys kid of
        Some k \<Rightarrow> Some k
      | None \<Rightarrow> if length keys = 1 then Some (snd (hd keys)) else None)"

text \<open>
  A fetch: the transport error, or the body (\<open>None\<close> if it is no JWK set) and the
  \<open>Cache-Control\<close> header.
\<close>

datatype fetch_outcome = FetchFailed string | Fetched "jwk list option" "string option"

definition fetch_and_parse_jwks ::
  "(jwk \<Rightarrow> string + 'k) \<Rightarrow> (string option \<Rightarrow> string) \<Rightarrow> nat \<Rightarrow> fetch_outcome \<Rightarrow> jwks_error + 'k key_map \<times> nat" where
  "fetch_and_parse_jwks from_jwk shown default_ttl out =
     (case out of
        FetchFailed e \<Rightarrow> Inl (JwksFetch e)
      | Fetched body header \<Rightarrow>
          (let ttl = (case parse_cache_control_max_age header of Some t \<Rightarrow> t | None \<Rightarrow> default_ttl)
           in case body of
                None \<Rightarrow> Inl (JwksParse ''invalid JWKS response'')
              | Some js \<Rightarrow> map_sum id (\<lambda>keys. (keys, ttl)) (parse_jwk_set from_jwk shown js [])))"

text \<open>
  \<open>refresh_cache\<close>, the fetch taking from \<open>now\<close> to \<open>later\<close>.  The last component
  says whether it fetched.
\<close>

definition refresh_cache ::
  "(nat \<Rightarrow> jwks_error + 'k key_map \<times> nat) \<Rightarrow> nat \<Rightarrow> nat \<Rightarrow> nat \<Rightarrow> 'k jwks_cache
   \<Rightarrow> 'k jwks_cache \<times> (jwks_error + unit) \<times> bool" where
  "refresh_cache fetch min_interval now later c =
     (if now - jc_fetched_at c < min_interval then (c, Inr (), False)
      else case fetch now of
        Inr (keys, ttl) \<Rightarrow> (\<lparr>jc_keys = keys, jc_fetched_at = later, jc_ttl = ttl\<rparr>, Inr (), True)
      | Inl e \<Rightarrow>
          if jc_keys c = [] then (c, Inl e, True) else (c\<lparr>jc_fetched_at := later\<rparr>, Inr (), True))"

definition get_key ::
  "(nat \<Rightarrow> jwks_error + 'k key_map \<times> nat) \<Rightarrow> nat \<Rightarrow> nat \<Rightarrow> nat \<Rightarrow> string option \<Rightarrow> 'k jwks_cache
   \<Rightarrow> 'k jwks_cache \<times> (jwks_error + 'k cached_key) \<times> bool" where
  "get_key fetch min_interval now later kid c =
     (case (if cache_is_expired now c then None else lookup_key (jc_keys c) kid) of
        Some k \<Rightarrow> (c, Inr k, False)
      | None \<Rightarrow>
          (case refresh_cache fetch min_interval now later c of
             (c1, Inl e, fetched) \<Rightarrow> (c1, Inl e, fetched)
           | (c1, Inr _, fetched) \<Rightarrow>
               (c1, (case lookup_key (jc_keys c1) kid of Some k \<Rightarrow> Inr k | None \<Rightarrow> Inl (JwksKeyNotFound kid)), fetched)))"

section \<open>Refreshing\<close>

lemma lookup_single: "length keys = 1 \<Longrightarrow> lookup_key keys kid = Some (snd (hd keys))"
  by (cases keys) (auto simp: lookup_key_def)

lemma get_key_fetched:
  "snd (snd (get_key fetch m now later kid c)) =
     ((cache_is_expired now c \<or> lookup_key (jc_keys c) kid = None) \<and> m \<le> now - jc_fetched_at c)"
  by (auto simp: get_key_def refresh_cache_def split: option.split sum.split prod.split if_splits)

text \<open>
  C37: when keys are fetched, and which key is used.  A lookup fetches exactly when the cache is past
  its lifetime or has no key for the identifier, and the minimum interval has passed since the last
  fetch; otherwise it changes nothing.  A successful fetch replaces the keys, a failing one keeps them;
  unless no keys are left, no lookup of any identifier fetches again within the interval.  And a cache
  that holds a single key answers every identifier with it, without a fetch, until it expires.
\<close>

theorem jwks_refresh:
  assumes run: "get_key fetch m now later kid c = (c', res, fetched)"
  shows "fetched = ((cache_is_expired now c \<or> lookup_key (jc_keys c) kid = None) \<and> m \<le> now - jc_fetched_at c)
    \<and> (if \<not> fetched then c' = c
       else jc_keys c' = (case fetch now of Inr (keys, ttl) \<Rightarrow> keys | Inl e \<Rightarrow> jc_keys c)
         \<and> (jc_keys c' \<noteq> [] \<and> later \<le> now' \<and> now' < later + m \<longrightarrow> \<not> snd (snd (get_key fetch' m now' later' kid' c'))))
    \<and> (length (jc_keys c) = 1 \<and> \<not> cache_is_expired now c \<longrightarrow> res = Inr (snd (hd (jc_keys c))) \<and> \<not> fetched)"
proof -
  have f: "fetched = ((cache_is_expired now c \<or> lookup_key (jc_keys c) kid = None) \<and> m \<le> now - jc_fetched_at c)"
    using get_key_fetched [of fetch m now later kid c] run by simp
  have kept: "c' = c" if "\<not> fetched"
    using that run by (auto simp: get_key_def refresh_cache_def split: option.splits sum.splits prod.splits if_splits)
  have keys: "jc_keys c' = (case fetch now of Inr (keys, ttl) \<Rightarrow> keys | Inl e \<Rightarrow> jc_keys c)
      \<and> (jc_keys c' \<noteq> [] \<longrightarrow> jc_fetched_at c' = later)" if "fetched"
    using that run by (auto simp: get_key_def refresh_cache_def split: option.splits sum.splits prod.splits if_splits)
  have spaced: "\<not> snd (snd (get_key fetch' m now' later' kid' c'))"
    if "jc_fetched_at c' = later" "later \<le> now'" "now' < later + m"
    using that by (auto simp: get_key_fetched)
  have single: "res = Inr (snd (hd (jc_keys c))) \<and> \<not> fetched"
    if "length (jc_keys c) = 1" "\<not> cache_is_expired now c"
    using run that lookup_single [OF that(1)] by (auto simp: get_key_def)
  have "if \<not> fetched then c' = c
       else jc_keys c' = (case fetch now of Inr (keys, ttl) \<Rightarrow> keys | Inl e \<Rightarrow> jc_keys c)
         \<and> (jc_keys c' \<noteq> [] \<and> later \<le> now' \<and> now' < later + m \<longrightarrow>
              \<not> snd (snd (get_key fetch' m now' later' kid' c')))"
    using kept keys spaced by (cases fetched) simp_all
  then show ?thesis using f single by blast
qed

definition demo_jwks :: "nat jwks_cache" where
  "demo_jwks = \<lparr>jc_keys = [(Some ''old'', \<lparr>ck_key = 7, ck_algorithm = RS256\<rparr>)], jc_fetched_at = 0, jc_ttl = 300\<rparr>"

lemma jwks_refresh_witness:
  "\<exists>c' res fetched. get_key (\<lambda>now. Inl (JwksFetch ''down'')) 10 100 101 (Some ''rotated'') demo_jwks = (c', res, fetched)
     \<and> res = Inr \<lparr>ck_key = 7, ck_algorithm = RS256\<rparr> \<and> \<not> fetched"
proof -
  obtain c' res fetched where
    run: "get_key (\<lambda>now. Inl (JwksFetch ''down'')) 10 100 101 (Some ''rotated'') demo_jwks = (c', res, fetched)"
    by (metis prod_cases3)
  have "length (jc_keys demo_jwks) = 1" "\<not> cache_is_expired 100 demo_jwks"
    by (simp_all add: demo_jwks_def cache_is_expired_def)
  then have "res = Inr (snd (hd (jc_keys demo_jwks))) \<and> \<not> fetched" using jwks_refresh [OF run] by blast
  then show ?thesis using run by (auto simp: demo_jwks_def)
qed

end
