(* ===== verification/LiveWait.thy ===== *)
theory LiveWait
  imports TaskOps "HOL-Library.Code_Target_Nat"
begin

text \<open>
  A live handler that waits for its client's answers: \<open>park_input\<close> and
  \<open>PendingInput::wait\<close> of \<open>crates/tower-mcp/src/tool/task.rs\<close>, as steps interleaved
  with the updates that answer, the wake-ups that follow them, cancellation and expiry.

  The state is what the handler shares with the rest: the outstanding requests and responses of its
  task in the store (\<open>None\<close> when the task is gone), the permit of its \<open>Notify\<close> and
  its cancellation.  \<open>li_committed\<close> counts updates that answered the last request and have not
  called \<open>wake_live_task\<close> yet: the notification of subscribers lies between the two.  A handler
  holds one \<open>PendingInput\<close> at a time.
\<close>

record live_input =
  li_outstanding :: "input_requests option"
  li_responses :: input_responses
  li_ready :: bool
  li_cancelled :: bool
  li_committed :: nat

datatype wait_error =
  WaitCancelled
| WaitStore task_store_error
| WaitDisappeared
| WaitAnswersGone

section \<open>Parking\<close>

datatype park_error =
  ParkNotLive
| ParkEmpty
| ParkCancelled
| ParkStore task_store_error
| ParkTerminal

text \<open>
  \<open>park_input_inner\<close> up to the store call, and the use it makes of the call's result; the value is
  the keys it asked for.
\<close>

definition park_precheck :: "bool \<Rightarrow> bool \<Rightarrow> input_requests \<Rightarrow> park_error + string list" where
  "park_precheck is_live cancelled requests =
     (if \<not> is_live then Inl ParkNotLive
      else if requests = [] then Inl ParkEmpty
      else if cancelled then Inl ParkCancelled
      else Inr (map fst requests))"

definition park_result :: "string list \<Rightarrow> task_store_error + bool \<Rightarrow> park_error + string list" where
  "park_result asked r =
     (case r of
        Inl e \<Rightarrow> Inl (ParkStore e)
      | Inr accepted \<Rightarrow> if \<not> accepted then Inl ParkTerminal else Inr asked)"

text \<open>\<open>TaskContext::working\<close>: the use it makes of \<open>set_status\<close>.\<close>

datatype working_error = WorkNotLive | WorkStore task_store_error | WorkTerminal

definition working_result :: "bool \<Rightarrow> task_store_error + bool \<Rightarrow> working_error + unit" where
  "working_result is_live r =
     (if \<not> is_live then Inl WorkNotLive
      else case r of Inl e \<Rightarrow> Inl (WorkStore e) | Inr updated \<Rightarrow> if updated then Inr () else Inl WorkTerminal)"

section \<open>Waiting\<close>

text \<open>
  Where \<open>wait\<close> stands: before the first check, at the top of the loop (its next action reads the
  store), in the \<open>select!\<close>, before it collects the responses, returned.
\<close>

datatype wait_phase =
  WaitEntry
| WaitTop
| WaitSelect
| WaitCollect
| WaitReturned "wait_error + input_responses"

text \<open>
  One step of the handler.  \<open>fail\<close> is a failure of the store at this read; \<open>stop\<close> is the
  choice of the \<open>select!\<close> when both branches are ready.
\<close>

definition wait_tick ::
  "string list \<Rightarrow> task_store_error option \<Rightarrow> bool \<Rightarrow> live_input \<Rightarrow> wait_phase \<Rightarrow> live_input \<times> wait_phase" where
  "wait_tick asked fail stop st ph =
     (case ph of
        WaitEntry \<Rightarrow>
          (st, if li_cancelled st then WaitReturned (Inl WaitCancelled) else WaitTop)
      | WaitTop \<Rightarrow>
          (st, case fail of
             Some e \<Rightarrow> WaitReturned (Inl (WaitStore e))
           | None \<Rightarrow>
               (case li_outstanding st of
                  None \<Rightarrow> WaitReturned (Inl (if li_cancelled st then WaitCancelled else WaitDisappeared))
                | Some outstanding \<Rightarrow>
                    if \<not> list_ex (\<lambda>kv. fst kv \<in> set asked) outstanding then WaitCollect else WaitSelect))
      | WaitSelect \<Rightarrow>
          if li_cancelled st \<and> (stop \<or> \<not> li_ready st) then (st, WaitReturned (Inl WaitCancelled))
          else if li_ready st then (st\<lparr>li_ready := False\<rparr>, WaitTop)
          else (st, WaitSelect)
      | WaitCollect \<Rightarrow>
          (st, case fail of
             Some e \<Rightarrow> WaitReturned (Inl (WaitStore e))
           | None \<Rightarrow>
               (case li_outstanding st of
                  None \<Rightarrow> WaitReturned (Inl (if li_cancelled st then WaitCancelled else WaitAnswersGone))
                | Some _ \<Rightarrow> WaitReturned (Inr (filter (\<lambda>kv. fst kv \<in> set asked) (li_responses st)))))
      | WaitReturned r \<Rightarrow> (st, WaitReturned r))"

section \<open>The other parties\<close>

text \<open>
  An update: the store takes the responses to outstanding keys (theory \<open>TaskOps\<close>); when it
  answered something and nothing is left, it will wake the handler.
\<close>

definition answer_input :: "input_responses \<Rightarrow> live_input \<Rightarrow> live_input" where
  "answer_input rs st =
     (case li_outstanding st of
        None \<Rightarrow> st
      | Some outstanding \<Rightarrow>
          (let accepted = filter (\<lambda>kv. fst kv \<in> fst ` set outstanding) rs;
               left = filter (\<lambda>kv. fst kv \<notin> fst ` set rs) outstanding
           in st\<lparr>li_outstanding := Some left,
                 li_responses := fold (\<lambda>kv. AList.update (fst kv) (snd kv)) accepted (li_responses st),
                 li_committed := (if accepted \<noteq> [] \<and> left = [] then li_committed st + 1
                                  else li_committed st)\<rparr>))"

inductive live_input_step :: "string list \<Rightarrow> live_input \<times> wait_phase \<Rightarrow> live_input \<times> wait_phase \<Rightarrow> bool"
  for asked where
  handler: "live_input_step asked (st, ph) (wait_tick asked fail stop st ph)"
| answer: "live_input_step asked (st, ph) (answer_input rs st, ph)"
| wake: "li_committed st = Suc n \<Longrightarrow> live_input_step asked (st, ph) (st\<lparr>li_committed := n, li_ready := True\<rparr>, ph)"
| cancel: "live_input_step asked (st, ph) (st\<lparr>li_cancelled := True\<rparr>, ph)"
| expire: "live_input_step asked (st, ph) (st\<lparr>li_outstanding := None, li_cancelled := True\<rparr>, ph)"

text \<open>
  The handler starts to wait after its park has committed: the outstanding requests are those it asked.
  A permit may be left from before.
\<close>

inductive live_input_reach :: "string list \<Rightarrow> live_input \<times> wait_phase \<Rightarrow> bool" for asked where
  start: "map fst requests = asked \<Longrightarrow> requests \<noteq> [] \<Longrightarrow>
     live_input_reach asked (\<lparr>li_outstanding = Some requests, li_responses = earlier, li_ready = permit,
       li_cancelled = False, li_committed = 0\<rparr>, WaitEntry)"
| step: "live_input_reach asked s \<Longrightarrow> live_input_step asked s s' \<Longrightarrow> live_input_reach asked s'"

definition live_input_ok :: "string list \<Rightarrow> live_input \<times> wait_phase \<Rightarrow> bool" where
  "live_input_ok asked s \<longleftrightarrow> (case s of (st, ph) \<Rightarrow>
     (\<forall>outstanding. li_outstanding st = Some outstanding \<longrightarrow>
         fst ` set outstanding \<subseteq> set asked
       \<and> set asked \<subseteq> fst ` set outstanding \<union> fst ` set (li_responses st)
       \<and> (outstanding = [] \<and> ph = WaitSelect \<longrightarrow> li_ready st \<or> 0 < li_committed st)
       \<and> (ph = WaitCollect \<longrightarrow> outstanding = []))
   \<and> (li_outstanding st = None \<longrightarrow> li_cancelled st)
   \<and> (\<forall>rs. ph = WaitReturned (Inr rs) \<longrightarrow> fst ` set rs = set asked)
   \<and> ph \<noteq> WaitReturned (Inl WaitDisappeared) \<and> ph \<noteq> WaitReturned (Inl WaitAnswersGone))"

lemma keys_fold_update:
  "fst ` set (fold (\<lambda>kv. AList.update (fst kv) (snd kv)) kvs rs) = fst ` set kvs \<union> fst ` set rs"
  by (induction kvs arbitrary: rs) (auto simp: AList.dom_update)

lemma tick_ok:
  assumes "live_input_ok asked (st, ph)"
  shows "live_input_ok asked (wait_tick asked fail stop st ph)"
proof (cases ph)
  case WaitTop
  have "outstanding = []" if "li_outstanding st = Some outstanding"
    "\<not> list_ex (\<lambda>kv. fst kv \<in> set asked) outstanding" for outstanding
    using assms that by (cases outstanding) (auto simp: live_input_ok_def)
  then show ?thesis
    using assms WaitTop
    by (fastforce simp: live_input_ok_def wait_tick_def split: option.split)
next
  case WaitCollect
  have "fst ` set (filter (\<lambda>kv. fst kv \<in> set asked) (li_responses st)) = set asked"
    if "li_outstanding st = Some outstanding" for outstanding
    using assms that WaitCollect by (auto simp: live_input_ok_def)
  then show ?thesis
    using assms WaitCollect by (auto simp: live_input_ok_def wait_tick_def split: option.split)
qed (use assms in \<open>auto simp: live_input_ok_def wait_tick_def\<close>)

lemma answer_ok:
  assumes "live_input_ok asked (st, ph)"
  shows "live_input_ok asked (answer_input rs st, ph)"
proof (cases "li_outstanding st")
  case None
  then show ?thesis using assms by (simp add: answer_input_def)
next
  case (Some outstanding)
  let ?acc = "filter (\<lambda>kv. fst kv \<in> fst ` set outstanding) rs"
  let ?left = "filter (\<lambda>kv. fst kv \<notin> fst ` set rs) outstanding"
  have sub: "fst ` set ?left \<subseteq> set asked" using assms Some by (auto simp: live_input_ok_def)
  have "set asked \<subseteq> fst ` set outstanding \<union> fst ` set (li_responses st)"
    using assms Some by (simp add: live_input_ok_def)
  moreover have "fst ` set outstanding \<subseteq> fst ` set ?left \<union> fst ` set ?acc" by force
  ultimately have cov: "set asked \<subseteq> fst ` set ?left \<union> (fst ` set ?acc \<union> fst ` set (li_responses st))" by blast
  have wake: "?acc \<noteq> [] \<or> outstanding = []" if "?left = []"
  proof (cases outstanding)
    case (Cons q qs)
    then have "fst q \<in> fst ` set rs" using that by (simp split: if_splits)
    then obtain kv where "kv \<in> set rs" "fst kv = fst q" by force
    then have "kv \<in> set ?acc" using Cons by simp
    then show ?thesis by (metis empty_iff list.set(1))
  qed simp
  have col: "?left = []" if "ph = WaitCollect"
    using assms Some that by (simp add: live_input_ok_def)
  show ?thesis
    using assms Some sub cov wake col
    by (auto simp: live_input_ok_def answer_input_def keys_fold_update Let_def)
qed

lemma live_input_reach_ok: "live_input_reach asked s \<Longrightarrow> live_input_ok asked s"
proof (induction rule: live_input_reach.induct)
  case (start requests permit earlier)
  from start(1) have "set asked = fst ` set requests" by (metis set_map)
  then show ?case using start by (simp add: live_input_ok_def)
next
  case (step s s')
  from step.hyps(2) step.IH show ?case
  proof cases
    case (handler st ph fail stop)
    then show ?thesis using step.IH tick_ok by simp
  next
    case (answer st ph rs)
    then show ?thesis using step.IH answer_ok by simp
  qed (auto simp: live_input_ok_def)
qed

text \<open>
  A waiting handler misses no answer and gets all of its own.  In every interleaving, a handler
  suspended in its \<open>select!\<close> either still has a question of its own outstanding, or can go on
  now, or an update that answered the last question is about to wake it; when the wait returns
  responses, they are for exactly the keys it asked; and it ends in the error of a vanished task only
  when the store itself fails, because a task that is gone was cancelled.
\<close>

theorem live_wait_misses_nothing:
  assumes "live_input_reach asked (st, ph)"
  shows "(ph = WaitSelect \<longrightarrow>
        (\<exists>outstanding. li_outstanding st = Some outstanding \<and> fst ` set outstanding \<inter> set asked \<noteq> {})
      \<or> (\<forall>fail stop. snd (wait_tick asked fail stop st ph) \<noteq> WaitSelect)
      \<or> (\<exists>n. li_committed st = Suc n
            \<and> (\<forall>fail stop. snd (wait_tick asked fail stop (st\<lparr>li_committed := n, li_ready := True\<rparr>) ph) \<noteq> WaitSelect)))
    \<and> (\<forall>rs. ph = WaitReturned (Inr rs) \<longrightarrow> fst ` set rs = set asked)
    \<and> ph \<noteq> WaitReturned (Inl WaitDisappeared) \<and> ph \<noteq> WaitReturned (Inl WaitAnswersGone)"
proof -
  have ok: "live_input_ok asked (st, ph)" by (rule live_input_reach_ok [OF assms])
  have "(\<exists>outstanding. li_outstanding st = Some outstanding \<and> fst ` set outstanding \<inter> set asked \<noteq> {})
      \<or> (li_ready st \<or> li_cancelled st) \<or> (\<exists>n. li_committed st = Suc n)" if "ph = WaitSelect"
  proof (cases "li_outstanding st")
    case None
    then show ?thesis using ok by (simp add: live_input_ok_def)
  next
    case (Some outstanding)
    have "fst ` set outstanding \<subseteq> set asked" using ok Some by (simp add: live_input_ok_def)
    moreover have "li_ready st \<or> 0 < li_committed st" if "outstanding = []"
      using ok Some that \<open>ph = WaitSelect\<close> by (simp add: live_input_ok_def)
    ultimately show ?thesis using Some by (cases outstanding) (auto simp: gr0_conv_Suc)
  qed
  moreover have "snd (wait_tick asked fail stop v WaitSelect) \<noteq> WaitSelect" if "li_ready v \<or> li_cancelled v"
    for fail stop v
    using that by (auto simp: wait_tick_def)
  ultimately show ?thesis using ok by (auto simp: live_input_ok_def)
qed

lemma live_wait_misses_nothing_witness:
  "\<exists>st rs. live_input_reach [''k''] (st, WaitReturned (Inr rs)) \<and> fst ` set rs = {''k''}"
proof -
  let ?s0 = "\<lparr>li_outstanding = Some [(''k'', Encodes JNull)], li_responses = [], li_ready = False,
      li_cancelled = False, li_committed = 0\<rparr>"
  let ?s1 = "answer_input [(''k'', Encodes JNull)] ?s0"
  have r0: "live_input_reach [''k''] (?s0, WaitEntry)" by (rule live_input_reach.start) simp_all
  have r1: "live_input_reach [''k''] (?s1, WaitEntry)"
    by (rule live_input_reach.step [OF r0 live_input_step.answer])
  have t: "wait_tick [''k''] None False ?s1 WaitEntry = (?s1, WaitTop)"
    "wait_tick [''k''] None False ?s1 WaitTop = (?s1, WaitCollect)"
    "wait_tick [''k''] None False ?s1 WaitCollect = (?s1, WaitReturned (Inr [(''k'', Encodes JNull)]))"
    by code_simp+
  have r2: "live_input_reach [''k''] (?s1, WaitTop)"
    using live_input_reach.step [OF r1 live_input_step.handler] t(1) by metis
  have r3: "live_input_reach [''k''] (?s1, WaitCollect)"
    using live_input_reach.step [OF r2 live_input_step.handler] t(2) by metis
  have r4: "live_input_reach [''k''] (?s1, WaitReturned (Inr [(''k'', Encodes JNull)]))"
    using live_input_reach.step [OF r3 live_input_step.handler] t(3) by metis
  show ?thesis using live_wait_misses_nothing [OF r4] r4 by fastforce
qed

end
