(* ===== verification/Capabilities.thy ===== *)
theory Capabilities
  imports OAuth Payload
begin

text \<open>
  What a request says about its client: the metadata key grammar of
  \<open>crates/tower-mcp-types/src/protocol.rs\<close>, the client capabilities with the two checks
  the router makes on them (\<open>router/capabilities.rs\<close>, \<open>validate_input_required_result\<close> of
  \<open>router/task_ops.rs\<close>), and the principal a request is attributed to.

  A marker struct without fields (\<open>ElicitationFormCapability {}\<close>) under \<open>Option\<close> is a
  truth value.  \<open>Option<HashMap>\<close> fields are association lists in iteration order.
\<close>

fun json_as_object :: "json \<Rightarrow> (string \<times> json) list option" where
  "json_as_object (JObj kvs) = Some kvs"
| "json_as_object _ = None"

section \<open>Metadata keys\<close>

definition is_ascii_alphabetic :: "char \<Rightarrow> bool" where
  "is_ascii_alphabetic c \<longleftrightarrow>
     (let n = (of_char c :: nat) in 65 \<le> n \<and> n \<le> 90 \<or> 97 \<le> n \<and> n \<le> 122)"

definition is_ascii_alphanumeric :: "char \<Rightarrow> bool" where
  "is_ascii_alphanumeric c \<longleftrightarrow>
     is_ascii_alphabetic c \<or> (let n = (of_char c :: nat) in 48 \<le> n \<and> n \<le> 57)"

datatype meta_validation_error =
  ExpectedObject
| MissingExtensionPrefix string
| InvalidPrefix string
| InvalidName string
| InvalidExtensionSettings string

text \<open>\<open>Display\<close> of a metadata error; \<open>dbg\<close> is the quoted form of a key.\<close>

fun meta_error_display :: "(string \<Rightarrow> string) \<Rightarrow> meta_validation_error \<Rightarrow> string" where
  "meta_error_display dbg ExpectedObject = ''_meta must be a JSON object''"
| "meta_error_display dbg (MissingExtensionPrefix k) = ''extension identifier '' @ dbg k @ '' requires a prefix''"
| "meta_error_display dbg (InvalidPrefix k) = ''metadata key '' @ dbg k @ '' has an invalid prefix''"
| "meta_error_display dbg (InvalidName k) = ''metadata key '' @ dbg k @ '' has an invalid name''"
| "meta_error_display dbg (InvalidExtensionSettings k) = ''extension '' @ dbg k @ '' settings must be a JSON object''"

text \<open>\<open>str::split_once\<close>\<close>

fun split_once :: "char \<Rightarrow> string \<Rightarrow> (string \<times> string) option" where
  "split_once c [] = None"
| "split_once c (x # xs) =
     (if x = c then Some ([], xs) else map_option (\<lambda>(a, b). (x # a, b)) (split_once c xs))"

definition bad_label :: "string \<Rightarrow> bool" where
  "bad_label l \<longleftrightarrow> l = [] \<or> \<not> is_ascii_alphabetic (hd l) \<or> \<not> is_ascii_alphanumeric (last l)
     \<or> \<not> list_all (\<lambda>c. is_ascii_alphanumeric c \<or> c = CHR ''-'') l"

definition bad_name :: "string \<Rightarrow> bool" where
  "bad_name n \<longleftrightarrow> n \<noteq> [] \<and> (\<not> is_ascii_alphanumeric (hd n) \<or> \<not> is_ascii_alphanumeric (last n)
     \<or> \<not> list_all (\<lambda>c. is_ascii_alphanumeric c \<or> c \<in> set ''-_.'') n)"

definition validate_meta_key :: "string \<Rightarrow> meta_validation_error + unit" where
  "validate_meta_key key =
     (let (prefix, name) = (case split_once (CHR ''/'') key of
            Some (p, n) \<Rightarrow> (Some p, n) | None \<Rightarrow> (None, key))
      in if (case prefix of None \<Rightarrow> False
             | Some p \<Rightarrow> p = [] \<or> list_ex bad_label (split_on (CHR ''.'') p))
         then Inl (InvalidPrefix key)
         else if bad_name name then Inl (InvalidName key)
         else Inr ())"

definition validate_extension_identifier :: "string \<Rightarrow> meta_validation_error + unit" where
  "validate_extension_identifier i =
     (if CHR ''/'' \<notin> set i then Inl (MissingExtensionPrefix i) else validate_meta_key i)"

text \<open>\<open>try_for_each\<close> and \<open>?\<close> in a loop: the first error ends it.\<close>

fun try_each :: "('a \<Rightarrow> 'e + unit) \<Rightarrow> 'a list \<Rightarrow> 'e + unit" where
  "try_each f [] = Inr ()"
| "try_each f (x # xs) = result_bind (f x) (\<lambda>_. try_each f xs)"

fun validate_meta_object :: "json \<Rightarrow> meta_validation_error + unit" where
  "validate_meta_object (JObj kvs) = try_each validate_meta_key (map fst kvs)"
| "validate_meta_object _ = Inl ExpectedObject"

definition validate_extensions :: "(string \<times> json) list \<Rightarrow> meta_validation_error + unit" where
  "validate_extensions exts = try_each (\<lambda>(i, settings).
     result_bind (validate_extension_identifier i) (\<lambda>_.
       if json_is_object settings then Inr () else Inl (InvalidExtensionSettings i))) exts"

text \<open>
  \<open>meta_object_serde\<close> on a value: what a \<open>_meta\<close> field lets out, and what it takes in
  before the typed part is read.
\<close>

definition meta_serialize :: "json option \<Rightarrow> meta_validation_error + json option" where
  "meta_serialize m =
     (case m of None \<Rightarrow> Inr None | Some v \<Rightarrow> result_bind (validate_meta_object v) (\<lambda>_. Inr (Some v)))"

definition meta_deserialize :: "json \<Rightarrow> meta_validation_error + json option" where
  "meta_deserialize v =
     (case v of
        JNull \<Rightarrow> Inr None
      | JObj kvs \<Rightarrow> Inr (Some (JObj (filter (\<lambda>kv. result_ok (validate_meta_key (fst kv))) kvs)))
      | _ \<Rightarrow> Inl ExpectedObject)"

subsection \<open>The grammar\<close>

text \<open>The documented shape of a key: an optional dotted prefix ending in a slash, and a name.\<close>

definition label_grammar :: "string \<Rightarrow> bool" where
  "label_grammar l \<longleftrightarrow> (\<exists>c. l = [c] \<and> is_ascii_alphabetic c)
     \<or> (\<exists>c mid d. l = c # mid @ [d] \<and> is_ascii_alphabetic c \<and> is_ascii_alphanumeric d
          \<and> (\<forall>x\<in>set mid. is_ascii_alphanumeric x \<or> x = CHR ''-''))"

definition name_grammar :: "string \<Rightarrow> bool" where
  "name_grammar n \<longleftrightarrow> n = [] \<or> (\<exists>c. n = [c] \<and> is_ascii_alphanumeric c)
     \<or> (\<exists>c mid d. n = c # mid @ [d] \<and> is_ascii_alphanumeric c \<and> is_ascii_alphanumeric d
          \<and> (\<forall>x\<in>set mid. is_ascii_alphanumeric x \<or> x \<in> set ''-_.''))"

fun join_dots :: "string list \<Rightarrow> string" where
  "join_dots [] = []"
| "join_dots [l] = l"
| "join_dots (l # ls) = l @ CHR ''.'' # join_dots ls"

lemma alphabetic_alphanumeric: "is_ascii_alphabetic c \<Longrightarrow> is_ascii_alphanumeric c"
  by (simp add: is_ascii_alphanumeric_def)

lemma list_ends: "l \<noteq> [] \<Longrightarrow> (\<exists>c. l = [c]) \<or> (\<exists>c mid d. l = c # mid @ [d])"
  by (metis append_Nil list.exhaust rev_exhaust)

lemma bad_label_iff: "bad_label l \<longleftrightarrow> \<not> label_grammar l"
proof (cases "l = []")
  case False
  from list_ends [OF this] show ?thesis
    by (auto simp: bad_label_def label_grammar_def list_all_iff alphabetic_alphanumeric)
qed (simp add: bad_label_def label_grammar_def)

lemma name_grammar_ends:
  "name_grammar (c # mid @ [d]) \<longleftrightarrow> is_ascii_alphanumeric c \<and> is_ascii_alphanumeric d
     \<and> (\<forall>x\<in>set mid. is_ascii_alphanumeric x \<or> x \<in> set ''-_.'')"
  by (simp add: name_grammar_def)

lemma bad_name_iff: "bad_name n \<longleftrightarrow> \<not> name_grammar n"
proof (cases "n = []")
  case False
  from list_ends [OF this] consider c where "n = [c]" | c mid d where "n = c # mid @ [d]" by blast
  then show ?thesis
  proof cases
    case 1
    then show ?thesis by (auto simp: bad_name_def name_grammar_def)
  next
    case 2
    then show ?thesis by (auto simp: bad_name_def name_grammar_ends list_all_iff)
  qed
qed (simp add: bad_name_def name_grammar_def)

lemma split_once_None_iff: "split_once c s = None \<longleftrightarrow> c \<notin> set s"
  by (induction s) auto

lemma split_once_Some_iff: "split_once c s = Some (a, b) \<longleftrightarrow> s = a @ c # b \<and> c \<notin> set a"
proof (induction s arbitrary: a)
  case (Cons x xs)
  show ?case
  proof (cases a)
    case Nil
    then show ?thesis by (cases "split_once c xs") auto
  next
    case (Cons y ys)
    then show ?thesis using Cons.IH [of ys] by (cases "split_once c xs") auto
  qed
qed simp

lemma join_split_on: "join_dots (split_on (CHR ''.'') s) = s"
proof (induction s)
  case (Cons x xs)
  then show ?case
    by (cases "split_on (CHR ''.'') xs" rule: join_dots.cases) (auto split: list.splits)
qed simp

lemma split_on_no_sep: "c \<notin> set l \<Longrightarrow> split_on c l = [l]"
  by (induction l) auto

lemma split_on_append: "c \<notin> set l \<Longrightarrow> split_on c (l @ c # r) = l # split_on c r"
  by (induction l) auto

lemma split_join_dots:
  "ls \<noteq> [] \<Longrightarrow> \<forall>l\<in>set ls. CHR ''.'' \<notin> set l \<Longrightarrow> split_on (CHR ''.'') (join_dots ls) = ls"
  by (induction ls rule: join_dots.induct) (simp_all add: split_on_no_sep split_on_append)

lemma ascii_dot_slash [simp]:
  "\<not> is_ascii_alphanumeric (CHR ''.'')" "\<not> is_ascii_alphanumeric (CHR ''/'')"
  "\<not> is_ascii_alphabetic (CHR ''.'')" "\<not> is_ascii_alphabetic (CHR ''/'')"
  by (simp_all add: is_ascii_alphanumeric_def is_ascii_alphabetic_def)

lemma label_grammar_chars: "label_grammar l \<Longrightarrow> l \<noteq> [] \<and> CHR ''.'' \<notin> set l \<and> CHR ''/'' \<notin> set l"
  unfolding label_grammar_def using ascii_dot_slash by fastforce

lemma name_grammar_chars: "name_grammar n \<Longrightarrow> CHR ''/'' \<notin> set n"
  unfolding name_grammar_def using ascii_dot_slash by fastforce

lemma set_join_dots: "set (join_dots ls) \<subseteq> insert (CHR ''.'') (\<Union>l\<in>set ls. set l)"
  by (induction ls rule: join_dots.induct) auto

lemma split_on_not_Nil: "split_on c s \<noteq> []"
  by (induction s) (auto split: list.splits)

lemma join_dots_eq_Nil: "ls \<noteq> [] \<Longrightarrow> \<forall>l\<in>set ls. l \<noteq> [] \<Longrightarrow> join_dots ls \<noteq> []"
  by (induction ls rule: join_dots.induct) auto

lemma plain_key_ok:
  "CHR ''/'' \<notin> set key \<Longrightarrow> result_ok (validate_meta_key key) \<longleftrightarrow> name_grammar key"
  by (simp add: validate_meta_key_def split_once_None_iff [THEN iffD2] bad_name_iff result_ok_iff)

lemma prefixed_key_ok:
  "CHR ''/'' \<notin> set p \<Longrightarrow> result_ok (validate_meta_key (p @ CHR ''/'' # n)) \<longleftrightarrow>
     p \<noteq> [] \<and> (\<forall>l\<in>set (split_on (CHR ''.'') p). label_grammar l) \<and> name_grammar n"
  using split_once_Some_iff [of "CHR ''/''" "p @ CHR ''/'' # n" p n]
  by (simp add: validate_meta_key_def bad_name_iff result_ok_iff list_ex_iff bad_label_iff)

lemma dotted_labels:
  assumes "labels \<noteq> []" and "\<forall>l\<in>set labels. label_grammar l"
  shows "CHR ''/'' \<notin> set (join_dots labels) \<and> join_dots labels \<noteq> []
    \<and> split_on (CHR ''.'') (join_dots labels) = labels"
proof -
  have no: "\<forall>l\<in>set labels. l \<noteq> [] \<and> CHR ''.'' \<notin> set l \<and> CHR ''/'' \<notin> set l"
    using assms(2) label_grammar_chars by blast
  then have "CHR ''/'' \<notin> set (join_dots labels)" using set_join_dots [of labels] by auto
  then show ?thesis using no assms(1) join_dots_eq_Nil split_join_dots by blast
qed

lemma slash_split: "CHR ''/'' \<in> set key \<Longrightarrow> \<exists>p n. key = p @ CHR ''/'' # n \<and> CHR ''/'' \<notin> set p"
  by (meson split_list_first)

lemma try_each_ok: "try_each f xs = Inr () \<longleftrightarrow> (\<forall>x\<in>set xs. f x = Inr ())"
  by (induction xs) (auto simp: result_bind_Inr_iff)

text \<open>
  The key validator accepts exactly the documented grammar: a name, or a prefix of one or more
  dot-separated labels, a slash and a name; and whatever \<open>_meta\<close> object a peer sends, the part
  of it that is kept can be sent on.
\<close>

theorem meta_key_grammar:
  "(result_ok (validate_meta_key key) \<longleftrightarrow>
      name_grammar key
    \<or> (\<exists>labels name. labels \<noteq> [] \<and> (\<forall>l\<in>set labels. label_grammar l) \<and> name_grammar name
         \<and> key = join_dots labels @ CHR ''/'' # name))
   \<and> (meta_deserialize v = Inr m \<longrightarrow> meta_serialize m = Inr m)"
proof
  show "result_ok (validate_meta_key key) \<longleftrightarrow>
      name_grammar key
    \<or> (\<exists>labels name. labels \<noteq> [] \<and> (\<forall>l\<in>set labels. label_grammar l) \<and> name_grammar name
         \<and> key = join_dots labels @ CHR ''/'' # name)" (is "_ \<longleftrightarrow> _ \<or> ?prefixed")
  proof (cases "CHR ''/'' \<in> set key")
    case False
    then have "\<not> ?prefixed" by auto
    then show ?thesis using plain_key_ok [OF False] by blast
  next
    case True
    then obtain p n where key: "key = p @ CHR ''/'' # n" "CHR ''/'' \<notin> set p" using slash_split by blast
    have "\<not> name_grammar key" using name_grammar_chars True by blast
    moreover have "result_ok (validate_meta_key key) \<Longrightarrow> ?prefixed"
      using prefixed_key_ok [OF key(2), of n] join_split_on [of p] split_on_not_Nil key(1) by metis
    moreover have "?prefixed \<Longrightarrow> result_ok (validate_meta_key key)"
      using dotted_labels prefixed_key_ok by metis
    ultimately show ?thesis by blast
  qed
  show "meta_deserialize v = Inr m \<longrightarrow> meta_serialize m = Inr m"
    by (cases v) (auto simp: meta_deserialize_def meta_serialize_def try_each_ok result_ok_iff result_bind_Inr_iff)
qed

lemma meta_key_grammar_witness:
  "meta_serialize (Some (JObj [(''a/b'', JNull)])) = Inr (Some (JObj [(''a/b'', JNull)]))"
proof -
  have "meta_deserialize (JObj [(''a/b'', JNull), (''?'', JNull)]) = Inr (Some (JObj [(''a/b'', JNull)]))"
    by code_simp
  then show ?thesis using meta_key_grammar by blast
qed

section \<open>Client capabilities\<close>

record deprecation_info =
  di_since :: "string option"
  di_remove_in :: "string option"
  di_message :: "string option"
  di_replacement :: "string option"

record roots_capability =
  rt_list_changed :: bool
  rt_deprecated :: "deprecation_info option"

record sampling_capability =
  sc_tools :: bool
  sc_context :: bool
  sc_deprecated :: "deprecation_info option"

record elicitation_capability =
  el_form :: bool
  el_url :: bool

text \<open>
  The legacy task capability; each of the nested request shapes is an optional object with one
  optional marker.
\<close>

record client_tasks_capability =
  ct_list :: bool
  ct_cancel :: bool
  ct_requests :: "(bool option \<times> bool option) option"

record client_capabilities =
  cc_roots :: "roots_capability option"
  cc_sampling :: "sampling_capability option"
  cc_elicitation :: "elicitation_capability option"
  cc_tasks :: "client_tasks_capability option"
  cc_experimental :: "(string \<times> json) list option"
  cc_extensions :: "(string \<times> json) list option"

definition no_capabilities :: client_capabilities where
  "no_capabilities = \<lparr>cc_roots = None, cc_sampling = None, cc_elicitation = None, cc_tasks = None,
     cc_experimental = None, cc_extensions = None\<rparr>"

subsection \<open>Their JSON\<close>

text \<open>A member that is written only when present.\<close>

definition opt_member :: "string \<Rightarrow> ('a \<Rightarrow> json) \<Rightarrow> 'a option \<Rightarrow> (string \<times> json) list" where
  "opt_member k f x = (case x of None \<Rightarrow> [] | Some v \<Rightarrow> [(k, f v)])"

definition marker :: "string \<Rightarrow> bool \<Rightarrow> (string \<times> json) list" where
  "marker k b = (if b then [(k, JObj [])] else [])"

definition deprecation_json :: "deprecation_info \<Rightarrow> json" where
  "deprecation_json d = JObj (opt_member ''since'' JStr (di_since d)
     @ opt_member ''removeIn'' JStr (di_remove_in d) @ opt_member ''message'' JStr (di_message d)
     @ opt_member ''replacement'' JStr (di_replacement d))"

definition roots_json :: "roots_capability \<Rightarrow> json" where
  "roots_json r = JObj ((''listChanged'', JBool (rt_list_changed r))
     # opt_member ''deprecated'' deprecation_json (rt_deprecated r))"

definition sampling_json :: "sampling_capability \<Rightarrow> json" where
  "sampling_json s = JObj (marker ''tools'' (sc_tools s) @ marker ''context'' (sc_context s)
     @ opt_member ''deprecated'' deprecation_json (sc_deprecated s))"

definition elicitation_json :: "elicitation_capability \<Rightarrow> json" where
  "elicitation_json e = JObj (marker ''form'' (el_form e) @ marker ''url'' (el_url e))"

definition tasks_json :: "client_tasks_capability \<Rightarrow> json" where
  "tasks_json t = JObj (marker ''list'' (ct_list t) @ marker ''cancel'' (ct_cancel t)
     @ opt_member ''requests'' (\<lambda>(s, e). JObj
         (opt_member ''sampling'' (\<lambda>b. JObj (marker ''createMessage'' b)) s
        @ opt_member ''elicitation'' (\<lambda>b. JObj (marker ''create'' b)) e)) (ct_requests t))"

definition capabilities_members :: "client_capabilities \<Rightarrow> (string \<times> json) list" where
  "capabilities_members c =
     opt_member ''roots'' roots_json (cc_roots c)
     @ opt_member ''sampling'' sampling_json (cc_sampling c)
     @ opt_member ''elicitation'' elicitation_json (cc_elicitation c)
     @ opt_member ''tasks'' tasks_json (cc_tasks c)
     @ opt_member ''experimental'' JObj (cc_experimental c)
     @ opt_member ''extensions'' JObj (cc_extensions c)"

text \<open>\<open>serde_json::to_value\<close>: the serializer of \<open>extensions\<close> refuses an invalid map.\<close>

definition capabilities_to_value :: "client_capabilities \<Rightarrow> meta_validation_error + json" where
  "capabilities_to_value c =
     result_bind (case cc_extensions c of None \<Rightarrow> Inr () | Some exts \<Rightarrow> validate_extensions exts)
       (\<lambda>_. Inr (JObj (capabilities_members c)))"

subsection \<open>The checks\<close>

fun json_value_contains :: "json \<Rightarrow> json \<Rightarrow> bool" where
  "json_value_contains (JObj actual) (JObj required) \<longleftrightarrow>
     (\<forall>kv\<in>set required. case map_of actual (fst kv) of None \<Rightarrow> False
        | Some a \<Rightarrow> json_value_contains a (snd kv))"
| "json_value_contains actual required \<longleftrightarrow> json_eq actual required"

text \<open>\<open>Value::pointer\<close> with two reference tokens, and the removal of a member of a member.\<close>

definition json_pointer2 :: "json \<Rightarrow> string \<Rightarrow> string \<Rightarrow> json option" where
  "json_pointer2 v a b = Option.bind (json_get v a) (\<lambda>w. json_get w b)"

fun remove_member :: "string \<Rightarrow> string \<Rightarrow> json \<Rightarrow> json" where
  "remove_member a b (JObj kvs) =
     JObj (map (\<lambda>kv. if fst kv = a then
         (case snd kv of JObj ms \<Rightarrow> (a, JObj (AList.delete b ms)) | _ \<Rightarrow> kv) else kv) kvs)"
| "remove_member a b v = v"

definition drop_unset_list_changed :: "json \<Rightarrow> json" where
  "drop_unset_list_changed r =
     (if json_pointer2 r ''roots'' ''listChanged'' = Some (JBool False)
      then remove_member ''roots'' ''listChanged'' r else r)"

text \<open>\<open>None\<close> is the panic of \<open>expect\<close>.\<close>

definition client_capabilities_satisfy :: "client_capabilities \<Rightarrow> client_capabilities \<Rightarrow> bool option" where
  "client_capabilities_satisfy actual required =
     (case (capabilities_to_value actual, capabilities_to_value required) of
        (Inr a, Inr r) \<Rightarrow>
          Some (json_value_contains a (drop_unset_list_changed r))
      | _ \<Rightarrow> None)"

text \<open>
  \<open>missing_required_client_capability\<close>, error code -32021; \<open>expect\<close> again.
\<close>

definition missing_required_client_capability :: "client_capabilities \<Rightarrow> json_rpc_error option" where
  "missing_required_client_capability required =
     (case capabilities_to_value required of
        Inl e \<Rightarrow> None
      | Inr v \<Rightarrow> Some \<lparr>e_code = - 32021,
          e_message = ''Client is missing a capability required by this request'',
          e_data = Some (JObj [(''requiredCapabilities'', v)])\<rparr>)"

definition TASKS_EXTENSION_ID :: string where
  "TASKS_EXTENSION_ID = ''io.modelcontextprotocol/tasks''"

definition tasks_client_capabilities :: client_capabilities where
  "tasks_client_capabilities = no_capabilities\<lparr>cc_extensions := Some [(TASKS_EXTENSION_ID, JObj [])]\<rparr>"

subsection \<open>Field by field\<close>

text \<open>
  What each requirement means: a required object is present, every required member is present, and
  a flag is required only when it is set.
\<close>

definition provided :: "('r \<Rightarrow> 'a \<Rightarrow> bool) \<Rightarrow> 'r option \<Rightarrow> 'a option \<Rightarrow> bool" where
  "provided P required actual =
     (case required of None \<Rightarrow> True | Some r \<Rightarrow> (case actual of None \<Rightarrow> False | Some a \<Rightarrow> P r a))"

definition deprecation_within :: "deprecation_info \<Rightarrow> deprecation_info \<Rightarrow> bool" where
  "deprecation_within r a \<longleftrightarrow>
     provided (=) (di_since r) (di_since a) \<and> provided (=) (di_remove_in r) (di_remove_in a)
   \<and> provided (=) (di_message r) (di_message a) \<and> provided (=) (di_replacement r) (di_replacement a)"

definition values_within :: "(string \<times> json) list \<Rightarrow> (string \<times> json) list \<Rightarrow> bool" where
  "values_within rs as \<longleftrightarrow>
     (\<forall>kv\<in>set rs. case map_of as (fst kv) of None \<Rightarrow> False | Some a \<Rightarrow> json_value_contains a (snd kv))"

definition capabilities_provide :: "client_capabilities \<Rightarrow> client_capabilities \<Rightarrow> bool" where
  "capabilities_provide actual required \<longleftrightarrow>
     provided (\<lambda>r a. (rt_list_changed r \<longrightarrow> rt_list_changed a)
         \<and> provided deprecation_within (rt_deprecated r) (rt_deprecated a))
       (cc_roots required) (cc_roots actual)
   \<and> provided (\<lambda>r a. (sc_tools r \<longrightarrow> sc_tools a) \<and> (sc_context r \<longrightarrow> sc_context a)
         \<and> provided deprecation_within (sc_deprecated r) (sc_deprecated a))
       (cc_sampling required) (cc_sampling actual)
   \<and> provided (\<lambda>r a. (el_form r \<longrightarrow> el_form a) \<and> (el_url r \<longrightarrow> el_url a))
       (cc_elicitation required) (cc_elicitation actual)
   \<and> provided (\<lambda>r a. (ct_list r \<longrightarrow> ct_list a) \<and> (ct_cancel r \<longrightarrow> ct_cancel a)
         \<and> provided (\<lambda>(rs, re) (as, ae). provided (\<longrightarrow>) rs as \<and> provided (\<longrightarrow>) re ae)
             (ct_requests r) (ct_requests a))
       (cc_tasks required) (cc_tasks actual)
   \<and> provided values_within (cc_experimental required) (cc_experimental actual)
   \<and> provided values_within (cc_extensions required) (cc_extensions actual)"

definition serializable :: "client_capabilities \<Rightarrow> bool" where
  "serializable c \<longleftrightarrow>
     (\<forall>exts. cc_extensions c = Some exts \<longrightarrow> validate_extensions exts = Inr ())"

lemma capabilities_to_value_Inr:
  "capabilities_to_value c = Inr v \<longleftrightarrow> serializable c \<and> v = JObj (capabilities_members c)"
  by (auto simp: capabilities_to_value_def serializable_def result_bind_Inr_iff split: option.splits)

lemma capabilities_to_value_Inl: "\<not> serializable c \<Longrightarrow> \<exists>e. capabilities_to_value c = Inl e"
  using capabilities_to_value_Inr [of c] by (cases "capabilities_to_value c") blast+

definition contains_members :: "(string \<times> json) list \<Rightarrow> (string \<times> json) list \<Rightarrow> bool" where
  "contains_members as rs \<longleftrightarrow> json_value_contains (JObj as) (JObj rs)"

lemma contains_members_simps [simp]:
  "contains_members as []"
  "contains_members as (rs @ rs') \<longleftrightarrow> contains_members as rs \<and> contains_members as rs'"
  "contains_members as (opt_member k f x) \<longleftrightarrow>
     (case x of None \<Rightarrow> True | Some v \<Rightarrow>
        (case map_of as k of None \<Rightarrow> False | Some a \<Rightarrow> json_value_contains a (f v)))"
  "contains_members as (marker k b) \<longleftrightarrow>
     (b \<longrightarrow> (case map_of as k of None \<Rightarrow> False | Some a \<Rightarrow> json_value_contains a (JObj [])))"
  "contains_members as (kv # rs) \<longleftrightarrow>
     (case map_of as (fst kv) of None \<Rightarrow> False | Some a \<Rightarrow> json_value_contains a (snd kv))
     \<and> contains_members as rs"
  by (auto simp: contains_members_def json_value_contains.simps(1) opt_member_def marker_def
      split: option.splits)

declare json_value_contains.simps(1) [simp del]

lemma contains_objects [simp]: "json_value_contains (JObj as) (JObj rs) = contains_members as rs"
  by (simp add: contains_members_def)

lemma map_of_opt_member [simp]:
  "map_of (opt_member k f x) k' = (if k' = k then map_option f x else None)"
  by (auto simp: opt_member_def split: option.splits)

lemma map_of_marker [simp]: "map_of (marker k b) k' = (if k' = k \<and> b then Some (JObj []) else None)"
  by (simp add: marker_def)

lemma contains_flag:
  "json_value_contains (JBool a) (JBool b) = (a = b)" "json_value_contains (JStr s) (JStr t) = (s = t)"
  by simp_all

lemma deprecation_contains:
  "json_value_contains (deprecation_json a) (deprecation_json r) = deprecation_within r a"
  by (auto simp: deprecation_json_def  deprecation_within_def provided_def map_add_def
      split: option.splits)

lemma sampling_contains:
  "json_value_contains (sampling_json a) (sampling_json r) \<longleftrightarrow>
     (sc_tools r \<longrightarrow> sc_tools a) \<and> (sc_context r \<longrightarrow> sc_context a)
     \<and> provided deprecation_within (sc_deprecated r) (sc_deprecated a)"
  by (auto simp: sampling_json_def  deprecation_contains provided_def map_add_def
      split: option.splits)

lemma elicitation_contains:
  "json_value_contains (elicitation_json a) (elicitation_json r) \<longleftrightarrow>
     (el_form r \<longrightarrow> el_form a) \<and> (el_url r \<longrightarrow> el_url a)"
  by (auto simp: elicitation_json_def  map_add_def split: option.splits)

lemma requests_contains:
  "json_value_contains
     (JObj (opt_member ''sampling'' (\<lambda>b. JObj (marker ''createMessage'' b)) as
        @ opt_member ''elicitation'' (\<lambda>b. JObj (marker ''create'' b)) ae))
     (JObj (opt_member ''sampling'' (\<lambda>b. JObj (marker ''createMessage'' b)) rs
        @ opt_member ''elicitation'' (\<lambda>b. JObj (marker ''create'' b)) re))
   \<longleftrightarrow> provided (\<longrightarrow>) rs as \<and> provided (\<longrightarrow>) re ae"
  by (auto simp:  provided_def map_add_def split: option.splits if_splits)

lemma tasks_contains:
  "json_value_contains (tasks_json a) (tasks_json r) \<longleftrightarrow>
     (ct_list r \<longrightarrow> ct_list a) \<and> (ct_cancel r \<longrightarrow> ct_cancel a)
     \<and> provided (\<lambda>(rs, re) (as, ae). provided (\<longrightarrow>) rs as \<and> provided (\<longrightarrow>) re ae)
         (ct_requests r) (ct_requests a)"
  by (auto simp: tasks_json_def requests_contains [simplified]
      provided_def map_add_def split: option.splits)

definition required_roots_json :: "roots_capability \<Rightarrow> json" where
  "required_roots_json r = (if rt_list_changed r then roots_json r
     else JObj (opt_member ''deprecated'' deprecation_json (rt_deprecated r)))"

lemma roots_contains:
  "json_value_contains (roots_json a) (required_roots_json r) \<longleftrightarrow>
     (rt_list_changed r \<longrightarrow> rt_list_changed a)
     \<and> provided deprecation_within (rt_deprecated r) (rt_deprecated a)"
  by (auto simp: roots_json_def required_roots_json_def  deprecation_contains
      provided_def split: option.splits)


definition other_members :: "client_capabilities \<Rightarrow> (string \<times> json) list" where
  "other_members c = opt_member ''sampling'' sampling_json (cc_sampling c)
     @ opt_member ''elicitation'' elicitation_json (cc_elicitation c)
     @ opt_member ''tasks'' tasks_json (cc_tasks c)
     @ opt_member ''experimental'' JObj (cc_experimental c)
     @ opt_member ''extensions'' JObj (cc_extensions c)"

lemma other_members_keys: "fst ` set (other_members c) \<subseteq> {''sampling'', ''elicitation'', ''tasks'', ''experimental'', ''extensions''}"
  by (auto simp: other_members_def opt_member_def split: option.splits)

lemma remove_other_members:
  "map (\<lambda>kv. if fst kv = ''roots'' then
      (case snd kv of JObj ms \<Rightarrow> (''roots'', JObj (AList.delete b ms)) | _ \<Rightarrow> kv) else kv) (other_members c)
   = other_members c"
  by (rule map_idI) (use other_members_keys [of c] in force)

lemma capabilities_members_split:
  "capabilities_members c = opt_member ''roots'' roots_json (cc_roots c) @ other_members c"
  by (simp add: capabilities_members_def other_members_def)

lemma other_members_no_roots: "map_of (other_members c) ''roots'' = None"
  using other_members_keys [of c] by (auto simp: map_of_eq_None_iff)

lemma delete_list_changed:
  "AList.delete ''listChanged'' (opt_member ''deprecated'' f d) = opt_member ''deprecated'' f d"
  by (simp add: opt_member_def split: option.splits)

lemma normalized_members:
  "drop_unset_list_changed (JObj (capabilities_members c)) =
   JObj (opt_member ''roots'' required_roots_json (cc_roots c) @ other_members c)"
proof (cases "cc_roots c")
  case None
  then show ?thesis
    using other_members_no_roots [of c]
    by (simp only: capabilities_members_split None opt_member_def option.simps append_Nil drop_unset_list_changed_def
        json_pointer2_def json_get.simps bind.simps if_False option.distinct)
next
  case (Some r)
  then have m: "capabilities_members c = (''roots'', roots_json r) # other_members c"
    "opt_member ''roots'' required_roots_json (cc_roots c) = [(''roots'', required_roots_json r)]"
    by (simp_all add: capabilities_members_split opt_member_def [of "''roots''"])
  show ?thesis
    using remove_other_members [of "''listChanged''" c]
    by (simp add: m json_pointer2_def roots_json_def required_roots_json_def delete_list_changed
        drop_unset_list_changed_def)
qed

lemma map_of_opt_append:
  "map_of (opt_member k f x @ ys) j =
     (if j = k then (case x of Some v \<Rightarrow> Some (f v) | None \<Rightarrow> map_of ys k) else map_of ys j)"
  by (simp add: opt_member_def split: option.splits)

lemma members_get:
  "map_of (capabilities_members c) ''roots'' = map_option roots_json (cc_roots c)"
  "map_of (capabilities_members c) ''sampling'' = map_option sampling_json (cc_sampling c)"
  "map_of (capabilities_members c) ''elicitation'' = map_option elicitation_json (cc_elicitation c)"
  "map_of (capabilities_members c) ''tasks'' = map_option tasks_json (cc_tasks c)"
  "map_of (capabilities_members c) ''experimental'' = map_option JObj (cc_experimental c)"
  "map_of (capabilities_members c) ''extensions'' = map_option JObj (cc_extensions c)"
  by (simp_all add: capabilities_members_def map_of_opt_append del: map_of_append
      split: option.split)

lemma contains_provided:
  "contains_members as (opt_member k f x) = provided (\<lambda>r a. json_value_contains a (f r)) x (map_of as k)"
  by (simp add: provided_def)

lemma provided_map [simp]: "provided P x (map_option g y) = provided (\<lambda>r a. P r (g a)) x y"
  by (simp add: provided_def split: option.splits)

lemma contains_values: "(\<lambda>rs as. contains_members as rs) = values_within"
  by (intro ext) (simp add: contains_members_def json_value_contains.simps(1) values_within_def
      del: contains_objects)

text \<open>
  The JSON subset comparison that decides whether a client has a required capability is
  exactly the field by field reading of the requirement.  It is decided for every pair of capability
  values with well-formed extension maps; \<open>roots.listChanged: false\<close> requires nothing.
\<close>

theorem capability_check_is_fieldwise:
  "client_capabilities_satisfy actual required =
     (if serializable actual \<and> serializable required then Some (capabilities_provide actual required) else None)"
proof (cases "serializable actual \<and> serializable required")
  case True
  then have v: "capabilities_to_value actual = Inr (JObj (capabilities_members actual))"
    "capabilities_to_value required = Inr (JObj (capabilities_members required))"
    by (simp_all add: capabilities_to_value_Inr)
  have "contains_members (capabilities_members actual)
      (opt_member ''roots'' required_roots_json (cc_roots required) @ other_members required)
    = capabilities_provide actual required"
    by (simp add: other_members_def members_get contains_provided roots_contains sampling_contains
        elicitation_contains tasks_contains contains_values capabilities_provide_def
        del: contains_members_simps(3))
  then show ?thesis
    using True normalized_members [of required] by (simp add: client_capabilities_satisfy_def v)
next
  case False
  then show ?thesis
    using capabilities_to_value_Inl [of actual] capabilities_to_value_Inl [of required]
    by (auto simp: client_capabilities_satisfy_def split: sum.splits)
qed

section \<open>What a request carries\<close>

text \<open>
  \<open>StatelessRequestMeta\<close>, as far as the router reads it, and the extensions of a request:
  that metadata, the validated token, and the marker of a replayed final request.
\<close>

record stateless_meta =
  sm_protocol_version :: "string option"
  sm_client_capabilities :: "client_capabilities option"

record request_extensions =
  rx_meta :: "stateless_meta option"
  rx_claims :: "token_claims option"
  rx_replayed_final :: bool

definition PROTOCOL_VERSION_2026_07_28 :: string where
  "PROTOCOL_VERSION_2026_07_28 = ''2026-07-28''"

definition is_final_protocol_request :: "request_extensions \<Rightarrow> bool" where
  "is_final_protocol_request x \<longleftrightarrow> rx_replayed_final x
     \<or> Option.bind (rx_meta x) sm_protocol_version = Some PROTOCOL_VERSION_2026_07_28"

definition final_client_capabilities :: "request_extensions \<Rightarrow> client_capabilities option" where
  "final_client_capabilities x = Option.bind (rx_meta x) sm_client_capabilities"

definition client_declares_tasks :: "request_extensions \<Rightarrow> bool" where
  "client_declares_tasks x =
     (case final_client_capabilities x of
        None \<Rightarrow> False
      | Some c \<Rightarrow> (case cc_extensions c of
            None \<Rightarrow> False
          | Some declared \<Rightarrow> TASKS_EXTENSION_ID \<in> fst ` set declared))"

subsection \<open>The principal\<close>

datatype task_owner_resolution = Resolved "string option" | InvalidOwner

fun into_owner :: "task_owner_resolution \<Rightarrow> string option option" where
  "into_owner (Resolved ow) = Some ow"
| "into_owner InvalidOwner = None"

text \<open>\<open>owner_matches\<close> compares the recorded owner with the caller (theory \<open>TaskOps\<close>).\<close>

fun resolution_matches :: "task_owner_resolution \<Rightarrow> string option \<Rightarrow> bool" where
  "resolution_matches (Resolved p) ow \<longleftrightarrow> ow = p"
| "resolution_matches InvalidOwner ow \<longleftrightarrow> False"

definition oauth_task_owner :: "request_extensions \<Rightarrow> string option" where
  "oauth_task_owner x = Option.bind (rx_claims x) tk_sub"

definition default_task_owner_resolver :: "request_extensions \<Rightarrow> task_owner_resolution" where
  "default_task_owner_resolver x = Resolved (oauth_task_owner x)"

text \<open>An application resolver; \<open>None\<close> of the outer option is a panic.\<close>

definition custom_task_owner_resolver ::
  "(request_extensions \<Rightarrow> string option option) \<Rightarrow> request_extensions \<Rightarrow> task_owner_resolution" where
  "custom_task_owner_resolver resolver x =
     (case resolver x of
        None \<Rightarrow> InvalidOwner
      | Some None \<Rightarrow> Resolved None
      | Some (Some ow) \<Rightarrow> if trim_str ow \<noteq> [] then Resolved (Some ow) else InvalidOwner)"

section \<open>Input requests and the capabilities they need\<close>

datatype include_context = AllServers | ThisServer | NoContext

text \<open>
  \<open>InputRequest\<close> with what the check reads of it: whether \<open>tools\<close> is present and the
  requested context.  The last constructor stands for the methods of a later version of the
  non-exhaustive enumeration.
\<close>

datatype input_request =
  CreateMessage bool "include_context option"
| ListRoots
| ElicitForm
| ElicitUrl
| OtherInput

record input_required_result =
  ir_result_type :: string
  ir_input_requests :: "(string \<times> input_request) list option"
  ir_request_state :: "string option"

definition input_required_validate :: "input_required_result \<Rightarrow> string + unit" where
  "input_required_validate r =
     (if ir_result_type r \<noteq> ''input_required'' then Inl ''resultType must be \"input_required\"''
      else if ir_input_requests r = None \<and> ir_request_state r = None
      then Inl ''at least one of inputRequests or requestState must be present''
      else Inr ())"

definition requires_context :: "include_context option \<Rightarrow> bool" where
  "requires_context m = (case m of None \<Rightarrow> False | Some c \<Rightarrow> c \<noteq> NoContext)"

text \<open>
  The pair the loop computes for one request: whether the client supports it, and the capability
  named when it does not; \<open>None\<close> for an unsupported method.
\<close>

fun input_requirement :: "client_capabilities \<Rightarrow> input_request \<Rightarrow> (bool \<times> client_capabilities) option" where
  "input_requirement actual (CreateMessage tools ctx) =
     Some ((case cc_sampling actual of None \<Rightarrow> False
            | Some s \<Rightarrow> (tools \<longrightarrow> sc_tools s) \<and> (requires_context ctx \<longrightarrow> sc_context s)),
           no_capabilities\<lparr>cc_sampling := Some \<lparr>sc_tools = tools, sc_context = requires_context ctx,
             sc_deprecated = None\<rparr>\<rparr>)"
| "input_requirement actual ListRoots =
     Some (cc_roots actual \<noteq> None,
           no_capabilities\<lparr>cc_roots := Some \<lparr>rt_list_changed = False, rt_deprecated = None\<rparr>\<rparr>)"
| "input_requirement actual ElicitForm =
     Some ((case cc_elicitation actual of None \<Rightarrow> False | Some e \<Rightarrow> el_form e \<or> (\<not> el_form e \<and> \<not> el_url e)),
           no_capabilities\<lparr>cc_elicitation := Some \<lparr>el_form = True, el_url = False\<rparr>\<rparr>)"
| "input_requirement actual ElicitUrl =
     Some ((case cc_elicitation actual of None \<Rightarrow> False | Some e \<Rightarrow> el_url e),
           no_capabilities\<lparr>cc_elicitation := Some \<lparr>el_form = False, el_url = True\<rparr>\<rparr>)"
| "input_requirement actual OtherInput = None"

fun check_input_requests :: "client_capabilities \<Rightarrow> input_request list \<Rightarrow> (json_rpc_error + unit) option" where
  "check_input_requests actual [] = Some (Inr ())"
| "check_input_requests actual (r # rs) =
     (case input_requirement actual r of
        None \<Rightarrow> Some (Inl (invalid_params ''unsupported input request method in InputRequiredResult''))
      | Some (supported, required) \<Rightarrow>
          if supported then check_input_requests actual rs
          else map_option Inl (missing_required_client_capability required))"

definition validate_input_required_result ::
  "request_extensions \<Rightarrow> input_required_result \<Rightarrow> (json_rpc_error + unit) option" where
  "validate_input_required_result x r =
     (case input_required_validate r of
        Inl m \<Rightarrow> Some (Inl (invalid_params (''invalid InputRequiredResult: '' @ m)))
      | Inr _ \<Rightarrow>
          (case rx_meta x of
             Some meta \<Rightarrow>
               if sm_protocol_version meta = Some PROTOCOL_VERSION_2026_07_28 then
                 (case sm_client_capabilities meta of
                    None \<Rightarrow> Some (Inl (invalid_params ''clientCapabilities is required for InputRequiredResult''))
                  | Some actual \<Rightarrow>
                      (case ir_input_requests r of
                         None \<Rightarrow> Some (Inr ())
                       | Some rs \<Rightarrow> check_input_requests actual (map snd rs)))
               else Some (Inl (invalid_params
                 ''InputRequiredResult is only supported by the 2026-07-28 request lifecycle''))
           | None \<Rightarrow> Some (Inl (invalid_params
                 ''InputRequiredResult is only supported by the 2026-07-28 request lifecycle''))))"

definition input_supported :: "client_capabilities \<Rightarrow> input_request \<Rightarrow> bool" where
  "input_supported actual r = (case input_requirement actual r of None \<Rightarrow> False | Some (s, _) \<Rightarrow> s)"

lemma requirement_serializable:
  "input_requirement actual r = Some (s, required) \<Longrightarrow> serializable required"
  by (cases r) (auto simp: serializable_def no_capabilities_def)

text \<open>A capability that satisfies the named requirement supports the request.\<close>

lemma capabilities_provideD:
  assumes "capabilities_provide actual required"
  shows "cc_roots required = Some r \<Longrightarrow> cc_roots actual \<noteq> None"
    and "cc_sampling required = Some s \<Longrightarrow> \<exists>a. cc_sampling actual = Some a
      \<and> (sc_tools s \<longrightarrow> sc_tools a) \<and> (sc_context s \<longrightarrow> sc_context a)"
    and "cc_elicitation required = Some e \<Longrightarrow> \<exists>a. cc_elicitation actual = Some a
      \<and> (el_form e \<longrightarrow> el_form a) \<and> (el_url e \<longrightarrow> el_url a)"
  using assms by (simp_all add: capabilities_provide_def provided_def split: option.splits)

lemma unsupported_not_provided:
  assumes "input_requirement actual r = Some (False, required)"
  shows "\<not> capabilities_provide actual required"
proof
  assume "capabilities_provide actual required"
  note p = capabilities_provideD [OF this]
  show False
  proof (cases r)
    case (CreateMessage tools ctx)
    then show False using assms p(2) by (force simp: no_capabilities_def)
  next
    case ListRoots
    then show False using assms p(1) by (force simp: no_capabilities_def)
  next
    case ElicitForm
    then show False using assms p(3) by (force simp: no_capabilities_def)
  next
    case ElicitUrl
    then show False using assms p(3) by (force simp: no_capabilities_def)
  next
    case OtherInput
    then show False using assms by simp
  qed
qed

lemma map_Inl_not_ok: "map_option Inl z \<noteq> Some (Inr u)"
  by (cases z) simp_all

lemma check_input_requests_ok:
  "check_input_requests actual rs = Some (Inr ()) \<longleftrightarrow> (\<forall>r\<in>set rs. input_supported actual r)"
proof (induction rs)
  case (Cons r rs)
  show ?case
  proof (cases "input_requirement actual r")
    case None
    then show ?thesis by (simp add: input_supported_def [of actual r])
  next
    case (Some sr)
    then show ?thesis
      using Cons map_Inl_not_ok by (cases sr) (simp add: input_supported_def [of actual r])
  qed
qed simp

lemma check_input_requests_total: "\<exists>y. check_input_requests actual rs = Some y"
proof (induction rs)
  case (Cons r rs)
  show ?case
  proof (cases "input_requirement actual r")
    case (Some sr)
    then obtain s required where sr: "input_requirement actual r = Some (s, required)" by (cases sr) auto
    then have "capabilities_to_value required = Inr (JObj (capabilities_members required))"
      using requirement_serializable capabilities_to_value_Inr by blast
    then show ?thesis using Cons sr by (simp add: missing_required_client_capability_def)
  qed simp
qed simp

lemma check_input_requests_code:
  assumes "check_input_requests actual rs = Some (Inl e)" and "e_code e = - 32021"
  shows "\<exists>r\<in>set rs. \<exists>required. input_requirement actual r = Some (False, required)
    \<and> missing_required_client_capability required = Some e"
  using assms
  by (induction rs) (auto simp: invalid_params_def json_rpc_error_new_def split: option.splits if_splits)

text \<open>
  An input-required result reaches a client exactly when it is well formed, the request is of
  the final protocol, and the client declared what every embedded request needs.  A refusal for a
  missing capability names one that some embedded request needs and the client's declaration does
  not satisfy, by the same comparison that guards tools.  The check never panics.
\<close>

theorem input_required_gate:
  "(validate_input_required_result x r = Some (Inr ()) \<longleftrightarrow>
      input_required_validate r = Inr ()
    \<and> (\<exists>meta actual. rx_meta x = Some meta \<and> sm_protocol_version meta = Some PROTOCOL_VERSION_2026_07_28
         \<and> sm_client_capabilities meta = Some actual
         \<and> (\<forall>rs. ir_input_requests r = Some rs \<longrightarrow> (\<forall>q\<in>snd ` set rs. input_supported actual q))))
   \<and> validate_input_required_result x r \<noteq> None
   \<and> (validate_input_required_result x r = Some (Inl e) \<and> e_code e = - 32021 \<longrightarrow>
        (\<exists>actual required rs q. final_client_capabilities x = Some actual \<and> ir_input_requests r = Some rs
          \<and> q \<in> snd ` set rs \<and> input_requirement actual q = Some (False, required)
          \<and> missing_required_client_capability required = Some e
          \<and> \<not> capabilities_provide actual required))"
proof (intro conjI impI)
  show "validate_input_required_result x r = Some (Inr ()) \<longleftrightarrow>
      input_required_validate r = Inr ()
    \<and> (\<exists>meta actual. rx_meta x = Some meta \<and> sm_protocol_version meta = Some PROTOCOL_VERSION_2026_07_28
         \<and> sm_client_capabilities meta = Some actual
         \<and> (\<forall>rs. ir_input_requests r = Some rs \<longrightarrow> (\<forall>q\<in>snd ` set rs. input_supported actual q)))"
    by (cases "ir_input_requests r")
      (auto simp: validate_input_required_result_def check_input_requests_ok split: sum.split option.split)
  have "\<exists>y. validate_input_required_result x r = Some y"
    using check_input_requests_total
    by (simp add: validate_input_required_result_def split: sum.split option.split)
  then show "validate_input_required_result x r \<noteq> None" by auto
next
  assume "validate_input_required_result x r = Some (Inl e) \<and> e_code e = - 32021"
  then obtain actual rs where a: "final_client_capabilities x = Some actual" "ir_input_requests r = Some rs"
    "check_input_requests actual (map snd rs) = Some (Inl e)" "e_code e = - 32021"
    by (auto simp: validate_input_required_result_def final_client_capabilities_def invalid_params_def
        json_rpc_error_new_def split: sum.splits option.splits if_splits)
  then obtain q required where "q \<in> snd ` set rs" "input_requirement actual q = Some (False, required)"
    "missing_required_client_capability required = Some e"
    using check_input_requests_code by fastforce
  then show "\<exists>actual required rs q. final_client_capabilities x = Some actual \<and> ir_input_requests r = Some rs
      \<and> q \<in> snd ` set rs \<and> input_requirement actual q = Some (False, required)
      \<and> missing_required_client_capability required = Some e
      \<and> \<not> capabilities_provide actual required"
    using a unsupported_not_provided by blast
qed

lemma input_required_gate_witness:
  "\<exists>required q. q = ElicitForm \<and> input_requirement no_capabilities q = Some (False, required)
     \<and> \<not> capabilities_provide no_capabilities required"
proof -
  let ?x = "\<lparr>rx_meta = Some \<lparr>sm_protocol_version = Some PROTOCOL_VERSION_2026_07_28,
      sm_client_capabilities = Some no_capabilities\<rparr>, rx_claims = None, rx_replayed_final = False\<rparr>"
  let ?r = "\<lparr>ir_result_type = ''input_required'', ir_input_requests = Some [(''k'', ElicitForm)],
      ir_request_state = None\<rparr>"
  obtain e where e: "validate_input_required_result ?x ?r = Some (Inl e)" "e_code e = - 32021"
    by (simp add: validate_input_required_result_def input_required_validate_def no_capabilities_def
        missing_required_client_capability_def capabilities_to_value_def)
  then show ?thesis
    using input_required_gate [of ?x ?r e] by (auto simp: final_client_capabilities_def)
qed

end
