(* ===== verification/LiveTasks.thy ===== *)
theory LiveTasks
  imports Prelude
begin

text \<open>
  The registry of live task executions: \<open>LiveTaskExecutionRegistry\<close> and
  \<open>LiveTaskCancellation\<close> of \<open>crates/tower-mcp/src/task_execution.rs\<close>, with the handle
  \<open>LiveTask\<close> of \<open>tool/task.rs\<close>.  An execution is first a reservation, then, once its
  task has an identifier, an entry under that identifier; a drain waits until neither is left.

  A \<open>LiveTaskCancellation\<close> is shared by the registry, the handler and the router, so it is a
  cell of a heap and named by its address; the \<open>Notify\<close> permit of the \<open>LiveTask\<close> made
  for the same execution is in the same cell.  The two values that release on drop
  (\<open>LiveTaskAdmission\<close>, \<open>LiveTaskRegistration\<close>) are the lists of those not yet dropped.
\<close>

section \<open>Cancellation of one execution\<close>

record live_cell =
  lc_token :: bool
  lc_task_lifecycle :: "string option"
  lc_requested :: bool
  lc_reason :: "string option"
  lc_input_ready :: bool

definition live_cell_new :: live_cell where
  "live_cell_new = \<lparr>lc_token = False, lc_task_lifecycle = None, lc_requested = False,
     lc_reason = None, lc_input_ready = False\<rparr>"

text \<open>\<open>OnceLock::set\<close> keeps the first value.\<close>

definition attach_task_lifecycle :: "string \<Rightarrow> live_cell \<Rightarrow> live_cell" where
  "attach_task_lifecycle i c =
     (case lc_task_lifecycle c of None \<Rightarrow> c\<lparr>lc_task_lifecycle := Some i\<rparr> | Some _ \<Rightarrow> c)"

text \<open>\<open>raised\<close> lists the tasks whose store token is cancelled.\<close>

definition cell_is_cancelled :: "string list \<Rightarrow> live_cell \<Rightarrow> bool" where
  "cell_is_cancelled raised c \<longleftrightarrow> lc_token c
     \<or> (case lc_task_lifecycle c of None \<Rightarrow> False | Some i \<Rightarrow> i \<in> set raised)"

text \<open>The two sections of \<open>cancel\<close>: record the first reason, then raise the token.\<close>

definition cell_request :: "string option \<Rightarrow> live_cell \<Rightarrow> live_cell" where
  "cell_request reason c =
     (if lc_requested c then c else c\<lparr>lc_requested := True, lc_reason := reason\<rparr>)"

definition cell_raise :: "live_cell \<Rightarrow> live_cell" where
  "cell_raise c = c\<lparr>lc_token := True\<rparr>"

definition cell_cancel :: "string option \<Rightarrow> live_cell \<Rightarrow> live_cell" where
  "cell_cancel reason c = cell_raise (cell_request reason c)"

section \<open>The registry\<close>

record live_registry =
  lr_admission_open :: bool
  lr_next_reservation :: "64 word"
  lr_reservations :: "(64 word \<times> nat) list"
  lr_executions :: "(string \<times> nat) list"
  lr_active_count_tx :: nat
  lr_cells :: "live_cell list"

definition live_registry_new :: live_registry where
  "live_registry_new = \<lparr>lr_admission_open = True, lr_next_reservation = 0, lr_reservations = [],
     lr_executions = [], lr_active_count_tx = 0, lr_cells = []\<rparr>"

definition lr_active_count :: "live_registry \<Rightarrow> nat" where
  "lr_active_count rg = length (lr_reservations rg) + length (lr_executions rg)"

definition lr_publish :: "live_registry \<Rightarrow> live_registry" where
  "lr_publish rg = rg\<lparr>lr_active_count_tx := lr_active_count rg\<rparr>"

definition lr_admit :: "live_registry \<Rightarrow> live_registry \<times> (64 word \<times> nat) option" where
  "lr_admit rg =
     (if \<not> lr_admission_open rg then (rg, None)
      else
        (let r = lr_next_reservation rg; a = length (lr_cells rg)
         in (lr_publish (rg\<lparr>lr_next_reservation := r + 1,
               lr_reservations := AList.update r a (lr_reservations rg),
               lr_cells := lr_cells rg @ [live_cell_new]\<rparr>), Some (r, a))))"

definition lr_close_admission :: "live_registry \<Rightarrow> live_registry" where
  "lr_close_admission rg = rg\<lparr>lr_admission_open := False\<rparr>"

definition lr_active_task_ids :: "live_registry \<Rightarrow> string list" where
  "lr_active_task_ids rg = sort (map fst (lr_executions rg))"

definition lr_release_reservation :: "64 word \<Rightarrow> live_registry \<Rightarrow> live_registry" where
  "lr_release_reservation r rg =
     lr_publish (rg\<lparr>lr_reservations := AList.delete r (lr_reservations rg)\<rparr>)"

definition lr_unregister :: "string \<Rightarrow> live_registry \<Rightarrow> live_registry" where
  "lr_unregister i rg = lr_publish (rg\<lparr>lr_executions := AList.delete i (lr_executions rg)\<rparr>)"

definition lr_get :: "live_registry \<Rightarrow> string \<Rightarrow> nat option" where
  "lr_get rg i = map_of (lr_executions rg) i"

text \<open>The count does not change, so nothing is published.\<close>

definition lr_promote :: "64 word \<Rightarrow> string \<Rightarrow> nat \<Rightarrow> live_registry \<Rightarrow> live_registry" where
  "lr_promote r i a rg =
     rg\<lparr>lr_reservations := AList.delete r (lr_reservations rg),
        lr_executions := AList.update i a (lr_executions rg)\<rparr>"

definition lr_cell :: "live_registry \<Rightarrow> nat \<Rightarrow> live_cell" where
  "lr_cell rg a = (if a < length (lr_cells rg) then lr_cells rg ! a else live_cell_new)"

definition lr_on_cell :: "nat \<Rightarrow> (live_cell \<Rightarrow> live_cell) \<Rightarrow> live_registry \<Rightarrow> live_registry" where
  "lr_on_cell a f rg = rg\<lparr>lr_cells := (lr_cells rg)[a := f (lr_cell rg a)]\<rparr>"

definition lr_admitted :: "live_registry \<Rightarrow> nat list" where
  "lr_admitted rg = map snd (lr_reservations rg) @ map snd (lr_executions rg)"

text \<open>\<open>cancel_all\<close>: collect under the lock, then signal one after the other.\<close>

definition lr_cancel_all :: "string \<Rightarrow> live_registry \<Rightarrow> live_registry \<times> nat" where
  "lr_cancel_all reason rg =
     (fold (\<lambda>a. lr_on_cell a (cell_cancel (Some reason))) (lr_admitted rg) rg,
      length (lr_admitted rg))"

text \<open>One look of \<open>drained\<close> at the watch channel: whether it returns.\<close>

definition lr_drained :: "live_registry \<Rightarrow> bool" where
  "lr_drained rg \<longleftrightarrow> lr_active_count_tx rg = 0"

text \<open>\<open>wake_live_task\<close> and \<open>signal_live_cancellation\<close> of the router.\<close>

definition wake_live_task :: "string \<Rightarrow> live_registry \<Rightarrow> live_registry \<times> bool" where
  "wake_live_task i rg =
     (case lr_get rg i of
        None \<Rightarrow> (rg, False)
      | Some a \<Rightarrow> (lr_on_cell a (\<lambda>c. c\<lparr>lc_input_ready := True\<rparr>) rg, True))"

definition signal_live_cancellation :: "string \<Rightarrow> string option \<Rightarrow> live_registry \<Rightarrow> live_registry \<times> bool" where
  "signal_live_cancellation i reason rg =
     (case lr_get rg i of
        None \<Rightarrow> (rg, False)
      | Some a \<Rightarrow> (lr_on_cell a (cell_cancel reason) rg, True))"

section \<open>Executions of a server\<close>

record live_system =
  sy_registry :: live_registry
  sy_admissions :: "(64 word \<times> nat) list"
  sy_registrations :: "string list"

text \<open>
  \<open>n\<close> counts the admissions so far; reservation numbers wrap after \<open>2 ^ 64\<close> of them.
  Task identifiers are unique (theory \<open>TaskProtocol\<close>).
\<close>

inductive live_step :: "nat \<Rightarrow> live_system \<Rightarrow> nat \<Rightarrow> live_system \<Rightarrow> bool" where
  admit: "lr_admit (sy_registry sy) = (rg, Some h) \<Longrightarrow> Suc n < 2 ^ 64 \<Longrightarrow>
     live_step n sy (Suc n) (sy\<lparr>sy_registry := rg, sy_admissions := h # sy_admissions sy\<rparr>)"
| refuse: "lr_admit (sy_registry sy) = (rg, None) \<Longrightarrow> live_step n sy n (sy\<lparr>sy_registry := rg\<rparr>)"
| drop_admission: "(r, a) \<in> set (sy_admissions sy) \<Longrightarrow>
     live_step n sy n (sy\<lparr>sy_registry := lr_release_reservation r (sy_registry sy),
       sy_admissions := AList.delete r (sy_admissions sy)\<rparr>)"
| promote: "(r, a) \<in> set (sy_admissions sy) \<Longrightarrow> i \<notin> set (sy_registrations sy) \<Longrightarrow>
     live_step n sy n (sy\<lparr>sy_registry := lr_promote r i a (sy_registry sy),
       sy_admissions := AList.delete r (sy_admissions sy),
       sy_registrations := i # sy_registrations sy\<rparr>)"
| drop_registration: "i \<in> set (sy_registrations sy) \<Longrightarrow>
     live_step n sy n (sy\<lparr>sy_registry := lr_unregister i (sy_registry sy),
       sy_registrations := removeAll i (sy_registrations sy)\<rparr>)"
| close: "live_step n sy n (sy\<lparr>sy_registry := lr_close_admission (sy_registry sy)\<rparr>)"
| signal: "live_step n sy n (sy\<lparr>sy_registry := lr_on_cell a f (sy_registry sy)\<rparr>)"

inductive live_reach :: "nat \<Rightarrow> live_system \<Rightarrow> bool" where
  start: "live_reach 0 \<lparr>sy_registry = live_registry_new, sy_admissions = [], sy_registrations = []\<rparr>"
| step: "live_reach n sy \<Longrightarrow> live_step n sy n' sy' \<Longrightarrow> live_reach n' sy'"

text \<open>The registry holds exactly what has been admitted and not released.\<close>

definition live_ok :: "nat \<Rightarrow> live_system \<Rightarrow> bool" where
  "live_ok n sy \<longleftrightarrow> n < 2 ^ 64
     \<and> lr_next_reservation (sy_registry sy) = of_nat n
     \<and> distinct (map fst (lr_reservations (sy_registry sy)))
     \<and> distinct (map fst (sy_admissions sy))
     \<and> set (lr_reservations (sy_registry sy)) = set (sy_admissions sy)
     \<and> fst ` set (sy_admissions sy) \<subseteq> of_nat ` {..<n}
     \<and> distinct (map fst (lr_executions (sy_registry sy)))
     \<and> distinct (sy_registrations sy)
     \<and> fst ` set (lr_executions (sy_registry sy)) = set (sy_registrations sy)
     \<and> (\<forall>h\<in>set (sy_admissions sy). snd h < length (lr_cells (sy_registry sy)))
     \<and> (\<forall>e\<in>set (lr_executions (sy_registry sy)). snd e < length (lr_cells (sy_registry sy)))
     \<and> lr_active_count_tx (sy_registry sy) = lr_active_count (sy_registry sy)"

lemma of_nat_64_fresh: "n < 2 ^ 64 \<Longrightarrow> (of_nat n :: 64 word) \<notin> of_nat ` {..<n}"
proof
  assume n: "n < 2 ^ 64" and "(of_nat n :: 64 word) \<in> of_nat ` {..<n}"
  then obtain k where k: "k < n" "(of_nat n :: 64 word) = of_nat k" by auto
  then have "unat (of_nat n :: 64 word) = unat (of_nat k :: 64 word)" by simp
  then show False using n k(1) by (simp add: unat_of_nat)
qed

lemma set_alist_delete: "set (AList.delete k xs) = {x \<in> set xs. fst x \<noteq> k}"
  by (auto simp: AList.delete_eq)

lemma length_distinct_sets:
  "distinct (map fst xs) \<Longrightarrow> distinct (map fst ys) \<Longrightarrow> fst ` set xs = fst ` set ys \<Longrightarrow> length xs = length ys"
  using distinct_card [of "map fst xs"] distinct_card [of "map fst ys"] by simp

lemma length_delete_key:
  "distinct (map fst xs) \<Longrightarrow> k \<in> fst ` set xs \<Longrightarrow> Suc (length (AList.delete k xs)) = length xs"
  by (metis length_delete_present imageE map_of_is_SomeI prod.collapse)

lemma lr_on_cell_simps [simp]:
  "lr_reservations (lr_on_cell a f rg) = lr_reservations rg"
  "lr_executions (lr_on_cell a f rg) = lr_executions rg"
  "lr_next_reservation (lr_on_cell a f rg) = lr_next_reservation rg"
  "lr_admission_open (lr_on_cell a f rg) = lr_admission_open rg"
  "lr_active_count_tx (lr_on_cell a f rg) = lr_active_count_tx rg"
  "length (lr_cells (lr_on_cell a f rg)) = length (lr_cells rg)"
  "lr_active_count (lr_on_cell a f rg) = lr_active_count rg"
  "lr_admitted (lr_on_cell a f rg) = lr_admitted rg"
  by (simp_all add: lr_on_cell_def lr_active_count_def lr_admitted_def)

lemma admit_ok:
  assumes ok: "live_ok n sy" and run: "lr_admit (sy_registry sy) = (rg, Some h)" and n: "Suc n < 2 ^ 64"
  shows "live_ok (Suc n) (sy\<lparr>sy_registry := rg, sy_admissions := h # sy_admissions sy\<rparr>)"
proof -
  let ?rg = "sy_registry sy"
  have fresh: "(of_nat n :: 64 word) \<notin> fst ` set (sy_admissions sy)"
    using ok of_nat_64_fresh [of n] by (auto simp: live_ok_def)
  have "fst ` set (lr_reservations ?rg) = fst ` set (sy_admissions sy)" using ok by (simp add: live_ok_def)
  with fresh have up: "AList.update (of_nat n) (length (lr_cells ?rg)) (lr_reservations ?rg)
      = lr_reservations ?rg @ [(of_nat n, length (lr_cells ?rg))]"
    by (intro alist_update_fresh) simp
  have h: "h = (of_nat n, length (lr_cells ?rg))"
    and rg: "rg = lr_publish (?rg\<lparr>lr_next_reservation := of_nat n + 1,
      lr_reservations := lr_reservations ?rg @ [(of_nat n, length (lr_cells ?rg))],
      lr_cells := lr_cells ?rg @ [live_cell_new]\<rparr>)"
    using run ok up by (auto simp: lr_admit_def Let_def live_ok_def split: if_splits)
  show ?thesis
    using ok n fresh
    by (auto simp: live_ok_def rg h lr_publish_def lr_active_count_def add.commute
        lessThan_Suc less_Suc_eq)
qed

lemma promote_ok:
  assumes ok: "live_ok n sy" and h: "(r, a) \<in> set (sy_admissions sy)" and i: "i \<notin> set (sy_registrations sy)"
  shows "live_ok n (sy\<lparr>sy_registry := lr_promote r i a (sy_registry sy),
    sy_admissions := AList.delete r (sy_admissions sy), sy_registrations := i # sy_registrations sy\<rparr>)"
proof -
  let ?rg = "sy_registry sy"
  have "(r, a) \<in> set (lr_reservations ?rg)" using ok h by (simp add: live_ok_def)
  then have k: "r \<in> fst ` set (lr_reservations ?rg)" by (rule rev_image_eqI) simp
  have "\<forall>h\<in>set (sy_admissions sy). snd h < length (lr_cells ?rg)" using ok by (simp add: live_ok_def)
  then have a: "a < length (lr_cells ?rg)" using h by force
  have i': "i \<notin> fst ` set (lr_executions ?rg)" using ok i by (simp add: live_ok_def)
  have len: "length (AList.delete r (lr_reservations ?rg)) + Suc (length (lr_executions ?rg))
      = lr_active_count_tx ?rg"
    using length_delete_key [OF _ k] ok by (simp add: live_ok_def lr_active_count_def)
  have new: "lr_executions (lr_promote r i a ?rg) = lr_executions ?rg @ [(i, a)]"
    "lr_reservations (lr_promote r i a ?rg) = AList.delete r (lr_reservations ?rg)"
    "lr_cells (lr_promote r i a ?rg) = lr_cells ?rg"
    "lr_next_reservation (lr_promote r i a ?rg) = lr_next_reservation ?rg"
    "lr_active_count_tx (lr_promote r i a ?rg) = lr_active_count_tx ?rg"
    by (simp_all add: lr_promote_def alist_update_fresh [OF i'])
  have "fst ` {x \<in> set (sy_admissions sy). fst x \<noteq> r} \<subseteq> of_nat ` {..<n}"
    using ok by (auto simp: live_ok_def)
  then show ?thesis
    using ok i i' a len
    by (simp add: live_ok_def new lr_active_count_def set_alist_delete distinct_delete)
qed

lemma live_step_ok:
  assumes "live_step n sy n' sy'" and ok: "live_ok n sy"
  shows "live_ok n' sy'"
  using assms(1)
proof cases
  case (admit rg h)
  then show ?thesis using admit_ok [OF ok] by simp
next
  case (refuse rg)
  then show ?thesis using ok by (auto simp: lr_admit_def Let_def split: if_splits)
next
  case (drop_admission r a)
  then show ?thesis
    using ok
    by (auto simp: live_ok_def lr_release_reservation_def lr_publish_def lr_active_count_def
        set_alist_delete distinct_delete)
next
  case (promote r a i)
  then show ?thesis using promote_ok [OF ok] by simp
next
  case (drop_registration i)
  then show ?thesis
    using ok
    by (auto simp: live_ok_def lr_unregister_def lr_publish_def lr_active_count_def
        set_alist_delete distinct_delete distinct_removeAll)
next
  case close
  then show ?thesis using ok by (simp add: live_ok_def lr_close_admission_def lr_active_count_def lr_admitted_def)
next
  case (signal a f)
  then show ?thesis using ok by (simp add: live_ok_def)
qed

lemma live_reach_ok: "live_reach n sy \<Longrightarrow> live_ok n sy"
proof (induction rule: live_reach.induct)
  case start
  then show ?case by (simp add: live_ok_def live_registry_new_def lr_active_count_def lr_admitted_def)
next
  case (step n sy n' sy')
  then show ?case using live_step_ok by blast
qed

section \<open>Draining and cancelling\<close>

lemma live_step_closed:
  assumes "live_step n sy n' sy'" and ok: "live_ok n sy" and closed: "\<not> lr_admission_open (sy_registry sy)"
  shows "\<not> lr_admission_open (sy_registry sy')
    \<and> lr_active_count (sy_registry sy') \<le> lr_active_count (sy_registry sy)"
  using assms(1)
proof cases
  case (promote r a i)
  have "live_ok n sy'" using live_step_ok [OF assms(1) ok] promote(1) by simp
  then have "lr_active_count_tx (sy_registry sy') = lr_active_count (sy_registry sy')"
    by (simp add: live_ok_def)
  moreover have "lr_active_count_tx (sy_registry sy) = lr_active_count (sy_registry sy)"
    using ok by (simp add: live_ok_def)
  ultimately show ?thesis using promote(2) closed by (simp add: lr_promote_def)
qed (use closed in \<open>auto simp: lr_admit_def lr_release_reservation_def lr_unregister_def
    lr_close_admission_def lr_publish_def lr_active_count_def length_delete_le\<close>)

definition signalled_as :: "string \<Rightarrow> live_cell \<Rightarrow> live_cell \<Rightarrow> bool" where
  "signalled_as reason c c' \<longleftrightarrow> lc_token c' \<and> lc_requested c'
     \<and> lc_reason c' = (if lc_requested c then lc_reason c else Some reason)"

lemma lr_cell_on_cell:
  "a < length (lr_cells rg) \<Longrightarrow> lr_cell (lr_on_cell a f rg) b = (if b = a then f (lr_cell rg a) else lr_cell rg b)"
  by (simp add: lr_cell_def lr_on_cell_def)

lemma fold_cancel:
  assumes "\<forall>a\<in>set as. a < length (lr_cells rg)"
  shows "(b \<in> set as \<or> signalled_as reason c (lr_cell rg b)) \<and>
     (b \<in> set as \<longrightarrow> lr_cell rg b = c \<or> signalled_as reason c (lr_cell rg b)) \<Longrightarrow>
   signalled_as reason c (lr_cell (fold (\<lambda>a. lr_on_cell a (cell_cancel (Some reason))) as rg) b)"
  using assms
proof (induction as arbitrary: rg)
  case (Cons a as)
  let ?rg = "lr_on_cell a (cell_cancel (Some reason)) rg"
  have step: "signalled_as reason c (lr_cell ?rg a)"
    if "lr_cell rg a = c \<or> signalled_as reason c (lr_cell rg a)"
    using that Cons.prems(2)
    by (auto simp: lr_cell_on_cell signalled_as_def cell_cancel_def cell_request_def cell_raise_def)
  have "(b \<in> set as \<or> signalled_as reason c (lr_cell ?rg b)) \<and>
     (b \<in> set as \<longrightarrow> lr_cell ?rg b = c \<or> signalled_as reason c (lr_cell ?rg b))"
    using step Cons.prems by (cases "b = a") (auto simp: lr_cell_on_cell)
  then show ?case using Cons.IH [of ?rg] Cons.prems(2) by simp
qed simp

text \<open>
  Draining the live executions is exact.  In every reachable state the registry counts the
  admissions and registrations that have not been dropped, and publishes that count, so \<open>drained\<close>
  returns exactly when none is left; after \<open>close_admission\<close> no step admits an execution again
  and the count never grows; and \<open>cancel_all\<close> signals every execution admitted at that moment,
  keeping the reason of an earlier request.
\<close>

theorem live_drain_exact:
  assumes "live_reach n sy"
  shows "lr_active_count (sy_registry sy) = length (sy_admissions sy) + length (sy_registrations sy)
    \<and> (lr_drained (sy_registry sy) \<longleftrightarrow> sy_admissions sy = [] \<and> sy_registrations sy = [])
    \<and> (\<forall>n' sy'. live_step n sy n' sy' \<and> \<not> lr_admission_open (sy_registry sy) \<longrightarrow>
          \<not> lr_admission_open (sy_registry sy')
        \<and> lr_active_count (sy_registry sy') \<le> lr_active_count (sy_registry sy))
    \<and> snd (lr_cancel_all reason (sy_registry sy)) = lr_active_count (sy_registry sy)
    \<and> (\<forall>a\<in>set (lr_admitted (sy_registry sy)).
          lc_token (lr_cell (fst (lr_cancel_all reason (sy_registry sy))) a)
        \<and> lc_reason (lr_cell (fst (lr_cancel_all reason (sy_registry sy))) a)
            = (if lc_requested (lr_cell (sy_registry sy) a) then lc_reason (lr_cell (sy_registry sy) a)
               else Some reason))"
proof -
  let ?rg = "sy_registry sy"
  have ok: "live_ok n sy" by (rule live_reach_ok [OF assms])
  have "length (lr_reservations ?rg) = length (sy_admissions sy)"
    using ok by (intro length_distinct_sets) (simp_all add: live_ok_def)
  moreover have "length (lr_executions ?rg) = length (sy_registrations sy)"
    using ok distinct_card [of "map fst (lr_executions ?rg)"] distinct_card [of "sy_registrations sy"]
    by (simp add: live_ok_def)
  ultimately have count: "lr_active_count ?rg = length (sy_admissions sy) + length (sy_registrations sy)"
    by (simp add: lr_active_count_def)
  have drained: "lr_drained ?rg \<longleftrightarrow> sy_admissions sy = [] \<and> sy_registrations sy = []"
    using ok count by (simp add: lr_drained_def live_ok_def)
  have cells: "\<forall>a\<in>set (lr_admitted ?rg). a < length (lr_cells ?rg)"
    using ok by (auto simp: lr_admitted_def live_ok_def)
  have "signalled_as reason (lr_cell ?rg a) (lr_cell (fst (lr_cancel_all reason ?rg)) a)"
    if "a \<in> set (lr_admitted ?rg)" for a
    using fold_cancel [OF cells, of a reason "lr_cell ?rg a"] that by (simp add: lr_cancel_all_def)
  moreover have "snd (lr_cancel_all reason ?rg) = lr_active_count ?rg"
    by (simp add: lr_cancel_all_def lr_admitted_def lr_active_count_def)
  moreover have "\<forall>n' sy'. live_step n sy n' sy' \<and> \<not> lr_admission_open ?rg \<longrightarrow>
      \<not> lr_admission_open (sy_registry sy') \<and> lr_active_count (sy_registry sy') \<le> lr_active_count ?rg"
    using live_step_closed [OF _ ok] by blast
  ultimately show ?thesis
    using count drained unfolding signalled_as_def by blast
qed

definition demo_promoted :: live_registry where
  "demo_promoted = lr_promote 0 ''a'' 0 (fst (lr_admit live_registry_new))"

lemma demo_promoted_reach:
  "live_reach 1 \<lparr>sy_registry = demo_promoted, sy_admissions = [], sy_registrations = [''a'']\<rparr>"
proof -
  let ?s0 = "\<lparr>sy_registry = live_registry_new, sy_admissions = [], sy_registrations = []\<rparr>"
  have run: "lr_admit live_registry_new = (fst (lr_admit live_registry_new), Some (0, 0))"
    by (simp add: lr_admit_def live_registry_new_def)
  have "live_reach 1 (?s0\<lparr>sy_registry := fst (lr_admit live_registry_new), sy_admissions := [(0, 0)]\<rparr>)"
    using live_reach.step [OF live_reach.start live_step.admit [where sy = ?s0 and n = 0]] run by simp
  from live_reach.step [OF this live_step.promote [of 0 0 _ "''a''"]] show ?thesis
    by (simp add: demo_promoted_def)
qed

lemma live_drain_exact_witness:
  "\<not> lr_drained demo_promoted \<and> lr_active_count demo_promoted = 1
   \<and> lr_active_task_ids demo_promoted = [''a'']
   \<and> lc_reason (lr_cell (fst (lr_cancel_all ''stop'' demo_promoted)) 0) = Some ''stop''"
proof -
  have c: "lr_admitted demo_promoted = [0]" "lc_requested (lr_cell demo_promoted 0) = False"
    "lr_active_task_ids demo_promoted = [''a'']"
    by (simp_all add: demo_promoted_def lr_admit_def live_registry_new_def lr_promote_def lr_admitted_def
        lr_cell_def lr_publish_def live_cell_new_def lr_active_task_ids_def)
  show ?thesis
    using live_drain_exact [OF demo_promoted_reach, of "''stop''"] c by simp
qed

end
