(* ===== verification/TaskRouter.thy ===== *)
theory TaskRouter
  imports Capabilities TaskProps LiveTasks
begin

text \<open>
  The task methods of the router (\<open>crates/tower-mcp/src/router/task_ops.rs\<close>, the arms
  \<open>GetTaskInfo\<close>, \<open>UpdateTask\<close> and \<open>CancelTask\<close> of \<open>router.rs\<close>, the error
  policy of \<open>router/policy.rs\<close>) over a task store, the registry of live executions and the
  notification sink.

  A handler is \<open>async\<close>: between two calls of the store other requests run.  The world counts
  the store calls; before the n-th one the environment's \<open>en_between n\<close> may change the
  store and the live registry in any way.  \<open>None\<close> is a panic; a store is given by its
  operations (\<open>task_api\<close>), so the handlers are defined for every \<open>TaskStore\<close>.
\<close>

section \<open>Errors and their policy\<close>

datatype task_operation =
  OpCreate | OpGet | OpUpdate | OpCancel | OpParkInput | OpExecute | OpResume | OpFinalize

datatype task_failure =
  FNotFound
| FExpired
| FStore task_store_error
| FInternal string
| FInvalidArguments string
| FHandler

record task_error_context =
  ec_operation :: task_operation
  ec_task_id :: "string option"
  ec_failure :: task_failure

definition task_error_context_new :: "task_operation \<Rightarrow> string option \<Rightarrow> task_failure \<Rightarrow> task_error_context" where
  "task_error_context_new op i f = \<lparr>ec_operation = op, ec_task_id = i, ec_failure = f\<rparr>"

definition shown_id :: "task_error_context \<Rightarrow> string" where
  "shown_id c = (case ec_task_id c of Some i \<Rightarrow> i | None \<Rightarrow> ''<unknown>'')"

definition default_task_error :: "task_error_context \<Rightarrow> json_rpc_error" where
  "default_task_error c =
     (case ec_failure c of
        FNotFound \<Rightarrow> invalid_params (''Task not found: '' @ shown_id c)
      | FExpired \<Rightarrow> (invalid_params (''Task expired: '' @ shown_id c))
          \<lparr>e_data := Some (JObj [(''reason'', JStr ''task_expired'')])\<rparr>
      | FStore _ \<Rightarrow> internal_error ''Task store operation failed''
      | FInternal m \<Rightarrow> internal_error m
      | FInvalidArguments m \<Rightarrow> invalid_params m
      | FHandler \<Rightarrow> internal_error ''Task handler failed'')"

text \<open>A policy is application code: \<open>None\<close> is its panic, which is caught.\<close>

type_synonym task_error_policy = "task_error_context \<Rightarrow> json_rpc_error option"

definition policy_map :: "task_error_policy \<Rightarrow> task_error_context \<Rightarrow> json_rpc_error" where
  "policy_map p c = (case p c of Some e \<Rightarrow> e | None \<Rightarrow> internal_error ''Task error policy failed'')"

section \<open>The views of a task\<close>

record task_metadata =
  tm_task_id :: string
  tm_status_message :: "string option"
  tm_created_at :: string
  tm_last_updated_at :: string
  tm_ttl_ms :: "nat option"
  tm_poll_interval_ms :: "nat option"

definition task_metadata_new :: "string \<Rightarrow> string \<Rightarrow> string \<Rightarrow> nat option \<Rightarrow> task_metadata" where
  "task_metadata_new i created updated ttl =
     \<lparr>tm_task_id = i, tm_status_message = None, tm_created_at = created, tm_last_updated_at = updated,
      tm_ttl_ms = ttl, tm_poll_interval_ms = None\<rparr>"

datatype detailed_task =
  DtWorking task_metadata
| DtInputRequired task_metadata input_requests
| DtCompleted task_metadata "(string \<times> json) list"
| DtFailed task_metadata json_rpc_error
| DtCancelled task_metadata

fun detailed_status :: "detailed_task \<Rightarrow> task_status" where
  "detailed_status (DtWorking _) = Working"
| "detailed_status (DtInputRequired _ _) = InputRequired"
| "detailed_status (DtCompleted _ _) = Completed"
| "detailed_status (DtFailed _ _) = task_status.Failed"
| "detailed_status (DtCancelled _) = Cancelled"

fun detailed_metadata :: "detailed_task \<Rightarrow> task_metadata" where
  "detailed_metadata (DtWorking m) = m"
| "detailed_metadata (DtInputRequired m _) = m"
| "detailed_metadata (DtCompleted m _) = m"
| "detailed_metadata (DtFailed m _) = m"
| "detailed_metadata (DtCancelled m) = m"

type_synonym detailed_snapshot = "detailed_task \<times> (string \<times> json) list option"

text \<open>The responses of the task methods.\<close>

datatype mcp_response =
  FinalGetTask detailed_task "(string \<times> json) list option"
| GetTaskInfoR task_object "wire option" "json_rpc_error option"
| FinalTaskAck
| UpdateTaskR
| CancelTaskR
| FinalCreateTask task_metadata task_status "(string \<times> json) list option"
| CreateTaskR task_object

section \<open>The world of a handler\<close>

record 'st task_api =
  ta_presence :: "clock \<Rightarrow> string \<Rightarrow> 'st \<Rightarrow> ('st \<times> (task_store_error + task_presence)) option"
  ta_owner :: "clock \<Rightarrow> string \<Rightarrow> 'st \<Rightarrow> ('st \<times> (task_store_error + task_owner option)) option"
  ta_get :: "clock \<Rightarrow> string \<Rightarrow> 'st \<Rightarrow> ('st \<times> (task_store_error + task_object option)) option"
  ta_result :: "clock \<Rightarrow> string \<Rightarrow> 'st \<Rightarrow> ('st \<times> (task_store_error + task_snapshot option)) option"
  ta_outstanding :: "clock \<Rightarrow> string \<Rightarrow> 'st \<Rightarrow> ('st \<times> (task_store_error + input_requests option)) option"
  ta_resume :: "clock \<Rightarrow> string \<Rightarrow> 'st \<Rightarrow> ('st \<times> (task_store_error + task_resume_context option)) option"
  ta_apply :: "clock \<Rightarrow> string \<Rightarrow> input_responses \<Rightarrow> 'st
    \<Rightarrow> ('st \<times> (task_store_error + applied_input_responses option)) option"
  ta_require :: "clock \<Rightarrow> string \<Rightarrow> input_requests \<Rightarrow> string option \<Rightarrow> 'st
    \<Rightarrow> ('st \<times> (task_store_error + bool)) option"
  ta_cancel :: "clock \<Rightarrow> string \<Rightarrow> string option \<Rightarrow> 'st \<Rightarrow> ('st \<times> (task_store_error + task_object option)) option"
  ta_fail :: "clock \<Rightarrow> string \<Rightarrow> json_rpc_error \<Rightarrow> 'st \<Rightarrow> ('st \<times> (task_store_error + bool)) option"
  ta_complete :: "clock \<Rightarrow> string \<Rightarrow> wire \<Rightarrow> 'st \<Rightarrow> ('st \<times> (task_store_error + bool)) option"
  ta_create :: "clock \<Rightarrow> (string + unit) \<times> string \<Rightarrow> string \<Rightarrow> json \<Rightarrow> nat option \<Rightarrow> task_owner \<Rightarrow> 'st
    \<Rightarrow> ('st \<times> (task_store_error + string)) option"
  ta_set_meta :: "clock \<Rightarrow> string \<Rightarrow> json \<Rightarrow> 'st \<Rightarrow> ('st \<times> (task_store_error + bool)) option"
  ta_discard :: "clock \<Rightarrow> string \<Rightarrow> 'st \<Rightarrow> ('st \<times> (task_store_error + bool)) option"

text \<open>
  The in-memory store of theory \<open>TaskOps\<close> behind that interface.  The seed of a creation is
  what the system supplies to it: whether the expiry thread started, and the identifier generated.
\<close>

definition memory_api :: "serializer \<Rightarrow> store task_api" where
  "memory_api ser = \<lparr>ta_presence = get_task_presence ser, ta_owner = get_task_owner ser,
     ta_get = get_task ser, ta_result = get_task_result ser,
     ta_outstanding = outstanding_input_requests ser, ta_resume = resume_context ser,
     ta_apply = apply_input_responses ser, ta_require = require_input ser,
     ta_cancel = cancel_task ser, ta_fail = fail_task ser, ta_complete = complete_task ser,
     ta_create = (\<lambda>clk seed. create_task ser clk (fst seed) (snd seed)),
     ta_set_meta = set_task_meta ser, ta_discard = (\<lambda>_. discard_task)\<rparr>"

text \<open>
  \<open>en_decode\<close> is \<open>serde_json::from_value\<close> at \<open>InputResponse\<close>; \<open>en_tools\<close> says
  whether a static or dynamic tool of that name is registered.
\<close>

record 'st task_env =
  en_api :: "'st task_api"
  en_between :: "nat \<Rightarrow> 'st \<times> live_registry \<Rightarrow> 'st \<times> live_registry"
  en_clock :: "nat \<Rightarrow> clock"
  en_policy :: task_error_policy
  en_resolver :: "request_extensions \<Rightarrow> task_owner_resolution"
  en_final_tasks :: bool
  en_tools :: "string \<Rightarrow> bool"
  en_decode :: "json \<Rightarrow> wire option"

text \<open>
  \<open>tw_offered\<close> is what was handed to the notification sink, \<open>tw_replays\<close> the executions
  spawned to run a handler again, \<open>tw_started\<close> those spawned for a new task, a live one with the
  cell of its cancellation; all in order.
\<close>

record 'st task_world =
  tw_store :: 'st
  tw_live :: live_registry
  tw_calls :: nat
  tw_offered :: "detailed_snapshot list"
  tw_replays :: "(string \<times> task_resume_context) list"
  tw_started :: "(string \<times> nat option) list"

type_synonym ('st, 'a) act = "'st task_world \<Rightarrow> ('st task_world \<times> (json_rpc_error + 'a)) option"

definition act_ok :: "'a \<Rightarrow> ('st, 'a) act" where
  "act_ok x w = Some (w, Inr x)"

definition act_err :: "json_rpc_error \<Rightarrow> ('st, 'a) act" where
  "act_err e w = Some (w, Inl e)"

definition act_bind :: "('st, 'a) act \<Rightarrow> ('a \<Rightarrow> ('st, 'b) act) \<Rightarrow> ('st, 'b) act" where
  "act_bind m f w =
     (case m w of
        None \<Rightarrow> None
      | Some (w', Inl e) \<Rightarrow> Some (w', Inl e)
      | Some (w', Inr x) \<Rightarrow> f x w')"

text \<open>One awaited call of the store; its own result is the value, an error included.\<close>

definition store_call ::
  "'st task_env \<Rightarrow> ('st task_api \<Rightarrow> clock \<Rightarrow> 'st \<Rightarrow> ('st \<times> 'r) option) \<Rightarrow> ('st, 'r) act" where
  "store_call en op w =
     (case en_between en (tw_calls w) (tw_store w, tw_live w) of (st, live) \<Rightarrow>
      case op (en_api en) (en_clock en (tw_calls w)) st of
        None \<Rightarrow> None
      | Some (st', r) \<Rightarrow>
          Some (w\<lparr>tw_store := st', tw_live := live, tw_calls := tw_calls w + 1\<rparr>, Inr r))"

definition live_call :: "(live_registry \<Rightarrow> live_registry \<times> 'a) \<Rightarrow> ('st, 'a) act" where
  "live_call f w = (case f (tw_live w) of (live, x) \<Rightarrow> Some (w\<lparr>tw_live := live\<rparr>, Inr x))"

text \<open>A result of which the caller only looks at success: \<open>match ... { Err(error) => .. }\<close>.\<close>

definition act_try :: "('st, 'a) act \<Rightarrow> ('st, json_rpc_error + 'a) act" where
  "act_try m w = (case m w of None \<Rightarrow> None | Some (w', r) \<Rightarrow> Some (w', Inr r))"

section \<open>Reading and classifying a task\<close>

definition router_task_error :: "'st task_env \<Rightarrow> task_operation \<Rightarrow> string option \<Rightarrow> task_failure \<Rightarrow> json_rpc_error" where
  "router_task_error en op i f = policy_map (en_policy en) (task_error_context_new op i f)"

text \<open>\<open>.await.map_err(|error| self.task_store_error(..))?\<close>\<close>

definition store_call_or ::
  "'st task_env \<Rightarrow> task_operation \<Rightarrow> string
   \<Rightarrow> ('st task_api \<Rightarrow> clock \<Rightarrow> 'st \<Rightarrow> ('st \<times> (task_store_error + 'r)) option) \<Rightarrow> ('st, 'r) act" where
  "store_call_or en op i call = act_bind (store_call en call) (\<lambda>r.
     case r of Inl e \<Rightarrow> act_err (router_task_error en op (Some i) (FStore e)) | Inr x \<Rightarrow> act_ok x)"

definition router_task_presence :: "'st task_env \<Rightarrow> task_operation \<Rightarrow> string \<Rightarrow> ('st, task_presence) act" where
  "router_task_presence en op i = store_call_or en op i (\<lambda>a clk. ta_presence a clk i)"

definition owns :: "'st task_env \<Rightarrow> request_extensions \<Rightarrow> task_presence \<Rightarrow> bool" where
  "owns en x p = (case presence_owner p of None \<Rightarrow> False
     | Some ow \<Rightarrow> resolution_matches (en_resolver en x) ow)"

definition classify_absent_presence ::
  "'st task_env \<Rightarrow> task_operation \<Rightarrow> string \<Rightarrow> request_extensions \<Rightarrow> task_presence \<Rightarrow> json_rpc_error" where
  "classify_absent_presence en op i x p =
     router_task_error en op (Some i)
       (case p of task_presence.Expired _ \<Rightarrow> if owns en x p then FExpired else FNotFound | _ \<Rightarrow> FNotFound)"

text \<open>The result is an error in every case.\<close>

definition classify_absent_task ::
  "'st task_env \<Rightarrow> task_operation \<Rightarrow> string \<Rightarrow> request_extensions \<Rightarrow> ('st, 'a) act" where
  "classify_absent_task en op i x = act_bind (router_task_presence en op i) (\<lambda>p.
     act_err (classify_absent_presence en op i x p))"

text \<open>\<open>None\<close> of \<open>missing_required_client_capability\<close> would be a panic.\<close>

definition require_negotiated_tasks ::
  "'st task_env \<Rightarrow> request_extensions \<Rightarrow> string \<Rightarrow> ('st, unit) act" where
  "require_negotiated_tasks en x m =
     (if \<not> en_final_tasks en then act_err (method_not_found m)
      else if client_declares_tasks x then act_ok ()
      else case missing_required_client_capability tasks_client_capabilities of
             Some e \<Rightarrow> act_err e | None \<Rightarrow> (\<lambda>w. None))"

definition authorize_task ::
  "'st task_env \<Rightarrow> task_operation \<Rightarrow> string \<Rightarrow> request_extensions \<Rightarrow> ('st, unit) act" where
  "authorize_task en op i x = act_bind (router_task_presence en op i) (\<lambda>p.
     case presence_owner p of
       None \<Rightarrow> act_err (router_task_error en op (Some i) FNotFound)
     | Some ow \<Rightarrow>
         if resolution_matches (en_resolver en x) ow then
           (case p of
              task_presence.Expired _ \<Rightarrow> act_err (router_task_error en op (Some i) FExpired)
            | _ \<Rightarrow> act_ok ())
         else act_err (router_task_error en op (Some i) FNotFound))"

definition authorize_task_subscription ::
  "'st task_env \<Rightarrow> string \<Rightarrow> request_extensions \<Rightarrow> ('st, unit) act" where
  "authorize_task_subscription en i x =
     act_bind (store_call_or en OpGet i (\<lambda>a clk. ta_owner a clk i)) (\<lambda>owner.
       if (case owner of None \<Rightarrow> False | Some ow \<Rightarrow> resolution_matches (en_resolver en x) ow)
       then act_ok ()
       else act_err (router_task_error en OpGet (Some i) FNotFound))"

definition metadata_of :: "task_object \<Rightarrow> task_metadata" where
  "metadata_of t =
     (task_metadata_new (o_task_id t) (o_created_at t) (o_last_updated_at t) (o_ttl t))
       \<lparr>tm_status_message := o_status_message t, tm_poll_interval_ms := o_poll_interval t\<rparr>"

text \<open>The object a completed task carries; \<open>insert\<close> replaces a member in place.\<close>

definition completed_object :: "wire option \<Rightarrow> string + (string \<times> json) list" where
  "completed_object result =
     result_bind (case result of None \<Rightarrow> Inr None
         | Some r \<Rightarrow> result_bind (wire_to_value r) (\<lambda>v. Inr (json_as_object v)))
       (\<lambda>object. Inr (AList.update ''resultType'' (JStr ''complete'')
          (case object of None \<Rightarrow> [] | Some kvs \<Rightarrow> kvs)))"

definition EMPTY_INPUT_MESSAGE :: string where
  "EMPTY_INPUT_MESSAGE = ''task store returned input_required without outstanding requests''"

text \<open>The loop over \<open>attempt in 0..2\<close>; falling out of it is \<open>unreachable!\<close>.\<close>

fun detailed_loop :: "'st task_env \<Rightarrow> string \<Rightarrow> nat list \<Rightarrow> ('st, detailed_snapshot option) act" where
  "detailed_loop en i [] = (\<lambda>w. None)"
| "detailed_loop en i (attempt # rest) =
     act_bind (store_call_or en OpGet i (\<lambda>a clk. ta_result a clk i)) (\<lambda>found.
     case found of
       None \<Rightarrow> act_ok None
     | Some (t, result, err) \<Rightarrow>
         (let metadata = metadata_of t;
              meta = Option.bind (o_meta t) json_as_object;
              give = (\<lambda>d. act_ok (Some (d, meta)))
          in case o_status t of
               Working \<Rightarrow> give (DtWorking metadata)
             | InputRequired \<Rightarrow>
                 act_bind (store_call_or en OpGet i (\<lambda>a clk. ta_outstanding a clk i)) (\<lambda>outstanding.
                 case outstanding of
                   None \<Rightarrow> act_ok None
                 | Some reqs \<Rightarrow>
                     if reqs = [] then
                       (if attempt = 0 then detailed_loop en i rest
                        else act_err (router_task_error en OpGet (Some i) (FInternal EMPTY_INPUT_MESSAGE)))
                     else give (DtInputRequired metadata reqs))
             | Completed \<Rightarrow>
                 (case completed_object result of
                    Inl _ \<Rightarrow> act_err (router_task_error en OpGet (Some i)
                        (FInternal ''failed to encode task result''))
                  | Inr object \<Rightarrow> give (DtCompleted metadata object))
             | task_status.Failed \<Rightarrow>
                 give (DtFailed metadata (case err of Some e \<Rightarrow> e | None \<Rightarrow> internal_error ''Task failed''))
             | Cancelled \<Rightarrow> give (DtCancelled metadata)))"

declare detailed_loop.simps [simp del]

definition router_detailed_task :: "'st task_env \<Rightarrow> string \<Rightarrow> ('st, detailed_snapshot option) act" where
  "router_detailed_task en i = detailed_loop en i [0, 1]"

definition final_get_task :: "'st task_env \<Rightarrow> string \<Rightarrow> request_extensions \<Rightarrow> ('st, mcp_response) act" where
  "final_get_task en i x = act_bind (router_detailed_task en i) (\<lambda>found.
     case found of
       None \<Rightarrow> classify_absent_task en OpGet i x
     | Some (d, meta) \<Rightarrow> act_ok (FinalGetTask d meta))"

section \<open>Notifications and outcomes\<close>

definition offer :: "detailed_snapshot \<Rightarrow> ('st, unit) act" where
  "offer d w = Some (w\<lparr>tw_offered := tw_offered w @ [d]\<rparr>, Inr ())"

text \<open>A failure to read the task back is dropped.\<close>

definition notify_task_state :: "'st task_env \<Rightarrow> string \<Rightarrow> ('st, unit) act" where
  "notify_task_state en i =
     (if \<not> en_final_tasks en then act_ok ()
      else act_bind (act_try (router_detailed_task en i)) (\<lambda>r.
        case r of
          Inr (Some d) \<Rightarrow> offer d
        | Inr None \<Rightarrow> act_ok ()
        | Inl _ \<Rightarrow> act_ok ()))"

definition record_task_failure :: "'st task_env \<Rightarrow> string \<Rightarrow> json_rpc_error \<Rightarrow> ('st, bool) act" where
  "record_task_failure en i e = act_bind (store_call en (\<lambda>a clk. ta_fail a clk i e)) (\<lambda>r.
     act_ok (r = Inr True))"

definition record_task_cancellation :: "'st task_env \<Rightarrow> string \<Rightarrow> string option \<Rightarrow> ('st, bool) act" where
  "record_task_cancellation en i reason = act_bind (store_call en (\<lambda>a clk. ta_cancel a clk i reason)) (\<lambda>r.
     act_ok (case r of Inr (Some _) \<Rightarrow> True | Inr None \<Rightarrow> False | Inl _ \<Rightarrow> False))"

definition complete_task_or_fail :: "'st task_env \<Rightarrow> string \<Rightarrow> wire \<Rightarrow> ('st, bool) act" where
  "complete_task_or_fail en i result = act_bind (store_call en (\<lambda>a clk. ta_complete a clk i result)) (\<lambda>r.
     case r of
       Inr True \<Rightarrow> act_ok True
     | Inr False \<Rightarrow> act_ok False
     | Inl e \<Rightarrow> act_bind (record_task_failure en i (router_task_error en OpFinalize (Some i) (FStore e)))
         (\<lambda>_. act_ok False))"

definition EMPTY_PARK_MESSAGE :: string where
  "EMPTY_PARK_MESSAGE = ''handler asked for input without naming any requests, so the task has nothing to wait for''"

text \<open>\<open>requests\<close> and \<open>msg\<close> are the input requests and request state the handler returned.\<close>

definition park_task_for_input ::
  "'st task_env \<Rightarrow> string \<Rightarrow> input_requests option \<Rightarrow> string option \<Rightarrow> ('st, unit) act" where
  "park_task_for_input en i requests msg =
     (let reqs = (case requests of None \<Rightarrow> [] | Some rs \<Rightarrow> rs) in
      if reqs = [] then
        act_bind (store_call en (\<lambda>a clk. ta_fail a clk i
            (router_task_error en OpParkInput (Some i) (FInternal EMPTY_PARK_MESSAGE))))
          (\<lambda>_. notify_task_state en i)
      else
        act_bind (store_call en (\<lambda>a clk. ta_require a clk i reqs msg)) (\<lambda>r.
        act_bind (case r of
            Inr _ \<Rightarrow> act_ok ()
          | Inl e \<Rightarrow> act_bind (store_call en (\<lambda>a clk. ta_fail a clk i
                (router_task_error en OpParkInput (Some i) (FStore e)))) (\<lambda>_. act_ok ()))
          (\<lambda>_. notify_task_state en i)))"

definition RESUME_UNSUPPORTED :: string where
  "RESUME_UNSUPPORTED = ''this task store cannot resume a task after input was provided; implement TaskStore::resume_context to support handlers that ask for input''"

definition RESUME_NO_TOKEN :: string where
  "RESUME_NO_TOKEN = ''this task store returned a resume context without the task's cancellation and expiry token; attach it with TaskResumeContext::with_cancellation_token''"

definition RESUME_NO_TOOL :: string where
  "RESUME_NO_TOOL = ''the task cannot resume because its tool is no longer registered''"

definition fail_and_notify :: "'st task_env \<Rightarrow> string \<Rightarrow> task_failure \<Rightarrow> ('st, unit) act" where
  "fail_and_notify en i f =
     act_bind (record_task_failure en i (router_task_error en OpResume (Some i) f))
       (\<lambda>_. notify_task_state en i)"

definition spawn_replay :: "string \<Rightarrow> task_resume_context \<Rightarrow> ('st, unit) act" where
  "spawn_replay i r w = Some (w\<lparr>tw_replays := tw_replays w @ [(i, r)]\<rparr>, Inr ())"

definition resume_task :: "'st task_env \<Rightarrow> string \<Rightarrow> ('st, unit) act" where
  "resume_task en i = act_bind (store_call en (\<lambda>a clk. ta_resume a clk i)) (\<lambda>r.
     case r of
       Inr None \<Rightarrow> fail_and_notify en i (FInternal RESUME_UNSUPPORTED)
     | Inl e \<Rightarrow> fail_and_notify en i (FStore e)
     | Inr (Some resume) \<Rightarrow>
         if rc_cancellation_token resume = None then fail_and_notify en i (FInternal RESUME_NO_TOKEN)
         else if \<not> en_tools en (rc_tool_name resume) then fail_and_notify en i (FInternal RESUME_NO_TOOL)
         else spawn_replay i resume)"

text \<open>How the spawned execution ends: stopped by its token, parked again, or with a result.\<close>

datatype replay_outcome =
  ReplayStopped
| ReplayAsks "input_requests option" "string option"
| ReplayResult wire

definition settle_replay :: "'st task_env \<Rightarrow> string \<Rightarrow> replay_outcome \<Rightarrow> ('st, unit) act" where
  "settle_replay en i r =
     (case r of
        ReplayStopped \<Rightarrow> notify_task_state en i
      | ReplayAsks reqs msg \<Rightarrow> park_task_for_input en i reqs msg
      | ReplayResult result \<Rightarrow>
          act_bind (complete_task_or_fail en i result) (\<lambda>_. notify_task_state en i))"

definition discard_unprepared_task :: "'st task_env \<Rightarrow> string \<Rightarrow> ('st, unit) act" where
  "discard_unprepared_task en i = act_bind (store_call en (\<lambda>a clk. ta_discard a clk i)) (\<lambda>r.
     if r = Inr True then act_ok ()
     else act_bind (store_call en (\<lambda>a clk. ta_cancel a clk i (Some ''task preparation failed'')))
       (\<lambda>_. act_ok ()))"

section \<open>The request handlers\<close>

text \<open>\<open>decode_input_responses\<close>; \<open>collect\<close> stops at the first malformed value.\<close>

fun decode_responses :: "(json \<Rightarrow> wire option) \<Rightarrow> (string \<times> json) list \<Rightarrow> input_responses option" where
  "decode_responses dec [] = Some []"
| "decode_responses dec ((k, v) # rest) =
     (case dec v of None \<Rightarrow> None | Some r \<Rightarrow> map_option (\<lambda>rs. (k, r) # rs) (decode_responses dec rest))"

definition decode_input_responses ::
  "'st task_env \<Rightarrow> string \<Rightarrow> (string \<times> json) list \<Rightarrow> ('st, input_responses) act" where
  "decode_input_responses en i responses =
     (case decode_responses (en_decode en) responses of
        Some rs \<Rightarrow> act_ok rs
      | None \<Rightarrow> act_err (router_task_error en OpUpdate (Some i)
          (FInvalidArguments ''inputResponses contains a malformed value'')))"

definition handle_get_task :: "'st task_env \<Rightarrow> request_extensions \<Rightarrow> string \<Rightarrow> ('st, mcp_response) act" where
  "handle_get_task en x i =
     (if is_final_protocol_request x then
        act_bind (require_negotiated_tasks en x ''tasks/get'') (\<lambda>_.
        act_bind (authorize_task en OpGet i x) (\<lambda>_.
        final_get_task en i x))
      else
        act_bind (authorize_task en OpGet i x) (\<lambda>_.
        act_bind (store_call_or en OpGet i (\<lambda>a clk. ta_result a clk i)) (\<lambda>found.
        case found of
          None \<Rightarrow> classify_absent_task en OpGet i x
        | Some (t, result, err) \<Rightarrow>
            act_ok (case o_status t of
                Completed \<Rightarrow> GetTaskInfoR t result (o_error t)
              | task_status.Failed \<Rightarrow> GetTaskInfoR t (o_result t)
                  (Some (case err of Some e \<Rightarrow> e | None \<Rightarrow> internal_error ''Task failed''))
              | _ \<Rightarrow> GetTaskInfoR t (o_result t) (o_error t)))))"

text \<open>Nothing was left to apply: a late or duplicate update of a task that is still there is acknowledged.\<close>

definition update_absent ::
  "'st task_env \<Rightarrow> request_extensions \<Rightarrow> string \<Rightarrow> mcp_response \<Rightarrow> ('st, mcp_response) act" where
  "update_absent en x i ack = act_bind (router_task_presence en OpUpdate i) (\<lambda>p.
     case p of
       task_presence.Present _ \<Rightarrow> act_ok ack
     | absent \<Rightarrow> act_err (classify_absent_presence en OpUpdate i x absent))"

definition wake_or_resume :: "'st task_env \<Rightarrow> string \<Rightarrow> applied_input_responses \<Rightarrow> ('st, unit) act" where
  "wake_or_resume en i ap =
     (if ap_accepted ap \<noteq> [] \<and> applied_is_complete ap then
        act_bind (live_call (wake_live_task i)) (\<lambda>woken.
          if \<not> woken then resume_task en i else act_ok ())
      else act_ok ())"

text \<open>The final lifecycle, from the store call on.\<close>

definition apply_final_update ::
  "'st task_env \<Rightarrow> request_extensions \<Rightarrow> string \<Rightarrow> input_responses \<Rightarrow> ('st, mcp_response) act" where
  "apply_final_update en x i rs =
     act_bind (store_call_or en OpUpdate i (\<lambda>a clk. ta_apply a clk i rs)) (\<lambda>applied.
     case applied of
       None \<Rightarrow> update_absent en x i FinalTaskAck
     | Some ap \<Rightarrow>
         act_bind (notify_task_state en i) (\<lambda>_.
         act_bind (wake_or_resume en i ap) (\<lambda>_.
         act_ok FinalTaskAck)))"

definition handle_update_task ::
  "'st task_env \<Rightarrow> request_extensions \<Rightarrow> string \<Rightarrow> (string \<times> json) list \<Rightarrow> ('st, mcp_response) act" where
  "handle_update_task en x i responses =
     (if is_final_protocol_request x then
        act_bind (require_negotiated_tasks en x ''tasks/update'') (\<lambda>_.
        act_bind (authorize_task en OpUpdate i x) (\<lambda>_.
        act_bind (decode_input_responses en i responses) (\<lambda>rs.
        apply_final_update en x i rs)))
      else
        act_bind (authorize_task en OpUpdate i x) (\<lambda>_.
        act_bind (decode_input_responses en i responses) (\<lambda>rs.
        act_bind (store_call_or en OpUpdate i (\<lambda>a clk. ta_apply a clk i rs)) (\<lambda>applied.
        case applied of
          None \<Rightarrow> update_absent en x i UpdateTaskR
        | Some ap \<Rightarrow>
            act_bind (notify_task_state en i) (\<lambda>_.
            act_bind (if ap_accepted ap \<noteq> [] \<and> applied_is_complete ap then
                act_bind (live_call (wake_live_task i)) (\<lambda>_. act_ok ())
              else act_ok ()) (\<lambda>_.
            act_ok UpdateTaskR))))))"

definition already_terminal :: "string \<Rightarrow> task_status \<Rightarrow> json_rpc_error" where
  "already_terminal i status = invalid_params
     (''Task '' @ i @ '' is already in terminal state: '' @ task_status_display status)"

definition handle_cancel_task ::
  "'st task_env \<Rightarrow> request_extensions \<Rightarrow> string \<Rightarrow> string option \<Rightarrow> ('st, mcp_response) act" where
  "handle_cancel_task en x i reason =
     (if is_final_protocol_request x then
        act_bind (require_negotiated_tasks en x ''tasks/cancel'') (\<lambda>_.
        act_bind (authorize_task en OpCancel i x) (\<lambda>_.
        act_bind (live_call (signal_live_cancellation i reason)) (\<lambda>signalled.
        if signalled then
          act_bind (notify_task_state en i) (\<lambda>_. act_ok FinalTaskAck)
        else
          act_bind (store_call_or en OpCancel i (\<lambda>a clk. ta_cancel a clk i reason)) (\<lambda>cancelled.
          if cancelled = None then classify_absent_task en OpCancel i x
          else act_bind (notify_task_state en i) (\<lambda>_. act_ok FinalTaskAck)))))
      else
        act_bind (authorize_task en OpCancel i x) (\<lambda>_.
        act_bind (live_call (signal_live_cancellation i reason)) (\<lambda>signalled.
        if signalled then
          act_bind (notify_task_state en i) (\<lambda>_. act_ok CancelTaskR)
        else
          act_bind (store_call_or en OpCancel i (\<lambda>a clk. ta_get a clk i)) (\<lambda>found.
          case found of
            None \<Rightarrow> classify_absent_task en OpCancel i x
          | Some t \<Rightarrow>
              if is_terminal (o_status t) then act_err (already_terminal i (o_status t))
              else
                act_bind (store_call_or en OpCancel i (\<lambda>a clk. ta_cancel a clk i reason)) (\<lambda>cancelled.
                if cancelled = None then classify_absent_task en OpCancel i x
                else act_ok CancelTaskR)))))"

text \<open>The three task methods of a client.\<close>

datatype task_request =
  GetTask string
| UpdateTask string "(string \<times> json) list"
| CancelTask string "string option"

fun request_task_id :: "task_request \<Rightarrow> string" where
  "request_task_id (GetTask i) = i"
| "request_task_id (UpdateTask i _) = i"
| "request_task_id (CancelTask i _) = i"

fun handle_task_request :: "'st task_env \<Rightarrow> request_extensions \<Rightarrow> task_request \<Rightarrow> ('st, mcp_response) act" where
  "handle_task_request en x (GetTask i) = handle_get_task en x i"
| "handle_task_request en x (UpdateTask i responses) = handle_update_task en x i responses"
| "handle_task_request en x (CancelTask i reason) = handle_cancel_task en x i reason"

section \<open>What the handlers leave alone\<close>

lemma act_bindE:
  assumes "act_bind m f w = Some (w', r)"
  obtains (err) e where "m w = Some (w', Inl e)" and "r = Inl e"
    | (ok) w1 x where "m w = Some (w1, Inr x)" and "f x w1 = Some (w', r)"
  using assms by (auto simp: act_bind_def split: option.splits sum.splits)

lemma store_call_no_error: "store_call en op w \<noteq> Some (w', Inl e)"
  by (auto simp: store_call_def split: prod.splits option.splits)

definition preserves :: "('st task_world \<Rightarrow> 'b) \<Rightarrow> ('st, 'a) act \<Rightarrow> bool" where
  "preserves f m \<longleftrightarrow> (\<forall>w w' r. m w = Some (w', r) \<longrightarrow> f w' = f w)"

lemma preservesD: "preserves f m \<Longrightarrow> m w = Some (w', r) \<Longrightarrow> f w' = f w"
  by (simp add: preserves_def)

named_theorems preserves_rules

lemma preserves_basic [preserves_rules]:
  "preserves f (act_ok x)" "preserves f (act_err e)" "preserves f (\<lambda>w. None)"
  by (simp_all add: preserves_def act_ok_def act_err_def)

lemma preserves_bind [preserves_rules]:
  "preserves f m \<Longrightarrow> (\<And>x. preserves f (g x)) \<Longrightarrow> preserves f (act_bind m g)"
  by (auto simp: preserves_def act_bind_def split: option.splits sum.splits)

lemma preserves_try [preserves_rules]: "preserves f m \<Longrightarrow> preserves f (act_try m)"
  by (auto simp: preserves_def act_try_def split: option.splits)

lemma preserves_if [preserves_rules]:
  "(b \<Longrightarrow> preserves f m) \<Longrightarrow> (\<not> b \<Longrightarrow> preserves f n) \<Longrightarrow> preserves f (if b then m else n)"
  by simp

text \<open>A part of the world that a change made through \<open>act_bind\<close> can only come from the second half.\<close>

lemma bind_changes:
  assumes "act_bind m g w = Some (w', r)" and "preserves f m" and "f w' \<noteq> f w"
  obtains w1 x where "m w = Some (w1, Inr x)" and "f w1 = f w"
    and "g x w1 = Some (w', r)" and "f w' \<noteq> f w1"
  using assms by (auto simp: act_bind_def preserves_def split: option.splits sum.splits)

text \<open>
  A component of the world that neither a store call nor a notification changes is left alone by
  every handler, up to what it does to the live registry and the executions it spawns.
\<close>

locale handler_frame =
  fixes en :: "'st task_env" and f :: "'st task_world \<Rightarrow> 'b"
  assumes call: "f (w\<lparr>tw_store := st, tw_live := snd (en_between en n (s, tw_live w)), tw_calls := c\<rparr>) = f w"
    and offered: "f (w\<lparr>tw_offered := ds\<rparr>) = f w"
begin

lemma keeps_call [preserves_rules]: "preserves f (store_call en op)"
  unfolding preserves_def store_call_def
  using call by (auto split: prod.splits option.splits) (metis snd_conv)

lemma keeps_offer [preserves_rules]: "preserves f (offer d)"
  using offered by (simp add: preserves_def offer_def)

lemma keeps_call_or [preserves_rules]: "preserves f (store_call_or en op i c)"
  by (auto simp: store_call_or_def intro!: preserves_rules split: sum.split)

lemma keeps_detailed [preserves_rules]: "preserves f (detailed_loop en i attempts)"
  by (induction attempts)
    (auto simp: detailed_loop.simps Let_def intro!: preserves_rules
      split: option.split task_status.split sum.split)

lemma keeps_notify [preserves_rules]: "preserves f (notify_task_state en i)"
  by (auto simp: notify_task_state_def router_detailed_task_def
      intro!: preserves_rules split: option.split sum.split)

lemma keeps_presence [preserves_rules]: "preserves f (router_task_presence en op i)"
  unfolding router_task_presence_def by (rule keeps_call_or)

lemma keeps_reads [preserves_rules]:
  "preserves f (classify_absent_task en op i x)" "preserves f (authorize_task en op i x)"
  "preserves f (require_negotiated_tasks en x m)" "preserves f (decode_input_responses en i rs)"
  "preserves f (update_absent en x i ack)"
  by (auto simp: classify_absent_task_def authorize_task_def require_negotiated_tasks_def
      decode_input_responses_def update_absent_def
      intro!: preserves_rules split: option.split task_presence.split)

lemma keeps_get [preserves_rules]: "preserves f (final_get_task en i x)"
  by (auto simp: final_get_task_def router_detailed_task_def intro!: preserves_rules split: option.split)

lemma keeps_records [preserves_rules]:
  "preserves f (record_task_failure en i e)" "preserves f (record_task_cancellation en i reason)"
  by (auto simp: record_task_failure_def record_task_cancellation_def intro!: preserves_rules)

lemma keeps_settle [preserves_rules]:
  "preserves f (fail_and_notify en i e)" "preserves f (complete_task_or_fail en i result)"
  "preserves f (park_task_for_input en i reqs msg)" "preserves f (discard_unprepared_task en i)"
  by (auto simp: fail_and_notify_def complete_task_or_fail_def park_task_for_input_def
      discard_unprepared_task_def Let_def intro!: preserves_rules split: sum.split bool.split)

end

interpretation replays: handler_frame en tw_replays for en
  by unfold_locales simp_all

interpretation started: handler_frame en tw_started for en
  by unfold_locales simp_all

end
