(* ===== verification/TaskRouterProps.thy ===== *)
theory TaskRouterProps
  imports TaskRouter TaskProtocol
begin

text \<open>
  Properties of the task handlers of theory \<open>TaskRouter\<close>.  The store is reached through a
  contract, the locale \<open>task_store_laws\<close>: every operation returns and keeps an invariant.
  The handlers are shown to return inside it, and the in-memory store is shown to satisfy it.
\<close>

section \<open>Handlers that return\<close>

text \<open>
  The state between two store calls satisfies the invariant at the end of the last one; what other
  requests do before the next one keeps it until that call's first clock reading.
\<close>

definition since :: "'st task_env \<Rightarrow> nat \<Rightarrow> nat" where
  "since en n = (if n = 0 then 0 else at_again (en_clock en (n - 1)))"

definition total_call :: "(nat \<Rightarrow> 'st \<Rightarrow> bool) \<Rightarrow> (clock \<Rightarrow> 'st \<Rightarrow> ('st \<times> 'r) option) \<Rightarrow> bool" where
  "total_call ok op \<longleftrightarrow> (\<forall>now clk st. ok now st \<and> clock_ok now clk \<longrightarrow>
     (\<exists>st' r. op clk st = Some (st', r) \<and> ok (at_again clk) st'))"

lemma total_callD:
  assumes "total_call ok op" and "ok now st" and "clock_ok now clk"
  obtains st' r where "op clk st = Some (st', r)" and "ok (at_again clk) st'"
  using assms unfolding total_call_def by blast

definition env_keeps :: "(nat \<Rightarrow> 'st \<Rightarrow> bool) \<Rightarrow> 'st task_env \<Rightarrow> bool" where
  "env_keeps ok en \<longleftrightarrow> (\<forall>n. clock_ok (at_retire (en_clock en n)) (en_clock en n)
     \<and> (\<forall>st live. ok (since en n) st \<longrightarrow> ok (at_retire (en_clock en n)) (fst (en_between en n (st, live)))))"

definition world_ok :: "(nat \<Rightarrow> 'st \<Rightarrow> bool) \<Rightarrow> 'st task_env \<Rightarrow> 'st task_world \<Rightarrow> bool" where
  "world_ok ok en w \<longleftrightarrow> ok (since en (tw_calls w)) (tw_store w)"

definition returns :: "(nat \<Rightarrow> 'st \<Rightarrow> bool) \<Rightarrow> 'st task_env \<Rightarrow> ('st, 'a) act \<Rightarrow> bool" where
  "returns ok en m \<longleftrightarrow> (\<forall>w. world_ok ok en w \<longrightarrow> (\<exists>w' r. m w = Some (w', r) \<and> world_ok ok en w'))"

named_theorems returns_rules

lemma returns_ok [returns_rules]: "returns ok en (act_ok x)"
  by (simp add: returns_def act_ok_def)

lemma returns_err [returns_rules]: "returns ok en (act_err e)"
  by (simp add: returns_def act_err_def)

lemma returns_bind [returns_rules]:
  assumes "returns ok en m" and "\<And>x. returns ok en (f x)"
  shows "returns ok en (act_bind m f)"
  unfolding returns_def
proof (intro allI impI)
  fix w
  assume "world_ok ok en w"
  then obtain w' r where w': "m w = Some (w', r)" "world_ok ok en w'" using assms(1) by (auto simp: returns_def)
  then show "\<exists>w' r. act_bind m f w = Some (w', r) \<and> world_ok ok en w'"
    using assms(2) by (cases r) (auto simp: act_bind_def returns_def)
qed

lemma returns_try [returns_rules]: "returns ok en m \<Longrightarrow> returns ok en (act_try m)"
  by (fastforce simp: returns_def act_try_def)

lemma returns_live [returns_rules]: "returns ok en (live_call f)"
  by (simp add: returns_def live_call_def world_ok_def split: prod.split)

lemma returns_offer [returns_rules]: "returns ok en (offer d)"
  by (simp add: returns_def offer_def world_ok_def)

lemma returns_spawn [returns_rules]: "returns ok en (spawn_replay i r)"
  by (simp add: returns_def spawn_replay_def world_ok_def)

lemma returns_call:
  assumes env: "env_keeps ok en" and total: "total_call ok (op (en_api en))"
  shows "returns ok en (store_call en op)"
  unfolding returns_def
proof (intro allI impI)
  fix w
  assume w: "world_ok ok en w"
  let ?n = "tw_calls w"
  obtain st live where b: "en_between en ?n (tw_store w, tw_live w) = (st, live)" by force
  have "ok (at_retire (en_clock en ?n)) st" "clock_ok (at_retire (en_clock en ?n)) (en_clock en ?n)"
    using env w b by (auto simp: env_keeps_def world_ok_def dest: spec [of _ ?n])
      (metis fst_conv)
  from total_callD [OF total this] obtain st' r
    where "op (en_api en) (en_clock en ?n) st = Some (st', r)" "ok (at_again (en_clock en ?n)) st'" .
  then show "\<exists>w' r. store_call en op w = Some (w', r) \<and> world_ok ok en w'"
    by (simp add: store_call_def b world_ok_def since_def)
qed

subsection \<open>The contract of a task store\<close>

locale task_store_laws =
  fixes api :: "'st task_api" and ok :: "nat \<Rightarrow> 'st \<Rightarrow> bool"
  assumes presence_total: "total_call ok (\<lambda>clk. ta_presence api clk i)"
    and owner_total: "total_call ok (\<lambda>clk. ta_owner api clk i)"
    and get_total: "total_call ok (\<lambda>clk. ta_get api clk i)"
    and result_total: "total_call ok (\<lambda>clk. ta_result api clk i)"
    and outstanding_total: "total_call ok (\<lambda>clk. ta_outstanding api clk i)"
    and resume_total: "total_call ok (\<lambda>clk. ta_resume api clk i)"
    and apply_total: "total_call ok (\<lambda>clk. ta_apply api clk i responses)"
    and require_total: "total_call ok (\<lambda>clk. ta_require api clk i requests msg)"
    and cancel_total: "total_call ok (\<lambda>clk. ta_cancel api clk i reason)"
    and fail_total: "total_call ok (\<lambda>clk. ta_fail api clk i e)"
    and complete_total: "total_call ok (\<lambda>clk. ta_complete api clk i result)"
    and discard_total: "total_call ok (\<lambda>clk. ta_discard api clk i)"
begin

lemmas total_ops = presence_total owner_total get_total result_total outstanding_total resume_total
  apply_total require_total cancel_total fail_total complete_total discard_total

lemma call_or_returns:
  assumes "env_keeps ok en" and "en_api en = api" and "total_call ok (call api)"
  shows "returns ok en (store_call_or en op i call)"
  unfolding store_call_or_def
  by (rule returns_bind [OF returns_call]) (use assms in \<open>auto intro: returns_rules split: sum.split\<close>)

lemma detailed_returns:
  assumes env: "env_keeps ok en" and api: "en_api en = api" and last: "attempts \<noteq> []" "last attempts \<noteq> 0"
  shows "returns ok en (detailed_loop en i attempts)"
  using last
proof (induction attempts)
  case (Cons attempt rest)
  have again: "returns ok en (detailed_loop en i rest)" if "attempt = 0"
    using Cons that by (cases rest) auto
  have calls: "returns ok en (store_call_or en OpGet i (\<lambda>a clk. ta_result a clk i))"
    "returns ok en (store_call_or en OpGet i (\<lambda>a clk. ta_outstanding a clk i))"
    by (intro call_or_returns env api total_ops)+
  show ?case
    using again
    by (auto simp: detailed_loop.simps Let_def intro!: returns_rules calls split: option.split task_status.split sum.split)
qed simp

lemma notify_returns:
  assumes "env_keeps ok en" and "en_api en = api"
  shows "returns ok en (notify_task_state en i)"
  using detailed_returns [OF assms]
  by (auto simp: notify_task_state_def router_detailed_task_def intro!: returns_rules split: sum.split option.split)

lemma authorize_returns:
  assumes "env_keeps ok en" and "en_api en = api"
  shows "returns ok en (authorize_task en op i x)" and "returns ok en (router_task_presence en op i)"
    and "returns ok en (classify_absent_task en op i x)"
proof -
  show p: "returns ok en (router_task_presence en op i)"
    unfolding router_task_presence_def by (intro call_or_returns assms total_ops)
  show "returns ok en (authorize_task en op i x)"
    unfolding authorize_task_def
    by (rule returns_bind [OF p]) (auto intro: returns_rules split: option.split task_presence.split)
  show "returns ok en (classify_absent_task en op i x)"
    unfolding classify_absent_task_def by (rule returns_bind [OF p]) (rule returns_err)
qed

lemma negotiated_returns: "returns ok en (require_negotiated_tasks en x m)"
proof -
  have "missing_required_client_capability tasks_client_capabilities \<noteq> None" by code_simp
  then show ?thesis by (auto simp: require_negotiated_tasks_def intro: returns_rules split: option.split)
qed

lemma settle_returns:
  assumes "env_keeps ok en" and "en_api en = api"
  shows "returns ok en (resume_task en i)" and "returns ok en (park_task_for_input en i requests msg)"
    and "returns ok en (complete_task_or_fail en i result)" and "returns ok en (discard_unprepared_task en i)"
  unfolding resume_task_def park_task_for_input_def complete_task_or_fail_def discard_unprepared_task_def
    record_task_failure_def fail_and_notify_def Let_def
  by (auto intro!: returns_rules returns_call notify_returns assms simp: assms total_ops
      split: sum.split option.split bool.split)

lemma handlers_return:
  assumes "env_keeps ok en" and "en_api en = api"
  shows "returns ok en (handle_task_request en x req)"
proof -
  note rules = returns_rules negotiated_returns authorize_returns [OF assms] notify_returns [OF assms]
    settle_returns [OF assms] call_or_returns [OF assms]
  have decode: "returns ok en (decode_input_responses en i rs)" for i rs
    by (auto simp: decode_input_responses_def intro: returns_rules split: option.split)
  have final: "returns ok en (final_get_task en i x)" for i
    unfolding final_get_task_def router_detailed_task_def
    by (auto intro!: rules detailed_returns assms split: option.split)
  have absent: "returns ok en (update_absent en x i ack)" for i ack
    unfolding update_absent_def by (auto intro!: rules split: task_presence.split)
  show ?thesis
  proof (cases req)
    case (GetTask i)
    then show ?thesis
      by (auto simp: handle_get_task_def total_ops intro!: rules final split: option.split)
  next
    case (UpdateTask i rs)
    then show ?thesis
      by (auto simp: handle_update_task_def apply_final_update_def wake_or_resume_def total_ops intro!: rules decode absent
          split: option.split)
  next
    case (CancelTask i reason)
    then show ?thesis
      by (auto simp: handle_cancel_task_def total_ops intro!: rules split: option.split)
  qed
qed

end

subsection \<open>The in-memory store keeps the contract\<close>

definition memory_ok :: "serializer \<Rightarrow> nat \<Rightarrow> store \<Rightarrow> bool" where
  "memory_ok ser now st \<longleftrightarrow> compact_layout ser \<and> store_inv ser now st"

lemma clock_okD:
  assumes "clock_ok now clk"
  shows "now \<le> at_retire clk" and "at_retire clk \<le> at_check clk" and "at_check clk \<le> at_again clk"
    and "at_retire clk \<le> at_again clk" and "now \<le> at_again clk" and "clock_ok (at_retire clk) clk"
  using assms by (auto simp: clock_ok_def)

lemma retire_then_total:
  assumes "\<And>clk st. compact_layout ser \<Longrightarrow> store_inv ser (at_retire clk) st \<Longrightarrow> clock_ok (at_retire clk) clk \<Longrightarrow>
     \<exists>st' r. f clk st = Some (st', r) \<and> store_inv ser (at_again clk) st'"
  shows "total_call (memory_ok ser) (\<lambda>clk st. do {
    (st1, _) \<leftarrow> retire_expired ser (at_retire clk) False st; f clk st1 })"
  unfolding total_call_def
proof (intro allI impI, elim conjE)
  fix now clk st
  assume ok: "memory_ok ser now st" and clk: "clock_ok now clk"
  have s: "compact_layout ser" "store_inv ser now st" using ok by (simp_all add: memory_ok_def)
  obtain st1 r1 where r: "retire_expired ser (at_retire clk) False st = Some (st1, r1)"
    "store_inv ser (at_retire clk) st1"
    using retire_expired_inv [OF s clock_okD(1) [OF clk]] by blast
  then show "\<exists>st' r. do { (st1, _) \<leftarrow> retire_expired ser (at_retire clk) False st; f clk st1 } = Some (st', r)
      \<and> memory_ok ser (at_again clk) st'"
    using assms [OF s(1) r(2) clock_okD(6) [OF clk]] s(1) by (auto simp: memory_ok_def)
qed

lemma read_total: "total_call (memory_ok ser) (\<lambda>clk. read_op ser clk (f clk))"
proof -
  have "total_call (memory_ok ser) (\<lambda>clk st. do {
      (st1, _) \<leftarrow> retire_expired ser (at_retire clk) False st; Some (st1, Inr (f clk (at_check clk) st1)) })"
    by (rule retire_then_total) (use store_inv_mono clock_okD(4) in blast)
  then show ?thesis by (simp add: read_op_def [abs_def])
qed

lemma locked_total:
  assumes "\<And>clk st. run_section ser clk sec st = Some (fst (f clk st))" and "\<And>st. section_ok sec st"
  shows "total_call (memory_ok ser) (\<lambda>clk st. do {
    (st1, _) \<leftarrow> retire_expired ser (at_retire clk) False st; Some (f clk st1) })"
proof (rule retire_then_total)
  fix clk st
  assume a: "compact_layout ser" "store_inv ser (at_retire clk) st" "clock_ok (at_retire clk) clk"
  show "\<exists>st' r. Some (f clk st) = Some (st', r) \<and> store_inv ser (at_again clk) st'"
    using run_section_safe [OF a assms(2)] assms(1) [of clk st]
    by (cases "f clk st") (simp add: safe_from_def)
qed

lemma section_total:
  assumes "\<And>clk st. run_section ser clk sec st = map_option fst (f clk st)" and "\<And>st. section_ok sec st"
  shows "total_call (memory_ok ser) (\<lambda>clk st. do {
    (st1, _) \<leftarrow> retire_expired ser (at_retire clk) False st; f clk st1 })"
proof (rule retire_then_total)
  fix clk st
  assume a: "compact_layout ser" "store_inv ser (at_retire clk) st" "clock_ok (at_retire clk) clk"
  show "\<exists>st' r. f clk st = Some (st', r) \<and> store_inv ser (at_again clk) st'"
    using run_section_safe [OF a assms(2)] assms(1) [of clk st] by (auto simp: safe_from_def)
qed

lemma discard_total: "total_call (memory_ok ser) (\<lambda>_. discard_task i)"
  unfolding total_call_def memory_ok_def
proof (intro allI impI, elim conjE)
  fix now clk st
  assume a: "compact_layout ser" "store_inv ser now st" "clock_ok now clk"
  show "\<exists>st' r. discard_task i st = Some (st', r) \<and> compact_layout ser \<and> store_inv ser (at_again clk) st'"
    using discard_task_safe [OF a(2)] store_inv_mono clock_okD(5) [OF a(3)] a(1)
    by (fastforce simp: safe_from_def)
qed

interpretation memory: task_store_laws "memory_api ser" "memory_ok ser" for ser
proof
  fix i reason e result requests msg responses
  show "total_call (memory_ok ser) (\<lambda>clk. ta_presence (memory_api ser) clk i)"
    "total_call (memory_ok ser) (\<lambda>clk. ta_owner (memory_api ser) clk i)"
    "total_call (memory_ok ser) (\<lambda>clk. ta_get (memory_api ser) clk i)"
    "total_call (memory_ok ser) (\<lambda>clk. ta_result (memory_api ser) clk i)"
    "total_call (memory_ok ser) (\<lambda>clk. ta_outstanding (memory_api ser) clk i)"
    "total_call (memory_ok ser) (\<lambda>clk. ta_resume (memory_api ser) clk i)"
    by (simp_all add: memory_api_def get_task_presence_def get_task_owner_def get_task_def
        get_task_result_def outstanding_input_requests_def resume_context_def read_total)
  show "total_call (memory_ok ser) (\<lambda>clk. ta_apply (memory_api ser) clk i responses)"
    using locked_total [of ser "SecApply i responses" "\<lambda>clk. apply_input_responses_locked ser clk i responses"]
    by (simp add: memory_api_def apply_input_responses_def [abs_def])
  show "total_call (memory_ok ser) (\<lambda>clk. ta_require (memory_api ser) clk i requests msg)"
    using locked_total [of ser "SecRequire i requests msg" "\<lambda>clk. require_input_locked ser clk i requests msg"]
    by (simp add: memory_api_def require_input_def [abs_def])
  show "total_call (memory_ok ser) (\<lambda>clk. ta_cancel (memory_api ser) clk i reason)"
    using section_total [of ser "SecCancel i reason" "\<lambda>clk. cancel_task_locked ser clk i reason"]
    by (simp add: memory_api_def cancel_task_def [abs_def])
  show "total_call (memory_ok ser) (\<lambda>clk. ta_fail (memory_api ser) clk i e)"
    using section_total [of ser "SecFail i e" "\<lambda>clk. fail_task_locked ser clk i e"]
    by (simp add: memory_api_def fail_task_def [abs_def])
  show "total_call (memory_ok ser) (\<lambda>clk. ta_complete (memory_api ser) clk i result)"
    using section_total [of ser "SecComplete i result" "\<lambda>clk. complete_task_locked ser clk i result"]
    by (simp add: memory_api_def complete_task_def [abs_def])
  show "total_call (memory_ok ser) (\<lambda>clk. ta_discard (memory_api ser) clk i)"
    by (simp add: memory_api_def discard_total)
qed

text \<open>
  C15: the task methods always answer.  Over the in-memory store, whatever other requests do to it
  between two of its calls as long as the store stays consistent, and whatever the error policy, the
  owner resolver and the decoder are, \<open>tasks/get\<close>, \<open>tasks/update\<close> and \<open>tasks/cancel\<close>
  return a response or an error and leave the store consistent: no \<open>expect\<close> or
  \<open>unreachable!\<close> on their way is reached.
\<close>

theorem task_methods_answer:
  assumes "compact_layout ser" and "en_api en = memory_api ser" and "env_keeps (memory_ok ser) en"
    and "store_inv ser (since en (tw_calls w)) (tw_store w)"
  shows "\<exists>w' r. handle_task_request en x req w = Some (w', r)
    \<and> store_inv ser (since en (tw_calls w')) (tw_store w')"
proof -
  have "returns (memory_ok ser) en (handle_task_request en x req)"
    by (rule memory.handlers_return [OF assms(3,2)])
  moreover have "world_ok (memory_ok ser) en w" using assms(1,4) by (simp add: world_ok_def memory_ok_def)
  ultimately show ?thesis by (auto simp: returns_def world_ok_def memory_ok_def)
qed

section \<open>Whose task it is\<close>

definition presence_of :: "nat \<Rightarrow> store \<Rightarrow> string \<Rightarrow> task_presence" where
  "presence_of now st i =
     (case map_of (d_tasks st) i of
        None \<Rightarrow> Missing
      | Some s \<Rightarrow> if is_expired_at (s_task s) now then task_presence.Expired (t_owner (s_task s))
                  else task_presence.Present (t_owner (s_task s)))"

lemma presence_of_retire_marked [simp]: "presence_of now (retire_marked ser t st) i = presence_of now st i"
  by (simp add: presence_of_def map_of_retire_marked split: option.split)

text \<open>The world after one store call that only retired expired tasks.\<close>

definition after_read :: "serializer \<Rightarrow> 'a task_env \<Rightarrow> store \<Rightarrow> live_registry \<Rightarrow> store task_world \<Rightarrow> store task_world" where
  "after_read ser en st live w = w\<lparr>tw_store := retire_marked ser (at_retire (en_clock en (tw_calls w))) st,
     tw_live := live, tw_calls := tw_calls w + 1\<rparr>"

lemma read_op_marked:
  assumes "compact_layout ser" and "store_inv ser (at_retire clk) st"
  shows "read_op ser clk f st = Some (retire_marked ser (at_retire clk) st,
    Inr (f (at_check clk) (retire_marked ser (at_retire clk) st)))"
  using retire_expired_eq(1) [OF assms le_refl] by (simp add: read_op_def)

lemma memory_read_call:
  assumes "compact_layout ser" and "en_between en (tw_calls w) (tw_store w, tw_live w) = (st, live)"
    and "store_inv ser (at_retire (en_clock en (tw_calls w))) st"
    and "\<And>clk. op (en_api en) clk = read_op ser clk f"
  shows "store_call_or en k i op w = Some (after_read ser en st live w,
    Inr (f (at_check (en_clock en (tw_calls w))) (retire_marked ser (at_retire (en_clock en (tw_calls w))) st)))"
  by (simp add: store_call_or_def store_call_def act_bind_def act_ok_def assms(2,4)
      read_op_marked [OF assms(1,3)] after_read_def)

lemma presence_call:
  assumes "compact_layout ser" and "en_api en = memory_api ser"
    and "en_between en (tw_calls w) (tw_store w, tw_live w) = (st, live)"
    and "store_inv ser (at_retire (en_clock en (tw_calls w))) st"
  shows "router_task_presence en op i w = Some (after_read ser en st live w,
    Inr (presence_of (at_check (en_clock en (tw_calls w))) st i))"
proof -
  have "router_task_presence en op i w = Some (after_read ser en st live w,
      Inr (presence_of (at_check (en_clock en (tw_calls w)))
        (retire_marked ser (at_retire (en_clock en (tw_calls w))) st) i))"
    unfolding router_task_presence_def presence_of_def
    by (rule memory_read_call [OF assms(1,3,4)]) (simp add: assms(2) memory_api_def get_task_presence_def)
  then show ?thesis by simp
qed

definition foreign :: "'a task_env \<Rightarrow> request_extensions \<Rightarrow> store \<Rightarrow> string \<Rightarrow> bool" where
  "foreign en x st i \<longleftrightarrow> (\<forall>s. map_of (d_tasks st) i = Some s \<longrightarrow>
     \<not> resolution_matches (en_resolver en x) (t_owner (s_task s)))"

lemma authorize_foreign:
  assumes "compact_layout ser" and "en_api en = memory_api ser"
    and "en_between en (tw_calls w) (tw_store w, tw_live w) = (st, live)"
    and "store_inv ser (at_retire (en_clock en (tw_calls w))) st" and "foreign en x st i"
  shows "authorize_task en op i x w =
    Some (after_read ser en st live w, Inl (router_task_error en op (Some i) FNotFound))"
  using assms(5) presence_call [OF assms(1-4), of op i]
  by (auto simp: authorize_task_def act_bind_def act_err_def foreign_def presence_of_def
      split: option.split)

fun request_operation :: "task_request \<Rightarrow> task_operation" where
  "request_operation (GetTask _) = OpGet"
| "request_operation (UpdateTask _ _) = OpUpdate"
| "request_operation (CancelTask _ _) = OpCancel"

fun request_method :: "task_request \<Rightarrow> string" where
  "request_method (GetTask _) = ''tasks/get''"
| "request_method (UpdateTask _ _) = ''tasks/update''"
| "request_method (CancelTask _ _) = ''tasks/cancel''"

lemma handle_unauthorized:
  assumes "authorize_task en (request_operation req) (request_task_id req) x w = Some (w', Inl e)"
    and "is_final_protocol_request x \<longrightarrow> en_final_tasks en \<and> client_declares_tasks x"
  shows "handle_task_request en x req w = Some (w', Inl e)"
  using assms
  by (cases req)
    (simp_all add: handle_get_task_def handle_update_task_def handle_cancel_task_def act_bind_def
      require_negotiated_tasks_def act_ok_def)

text \<open>
  C2: a task of another principal cannot be told from one that never existed.  Whatever its state,
  and whether it expired or not, each task method answers the same error that it answers for an
  identifier the store has never seen, before it looks at anything else in the request, and all it
  does to the store is to retire tasks that have expired.  The notification sink, the live executions
  and the replays are not touched.  A subscription is refused with the same words, to everyone but
  the owner of a task that has not expired.
\<close>

theorem foreign_task_indistinguishable:
  assumes ser: "compact_layout ser" and api: "en_api en = memory_api ser"
    and here: "en_between en (tw_calls w) (tw_store w, tw_live w) = (st, live)"
    and inv: "store_inv ser (at_retire (en_clock en (tw_calls w))) st"
    and negotiated: "is_final_protocol_request x \<longrightarrow> en_final_tasks en \<and> client_declares_tasks x"
  shows "(foreign en x st (request_task_id req) \<longrightarrow>
      handle_task_request en x req w =
        Some (after_read ser en st live w,
          Inl (router_task_error en (request_operation req) (Some (request_task_id req)) FNotFound)))
    \<and> authorize_task_subscription en i x w =
        Some (after_read ser en st live w,
          if (\<exists>ow. presence_of (at_check (en_clock en (tw_calls w))) st i = task_presence.Present ow
                \<and> resolution_matches (en_resolver en x) ow)
          then Inr () else Inl (router_task_error en OpGet (Some i) FNotFound))"
proof (intro conjI impI)
  assume "foreign en x st (request_task_id req)"
  then show "handle_task_request en x req w =
      Some (after_read ser en st live w,
        Inl (router_task_error en (request_operation req) (Some (request_task_id req)) FNotFound))"
    using handle_unauthorized [OF authorize_foreign [OF ser api here inv] negotiated] by blast
next
  let ?st = "retire_marked ser (at_retire (en_clock en (tw_calls w))) st"
  let ?now = "at_check (en_clock en (tw_calls w))"
  have "store_call_or en OpGet i (\<lambda>a clk. ta_owner a clk i) w = Some (after_read ser en st live w,
      Inr (map_option (\<lambda>s. t_owner (s_task s)) (visible ?now ?st i)))"
    by (rule memory_read_call [OF ser here inv]) (simp add: api memory_api_def get_task_owner_def)
  moreover have "map_option (\<lambda>s. t_owner (s_task s)) (visible ?now ?st i) =
      (case presence_of ?now st i of task_presence.Present ow \<Rightarrow> Some ow | _ \<Rightarrow> None)"
    by (simp add: visible_def presence_of_def map_of_retire_marked split: option.split)
  ultimately show "authorize_task_subscription en i x w =
      Some (after_read ser en st live w,
        if (\<exists>ow. presence_of ?now st i = task_presence.Present ow \<and> resolution_matches (en_resolver en x) ow)
        then Inr () else Inl (router_task_error en OpGet (Some i) FNotFound))"
    by (auto simp: authorize_task_subscription_def act_bind_def act_ok_def act_err_def
        split: task_presence.split)
qed

section \<open>When a handler runs again\<close>

lemma replays_live [preserves_rules]: "preserves tw_replays (live_call g)"
  by (auto simp: preserves_def live_call_def split: prod.splits)

lemma resume_replays:
  assumes "resume_task en i w = Some (w', r)"
  shows "tw_replays w' = tw_replays w \<or> (\<exists>ctx. tw_replays w' = tw_replays w @ [(i, ctx)])"
  using assms preservesD [OF replays.keeps_call [of en "\<lambda>a clk. ta_resume a clk i"]]
    preservesD [OF replays.keeps_settle(1) [of en i]]
  by (fastforce simp: resume_task_def act_bind_def spawn_replay_def
      split: option.splits sum.splits prod.splits if_splits)

lemma other_requests_no_replay:
  assumes "\<not> (\<exists>i rs. req = UpdateTask i rs \<and> is_final_protocol_request x)"
  shows "preserves tw_replays (handle_task_request en x req)"
  using assms
  by (cases req)
    (auto simp: handle_get_task_def handle_update_task_def handle_cancel_task_def
      intro!: preserves_rules split: option.split)

lemma apply_responses_keys:
  "apply_responses rs t a = (t', a') \<Longrightarrow>
     fst ` set (t_input_requests t) - fst ` set rs \<subseteq> fst ` set (t_input_requests t')
   \<and> set (ap_accepted a') \<subseteq> set (ap_accepted a) \<union> fst ` set (t_input_requests t)"
proof (induction rs t a arbitrary: t' a' rule: apply_responses.induct)
  case (2 key response rest t a)
  show ?case
  proof (cases "key \<in> fst ` set (t_input_requests t)")
    case True
    have "fst ` set (AList.delete key (t_input_requests t)) = fst ` set (t_input_requests t) - {key}"
      by (auto simp: AList.delete_eq)
    then show ?thesis using 2(1) [OF True, of t' a'] 2(3) True by auto
  next
    case False
    then show ?thesis using 2(2) [OF False, of t' a'] 2(3) by auto
  qed
qed simp

text \<open>An update that answers something and leaves nothing to answer.\<close>

lemma applied_last_answer:
  assumes "applied_task clk rs t = (t', ap)" and "ap_accepted ap \<noteq> []" and "applied_is_complete ap"
  shows "t_input_requests t \<noteq> [] \<and> fst ` set (t_input_requests t) \<subseteq> fst ` set rs \<and> t_input_requests t' = []"
proof -
  obtain t1 a1 where 1: "apply_responses rs t \<lparr>ap_accepted = [], ap_ignored = [], ap_still_outstanding = []\<rparr> = (t1, a1)"
    by force
  have e: "t_input_requests t1 = []" "t_input_requests t' = t_input_requests t1" "ap_accepted ap = ap_accepted a1"
    using assms 1 by (auto simp: applied_task_def Let_def applied_is_complete_def split: if_splits)
  moreover have "set (ap_accepted a1) \<noteq> {}" using assms(2) e(3) by simp
  ultimately show ?thesis using apply_responses_keys [OF 1] by auto
qed

lemma apply_call_last_answer:
  assumes ser: "compact_layout ser" and inv: "store_inv ser (at_retire clk) st" and le: "at_retire clk \<le> at_check clk"
    and run: "apply_input_responses ser clk i rs st = Some (st', Inr (Some ap))"
    and ap: "ap_accepted ap \<noteq> []" "applied_is_complete ap"
  shows "\<exists>s s'. map_of (d_tasks st) i = Some s \<and> t_input_requests (s_task s) \<noteq> []
    \<and> fst ` set (t_input_requests (s_task s)) \<subseteq> fst ` set rs
    \<and> map_of (d_tasks st') i = Some s' \<and> t_input_requests (s_task s') = []"
proof -
  let ?st = "retire_marked ser (at_retire clk) st"
  have lock: "apply_input_responses_locked ser clk i rs ?st = (st', Inr (Some ap))"
    using run retire_expired_eq(1) [OF ser inv le_refl] by (simp add: apply_input_responses_def)
  then obtain s t3 where s: "visible (at_check clk) ?st i = Some s"
    and t3: "applied_task clk rs (s_task s) = (t3, ap)" and ed: "store_edited ser clk i t3 ?st = (st', Inr True)"
    by (auto simp: apply_input_responses_locked_eq Let_def
        split: option.splits if_splits sum.splits prod.splits)
  obtain s0 where s0: "map_of (d_tasks st) i = Some s0" "s = retire_one ser (at_retire clk) s0"
    "\<not> is_expired_at (s_task s) (at_check clk)"
    using s by (auto simp: visible_iff map_of_retire_marked)
  then have "\<not> is_expired_at (s_task s0) (at_retire clk)" using is_expired_at_mono le by auto
  then have eq: "s = s0" using s0(2) retire_one_visible by simp
  have "limits_ok (d_limits ?st)" using store_invD(1) [OF inv] by (simp add: retire_marked_def Let_def)
  then obtain s' where "map_of (d_tasks st') i = Some s'" "s_task s' = t3"
    using store_edited_Inr_True [OF ed] by blast
  then show ?thesis using applied_last_answer [OF t3 ap] s0(1) eq by auto
qed

lemma wake_or_resume_replay:
  assumes "wake_or_resume en i ap w = Some (w', r)" and "tw_replays w' \<noteq> tw_replays w"
  shows "ap_accepted ap \<noteq> [] \<and> applied_is_complete ap \<and> (\<exists>ctx. tw_replays w' = tw_replays w @ [(i, ctx)])"
  using assms resume_replays
  by (fastforce simp: wake_or_resume_def act_bind_def live_call_def act_ok_def
      split: if_splits prod.splits)

lemma apply_final_replay:
  assumes run: "apply_final_update en x i rs w = Some (w', r)" and new: "tw_replays w' \<noteq> tw_replays w"
  shows "\<exists>w1 ap ctx. store_call_or en OpUpdate i (\<lambda>a clk. ta_apply a clk i rs) w = Some (w1, Inr (Some ap))
    \<and> ap_accepted ap \<noteq> [] \<and> applied_is_complete ap \<and> tw_replays w' = tw_replays w @ [(i, ctx)]"
proof -
  obtain w1 applied where 1: "store_call_or en OpUpdate i (\<lambda>a clk. ta_apply a clk i rs) w = Some (w1, Inr applied)"
    "tw_replays w1 = tw_replays w"
    and run1: "(case applied of None \<Rightarrow> update_absent en x i FinalTaskAck
        | Some ap \<Rightarrow> act_bind (notify_task_state en i) (\<lambda>_.
            act_bind (wake_or_resume en i ap) (\<lambda>_. act_ok FinalTaskAck))) w1 = Some (w', r)"
      "tw_replays w' \<noteq> tw_replays w1"
    by (rule bind_changes [OF run [unfolded apply_final_update_def] replays.keeps_call_or new]) blast
  from run1 preservesD [OF replays.keeps_reads(5) [of en x i FinalTaskAck]] obtain ap where ap: "applied = Some ap"
    by (cases applied) auto
  obtain w2 u2 where 2: "tw_replays w2 = tw_replays w1"
    and run2: "act_bind (wake_or_resume en i ap) (\<lambda>_. act_ok FinalTaskAck) w2 = Some (w', r)"
      "tw_replays w' \<noteq> tw_replays w2"
    by (rule bind_changes [OF run1(1) [simplified ap option.case] replays.keeps_notify run1(2)]) blast
  then obtain r3 where "wake_or_resume en i ap w2 = Some (w', r3)"
    by (auto simp: act_bind_def act_ok_def split: option.splits sum.splits)
  from wake_or_resume_replay [OF this run2(2)] show ?thesis using 1 2 ap by auto
qed

lemma update_replay:
  assumes run: "handle_update_task en x i responses w = Some (w', r)" and final: "is_final_protocol_request x"
    and new: "tw_replays w' \<noteq> tw_replays w"
  shows "\<exists>w1 rs. authorize_task en OpUpdate i x w = Some (w1, Inr ()) \<and> tw_replays w1 = tw_replays w
    \<and> decode_responses (en_decode en) responses = Some rs
    \<and> apply_final_update en x i rs w1 = Some (w', r)"
proof -
  note run' = run [unfolded handle_update_task_def, simplified final if_True]
  obtain w0 u0 where 0: "require_negotiated_tasks en x ''tasks/update'' w = Some (w0, Inr u0)"
    and run0: "act_bind (authorize_task en OpUpdate i x) (\<lambda>_.
        act_bind (decode_input_responses en i responses) (\<lambda>rs. apply_final_update en x i rs)) w0 = Some (w', r)"
      "tw_replays w' \<noteq> tw_replays w0"
    by (rule bind_changes [OF run' replays.keeps_reads(3) new]) blast
  have w0: "w0 = w" using 0(1)
    by (auto simp: require_negotiated_tasks_def act_ok_def act_err_def split: if_splits option.splits)
  obtain w1 u1 where 1: "authorize_task en OpUpdate i x w0 = Some (w1, Inr u1)" "tw_replays w1 = tw_replays w0"
    and run1: "act_bind (decode_input_responses en i responses) (\<lambda>rs. apply_final_update en x i rs) w1 = Some (w', r)"
      "tw_replays w' \<noteq> tw_replays w1"
    by (rule bind_changes [OF run0(1) replays.keeps_reads(2) run0(2)]) blast
  obtain rs where "decode_input_responses en i responses w1 = Some (w1, Inr rs)"
    "decode_responses (en_decode en) responses = Some rs" "apply_final_update en x i rs w1 = Some (w', r)"
    using run1 by (auto simp: decode_input_responses_def act_bind_def act_ok_def act_err_def split: option.splits)
  then show ?thesis using 1 w0 by auto
qed


section \<open>The view of a task\<close>

definition view_ok :: "detailed_task \<Rightarrow> bool" where
  "view_ok d \<longleftrightarrow> (\<forall>m. d \<noteq> DtInputRequired m [])
     \<and> (\<forall>m object. d = DtCompleted m object \<longrightarrow> map_of object ''resultType'' = Some (JStr ''complete''))"

definition snapshot_read :: "'st task_env \<Rightarrow> string \<Rightarrow> detailed_task \<Rightarrow> bool" where
  "snapshot_read en i d \<longleftrightarrow> (\<exists>v v' t result err.
     store_call_or en OpGet i (\<lambda>a clk. ta_result a clk i) v = Some (v', Inr (Some (t, result, err)))
   \<and> detailed_status d = o_status t \<and> detailed_metadata d = metadata_of t
   \<and> (\<forall>m e. d = DtFailed m e \<longrightarrow> e = (case err of Some e \<Rightarrow> e | None \<Rightarrow> internal_error ''Task failed'')))"

lemma completed_object_type: "completed_object result = Inr object \<Longrightarrow> map_of object ''resultType'' = Some (JStr ''complete'')"
  by (auto simp: completed_object_def result_bind_Inr_iff update_conv')

lemma detailed_loop_view:
  "detailed_loop en i attempts w = Some (w', Inr (Some (d, meta))) \<Longrightarrow> view_ok d \<and> snapshot_read en i d"
proof (induction attempts arbitrary: w)
  case Nil
  then show ?case by (simp add: detailed_loop.simps)
next
  case (Cons attempt rest)
  obtain v t result err where v: "store_call_or en OpGet i (\<lambda>a clk. ta_result a clk i) w = Some (v, Inr (Some (t, result, err)))"
    using Cons.prems by (auto simp: detailed_loop.simps act_bind_def act_ok_def split: option.splits sum.splits)
  have read: "snapshot_read en i d" if "detailed_status d = o_status t" "detailed_metadata d = metadata_of t"
    "\<forall>m e. d = DtFailed m e \<longrightarrow> e = (case err of Some e \<Rightarrow> e | None \<Rightarrow> internal_error ''Task failed'')"
    using v that unfolding snapshot_read_def by blast
  show ?case
  proof (cases "o_status t")
    case Working
    then show ?thesis using Cons.prems v read
      by (auto simp: detailed_loop.simps act_bind_def act_ok_def Let_def view_ok_def)
  next
    case InputRequired
    then show ?thesis using Cons v read
      by (auto simp: detailed_loop.simps act_bind_def act_ok_def act_err_def Let_def view_ok_def
          split: option.splits sum.splits if_splits)
  next
    case Completed
    then show ?thesis using Cons.prems v read completed_object_type
      by (auto simp: detailed_loop.simps act_bind_def act_ok_def act_err_def Let_def view_ok_def split: sum.splits)
  next
    case Failed
    then show ?thesis using Cons.prems v read
      by (auto simp: detailed_loop.simps act_bind_def act_ok_def Let_def view_ok_def)
  next
    case Cancelled
    then show ?thesis using Cons.prems v read
      by (auto simp: detailed_loop.simps act_bind_def act_ok_def Let_def view_ok_def)
  qed
qed

text \<open>
  For every task store and whatever runs between the store calls, the view of a task is
  well formed: never \<open>input_required\<close> without a request, a completed one always with its
  discriminator, its status and metadata those of one snapshot of the store.  A poll answers that
  view, and a pushed notification carries exactly what the poll would have answered.
\<close>

theorem task_view_consistent:
  assumes "router_detailed_task en i w = Some (v, Inr (Some (d, meta)))"
  shows "view_ok d \<and> snapshot_read en i d
    \<and> final_get_task en i x w = Some (v, Inr (FinalGetTask d meta))
    \<and> notify_task_state en i w =
        (if en_final_tasks en then Some (v\<lparr>tw_offered := tw_offered v @ [(d, meta)]\<rparr>, Inr ())
         else Some (w, Inr ()))"
  using assms detailed_loop_view [of en i "[0, 1]" w v d meta]
  by (simp add: router_detailed_task_def final_get_task_def notify_task_state_def act_bind_def act_try_def
      act_ok_def offer_def)

section \<open>Concrete runs\<close>

definition demo_router :: "store task_env" where
  "demo_router = \<lparr>en_api = memory_api compact_emit, en_between = (\<lambda>n s. s), en_clock = (\<lambda>n. demo_clock (n + 1)),
     en_policy = (\<lambda>c. Some (default_task_error c)), en_resolver = default_task_owner_resolver,
     en_final_tasks = True, en_tools = (\<lambda>_. True), en_decode = (\<lambda>j. Some (Encodes j))\<rparr>"

definition demo_world :: "store task_world" where
  "demo_world = \<lparr>tw_store = demo_waiting, tw_live = live_registry_new, tw_calls = 1, tw_offered = [],
     tw_replays = [], tw_started = []\<rparr>"

definition demo_caller :: "string option \<Rightarrow> stateless_meta option \<Rightarrow> request_extensions" where
  "demo_caller subject meta = \<lparr>rx_meta = meta,
     rx_claims = map_option (\<lambda>s. \<lparr>tk_sub = Some s, tk_iss = None, tk_aud = None, tk_exp = None,
       tk_scope = None, tk_client_id = None, tk_extra = []\<rparr>) subject,
     rx_replayed_final = False\<rparr>"

definition demo_final :: stateless_meta where
  "demo_final = \<lparr>sm_protocol_version = Some PROTOCOL_VERSION_2026_07_28,
     sm_client_capabilities = Some tasks_client_capabilities\<rparr>"

lemma demo_inv: "store_inv compact_emit n demo_waiting" if "1 \<le> n"
  by (rule store_inv_mono [OF store_reach_inv [OF compact_emit_layout demo_waiting_reach] that])

lemma demo_env_keeps: "env_keeps (memory_ok compact_emit) demo_router"
  by (auto simp: env_keeps_def demo_router_def demo_clock_def clock_ok_def since_def memory_ok_def
      intro: store_inv_mono)

lemma demo_world_inv:
  "store_inv compact_emit (since demo_router (tw_calls demo_world)) (tw_store demo_world)"
  by (simp add: demo_world_def since_def demo_router_def demo_clock_def demo_inv)

lemma task_methods_answer_witness:
  "\<exists>w' r. handle_task_request demo_router (demo_caller (Some ''me'') None) (GetTask ''a'') demo_world = Some (w', r)"
  using task_methods_answer [OF compact_emit_layout _ demo_env_keeps demo_world_inv,
      of "demo_caller (Some ''me'') None" "GetTask ''a''"]
  by (auto simp: demo_router_def)

lemma foreign_task_indistinguishable_witness:
  "\<exists>w'. handle_task_request demo_router (demo_caller (Some ''eve'') None) (CancelTask ''a'' None) demo_world
     = Some (w', Inl (invalid_params ''Task not found: a''))"
proof -
  let ?x = "demo_caller (Some ''eve'') None"
  have "case map_of (d_tasks demo_waiting) ''a'' of None \<Rightarrow> False
      | Some s \<Rightarrow> \<not> resolution_matches (en_resolver demo_router ?x) (t_owner (s_task s))"
    by code_simp
  then have f: "foreign demo_router ?x demo_waiting (request_task_id (CancelTask ''a'' None))"
    by (auto simp: foreign_def)
  have api: "en_api demo_router = memory_api compact_emit" by (simp add: demo_router_def)
  have here: "en_between demo_router (tw_calls demo_world) (tw_store demo_world, tw_live demo_world)
      = (demo_waiting, live_registry_new)"
    by (simp add: demo_router_def demo_world_def)
  have inv: "store_inv compact_emit (at_retire (en_clock demo_router (tw_calls demo_world))) demo_waiting"
    by (rule demo_inv) (simp add: demo_router_def demo_world_def demo_clock_def)
  have neg: "is_final_protocol_request ?x \<longrightarrow> en_final_tasks demo_router \<and> client_declares_tasks ?x"
    by (simp add: is_final_protocol_request_def demo_caller_def)
  have "router_task_error demo_router OpCancel (Some ''a'') FNotFound = invalid_params ''Task not found: a''"
    by (simp add: router_task_error_def policy_map_def demo_router_def default_task_error_def
        task_error_context_new_def shown_id_def)
  then show ?thesis
    using foreign_task_indistinguishable [OF compact_emit_layout api here inv neg, of "CancelTask ''a'' None"] f
    by simp
qed



lemma task_view_consistent_witness:
  "\<exists>v d meta. router_detailed_task demo_router ''a'' demo_world = Some (v, Inr (Some (d, meta))) \<and> view_ok d
     \<and> detailed_status d = InputRequired"
proof -
  have "case router_detailed_task demo_router ''a'' demo_world of
      Some (v, Inr (Some (d, meta))) \<Rightarrow> detailed_status d = InputRequired | _ \<Rightarrow> False"
    by code_simp
  then obtain v d meta where "router_detailed_task demo_router ''a'' demo_world = Some (v, Inr (Some (d, meta)))"
    "detailed_status d = InputRequired"
    by (auto split: option.splits sum.splits) (metis sum.exhaust)
  then show ?thesis using task_view_consistent [of demo_router "''a''" demo_world v d meta undefined] by blast
qed

end
