(* ===== verification/TaskCreation.thy ===== *)
theory TaskCreation
  imports TaskRouterProps
begin

text \<open>
  How a tool call becomes a task and how its execution ends: the \<open>CallTool\<close> arm of
  \<open>crates/tower-mcp/src/router.rs\<close> from the choice of the mode on, and the panic policy of
  \<open>router/policy.rs\<close>.  A handler, its preparation and its panics are user code: their outcome
  is an argument.  A value that releases on drop is released on every path that leaves its scope.
\<close>

section \<open>Task or synchronous call\<close>

datatype task_support_mode = TsRequired | TsOptional | TsForbidden

record tool_info =
  tl_name :: string
  tl_task_support :: task_support_mode
  tl_live :: bool
  tl_required_capabilities :: "client_capabilities option"

definition tool_not_found :: "string \<Rightarrow> json_rpc_error" where
  "tool_not_found name = invalid_params (''Unknown tool: '' @ name)"

text \<open>
  The request's \<open>task\<close> parameter is given by its optional \<open>ttl\<close>.  \<open>Inr None\<close> is a
  synchronous call, \<open>Inr (Some ttl)\<close> a task.
\<close>

definition choose_task_mode ::
  "'st task_env \<Rightarrow> request_extensions \<Rightarrow> tool_info \<Rightarrow> nat option option
   \<Rightarrow> (json_rpc_error + nat option option) option" where
  "choose_task_mode en x tool task =
     (if is_final_protocol_request x then
        if task \<noteq> None then
          Some (Inl (invalid_params ''The final Tasks extension does not allow a 'task' request parameter''))
        else
          (let server_enabled = en_final_tasks en;
               negotiated = (server_enabled \<and> client_declares_tasks x)
           in if tl_task_support tool = TsRequired \<and> \<not> server_enabled then
                Some (Inl (tool_not_found (tl_name tool)))
              else if tl_task_support tool = TsRequired \<and> \<not> negotiated then
                map_option Inl (missing_required_client_capability tasks_client_capabilities)
              else if tl_task_support tool \<in> {TsRequired, TsOptional} \<and> negotiated then Some (Inr (Some None))
              else Some (Inr None))
      else
        (case (task, tl_task_support tool) of
           (Some _, TsForbidden) \<Rightarrow> Some (Inl (invalid_params
             (''Tool '' @ CHR 0x27 # tl_name tool @ CHR 0x27 # '' does not support async tasks'')))
         | (None, TsRequired) \<Rightarrow> Some (Inl (invalid_params
             (''Tool '' @ CHR 0x27 # tl_name tool @ CHR 0x27 # '' requires async task execution (include 'task' in params)'')))
         | (Some ttl, _) \<Rightarrow> Some (Inr (Some ttl))
         | (None, _) \<Rightarrow> Some (Inr None)))"

text \<open>A tool's declared requirement, checked for requests of the final protocol; \<open>None\<close> is a panic.\<close>

definition check_tool_capabilities ::
  "request_extensions \<Rightarrow> tool_info \<Rightarrow> (json_rpc_error + unit) option" where
  "check_tool_capabilities x tool =
     (case (tl_required_capabilities tool, rx_meta x) of
        (Some required, Some meta) \<Rightarrow>
          if sm_protocol_version meta = Some PROTOCOL_VERSION_2026_07_28 then
            (case sm_client_capabilities meta of
               None \<Rightarrow> map_option Inl (missing_required_client_capability required)
             | Some actual \<Rightarrow> do {
                 ok \<leftarrow> client_capabilities_satisfy actual required;
                 if ok then Some (Inr ()) else map_option Inl (missing_required_client_capability required)
               })
          else Some (Inr ())
      | _ \<Rightarrow> Some (Inr ()))"

section \<open>Creating the task\<close>

text \<open>
  What a preparation came to: the task's token was raised first, it failed, or it gave metadata.
\<close>

datatype prep_outcome =
  PrepInterrupted
| PrepFailed json_rpc_error
| Prepared "(string \<times> json) list option"

type_synonym live_admission = "(64 word \<times> nat) option"

definition admit_live :: "'st task_env \<Rightarrow> tool_info \<Rightarrow> ('st, live_admission) act" where
  "admit_live en tool =
     (if tl_live tool then act_bind (live_call lr_admit) (\<lambda>h.
        case h of
          None \<Rightarrow> act_err (router_task_error en OpCreate None (FInternal ''Live task execution admission is closed''))
        | Some h \<Rightarrow> act_ok (Some h))
      else act_ok None)"

text \<open>The admission is dropped when the function returns before it was promoted.\<close>

definition release_on_error :: "live_admission \<Rightarrow> ('st, 'a) act \<Rightarrow> ('st, 'a) act" where
  "release_on_error admission m w =
     (case m w of
        Some (w', Inl e) \<Rightarrow>
          (case admission of
             None \<Rightarrow> Some (w', Inl e)
           | Some (r, a) \<Rightarrow> Some (w'\<lparr>tw_live := lr_release_reservation r (tw_live w')\<rparr>, Inl e))
      | other \<Rightarrow> other)"

definition discard_then :: "'st task_env \<Rightarrow> string \<Rightarrow> json_rpc_error \<Rightarrow> ('st, 'a) act" where
  "discard_then en i e = act_bind (discard_unprepared_task en i) (\<lambda>_. act_err e)"

definition persist_preparation ::
  "'st task_env \<Rightarrow> (string \<Rightarrow> string) \<Rightarrow> string \<Rightarrow> (string \<times> json) list option \<Rightarrow> ('st, unit) act" where
  "persist_preparation en dbg i meta =
     (case meta of
        None \<Rightarrow> act_ok ()
      | Some kvs \<Rightarrow>
          (case validate_meta_object (JObj kvs) of
             Inl e \<Rightarrow> discard_then en i (invalid_params (''Invalid task metadata: '' @ meta_error_display dbg e))
           | Inr _ \<Rightarrow>
               act_bind (store_call en (\<lambda>a clk. ta_set_meta a clk i (JObj kvs))) (\<lambda>r.
               case r of
                 Inl e \<Rightarrow> discard_then en i (router_task_error en OpCreate (Some i) (FStore e))
               | Inr True \<Rightarrow> act_ok ()
               | Inr False \<Rightarrow> discard_then en i (router_task_error en OpCreate (Some i)
                   (FInternal ''Task store could not persist preparation metadata'')))))"

definition prepare_created ::
  "'st task_env \<Rightarrow> (string \<Rightarrow> string) \<Rightarrow> string \<Rightarrow> prep_outcome \<Rightarrow> ('st, unit) act" where
  "prepare_created en dbg i prep =
     (case prep of
        PrepInterrupted \<Rightarrow> discard_then en i (router_task_error en OpCreate (Some i)
          (FInternal ''Task cancellation or expiry interrupted preparation''))
      | PrepFailed e \<Rightarrow> discard_then en i e
      | Prepared meta \<Rightarrow> persist_preparation en dbg i meta)"

definition attach_lifecycle :: "live_admission \<Rightarrow> string \<Rightarrow> ('st, unit) act" where
  "attach_lifecycle admission i =
     (case admission of
        None \<Rightarrow> act_ok ()
      | Some (r, a) \<Rightarrow> live_call (\<lambda>rg. (lr_on_cell a (attach_task_lifecycle i) rg, ())))"

definition create_and_prepare ::
  "'st task_env \<Rightarrow> (string \<Rightarrow> string) \<Rightarrow> (string + unit) \<times> string \<Rightarrow> tool_info \<Rightarrow> json \<Rightarrow> nat option
   \<Rightarrow> task_owner \<Rightarrow> (string \<Rightarrow> prep_outcome) \<Rightarrow> live_admission \<Rightarrow> ('st, string) act" where
  "create_and_prepare en dbg seed tool args ttl owner prep admission =
     act_bind (store_call en (\<lambda>a clk.
         ta_create a clk seed (tl_name tool) (if tl_live tool then JNull else args) ttl owner)) (\<lambda>r.
     case r of
       Inl e \<Rightarrow> act_err (router_task_error en OpCreate None (FStore e))
     | Inr i \<Rightarrow>
         act_bind (attach_lifecycle admission i) (\<lambda>_.
         act_bind (prepare_created en dbg i (prep i)) (\<lambda>_.
         act_ok i)))"

text \<open>Promotion and \<open>tokio::spawn\<close>.\<close>

definition launch :: "live_admission \<Rightarrow> string \<Rightarrow> ('st, unit) act" where
  "launch admission i w =
     (case admission of
        None \<Rightarrow> Some (w\<lparr>tw_started := tw_started w @ [(i, None)]\<rparr>, Inr ())
      | Some (r, a) \<Rightarrow>
          Some (w\<lparr>tw_live := lr_promote r i a (tw_live w), tw_started := tw_started w @ [(i, Some a)]\<rparr>, Inr ()))"

definition created_response :: "request_extensions \<Rightarrow> task_object \<Rightarrow> mcp_response" where
  "created_response x t =
     (if is_final_protocol_request x
      then FinalCreateTask (metadata_of t) (o_status t) (Option.bind (o_meta t) json_as_object)
      else CreateTaskR t)"

definition read_created :: "'st task_env \<Rightarrow> request_extensions \<Rightarrow> string \<Rightarrow> ('st, mcp_response) act" where
  "read_created en x i = act_bind (store_call_or en OpCreate i (\<lambda>a clk. ta_get a clk i)) (\<lambda>found.
     case found of
       None \<Rightarrow> act_err (router_task_error en OpCreate (Some i) (FInternal ''Failed to retrieve created task''))
     | Some t \<Rightarrow> act_ok (created_response x t))"

definition start_task ::
  "'st task_env \<Rightarrow> (string \<Rightarrow> string) \<Rightarrow> (string + unit) \<times> string \<Rightarrow> request_extensions \<Rightarrow> tool_info
   \<Rightarrow> json \<Rightarrow> nat option \<Rightarrow> (string \<Rightarrow> prep_outcome) \<Rightarrow> ('st, mcp_response) act" where
  "start_task en dbg seed x tool args ttl prep =
     (case into_owner (en_resolver en x) of
        None \<Rightarrow> act_err (router_task_error en OpCreate None (FInternal ''Task owner resolver failed''))
      | Some owner \<Rightarrow>
          act_bind (admit_live en tool) (\<lambda>admission.
          act_bind (release_on_error admission
              (create_and_prepare en dbg seed tool args ttl owner prep admission)) (\<lambda>i.
          act_bind (launch admission i) (\<lambda>_.
          read_created en x i))))"

text \<open>\<open>sync\<close> is the synchronous call.\<close>

definition handle_tool_call ::
  "'st task_env \<Rightarrow> (string \<Rightarrow> string) \<Rightarrow> (string + unit) \<times> string \<Rightarrow> request_extensions \<Rightarrow> tool_info
   \<Rightarrow> json \<Rightarrow> nat option option \<Rightarrow> (string \<Rightarrow> prep_outcome) \<Rightarrow> ('st, mcp_response) act \<Rightarrow> ('st, mcp_response) act" where
  "handle_tool_call en dbg seed x tool args task prep sync w =
     (case choose_task_mode en x tool task of
        None \<Rightarrow> None
      | Some (Inl e) \<Rightarrow> act_err e w
      | Some (Inr mode) \<Rightarrow>
          (case check_tool_capabilities x tool of
             None \<Rightarrow> None
           | Some (Inl e) \<Rightarrow> act_err e w
           | Some (Inr _) \<Rightarrow>
               (case mode of
                  None \<Rightarrow> sync w
                | Some ttl \<Rightarrow> start_task en dbg seed x tool args ttl prep w)))"

section \<open>Panics\<close>

datatype client_panic_message = PmDetailed | PmFixed string

datatype tool_name_disclosure = TdOmit | TdOriginal | TdFixed string

fun disclosure_value :: "tool_name_disclosure \<Rightarrow> string \<Rightarrow> string option" where
  "disclosure_value TdOmit original = None"
| "disclosure_value TdOriginal original = Some original"
| "disclosure_value (TdFixed name) original = Some name"

record panic_policy =
  pp_client_message :: client_panic_message
  pp_client_tool_name :: tool_name_disclosure
  pp_log_tool_name :: tool_name_disclosure
  pp_include_payload_in_logs :: bool

definition panic_redacted :: "string \<Rightarrow> panic_policy" where
  "panic_redacted message = \<lparr>pp_client_message = PmFixed message, pp_client_tool_name = TdOmit,
     pp_log_tool_name = TdOmit, pp_include_payload_in_logs = False\<rparr>"

definition panic_detailed :: panic_policy where
  "panic_detailed = \<lparr>pp_client_message = PmDetailed, pp_client_tool_name = TdOriginal,
     pp_log_tool_name = TdOriginal, pp_include_payload_in_logs = True\<rparr>"

definition include_tool_name_in_client_message :: "bool \<Rightarrow> panic_policy \<Rightarrow> panic_policy" where
  "include_tool_name_in_client_message include p =
     p\<lparr>pp_client_tool_name := (if include then TdOriginal else TdOmit)\<rparr>"

definition policy_client_tool_name :: "string \<Rightarrow> panic_policy \<Rightarrow> panic_policy" where
  "policy_client_tool_name name p = p\<lparr>pp_client_tool_name := TdFixed name\<rparr>"

definition include_tool_name_in_logs :: "bool \<Rightarrow> panic_policy \<Rightarrow> panic_policy" where
  "include_tool_name_in_logs include p =
     p\<lparr>pp_log_tool_name := (if include then TdOriginal else TdOmit)\<rparr>"

definition policy_log_tool_name :: "string \<Rightarrow> panic_policy \<Rightarrow> panic_policy" where
  "policy_log_tool_name name p = p\<lparr>pp_log_tool_name := TdFixed name\<rparr>"

definition include_payload_in_logs :: "bool \<Rightarrow> panic_policy \<Rightarrow> panic_policy" where
  "include_payload_in_logs include p = p\<lparr>pp_include_payload_in_logs := include\<rparr>"

definition panic_client_message :: "panic_policy \<Rightarrow> string \<Rightarrow> string option \<Rightarrow> string" where
  "panic_client_message p tool payload =
     (case pp_client_message p of
        PmDetailed \<Rightarrow> ''tool '' @ CHR 0x27 # tool @ CHR 0x27 # '' panicked: '' @
          (case payload of Some m \<Rightarrow> m | None \<Rightarrow> ''<redacted>'')
      | PmFixed message \<Rightarrow>
          (case disclosure_value (pp_client_tool_name p) tool of
             Some name \<Rightarrow> ''tool '' @ CHR 0x27 # name @ CHR 0x27 # '': '' @ message
           | None \<Rightarrow> message))"

definition needs_payload :: "panic_policy \<Rightarrow> bool" where
  "needs_payload p \<longleftrightarrow> pp_client_message p = PmDetailed \<or> pp_include_payload_in_logs p"

text \<open>
  What a caught panic tells the client, and what the log line shows: the tool's name and the text.
\<close>

definition handle_caught_panic ::
  "panic_policy \<Rightarrow> string \<Rightarrow> string \<Rightarrow> string \<times> string option \<times> string option" where
  "handle_caught_panic p tool payload_text =
     (let payload = (if needs_payload p then Some payload_text else None)
      in (panic_client_message p tool payload,
          disclosure_value (pp_log_tool_name p) tool,
          if pp_include_payload_in_logs p
          then Some (case payload of Some m \<Rightarrow> m | None \<Rightarrow> ''<redacted>'') else None))"

section \<open>How an execution ends\<close>

text \<open>What a live handler came to.\<close>

datatype live_outcome =
  LoCompleted wire
| LoFailed json_rpc_error
| LoCancelled "string option"
| LoErrCancelled
| LoErrJsonRpc json_rpc_error
| LoErrOther
| LoPanicked string

text \<open>
  \<open>reason\<close> is the reason of the first cancellation request.  Without a panic policy a panic
  unwinds through the spawned future, which only drops the registration.
\<close>

definition record_live_outcome ::
  "'st task_env \<Rightarrow> panic_policy option \<Rightarrow> string \<Rightarrow> string \<Rightarrow> string option \<Rightarrow> live_outcome \<Rightarrow> ('st, bool) act" where
  "record_live_outcome en policy tool i reason out =
     (case out of
        LoCompleted result \<Rightarrow> complete_task_or_fail en i result
      | LoFailed e \<Rightarrow> record_task_failure en i e
      | LoCancelled message \<Rightarrow>
          record_task_cancellation en i (case message of Some m \<Rightarrow> Some m | None \<Rightarrow> reason)
      | LoErrCancelled \<Rightarrow> record_task_cancellation en i
          (case reason of Some r \<Rightarrow> Some r | None \<Rightarrow> Some ''handler observed cancellation'')
      | LoErrJsonRpc e \<Rightarrow> record_task_failure en i e
      | LoErrOther \<Rightarrow> record_task_failure en i (router_task_error en OpExecute (Some i) FHandler)
      | LoPanicked payload \<Rightarrow>
          (case policy of
             None \<Rightarrow> act_ok False
           | Some p \<Rightarrow> record_task_failure en i
               (internal_error (fst (handle_caught_panic p tool payload)))))"

definition live_reason :: "nat \<Rightarrow> ('st, string option) act" where
  "live_reason a = live_call (\<lambda>rg. (rg, lc_reason (lr_cell rg a)))"

definition unwinds :: "panic_policy option \<Rightarrow> live_outcome \<Rightarrow> bool" where
  "unwinds policy out = (case out of LoPanicked _ \<Rightarrow> policy = None | _ \<Rightarrow> False)"

text \<open>The terminal write comes first, then the registration is dropped, then subscribers hear of it.\<close>

definition settle_live ::
  "'st task_env \<Rightarrow> panic_policy option \<Rightarrow> string \<Rightarrow> string \<Rightarrow> nat \<Rightarrow> live_outcome \<Rightarrow> ('st, unit) act" where
  "settle_live en policy tool i a out =
     act_bind (live_reason a) (\<lambda>reason.
     act_bind (record_live_outcome en policy tool i reason out) (\<lambda>_.
     act_bind (live_call (\<lambda>rg. (lr_unregister i rg, ()))) (\<lambda>_.
     if unwinds policy out then act_ok ()
     else notify_task_state en i)))"

text \<open>
  An ordinary execution: stopped by its token before or during the call, parked, or with a result,
  which is dropped when the token was raised meanwhile.
\<close>

datatype plain_outcome =
  PoStopped
| PoAsks "input_requests option" "string option"
| PoResult wire bool

definition settle_plain :: "'st task_env \<Rightarrow> string \<Rightarrow> plain_outcome \<Rightarrow> ('st, unit) act" where
  "settle_plain en i out =
     (case out of
        PoStopped \<Rightarrow> notify_task_state en i
      | PoAsks reqs msg \<Rightarrow> park_task_for_input en i reqs msg
      | PoResult result cancelled \<Rightarrow>
          if cancelled then notify_task_state en i
          else act_bind (complete_task_or_fail en i result) (\<lambda>_. notify_task_state en i))"

section \<open>Properties\<close>

text \<open>
  The mode of a tool call respects the tool and both peers.  A tool that requires a task never
  runs synchronously and one that forbids it never as a task; over the final protocol a task is
  created exactly when both peers negotiated the extension and the tool allows it, never because the
  request asked, and always with the server's lifetime; over the older one exactly when the request
  asks for it, with the lifetime it gives.  The choice never panics.
\<close>

theorem task_mode_respected:
  "choose_task_mode en x tool task \<noteq> None
   \<and> (choose_task_mode en x tool task = Some (Inr mode) \<longrightarrow>
        (mode = None \<longrightarrow> tl_task_support tool \<noteq> TsRequired)
      \<and> (mode \<noteq> None \<longrightarrow> tl_task_support tool \<noteq> TsForbidden)
      \<and> (if is_final_protocol_request x
         then task = None \<and> mode = (if en_final_tasks en \<and> client_declares_tasks x
                \<and> tl_task_support tool \<noteq> TsForbidden then Some None else None)
         else mode = task))"
proof
  have "missing_required_client_capability tasks_client_capabilities \<noteq> None" by code_simp
  then show "choose_task_mode en x tool task \<noteq> None"
    by (auto simp: choose_task_mode_def Let_def split: option.split task_support_mode.split)
  show "choose_task_mode en x tool task = Some (Inr mode) \<longrightarrow>
        (mode = None \<longrightarrow> tl_task_support tool \<noteq> TsRequired)
      \<and> (mode \<noteq> None \<longrightarrow> tl_task_support tool \<noteq> TsForbidden)
      \<and> (if is_final_protocol_request x
         then task = None \<and> mode = (if en_final_tasks en \<and> client_declares_tasks x
                \<and> tl_task_support tool \<noteq> TsForbidden then Some None else None)
         else mode = task)"
    by (cases "tl_task_support tool"; cases task) (auto simp: choose_task_mode_def Let_def)
qed

subsection \<open>Execution slots\<close>

text \<open>Other requests leave the live registry alone.\<close>

definition quiet_live :: "'st task_env \<Rightarrow> bool" where
  "quiet_live en \<longleftrightarrow> (\<forall>n s live. snd (en_between en n (s, live)) = live)"

definition seen_live :: "'st task_env \<Rightarrow> 'st task_world \<Rightarrow> live_registry option" where
  "seen_live en w = (if quiet_live en then Some (tw_live w) else None)"

interpretation slots: handler_frame en "seen_live en" for en
  by unfold_locales (simp_all add: seen_live_def quiet_live_def)

lemma slots_keep:
  assumes "quiet_live en" and "preserves (seen_live en) m" and "m w = Some (w', r)"
  shows "tw_live w' = tw_live w"
  using preservesD [OF assms(2,3)] assms(1) by (simp add: seen_live_def)

lemma keeps_discard_then [preserves_rules]: "preserves (seen_live en) (discard_then en i e)"
  by (auto simp: discard_then_def intro!: preserves_rules)

lemma keeps_prepare [preserves_rules]: "preserves (seen_live en) (prepare_created en dbg i prep)"
  by (auto simp: prepare_created_def persist_preparation_def
      intro!: preserves_rules split: prep_outcome.split option.split sum.split bool.split)

text \<open>The slots of the registry: reservations and executions with their cells' addresses.\<close>

definition slots :: "live_registry \<Rightarrow> (64 word \<times> nat) list \<times> (string \<times> nat) list" where
  "slots rg = (lr_reservations rg, lr_executions rg)"

lemma attach_slots:
  "attach_lifecycle admission i w = Some (w', r) \<Longrightarrow> slots (tw_live w') = slots (tw_live w)"
  by (auto simp: attach_lifecycle_def live_call_def act_ok_def slots_def split: option.splits)

lemma create_slots:
  assumes q: "quiet_live en" and run: "create_and_prepare en dbg seed tool args ttl owner prep admission w = Some (w', r)"
  shows "slots (tw_live w') = slots (tw_live w)"
proof -
  let ?create = "store_call en (\<lambda>a clk. ta_create a clk seed (tl_name tool) (if tl_live tool then JNull else args) ttl owner)"
  obtain w1 r1 where c: "?create w = Some (w1, Inr r1)"
    by (rule act_bindE [OF run [unfolded create_and_prepare_def]]) (auto simp: store_call_no_error)
  note 1 = c slots_keep [OF q slots.keeps_call c]
  show ?thesis
  proof (cases r1)
    case (Inl e)
    then show ?thesis using run 1 by (simp add: create_and_prepare_def act_bind_def act_err_def)
  next
    case (Inr i)
    then have run1: "act_bind (attach_lifecycle admission i) (\<lambda>_. act_bind (prepare_created en dbg i (prep i)) (\<lambda>_. act_ok i)) w1
        = Some (w', r)"
      using run 1(1) by (simp add: create_and_prepare_def act_bind_def [of ?create])
    obtain w2 u where 2: "attach_lifecycle admission i w1 = Some (w2, Inr u)"
      by (cases admission) (auto simp: attach_lifecycle_def live_call_def act_ok_def split: prod.splits)
    have "preserves (seen_live en) (act_bind (prepare_created en dbg i (prep i)) (\<lambda>_. act_ok i))"
      by (intro preserves_rules)
    then have "tw_live w' = tw_live w2"
      using slots_keep [OF q] run1 2 by (auto simp: act_bind_def [of "attach_lifecycle admission i"])
    then show ?thesis using attach_slots [OF 2] 1(2) by simp
  qed
qed

lemma release_fresh:
  "r \<notin> fst ` set xs \<Longrightarrow> AList.delete r (AList.update r a xs) = xs"
  by (simp add: alist_update_fresh AList.delete_eq filter_id_conv) force

lemma bind_live: "act_bind (live_call g) f w = (case g (tw_live w) of (live, x) \<Rightarrow> f x (w\<lparr>tw_live := live\<rparr>))"
  by (simp add: act_bind_def live_call_def split: prod.split)

lemma started_live [preserves_rules]: "preserves tw_started (live_call g)"
  by (auto simp: preserves_def live_call_def split: prod.splits)

lemma started_create [preserves_rules]:
  "preserves tw_started (create_and_prepare en dbg seed tool args ttl owner prep admission)"
  by (auto simp: create_and_prepare_def attach_lifecycle_def prepare_created_def persist_preparation_def
      discard_then_def intro!: preserves_rules
      split: prep_outcome.split option.split sum.split bool.split)

lemma admit_live_slot:
  assumes "admit_live en tool w = Some (w', Inr admission)" and "tl_live tool"
  shows "\<exists>a. admission = Some (lr_next_reservation (tw_live w), a) \<and> tw_started w' = tw_started w
    \<and> slots (tw_live w') = (AList.update (lr_next_reservation (tw_live w)) a (lr_reservations (tw_live w)),
        lr_executions (tw_live w))"
  using assms
  by (auto simp: admit_live_def act_bind_def live_call_def act_ok_def act_err_def lr_admit_def Let_def
      slots_def lr_publish_def split: option.splits if_splits)

lemma admit_live_closed:
  assumes "admit_live en tool w = Some (w', Inl e)" and "tl_live tool"
  shows "tw_started w' = tw_started w \<and> slots (tw_live w') = slots (tw_live w)"
  using assms
  by (auto simp: admit_live_def act_bind_def live_call_def act_ok_def act_err_def lr_admit_def Let_def
      split: option.splits if_splits)

lemma keeps_read_created [preserves_rules]:
  "preserves (seen_live en) (read_created en x i)" "preserves tw_started (read_created en x i)"
  by (auto simp: read_created_def intro!: preserves_rules split: option.split)

lemma settle_slots:
  assumes q: "quiet_live en" and run: "settle_live en policy name j b out w = Some (w', r)"
  shows "slots (tw_live w') = (lr_reservations (tw_live w), AList.delete j (lr_executions (tw_live w)))"
proof -
  have rec: "preserves (seen_live en) (record_live_outcome en policy name j reason out)" for reason
    by (auto simp: record_live_outcome_def intro!: preserves_rules split: live_outcome.split option.split)
  have ok: "record_live_outcome en policy name j reason out v \<noteq> Some (v', Inl e)" for reason v v' e
    by (auto simp: record_live_outcome_def complete_task_or_fail_def record_task_failure_def
        record_task_cancellation_def act_ok_def store_call_no_error
        split: live_outcome.splits option.splits sum.splits bool.splits elim!: act_bindE)
  have "act_bind (record_live_outcome en policy name j (lc_reason (lr_cell (tw_live w) b)) out)
      (\<lambda>_. act_bind (live_call (\<lambda>rg. (lr_unregister j rg, ())))
        (\<lambda>_. if unwinds policy out then act_ok () else notify_task_state en j)) w = Some (w', r)"
    using run by (simp add: settle_live_def live_reason_def bind_live)
  then obtain w1 x1 where 1: "record_live_outcome en policy name j (lc_reason (lr_cell (tw_live w) b)) out w = Some (w1, Inr x1)"
    and run1: "(if unwinds policy out then act_ok () else notify_task_state en j)
        (w1\<lparr>tw_live := lr_unregister j (tw_live w1)\<rparr>) = Some (w', r)"
    by (rule act_bindE) (auto simp: bind_live ok)
  have "tw_live w' = lr_unregister j (tw_live w1)"
    using run1 slots_keep [OF q slots.keeps_notify, of j "w1\<lparr>tw_live := lr_unregister j (tw_live w1)\<rparr>" w' r]
    by (auto simp: act_ok_def split: if_splits)
  moreover have "tw_live w1 = tw_live w" by (rule slots_keep [OF q rec 1])
  ultimately show ?thesis by (simp add: slots_def lr_unregister_def lr_publish_def)
qed

definition slot_outcome ::
  "'st task_world \<Rightarrow> 'st task_world \<Rightarrow> json_rpc_error + mcp_response \<Rightarrow> bool" where
  "slot_outcome w w' r \<longleftrightarrow>
      (tw_started w' = tw_started w \<and> slots (tw_live w') = slots (tw_live w) \<and> (\<exists>e. r = Inl e))
    \<or> (\<exists>i a. tw_started w' = tw_started w @ [(i, Some a)]
         \<and> slots (tw_live w') = (lr_reservations (tw_live w), AList.update i a (lr_executions (tw_live w))))"

lemma admitted_slots:
  assumes q: "quiet_live en" and fresh: "k \<notin> fst ` set (lr_reservations (tw_live w))"
    and started: "tw_started w1 = tw_started w"
    and slot: "slots (tw_live w1) = (AList.update k a (lr_reservations (tw_live w)), lr_executions (tw_live w))"
    and run: "act_bind (release_on_error (Some (k, a))
        (create_and_prepare en dbg seed tool args ttl owner prep (Some (k, a))))
        (\<lambda>i. act_bind (launch (Some (k, a)) i) (\<lambda>_. read_created en x i)) w1 = Some (w', r)"
  shows "slot_outcome w w' r"
  using run
proof (cases rule: act_bindE)
  case (err e)
  then obtain w2 where 2: "create_and_prepare en dbg seed tool args ttl owner prep (Some (k, a)) w1 = Some (w2, Inl e)"
    "w' = w2\<lparr>tw_live := lr_release_reservation k (tw_live w2)\<rparr>"
    by (auto simp: release_on_error_def split: option.splits sum.splits)
  have "slots (tw_live w2) = slots (tw_live w1)" by (rule create_slots [OF q 2(1)])
  moreover have "tw_started w2 = tw_started w1" by (rule preservesD [OF started_create 2(1)])
  ultimately show ?thesis
    using started slot 2(2) err(2) release_fresh [OF fresh]
    by (simp add: slot_outcome_def slots_def lr_release_reservation_def lr_publish_def)
next
  case (ok w2 i)
  then have 2: "create_and_prepare en dbg seed tool args ttl owner prep (Some (k, a)) w1 = Some (w2, Inr i)"
    by (auto simp: release_on_error_def split: option.splits sum.splits)
  have s: "slots (tw_live w2) = slots (tw_live w1)" "tw_started w2 = tw_started w1"
    by (rule create_slots [OF q 2], rule preservesD [OF started_create 2])
  from ok(2) have "read_created en x i (w2\<lparr>tw_live := lr_promote k i a (tw_live w2),
      tw_started := tw_started w2 @ [(i, Some a)]\<rparr>) = Some (w', r)"
    by (simp add: act_bind_def launch_def)
  from slots_keep [OF q keeps_read_created(1) this] preservesD [OF keeps_read_created(2) this]
  have "slots (tw_live w') = (lr_reservations (tw_live w), AList.update i a (lr_executions (tw_live w)))"
    "tw_started w' = tw_started w @ [(i, Some a)]"
    using s started slot release_fresh [OF fresh] by (simp_all add: slots_def lr_promote_def)
  then show ?thesis by (auto simp: slot_outcome_def)
qed


definition demo_tool :: tool_info where
  "demo_tool = \<lparr>tl_name = ''t'', tl_task_support = TsRequired, tl_live = True, tl_required_capabilities = None\<rparr>"


subsection \<open>Disclosure\<close>

datatype panic_switch =
  SwClientTool bool
| SwClientToolName string
| SwLogTool bool
| SwLogToolName string
| SwPayload bool

fun apply_switch :: "panic_switch \<Rightarrow> panic_policy \<Rightarrow> panic_policy" where
  "apply_switch (SwClientTool b) = include_tool_name_in_client_message b"
| "apply_switch (SwClientToolName n) = policy_client_tool_name n"
| "apply_switch (SwLogTool b) = include_tool_name_in_logs b"
| "apply_switch (SwLogToolName n) = policy_log_tool_name n"
| "apply_switch (SwPayload b) = include_payload_in_logs b"

lemma fold_switches_message:
  "pp_client_message (fold apply_switch sws p) = pp_client_message p"
proof (induction sws arbitrary: p)
  case (Cons s sws)
  then show ?case
    by (cases s) (simp_all add: include_tool_name_in_client_message_def policy_client_tool_name_def
        include_tool_name_in_logs_def policy_log_tool_name_def include_payload_in_logs_def)
qed simp

text \<open>
  A redacted policy keeps the panic from the client.  However its switches are set afterwards,
  what a client reads never depends on the panic's text; and as long as none is set, neither the
  client's message nor the log line depends on the text or on which tool panicked.
\<close>

theorem redacted_panic_policy:
  "fst (handle_caught_panic (fold apply_switch sws (panic_redacted message)) tool text)
     = fst (handle_caught_panic (fold apply_switch sws (panic_redacted message)) tool text')
   \<and> handle_caught_panic (panic_redacted message) tool text
     = handle_caught_panic (panic_redacted message) tool' text'"
proof
  have m: "pp_client_message (fold apply_switch sws (panic_redacted message)) = PmFixed message"
    by (simp add: fold_switches_message panic_redacted_def)
  show "fst (handle_caught_panic (fold apply_switch sws (panic_redacted message)) tool text)
     = fst (handle_caught_panic (fold apply_switch sws (panic_redacted message)) tool text')"
    by (simp add: handle_caught_panic_def panic_client_message_def m Let_def)
  show "handle_caught_panic (panic_redacted message) tool text
     = handle_caught_panic (panic_redacted message) tool' text'"
    by (simp add: handle_caught_panic_def panic_client_message_def panic_redacted_def needs_payload_def Let_def)
qed

lemma task_mode_respected_witness:
  "choose_task_mode demo_router (demo_caller None (Some demo_final)) demo_tool None = Some (Inr (Some None))"
proof -
  have "\<exists>mode. choose_task_mode demo_router (demo_caller None (Some demo_final)) demo_tool None = Some (Inr mode)"
    by (simp add: choose_task_mode_def demo_tool_def demo_router_def demo_caller_def demo_final_def
        is_final_protocol_request_def client_declares_tasks_def final_client_capabilities_def
        tasks_client_capabilities_def no_capabilities_def Let_def)
  then obtain mode where m: "choose_task_mode demo_router (demo_caller None (Some demo_final)) demo_tool None = Some (Inr mode)"
    by blast
  have "is_final_protocol_request (demo_caller None (Some demo_final)) \<and> en_final_tasks demo_router
      \<and> client_declares_tasks (demo_caller None (Some demo_final)) \<and> tl_task_support demo_tool = TsRequired"
    by code_simp
  then show ?thesis
    using m task_mode_respected [of demo_router "demo_caller None (Some demo_final)" demo_tool None mode] by auto
qed

end
