(* ===== verification/HttpHeaders.thy ===== *)
theory HttpHeaders
  imports Capabilities Framing Pagination "HOL-Library.Code_Target_Nat"
begin

text \<open>
  The HTTP headers that mirror a request's body (SEP-2243): what the server checks
  (\<open>transport/http_headers.rs\<close>) and what the client sends (\<open>client/http.rs\<close>).

  A header map is the list of its entries with lowercased names; \<open>get_all\<close> keeps their order.
  A check can panic (\<open>None\<close>) or fail (\<open>Some (Inl e)\<close>).  The http and base64 crates and the
  printing of numbers, quoted strings and UTF-8 errors are the parameters of \<open>header_env\<close>.
\<close>

record header_env =
  he_to_str :: "string \<Rightarrow> string + string"
  he_name :: "string \<Rightarrow> string + string"
  he_decode :: "string \<Rightarrow> string + string"
  he_encode :: "string \<Rightarrow> string"
  he_number :: "json_number \<Rightarrow> string"
  he_debug :: "string \<Rightarrow> string"
  he_utf8_error :: "string \<Rightarrow> string"

type_synonym header_map = "(string \<times> string) list"

section \<open>Results that can panic\<close>

definition pbind :: "('e + 'a) option \<Rightarrow> ('a \<Rightarrow> ('e + 'b) option) \<Rightarrow> ('e + 'b) option" where
  "pbind m f = (case m of None \<Rightarrow> None | Some (Inl e) \<Rightarrow> Some (Inl e) | Some (Inr x) \<Rightarrow> f x)"

lemma pbind_simps [simp]:
  "pbind None f = None"
  "pbind (Some (Inl e)) f = Some (Inl e)"
  "pbind (Some (Inr x)) f = f x"
  by (simp_all add: pbind_def)

lemma pbind_ok_iff: "pbind m f = Some (Inr y) \<longleftrightarrow> (\<exists>x. m = Some (Inr x) \<and> f x = Some (Inr y))"
  by (auto simp: pbind_def split: option.splits sum.splits)

lemma pbind_cong [fundef_cong]:
  "m = m' \<Longrightarrow> (\<And>x. m' = Some (Inr x) \<Longrightarrow> f x = g x) \<Longrightarrow> pbind m f = pbind m' g"
  by (auto simp: pbind_def split: option.splits sum.splits)

section \<open>Modes and values\<close>

definition MCP_METHOD_HEADER :: string where "MCP_METHOD_HEADER = ''mcp-method''"
definition MCP_NAME_HEADER :: string where "MCP_NAME_HEADER = ''mcp-name''"
definition MCP_PARAM_HEADER_PREFIX :: string where "MCP_PARAM_HEADER_PREFIX = ''mcp-param-''"
definition BASE64_PREFIX :: string where "BASE64_PREFIX = ''=?base64?''"
definition BASE64_SUFFIX :: string where "BASE64_SUFFIX = ''?=''"

datatype sep2243_mode = Strict | Lenient

definition mode_for_version :: "string \<Rightarrow> sep2243_mode" where
  "mode_for_version version = (if version = PROTOCOL_VERSION_2026_07_28 then Strict else Lenient)"

text \<open>\<open>McpErrorCode::HeaderMismatch\<close> is -32020.\<close>

definition header_mismatch :: "string \<Rightarrow> json_rpc_error" where
  "header_mismatch msg = \<lparr>e_code = - 32020, e_message = msg, e_data = None\<rparr>"

definition mismatch :: "string \<Rightarrow> (json_rpc_error + 'a) option" where
  "mismatch msg = Some (Inl (header_mismatch msg))"

definition str_starts_with :: "string \<Rightarrow> string \<Rightarrow> bool" where
  "str_starts_with p s \<longleftrightarrow> take (length p) s = p"

definition str_ends_with :: "string \<Rightarrow> string \<Rightarrow> bool" where
  "str_ends_with p s \<longleftrightarrow> length p \<le> length s \<and> drop (length s - length p) s = p"

text \<open>The slice between the markers panics when its end lies before its start.\<close>

definition decode_sentinel :: "header_env \<Rightarrow> string \<Rightarrow> (string + string) option" where
  "decode_sentinel en v =
     (if str_starts_with BASE64_PREFIX v \<and> str_ends_with BASE64_SUFFIX v then
        (let from = length BASE64_PREFIX; upto = length v - length BASE64_SUFFIX in
         if upto < from then None
         else (case he_decode en (drop from (take upto v)) of
             Inl e \<Rightarrow> Some (Inl (''invalid Base64: '' @ e))
           | Inr bytes \<Rightarrow>
               if utf8_valid (map of_char bytes) then Some (Inr bytes)
               else Some (Inl (''Base64 payload is not valid UTF-8: '' @ he_utf8_error en bytes))))
      else Some (Inr v))"

definition get_all :: "header_map \<Rightarrow> string \<Rightarrow> string list" where
  "get_all headers name = map snd (filter (\<lambda>h. fst h = name) headers)"

text \<open>The decoding both header readers share; \<open>shown\<close> is the name the messages use.\<close>

definition header_text :: "header_env \<Rightarrow> string \<Rightarrow> string \<Rightarrow> (json_rpc_error + string) option" where
  "header_text en shown raw =
     (case he_to_str en raw of
        Inl e \<Rightarrow> mismatch (shown @ '' contains invalid bytes: '' @ e)
      | Inr s \<Rightarrow>
          (case decode_sentinel en (trim_str s) of
             None \<Rightarrow> None
           | Some (Inl msg) \<Rightarrow> mismatch (shown @ '': '' @ msg)
           | Some (Inr v) \<Rightarrow> Some (Inr v)))"

definition header_str :: "header_env \<Rightarrow> header_map \<Rightarrow> string \<Rightarrow> (json_rpc_error + string option) option" where
  "header_str en headers name =
     (let values = get_all headers name in
      if 1 < length values then mismatch (''duplicate '' @ name @ '' header'')
      else (case values of
          [] \<Rightarrow> Some (Inr None)
        | raw # _ \<Rightarrow> pbind (header_text en name raw) (\<lambda>s. Some (Inr (Some s)))))"

section \<open>The annotations of a tool schema\<close>

record header_mapping =
  hm_suffix :: string
  hm_property_path :: "string list"

fun annotation_count :: "json \<Rightarrow> nat" where
  "annotation_count (JObj kvs) =
     (if ''x-mcp-header'' \<in> fst ` set kvs then 1 else 0) + sum_list (map (\<lambda>kv. annotation_count (snd kv)) kvs)"
| "annotation_count (JArr vs) = sum_list (map annotation_count vs)"
| "annotation_count _ = 0"

definition is_tchar :: "char \<Rightarrow> bool" where
  "is_tchar c \<longleftrightarrow> is_ascii_alphanumeric c \<or> c \<in> set ''!#$%&*+-.^_`|~'' \<or> c = CHR 0x27"

definition header_type_name :: "string \<Rightarrow> bool" where
  "header_type_name k \<longleftrightarrow> k \<in> {''string'', ''integer'', ''boolean''}"

fun primitive_kinds :: "json list \<Rightarrow> bool \<Rightarrow> bool" where
  "primitive_kinds [] primitive = primitive"
| "primitive_kinds (kind # kinds) primitive =
     (case json_as_str kind of
        Some k \<Rightarrow>
          if header_type_name k \<and> \<not> primitive then primitive_kinds kinds True
          else if k = ''null'' then primitive_kinds kinds primitive
          else False
      | None \<Rightarrow> False)"

definition primitive_header_type :: "json \<Rightarrow> bool" where
  "primitive_header_type schema =
     (case json_get schema ''type'' of
        Some (JStr kind) \<Rightarrow> header_type_name kind
      | Some (JArr kinds) \<Rightarrow> primitive_kinds kinds False
      | _ \<Rightarrow> False)"

text \<open>What is wrong with a schema, at a property path; the two sides word it differently.\<close>

datatype mapping_error =
  AnnotationNotString "string list"
| InvalidSuffix string "string list"
| NotPrimitiveProperty "string list"
| DuplicateSuffix string
| Unreachable

type_synonym walk_state = "string list \<times> header_mapping list"

definition note_annotation :: "json \<Rightarrow> string list \<Rightarrow> walk_state \<Rightarrow> mapping_error + walk_state" where
  "note_annotation property path st =
     (case json_get property ''x-mcp-header'' of
        None \<Rightarrow> Inr st
      | Some annotation \<Rightarrow>
          (case json_as_str annotation of
             None \<Rightarrow> Inl (AnnotationNotString path)
           | Some suffix \<Rightarrow>
               if suffix = [] \<or> \<not> list_all is_tchar suffix then Inl (InvalidSuffix suffix path)
               else if \<not> primitive_header_type property then Inl (NotPrimitiveProperty path)
               else if map ascii_lower suffix \<in> set (fst st) then Inl (DuplicateSuffix suffix)
               else Inr (map ascii_lower suffix # fst st,
                 snd st @ [\<lparr>hm_suffix = suffix, hm_property_path = path\<rparr>])))"


lemma json_get_size: "json_get v k = Some w \<Longrightarrow> size w < size v"
proof (cases v)
  case (JObj kvs)
  assume "json_get v k = Some w"
  then have "(k, w) \<in> set kvs" by (simp add: JObj map_of_SomeD)
  then have "Suc (size w) \<le> size_list (\<lambda>x. Suc (size (snd x))) kvs"
    by (rule size_list_estimation') simp
  then show ?thesis by (simp add: JObj size_prod_simp [abs_def])
qed simp_all

function walk :: "json \<Rightarrow> string list \<Rightarrow> walk_state \<Rightarrow> mapping_error + walk_state"
  and walk_properties :: "(string \<times> json) list \<Rightarrow> string list \<Rightarrow> walk_state \<Rightarrow> mapping_error + walk_state" where
  "walk schema path st =
     (case json_get schema ''properties'' of
        Some (JObj properties) \<Rightarrow> walk_properties properties path st
      | _ \<Rightarrow> Inr st)"
| "walk_properties [] path st = Inr st"
| "walk_properties ((name, property) # rest) path st =
     result_bind (note_annotation property (path @ [name]) st) (\<lambda>st1.
     result_bind (walk property (path @ [name]) st1) (\<lambda>st2.
     walk_properties rest path st2))"
  by pat_completeness auto
termination
  by (relation "measure (case_sum (\<lambda>(v, _). size v) (\<lambda>(ps, _). size_list (\<lambda>x. Suc (size (snd x))) ps))")
     (auto dest: json_get_size simp: size_prod_simp [abs_def])

declare walk.simps [simp del]

text \<open>Annotations that chains of \<open>properties\<close> do not reach are counted, and refused.\<close>

definition schema_header_mappings :: "json \<Rightarrow> mapping_error + header_mapping list" where
  "schema_header_mappings schema =
     result_bind (walk schema [] ([], [])) (\<lambda>st.
       if annotation_count schema \<noteq> length (snd st) then Inl Unreachable else Inr (snd st))"

fun server_mapping_error :: "(string \<Rightarrow> string) \<Rightarrow> mapping_error \<Rightarrow> string" where
  "server_mapping_error dbg (AnnotationNotString p) =
     ''x-mcp-header at '' @ join_dots p @ '' must be a string''"
| "server_mapping_error dbg (InvalidSuffix s p) =
     ''invalid x-mcp-header value '' @ dbg s @ '' at '' @ join_dots p"
| "server_mapping_error dbg (NotPrimitiveProperty p) =
     ''x-mcp-header at '' @ join_dots p @ '' requires a string, integer, or boolean property''"
| "server_mapping_error dbg (DuplicateSuffix s) = ''duplicate x-mcp-header value '' @ dbg s"
| "server_mapping_error dbg Unreachable =
     ''x-mcp-header annotation is not statically reachable through properties''"

fun client_mapping_error :: "(string \<Rightarrow> string) \<Rightarrow> mapping_error \<Rightarrow> string" where
  "client_mapping_error dbg (AnnotationNotString p) = ''annotation at '' @ join_dots p @ '' is not a string''"
| "client_mapping_error dbg (InvalidSuffix s p) = ''invalid header suffix '' @ dbg s @ '' at '' @ join_dots p"
| "client_mapping_error dbg (NotPrimitiveProperty p) =
     ''annotation at '' @ join_dots p @ '' is not on a primitive property''"
| "client_mapping_error dbg (DuplicateSuffix s) = ''duplicate header suffix '' @ dbg s"
| "client_mapping_error dbg Unreachable =
     ''x-mcp-header annotation is not statically reachable through properties''"

definition custom_header_mappings :: "header_env \<Rightarrow> json \<Rightarrow> json_rpc_error + header_mapping list" where
  "custom_header_mappings en schema =
     (case schema_header_mappings schema of
        Inl e \<Rightarrow> Inl (header_mismatch (server_mapping_error (he_debug en) e))
      | Inr ms \<Rightarrow> Inr ms)"

definition client_header_mappings :: "header_env \<Rightarrow> json \<Rightarrow> string + header_mapping list" where
  "client_header_mappings en schema =
     (case schema_header_mappings schema of
        Inl e \<Rightarrow> Inl (client_mapping_error (he_debug en) e)
      | Inr ms \<Rightarrow> Inr ms)"

fun value_at_property_path :: "json \<Rightarrow> string list \<Rightarrow> json option" where
  "value_at_property_path v [] = Some v"
| "value_at_property_path v (k # ks) = Option.bind (json_get v k) (\<lambda>w. value_at_property_path w ks)"

fun json_is_null :: "json \<Rightarrow> bool" where
  "json_is_null JNull = True"
| "json_is_null _ = False"

fun json_value_to_header_string :: "header_env \<Rightarrow> json \<Rightarrow> string + string" where
  "json_value_to_header_string en (JStr s) = Inr s"
| "json_value_to_header_string en (JNum n) = Inr (he_number en n)"
| "json_value_to_header_string en (JBool b) = Inr (if b then ''true'' else ''false'')"
| "json_value_to_header_string en JNull = Inl ''null is not a primitive header value''"
| "json_value_to_header_string en (JArr _) = Inl ''array is not a primitive header value''"
| "json_value_to_header_string en (JObj _) = Inl ''object is not a primitive header value''"

section \<open>The server's checks\<close>

definition call_arguments :: "json \<Rightarrow> json option" where
  "call_arguments parsed = Option.bind (json_get parsed ''params'') (\<lambda>p. json_get p ''arguments'')"

text \<open>One annotated parameter.\<close>

definition check_mapping ::
  "header_env \<Rightarrow> header_map \<Rightarrow> json \<Rightarrow> sep2243_mode \<Rightarrow> header_mapping \<Rightarrow> (json_rpc_error + unit) option" where
  "check_mapping en headers arguments mode m =
     (let full_name = MCP_PARAM_HEADER_PREFIX @ hm_suffix m in
      case he_name en full_name of
        Inl e \<Rightarrow> mismatch (''invalid x-mcp-header value '' @ he_debug en (hm_suffix m) @ '': '' @ e)
      | Inr header_name \<Rightarrow>
          (let values = get_all headers header_name in
           if 1 < length values then mismatch (''duplicate '' @ full_name @ '' header'')
           else
             (let body_value = (case value_at_property_path arguments (hm_property_path m) of
                  Some v \<Rightarrow> if json_is_null v then None else Some v | None \<Rightarrow> None)
              in case (values, body_value) of
                   ([], Some _) \<Rightarrow>
                     if mode = Strict then mismatch (full_name @ '' header is required when argument ''
                       @ join_dots (hm_property_path m) @ '' is present'')
                     else Some (Inr ())
                 | (_ # _, None) \<Rightarrow> mismatch (full_name @ '' header is present but argument ''
                       @ join_dots (hm_property_path m) @ '' is missing or null'')
                 | (raw # _, Some v) \<Rightarrow>
                     pbind (header_text en full_name raw) (\<lambda>decoded.
                     case json_value_to_header_string en v of
                       Inl msg \<Rightarrow> mismatch (full_name @ '': body value cannot be represented as a header: '' @ msg)
                     | Inr repr \<Rightarrow>
                         if decoded \<noteq> repr then mismatch (full_name @ '' header value '' @ he_debug en decoded
                           @ '' does not match body value '' @ he_debug en repr)
                         else Some (Inr ()))
                 | ([], None) \<Rightarrow> Some (Inr ()))))"

fun check_mappings ::
  "header_env \<Rightarrow> header_map \<Rightarrow> json \<Rightarrow> sep2243_mode \<Rightarrow> header_mapping list \<Rightarrow> (json_rpc_error + unit) option" where
  "check_mappings en headers arguments mode [] = Some (Inr ())"
| "check_mappings en headers arguments mode (m # ms) =
     pbind (check_mapping en headers arguments mode m) (\<lambda>_. check_mappings en headers arguments mode ms)"

definition validate_schema_param_headers ::
  "header_env \<Rightarrow> header_map \<Rightarrow> json \<Rightarrow> sep2243_mode \<Rightarrow> json \<Rightarrow> (json_rpc_error + unit) option" where
  "validate_schema_param_headers en headers parsed mode schema =
     pbind (Some (custom_header_mappings en schema)) (\<lambda>mappings.
       check_mappings en headers (case call_arguments parsed of Some a \<Rightarrow> a | None \<Rightarrow> JNull) mode mappings)"

text \<open>Without a schema: each supplied header against the argument its suffix names.\<close>

fun find_argument :: "string \<Rightarrow> (string \<times> json) list \<Rightarrow> json option" where
  "find_argument suffix [] = None"
| "find_argument suffix ((k, v) # rest) =
     (if eq_ignore_ascii_case k suffix then Some v else find_argument suffix rest)"

definition check_supplied ::
  "header_env \<Rightarrow> json option \<Rightarrow> sep2243_mode \<Rightarrow> string \<Rightarrow> string \<Rightarrow> (json_rpc_error + unit) option" where
  "check_supplied en arguments mode suffix raw =
     pbind (header_text en (''Mcp-Param-'' @ suffix) raw) (\<lambda>decoded.
     case Option.bind (Option.bind arguments json_as_object) (find_argument suffix) of
       None \<Rightarrow>
         if mode = Strict then mismatch (''Mcp-Param-'' @ suffix @ '' present but no matching body argument'')
         else Some (Inr ())
     | Some v \<Rightarrow>
         (case json_value_to_header_string en v of
            Inl e \<Rightarrow> mismatch (''Mcp-Param-'' @ suffix @ '': body value cannot be represented as a header: '' @ e)
          | Inr repr \<Rightarrow>
              if decoded \<noteq> repr then mismatch (''Mcp-Param-'' @ suffix @ '' header value '' @ he_debug en decoded
                @ '' does not match body value '' @ he_debug en repr)
              else Some (Inr ())))"

fun check_param_headers ::
  "header_env \<Rightarrow> json option \<Rightarrow> sep2243_mode \<Rightarrow> header_map \<Rightarrow> string list \<Rightarrow> (json_rpc_error + unit) option" where
  "check_param_headers en arguments mode [] seen = Some (Inr ())"
| "check_param_headers en arguments mode ((name, raw) # rest) seen =
     (if \<not> str_starts_with MCP_PARAM_HEADER_PREFIX name then check_param_headers en arguments mode rest seen
      else
        (let suffix = drop (length MCP_PARAM_HEADER_PREFIX) name; suffix_lc = map ascii_lower suffix in
         if suffix = [] then mismatch ''Mcp-Param- header has empty suffix''
         else if suffix_lc \<in> set seen then
           mismatch (''duplicate Mcp-Param-* header: '' @ he_debug en suffix @ '' (case-insensitive)'')
         else pbind (check_supplied en arguments mode suffix raw) (\<lambda>_.
           check_param_headers en arguments mode rest (suffix_lc # seen))))"

definition validate_param_headers ::
  "header_env \<Rightarrow> header_map \<Rightarrow> json \<Rightarrow> sep2243_mode \<Rightarrow> (json_rpc_error + unit) option" where
  "validate_param_headers en headers parsed mode =
     check_param_headers en
       (case call_arguments parsed of
          Some v \<Rightarrow> if json_is_object v then Some v else None | None \<Rightarrow> None) mode headers []"

datatype name_source = SrcName | SrcUri | SrcTaskId

fun name_source_key :: "name_source \<Rightarrow> string" where
  "name_source_key SrcName = ''name''"
| "name_source_key SrcUri = ''uri''"
| "name_source_key SrcTaskId = ''taskId''"

definition name_source_extract :: "name_source \<Rightarrow> json \<Rightarrow> string option" where
  "name_source_extract src parsed = Option.bind (json_get parsed ''params'')
     (\<lambda>params. Option.bind (json_get params (name_source_key src)) json_as_str)"

definition name_source_for :: "string \<Rightarrow> name_source option" where
  "name_source_for method =
     (if method \<in> {''tools/call'', ''prompts/get''} then Some SrcName
      else if method = ''resources/read'' then Some SrcUri
      else if method \<in> {''tasks/get'', ''tasks/update'', ''tasks/cancel''} then Some SrcTaskId
      else None)"

definition check_method_header ::
  "header_env \<Rightarrow> sep2243_mode \<Rightarrow> string option \<Rightarrow> string option \<Rightarrow> (json_rpc_error + unit) option" where
  "check_method_header en mode header body =
     (if header = None \<and> mode = Strict then mismatch ''Mcp-Method header is required''
      else case (header, body) of
          (Some h, Some b) \<Rightarrow>
            if h \<noteq> b then mismatch (''Mcp-Method header value '' @ he_debug en h
              @ '' does not match body method '' @ he_debug en b)
            else Some (Inr ())
        | (Some h, None) \<Rightarrow> mismatch (''Mcp-Method header value '' @ he_debug en h
              @ '' present but body has no method field'')
        | _ \<Rightarrow> Some (Inr ()))"

definition check_name_header ::
  "header_env \<Rightarrow> sep2243_mode \<Rightarrow> string option \<Rightarrow> string option \<Rightarrow> string option \<Rightarrow> (json_rpc_error + unit) option" where
  "check_name_header en mode method header body =
     (case (header, body) of
        (None, Some _) \<Rightarrow>
          if mode = Strict then mismatch (''Mcp-Name header is required for ''
            @ (case method of Some m \<Rightarrow> m | None \<Rightarrow> ''?'') @ '' requests'')
          else Some (Inr ())
      | (Some h, Some b) \<Rightarrow>
          if h \<noteq> b then mismatch (''Mcp-Name header value '' @ he_debug en h
            @ '' does not match body value '' @ he_debug en b)
          else Some (Inr ())
      | (Some h, None) \<Rightarrow> mismatch (''Mcp-Name header value '' @ he_debug en h
            @ '' present but body has no matching field'')
      | (None, None) \<Rightarrow> Some (Inr ()))"

definition body_method :: "json \<Rightarrow> string option" where
  "body_method parsed = Option.bind (json_get parsed ''method'') json_as_str"

definition validate_with_tool_schema ::
  "header_env \<Rightarrow> header_map \<Rightarrow> json \<Rightarrow> sep2243_mode \<Rightarrow> json option \<Rightarrow> (json_rpc_error + unit) option" where
  "validate_with_tool_schema en headers parsed mode schema =
     pbind (header_str en headers MCP_METHOD_HEADER) (\<lambda>mcp_method.
     pbind (check_method_header en mode mcp_method (body_method parsed)) (\<lambda>_.
     pbind (header_str en headers MCP_NAME_HEADER) (\<lambda>mcp_name.
     pbind (case Option.bind (body_method parsed) name_source_for of
         None \<Rightarrow> Some (Inr ())
       | Some src \<Rightarrow> check_name_header en mode (body_method parsed) mcp_name (name_source_extract src parsed)) (\<lambda>_.
     case schema of
       Some s \<Rightarrow> validate_schema_param_headers en headers parsed mode s
     | None \<Rightarrow> validate_param_headers en headers parsed mode))))"


section \<open>What the client sends\<close>

definition printable :: "char \<Rightarrow> bool" where
  "printable c \<longleftrightarrow> 32 \<le> (of_char c :: nat) \<and> (of_char c :: nat) \<le> 126"

definition encode_header_value :: "header_env \<Rightarrow> string \<Rightarrow> string" where
  "encode_header_value en v =
     (if trim_str v \<noteq> v \<or> (\<exists>c\<in>set v. \<not> printable c)
      then BASE64_PREFIX @ he_encode en v @ BASE64_SUFFIX else v)"

text \<open>The header of one annotated parameter.\<close>

definition client_param_header :: "header_env \<Rightarrow> json \<Rightarrow> header_mapping \<Rightarrow> (string \<times> string) option" where
  "client_param_header en arguments m =
     Option.bind (value_at_property_path arguments (hm_property_path m)) (\<lambda>v.
       if json_is_null v then None
       else (case json_value_to_header_string en v of
           Inl _ \<Rightarrow> None
         | Inr repr \<Rightarrow> Some (MCP_PARAM_HEADER_PREFIX @ hm_suffix m, encode_header_value en repr)))"

type_synonym tool_mappings = "(string \<times> header_mapping list) list"

definition outgoing_custom_headers :: "header_env \<Rightarrow> tool_mappings \<Rightarrow> json \<Rightarrow> (string \<times> string) list" where
  "outgoing_custom_headers en mappings parsed =
     (if body_method parsed \<noteq> Some ''tools/call'' then []
      else case json_get parsed ''params'' of
          None \<Rightarrow> []
        | Some params \<Rightarrow>
            (case Option.bind (json_get params ''name'') json_as_str of
               None \<Rightarrow> []
             | Some name \<Rightarrow>
                 (case map_of mappings name of
                    None \<Rightarrow> []
                  | Some ms \<Rightarrow> List.map_filter (client_param_header en
                      (case json_get params ''arguments'' of Some a \<Rightarrow> a | None \<Rightarrow> JNull)) ms)))"

text \<open>The mirrored headers of \<open>send\<close>, in the order it adds them.\<close>

definition client_headers :: "header_env \<Rightarrow> tool_mappings \<Rightarrow> json \<Rightarrow> (string \<times> string) list" where
  "client_headers en mappings parsed =
     (case body_method parsed of
        None \<Rightarrow> []
      | Some m \<Rightarrow> (MCP_METHOD_HEADER, m) #
          (case Option.bind (name_source_for m) (\<lambda>src. name_source_extract src parsed) of
             None \<Rightarrow> [] | Some name \<Rightarrow> [(MCP_NAME_HEADER, name)]))
     @ outgoing_custom_headers en mappings parsed"

subsection \<open>Learning the annotations from tool listings\<close>

text \<open>\<open>str::parse::<i64>\<close>\<close>

definition parse_i64 :: "string \<Rightarrow> int option" where
  "parse_i64 s =
     (let (neg, ds) = (case s of
          c # cs \<Rightarrow> if c = CHR ''-'' then (True, cs) else if c = CHR ''+'' then (False, cs) else (False, s)
        | [] \<Rightarrow> (False, []))
      in if ds = [] \<or> \<not> list_all is_digit ds then None
         else (let n = (if neg then - int (read_nat ds) else int (read_nat ds))
               in if i64_ok n then Some n else None))"

fun number_is_text :: "json_number \<Rightarrow> string \<Rightarrow> bool" where
  "number_is_text (NInt n) s \<longleftrightarrow> i64_ok n \<and> parse_i64 s = Some n"
| "number_is_text (NFloat _) s \<longleftrightarrow> False"

definition json_request_ids_match :: "json \<Rightarrow> json \<Rightarrow> bool" where
  "json_request_ids_match l r \<longleftrightarrow>
     json_eq l r
   \<or> (request_id_from_json l \<noteq> None \<and> request_id_from_json r = request_id_from_json l)
   \<or> (case (l, r) of
        (JNum n, JStr s) \<Rightarrow> number_is_text n s
      | (JStr s, JNum n) \<Rightarrow> number_is_text n s
      | _ \<Rightarrow> False)"

definition MAX_PENDING_TOOLS_LISTS :: nat where "MAX_PENDING_TOOLS_LISTS = 64"

record tool_headers =
  th_protocol_version :: "string option"
  th_mappings :: tool_mappings
  th_pending :: "(json \<times> bool) list"

text \<open>What \<open>send\<close> records of an outgoing frame.\<close>

definition frame_version :: "json \<Rightarrow> string option" where
  "frame_version parsed = Option.bind (json_get parsed ''params'') (\<lambda>p.
     Option.bind (json_get p ''_meta'') (\<lambda>m.
     Option.bind (json_get m ''io.modelcontextprotocol/protocolVersion'') json_as_str))"

definition has_cursor :: "json \<Rightarrow> bool" where
  "has_cursor parsed = (case json_pointer2 parsed ''params'' ''cursor'' of
     None \<Rightarrow> False | Some c \<Rightarrow> \<not> json_is_null c)"

definition note_outgoing :: "json \<Rightarrow> tool_headers \<Rightarrow> tool_headers" where
  "note_outgoing parsed st =
     (if frame_version parsed = Some PROTOCOL_VERSION_2026_07_28 then
        (let st1 = st\<lparr>th_protocol_version := frame_version parsed\<rparr> in
         if body_method parsed = Some ''tools/list'' then
           (case json_get parsed ''id'' of
              None \<Rightarrow> st1
            | Some i \<Rightarrow>
                (let pending = (if MAX_PENDING_TOOLS_LISTS \<le> length (th_pending st1)
                                then drop 1 (th_pending st1) else th_pending st1)
                 in st1\<lparr>th_pending := pending @ [(i, has_cursor parsed)]\<rparr>))
         else st1)
      else st)"

fun take_pending :: "json \<Rightarrow> (json \<times> bool) list \<Rightarrow> (bool \<times> (json \<times> bool) list) option" where
  "take_pending i [] = None"
| "take_pending i (p # ps) =
     (if json_request_ids_match (fst p) i then Some (snd p, ps)
      else map_option (\<lambda>(later, rest). (later, p # rest)) (take_pending i ps))"

fun learn_tools :: "header_env \<Rightarrow> json list \<Rightarrow> tool_mappings \<Rightarrow> json list \<times> tool_mappings" where
  "learn_tools en [] known = ([], known)"
| "learn_tools en (tool # tools) known =
     (case (Option.bind (json_get tool ''name'') json_as_str, json_get tool ''inputSchema'') of
        (Some name, Some schema) \<Rightarrow>
          (case client_header_mappings en schema of
             Inr ms \<Rightarrow>
               (case learn_tools en tools (AList.update name ms known) of
                  (kept, known') \<Rightarrow> (tool # kept, known'))
           | Inl _ \<Rightarrow> learn_tools en tools known)
      | _ \<Rightarrow> learn_tools en tools known)"

fun set_member :: "string \<Rightarrow> json \<Rightarrow> json \<Rightarrow> json" where
  "set_member k w (JObj kvs) = JObj (map (\<lambda>kv. if fst kv = k then (k, w) else kv) kvs)"
| "set_member k w v = v"

definition set_tools :: "json list \<Rightarrow> json \<Rightarrow> json" where
  "set_tools tools parsed = (case json_get parsed ''result'' of
     None \<Rightarrow> parsed | Some r \<Rightarrow> set_member ''result'' (set_member ''tools'' (JArr tools) r) parsed)"

text \<open>The frame handed on (\<open>None\<close>: the message as it came) and the new state.\<close>

definition normalize_incoming_message ::
  "header_env \<Rightarrow> json option \<Rightarrow> tool_headers \<Rightarrow> json option \<times> tool_headers" where
  "normalize_incoming_message en message st =
     (if th_protocol_version st \<noteq> Some PROTOCOL_VERSION_2026_07_28 then (None, st)
      else case message of
          None \<Rightarrow> (None, st)
        | Some parsed \<Rightarrow>
            if body_method parsed = Some ''notifications/tools/list_changed''
            then (None, st\<lparr>th_mappings := []\<rparr>)
            else
              (let (later_page, pending) =
                 (case Option.bind (json_get parsed ''id'') (\<lambda>i. take_pending i (th_pending st)) of
                    None \<Rightarrow> (False, th_pending st) | Some p \<Rightarrow> p);
                   st1 = st\<lparr>th_pending := pending\<rparr>
               in case json_pointer2 parsed ''result'' ''tools'' of
                    Some (JArr tools) \<Rightarrow>
                      (case learn_tools en tools (if later_page then th_mappings st1 else []) of
                         (kept, known) \<Rightarrow> (Some (set_tools kept parsed), st1\<lparr>th_mappings := known\<rparr>))
                  | _ \<Rightarrow> (None, st1)))"


section \<open>Reading back\<close>

definition lookalike :: "string \<Rightarrow> bool" where
  "lookalike v \<longleftrightarrow> str_starts_with BASE64_PREFIX v \<and> str_ends_with BASE64_SUFFIX v"

text \<open>What the http and base64 crates are relied on for.\<close>

definition header_env_ok :: "header_env \<Rightarrow> bool" where
  "header_env_ok en \<longleftrightarrow>
     (\<forall>s. list_all printable s \<longrightarrow> he_to_str en s = Inr s)
   \<and> (\<forall>s. s \<noteq> [] \<and> list_all is_tchar s \<and> length s < 65536 \<longrightarrow> he_name en s = Inr (map ascii_lower s))
   \<and> (\<forall>s. he_decode en (he_encode en s) = Inr s)
   \<and> (\<forall>s. list_all printable (he_encode en s))
   \<and> (\<forall>s t. he_decode en s = Inr t \<longrightarrow> length t \<le> length s)"

lemma utf8_chars_printable: "list_all printable s \<Longrightarrow> utf8_chars s = map (\<lambda>c. [c]) s"
  by (induction s) (auto simp: printable_def Let_def)

lemma white_printable: "printable c \<Longrightarrow> white_char [c] \<longleftrightarrow> c = CHR '' ''"
proof -
  assume p: "printable c"
  then have "white_char [c] \<longleftrightarrow> is_whitespace (of_char c)"
    by (simp add: white_char_def printable_def)
  also have "\<dots> \<longleftrightarrow> (of_char c :: nat) = 32"
    using p by (auto simp: is_whitespace_def printable_def)
  also have "\<dots> \<longleftrightarrow> (of_char c :: nat) = of_char (CHR '' '')" by simp
  finally show ?thesis by (simp only: of_char_eq_iff)
qed

lemma dropWhile_white_printable:
  "list_all printable s \<Longrightarrow>
   dropWhile white_char (map (\<lambda>c. [c]) s) = map (\<lambda>c. [c]) (dropWhile (\<lambda>c. c = CHR '' '') s)"
  by (induction s) (auto simp: white_printable)

lemma concat_singletons [simp]: "concat (map (\<lambda>c. [c]) s) = s"
  by (induction s) simp_all

lemma trim_str_printable:
  assumes "list_all printable s"
  shows "trim_str s = rev (dropWhile (\<lambda>c. c = CHR '' '') (rev (dropWhile (\<lambda>c. c = CHR '' '') s)))"
proof -
  let ?t = "dropWhile (\<lambda>c. c = CHR '' '') s"
  have "list_all printable (rev ?t)"
    using assms by (auto simp: list_all_iff dest: set_dropWhileD)
  then show ?thesis
    by (simp add: trim_str_def utf8_chars_printable [OF assms] dropWhile_white_printable [OF assms]
        dropWhile_white_printable rev_map)
qed

lemma trim_str_fixed:
  assumes "list_all printable s" "s \<noteq> []" "hd s \<noteq> CHR '' ''" "last s \<noteq> CHR '' ''"
  shows "trim_str s = s"
proof -
  have a: "dropWhile (\<lambda>c. c = CHR '' '') s = s" using assms(2,3) by (cases s) simp_all
  have "dropWhile (\<lambda>c. c = CHR '' '') (rev s) = rev s"
    using assms(2,4) by (cases s rule: rev_cases) simp_all
  then show ?thesis by (simp add: trim_str_printable [OF assms(1)] a)
qed

lemma printable_markers: "list_all printable BASE64_PREFIX" "list_all printable BASE64_SUFFIX"
  by (simp_all add: BASE64_PREFIX_def BASE64_SUFFIX_def printable_def)

lemma starts_with_append [simp]: "str_starts_with p (p @ s)"
  by (simp add: str_starts_with_def)

lemma ends_with_append [simp]: "str_ends_with p (s @ p)"
  by (simp add: str_ends_with_def)

text \<open>A header value carries a text when the server's decoding gives it.\<close>

definition carries :: "header_env \<Rightarrow> string \<Rightarrow> string \<Rightarrow> bool" where
  "carries en raw v \<longleftrightarrow> (\<exists>s. he_to_str en raw = Inr s \<and> decode_sentinel en (trim_str s) = Some (Inr v))"

lemma header_text_iff: "header_text en shown raw = Some (Inr v) \<longleftrightarrow> carries en raw v"
  by (auto simp: header_text_def carries_def mismatch_def split: sum.splits option.splits)

lemma decode_sentinel_encoded:
  assumes "header_env_ok en" "utf8_valid (map of_char v)"
  shows "decode_sentinel en (BASE64_PREFIX @ he_encode en v @ BASE64_SUFFIX) = Some (Inr v)"
proof -
  have "he_decode en (he_encode en v) = Inr v" using assms(1) by (simp add: header_env_ok_def)
  moreover have "str_ends_with BASE64_SUFFIX (BASE64_PREFIX @ he_encode en v @ BASE64_SUFFIX)"
    by (metis append.assoc ends_with_append)
  ultimately show ?thesis using assms(2) by (simp add: decode_sentinel_def Let_def)
qed

text \<open>The two sides agree on every value but one kind: a plain text that looks encoded.\<close>

lemma encoded_value_carries:
  assumes ok: "header_env_ok en" and v: "utf8_valid (map of_char v)" "\<not> lookalike v"
  shows "carries en (encode_header_value en v) v"
proof (cases "trim_str v \<noteq> v \<or> (\<exists>c\<in>set v. \<not> printable c)")
  case True
  let ?w = "BASE64_PREFIX @ he_encode en v @ BASE64_SUFFIX"
  have p: "list_all printable ?w"
    using ok printable_markers by (simp add: header_env_ok_def)
  have "trim_str ?w = ?w"
    by (rule trim_str_fixed [OF p]) (simp_all add: BASE64_PREFIX_def BASE64_SUFFIX_def)
  moreover have "he_to_str en ?w = Inr ?w" using ok p by (simp add: header_env_ok_def)
  ultimately show ?thesis
    using True decode_sentinel_encoded [OF ok v(1)] by (simp add: carries_def encode_header_value_def)
next
  case False
  then have "list_all printable v" by (simp add: list_all_iff)
  then have "he_to_str en v = Inr v" using ok by (simp add: header_env_ok_def)
  then show ?thesis
    using False v(2) by (auto simp: carries_def encode_header_value_def decode_sentinel_def lookalike_def)
qed

lemma decode_sentinel_shorter:
  assumes "header_env_ok en" "lookalike v" "decode_sentinel en v = Some (Inr w)"
  shows "length w < length v"
proof -
  have d: "he_decode en (drop (length BASE64_PREFIX) (take (length v - length BASE64_SUFFIX) v)) = Inr w"
    using assms(2,3)
    by (auto simp: decode_sentinel_def lookalike_def Let_def split: if_splits sum.splits)
  have "length BASE64_PREFIX \<le> length v"
    using assms(2) by (metis lookalike_def str_starts_with_def length_take min.absorb_iff2 min.commute)
  moreover have "length BASE64_PREFIX = 9" by (simp add: BASE64_PREFIX_def)
  moreover have "length w \<le> length (drop (length BASE64_PREFIX) (take (length v - length BASE64_SUFFIX) v))"
    using assms(1) d unfolding header_env_ok_def by blast
  ultimately show ?thesis by simp
qed

lemma lookalike_not_carried:
  assumes "header_env_ok en" "lookalike v" "list_all printable v" "trim_str v = v"
  shows "\<not> carries en v v"
proof
  assume "carries en v v"
  moreover have "he_to_str en v = Inr v" using assms(1,3) by (simp add: header_env_ok_def)
  ultimately have "decode_sentinel en v = Some (Inr v)" using assms(4) by (simp add: carries_def)
  then show False using decode_sentinel_shorter [OF assms(1,2)] by blast
qed

lemma trim_str_shorter: "list_all printable v \<Longrightarrow> trim_str v \<noteq> v \<Longrightarrow> length (trim_str v) < length v"
proof -
  assume p: "list_all printable v" and t: "trim_str v \<noteq> v"
  let ?w = "dropWhile (\<lambda>c. c = CHR '' '') v"
  have "length (trim_str v) \<le> length ?w"
    unfolding trim_str_printable [OF p] length_rev
    by (rule le_trans [OF length_dropWhile_le]) simp
  moreover have "length ?w < length v \<or> ?w = v"
    by (metis dropWhile_eq_self_iff length_dropWhile_le nat_less_le dropWhile_append3 takeWhile_dropWhile_id
        append_self_conv2 append_eq_append_conv)
  moreover have "length (trim_str v) < length v" if "?w = v"
    using t length_dropWhile_le [of "\<lambda>c. c = CHR '' ''" "rev v"]
    unfolding trim_str_printable [OF p] that
    by (metis append_self_conv2 length_append length_rev nat_less_le rev_rev_ident takeWhile_dropWhile_id
        add_cancel_left_left length_0_conv)
  ultimately show ?thesis by linarith
qed

lemma untrimmed_not_carried:
  assumes "header_env_ok en" "list_all printable v" "trim_str v \<noteq> v"
  shows "\<not> carries en v v"
proof
  assume "carries en v v"
  moreover have "he_to_str en v = Inr v" using assms(1,2) by (simp add: header_env_ok_def)
  ultimately have d: "decode_sentinel en (trim_str v) = Some (Inr v)" by (simp add: carries_def)
  have "length v \<le> length (trim_str v)"
  proof (cases "lookalike (trim_str v)")
    case True
    then show ?thesis using decode_sentinel_shorter [OF assms(1) True d] by simp
  next
    case False
    then show ?thesis using d by (auto simp: decode_sentinel_def lookalike_def)
  qed
  then show False using trim_str_shorter [OF assms(2,3)] by simp
qed


section \<open>Accepted requests\<close>

definition mappings_ok :: "walk_state \<Rightarrow> bool" where
  "mappings_ok st \<longleftrightarrow>
     set (fst st) = set (map (map ascii_lower \<circ> hm_suffix) (snd st))
   \<and> distinct (map (map ascii_lower \<circ> hm_suffix) (snd st))
   \<and> (\<forall>m\<in>set (snd st). hm_suffix m \<noteq> [] \<and> list_all is_tchar (hm_suffix m))"

lemma note_annotation_ok:
  "note_annotation property path st = Inr st' \<Longrightarrow> mappings_ok st \<Longrightarrow> mappings_ok st'"
  by (auto simp: note_annotation_def mappings_ok_def split: option.splits if_splits)

lemma walk_ok:
  "walk schema path st = Inr st' \<Longrightarrow> mappings_ok st \<Longrightarrow> mappings_ok st'"
  "walk_properties ps path st = Inr st' \<Longrightarrow> mappings_ok st \<Longrightarrow> mappings_ok st'"
proof (induction schema path st and ps path st arbitrary: st' and st' rule: walk_walk_properties.induct)
  case (1 schema path st)
  then show ?case by (simp add: walk.simps split: option.splits json.splits)
next
  case (2 path st)
  then show ?case by (simp add: walk.simps)
next
  case (3 name property rest path st)
  from "3.prems"(1) obtain st1 st2 where s: "note_annotation property (path @ [name]) st = Inr st1"
      "walk property (path @ [name]) st1 = Inr st2" "walk_properties rest path st2 = Inr st'"
    by (auto simp: walk.simps result_bind_Inr_iff)
  show ?case
    by (rule "3.IH"(2) [OF s(1,2,3)], rule "3.IH"(1) [OF s(1,2)], rule note_annotation_ok [OF s(1) "3.prems"(2)])
qed

lemma schema_mappings_ok:
  assumes "schema_header_mappings schema = Inr ms"
  shows "distinct (map (map ascii_lower \<circ> hm_suffix) ms)"
    and "m \<in> set ms \<Longrightarrow> hm_suffix m \<noteq> [] \<and> list_all is_tchar (hm_suffix m)"
proof -
  obtain st where w: "walk schema [] ([], []) = Inr st" and s: "snd st = ms"
    using assms by (auto simp: schema_header_mappings_def result_bind_Inr_iff split: if_splits)
  have "mappings_ok st" by (rule walk_ok(1) [OF w]) (simp add: mappings_ok_def)
  then show "distinct (map (map ascii_lower \<circ> hm_suffix) ms)"
    and "m \<in> set ms \<Longrightarrow> hm_suffix m \<noteq> [] \<and> list_all is_tchar (hm_suffix m)"
    by (simp_all add: mappings_ok_def s)
qed

text \<open>The header of a name, and what it says: nothing without a body value, otherwise exactly it.\<close>

definition mirrors :: "header_env \<Rightarrow> header_map \<Rightarrow> string \<Rightarrow> string option \<Rightarrow> bool" where
  "mirrors en headers name body \<longleftrightarrow>
     (case body of None \<Rightarrow> get_all headers name = []
      | Some b \<Rightarrow> \<exists>raw. get_all headers name = [raw] \<and> carries en raw b)"

text \<open>The rendered value of an annotated argument; a null counts as absent.\<close>

definition argument_text :: "header_env \<Rightarrow> json \<Rightarrow> header_mapping \<Rightarrow> (string + string) option" where
  "argument_text en arguments m =
     (case value_at_property_path arguments (hm_property_path m) of
        None \<Rightarrow> None
      | Some v \<Rightarrow> if json_is_null v then None else Some (json_value_to_header_string en v))"

definition mirrors_argument :: "header_env \<Rightarrow> header_map \<Rightarrow> json \<Rightarrow> header_mapping \<Rightarrow> bool" where
  "mirrors_argument en headers arguments m \<longleftrightarrow>
     (\<exists>name. he_name en (MCP_PARAM_HEADER_PREFIX @ hm_suffix m) = Inr name
       \<and> (case argument_text en arguments m of
            None \<Rightarrow> mirrors en headers name None
          | Some (Inr r) \<Rightarrow> mirrors en headers name (Some r)
          | Some (Inl _) \<Rightarrow> False))"

lemma mismatch_not_ok [simp]: "mismatch msg \<noteq> Some (Inr x)" "Some (Inr x) \<noteq> mismatch msg"
  by (simp_all add: mismatch_def)

lemma header_str_iff:
  "header_str en headers name = Some (Inr v) \<longleftrightarrow>
     (case v of None \<Rightarrow> get_all headers name = []
      | Some b \<Rightarrow> \<exists>raw. get_all headers name = [raw] \<and> carries en raw b)"
  by (cases "get_all headers name")
     (auto simp: header_str_def pbind_ok_iff header_text_iff split: option.splits)

lemma one_value: "\<not> 1 < length (raw # rest) \<longleftrightarrow> rest = []"
  by (cases rest) simp_all

lemma check_mapping_strict:
  "check_mapping en headers arguments Strict m = Some (Inr ()) \<longleftrightarrow> mirrors_argument en headers arguments m"
proof (cases "he_name en (MCP_PARAM_HEADER_PREFIX @ hm_suffix m)")
  case (Inl e)
  then show ?thesis by (simp add: check_mapping_def mirrors_argument_def)
next
  case (Inr name)
  show ?thesis
  proof (cases "get_all headers name")
    case Nil
    then show ?thesis
      by (auto simp: check_mapping_def mirrors_argument_def Inr argument_text_def mirrors_def
          split: option.splits sum.splits)
  next
    case (Cons raw rest)
    then show ?thesis
      by (cases rest)
         (auto simp: check_mapping_def mirrors_argument_def Inr argument_text_def mirrors_def pbind_ok_iff
           header_text_iff Let_def split: option.splits sum.splits if_splits)
  qed
qed

lemma check_mappings_iff:
  "check_mappings en headers arguments mode ms = Some (Inr ())
   \<longleftrightarrow> (\<forall>m\<in>set ms. check_mapping en headers arguments mode m = Some (Inr ()))"
  by (induction ms) (auto simp: pbind_ok_iff)

lemma check_method_strict:
  "check_method_header en Strict h b = Some (Inr ()) \<longleftrightarrow> (\<exists>m. h = Some m \<and> b = Some m)"
  by (auto simp: check_method_header_def split: option.splits)

lemma check_name_strict:
  "check_name_header en Strict method h b = Some (Inr ()) \<longleftrightarrow> h = b"
  by (auto simp: check_name_header_def split: option.splits)

lemma check_mapping_lenient:
  "check_mapping en headers arguments Strict m = Some (Inr ()) \<Longrightarrow>
   check_mapping en headers arguments mode m = Some (Inr ())"
  by (cases mode, simp)
     (auto simp: check_mapping_def Let_def split: sum.splits option.splits list.splits if_splits)

lemma check_method_lenient:
  "check_method_header en Strict h b = Some (Inr ()) \<Longrightarrow> check_method_header en mode h b = Some (Inr ())"
  by (cases mode) (auto simp: check_method_header_def split: option.splits)

lemma check_name_lenient:
  "check_name_header en Strict method h b = Some (Inr ()) \<Longrightarrow> check_name_header en mode method h b = Some (Inr ())"
  by (cases mode) (auto simp: check_name_header_def split: option.splits)

definition arguments_of :: "json \<Rightarrow> json" where
  "arguments_of parsed = (case call_arguments parsed of Some a \<Rightarrow> a | None \<Rightarrow> JNull)"

lemma strict_accepts_iff:
  "validate_with_tool_schema en headers parsed Strict (Some schema) = Some (Inr ()) \<longleftrightarrow>
     (\<exists>m. body_method parsed = Some m \<and> mirrors en headers MCP_METHOD_HEADER (Some m)
        \<and> (case name_source_for m of
             Some src \<Rightarrow> mirrors en headers MCP_NAME_HEADER (name_source_extract src parsed)
           | None \<Rightarrow> \<exists>n. mirrors en headers MCP_NAME_HEADER n))
   \<and> (\<exists>ms. schema_header_mappings schema = Inr ms
        \<and> (\<forall>m\<in>set ms. mirrors_argument en headers (arguments_of parsed) m))"
proof -
  have schema: "validate_schema_param_headers en headers parsed Strict schema = Some (Inr ()) \<longleftrightarrow>
      (\<exists>ms. schema_header_mappings schema = Inr ms
        \<and> (\<forall>m\<in>set ms. mirrors_argument en headers (arguments_of parsed) m))"
    by (auto simp: validate_schema_param_headers_def custom_header_mappings_def arguments_of_def
        check_mappings_iff check_mapping_strict split: sum.splits)
  have str: "header_str en headers name = Some (Inr v) \<longleftrightarrow> mirrors en headers name v" for name v
    by (simp add: header_str_iff mirrors_def)
  show ?thesis
  proof (cases "body_method parsed")
    case None
    then show ?thesis
      by (simp add: validate_with_tool_schema_def pbind_ok_iff check_method_strict)
  next
    case (Some m)
    have method_header: "(\<exists>h. mirrors en headers MCP_METHOD_HEADER h \<and> h = Some m)
        \<longleftrightarrow> mirrors en headers MCP_METHOD_HEADER (Some m)" by blast
    show ?thesis
      by (cases "name_source_for m")
         (auto simp: validate_with_tool_schema_def pbind_ok_iff str Some schema check_method_strict check_name_strict)
  qed
qed


section \<open>Listings\<close>

text \<open>
  A listing keeps exactly the named tools whose annotations are well formed, and a kept tool whose name
  no other kept tool has is remembered with the annotations of its schema.
\<close>

definition tool_name_of :: "json \<Rightarrow> string option" where
  "tool_name_of tool = Option.bind (json_get tool ''name'') json_as_str"

definition tool_learnable :: "json \<Rightarrow> bool" where
  "tool_learnable tool \<longleftrightarrow> tool_name_of tool \<noteq> None
     \<and> (\<exists>schema ms. json_get tool ''inputSchema'' = Some schema \<and> schema_header_mappings schema = Inr ms)"

lemma learn_tools_Cons:
  "learn_tools en (tool # tools) known =
     (if tool_learnable tool
      then (let n = the (tool_name_of tool);
                ms = projr (schema_header_mappings (the (json_get tool ''inputSchema'')));
                r = learn_tools en tools (AList.update n ms known)
            in (tool # fst r, snd r))
      else learn_tools en tools known)"
  by (auto simp: tool_learnable_def tool_name_of_def client_header_mappings_def Let_def
      split: option.splits sum.splits prod.splits)

lemma learn_tools_kept: "fst (learn_tools en tools known) = filter tool_learnable tools"
  by (induction tools arbitrary: known) (simp_all add: learn_tools_Cons Let_def del: learn_tools.simps(2))

lemma learn_tools_keeps_other:
  "(\<And>t. t \<in> set tools \<Longrightarrow> tool_learnable t \<Longrightarrow> tool_name_of t \<noteq> Some n) \<Longrightarrow>
   map_of (snd (learn_tools en tools known)) n = map_of known n"
proof (induction tools arbitrary: known)
  case (Cons t tools)
  have rest: "map_of (snd (learn_tools en tools k)) n = map_of k n" for k
    by (rule Cons.IH) (use Cons.prems in auto)
  show ?case
  proof (cases "tool_learnable t")
    case True
    then have "tool_name_of t \<noteq> Some n" "tool_name_of t \<noteq> None"
      using Cons.prems by (auto simp: tool_learnable_def)
    then have "the (tool_name_of t) \<noteq> n" by auto
    then show ?thesis
      using True by (simp add: learn_tools_Cons Let_def rest update_conv' del: learn_tools.simps(2))
  next
    case False
    then show ?thesis by (simp add: learn_tools_Cons rest del: learn_tools.simps(2))
  qed
qed simp

lemma listed_tool_learnt:
  assumes "distinct (map tool_name_of (filter tool_learnable tools))"
    and "tool \<in> set tools" "tool_learnable tool" "tool_name_of tool = Some n"
  shows "map_of (snd (learn_tools en tools known)) n =
    Some (projr (schema_header_mappings (the (json_get tool ''inputSchema''))))"
  using assms
proof (induction tools arbitrary: known)
  case (Cons t tools)
  show ?case
  proof (cases "t = tool")
    case True
    have "tool_name_of u \<noteq> Some n" if "u \<in> set tools" "tool_learnable u" for u
      using Cons.prems(1,3,4) that True by (force simp: image_iff)
    then show ?thesis
      using Cons.prems(3,4) True
      by (simp add: learn_tools_Cons Let_def learn_tools_keeps_other update_conv' del: learn_tools.simps(2))
  next
    case False
    then have "distinct (map tool_name_of (filter tool_learnable tools))" "tool \<in> set tools"
      using Cons.prems(1,2) by (auto split: if_splits)
    then show ?thesis
      using Cons.IH Cons.prems(3,4) by (simp add: learn_tools_Cons Let_def del: learn_tools.simps(2))
  qed
qed simp

section \<open>The client's requests are accepted\<close>

text \<open>How a request arrives: names are lowercased, values unchanged.\<close>

definition delivered :: "header_env \<Rightarrow> tool_mappings \<Rightarrow> json \<Rightarrow> header_map" where
  "delivered en mappings parsed =
     map (\<lambda>h. (map ascii_lower (fst h), snd h)) (client_headers en mappings parsed)"

text \<open>A value the client can send: null, or a primitive in valid UTF-8 that does not look encoded.\<close>

definition header_ready :: "header_env \<Rightarrow> json \<Rightarrow> bool" where
  "header_ready en v \<longleftrightarrow> json_is_null v \<or>
     (\<exists>r. json_value_to_header_string en v = Inr r \<and> utf8_valid (map of_char r) \<and> \<not> lookalike r)"

definition plain_text :: "string \<Rightarrow> bool" where
  "plain_text s \<longleftrightarrow> list_all printable s \<and> trim_str s = s \<and> \<not> lookalike s"

text \<open>Headers that do not mirror the body.\<close>

definition unrelated :: "header_map \<Rightarrow> bool" where
  "unrelated headers \<longleftrightarrow> list_all (\<lambda>h. \<not> str_starts_with ''mcp-'' (fst h)) headers"

lemma get_all_append [simp]: "get_all (a @ b) n = get_all a n @ get_all b n"
  by (simp add: get_all_def)

lemma get_all_Nil [simp]: "get_all [] n = []"
  by (simp add: get_all_def)

lemma get_all_Cons [simp]: "get_all (h # hs) n = (if fst h = n then snd h # get_all hs n else get_all hs n)"
  by (simp add: get_all_def)

lemma get_all_unrelated: "unrelated headers \<Longrightarrow> str_starts_with ''mcp-'' n \<Longrightarrow> get_all headers n = []"
  by (auto simp: unrelated_def get_all_def filter_empty_conv list_all_iff)

lemma lower_names:
  "map ascii_lower MCP_METHOD_HEADER = MCP_METHOD_HEADER"
  "map ascii_lower MCP_NAME_HEADER = MCP_NAME_HEADER"
  "map ascii_lower MCP_PARAM_HEADER_PREFIX = MCP_PARAM_HEADER_PREFIX"
  by (simp_all add: MCP_METHOD_HEADER_def MCP_NAME_HEADER_def MCP_PARAM_HEADER_PREFIX_def ascii_lower_def)

lemma mcp_names:
  "str_starts_with ''mcp-'' MCP_METHOD_HEADER" "str_starts_with ''mcp-'' MCP_NAME_HEADER"
  "str_starts_with ''mcp-'' (MCP_PARAM_HEADER_PREFIX @ s)"
  "MCP_METHOD_HEADER \<noteq> MCP_NAME_HEADER" "MCP_METHOD_HEADER \<noteq> MCP_PARAM_HEADER_PREFIX @ s"
  "MCP_NAME_HEADER \<noteq> MCP_PARAM_HEADER_PREFIX @ s"
  by (simp_all add: MCP_METHOD_HEADER_def MCP_NAME_HEADER_def MCP_PARAM_HEADER_PREFIX_def str_starts_with_def)

definition param_headers :: "header_env \<Rightarrow> json \<Rightarrow> header_mapping list \<Rightarrow> header_map" where
  "param_headers en arguments ms =
     map (\<lambda>h. (map ascii_lower (fst h), snd h)) (List.map_filter (client_param_header en arguments) ms)"

lemma param_headers_Nil [simp]: "param_headers en arguments [] = []"
  by (simp add: param_headers_def)

lemma param_headers_Cons [simp]:
  "param_headers en arguments (m # ms) =
     (case client_param_header en arguments m of None \<Rightarrow> [] | Some h \<Rightarrow> [(map ascii_lower (fst h), snd h)])
     @ param_headers en arguments ms"
  by (simp add: param_headers_def List.map_filter_simps split: option.splits)

lemma param_header_name:
  "client_param_header en arguments m = Some h \<Longrightarrow> fst h = MCP_PARAM_HEADER_PREFIX @ hm_suffix m"
  by (auto simp: client_param_header_def bind_eq_Some_conv split: if_splits sum.splits)

lemma param_headers_other:
  "(\<And>m. m \<in> set ms \<Longrightarrow> map ascii_lower (hm_suffix m) \<noteq> s) \<Longrightarrow>
   get_all (param_headers en arguments ms) (MCP_PARAM_HEADER_PREFIX @ s) = []"
  by (induction ms) (auto simp: lower_names dest!: param_header_name split: option.splits)

lemma param_headers_one:
  "distinct (map (map ascii_lower \<circ> hm_suffix) ms) \<Longrightarrow> m \<in> set ms \<Longrightarrow>
   get_all (param_headers en arguments ms) (MCP_PARAM_HEADER_PREFIX @ map ascii_lower (hm_suffix m)) =
     (case client_param_header en arguments m of None \<Rightarrow> [] | Some h \<Rightarrow> [snd h])"
proof (induction ms)
  case (Cons k ms)
  show ?case
  proof (cases "k = m")
    case True
    have "(map ascii_lower \<circ> hm_suffix) m \<notin> (map ascii_lower \<circ> hm_suffix) ` set ms"
      using Cons.prems(1) True by simp
    then have "get_all (param_headers en arguments ms) (MCP_PARAM_HEADER_PREFIX @ map ascii_lower (hm_suffix m)) = []"
      by (intro param_headers_other) (metis comp_apply imageI)
    then show ?thesis using True by (auto simp: lower_names dest!: param_header_name split: option.splits)
  next
    case False
    then have "map ascii_lower (hm_suffix k) \<noteq> map ascii_lower (hm_suffix m)" and "m \<in> set ms"
      using Cons.prems by force+
    then show ?thesis using Cons by (auto simp: lower_names dest!: param_header_name split: option.splits)
  qed
qed simp

lemma param_headers_not_named:
  "n = MCP_METHOD_HEADER \<or> n = MCP_NAME_HEADER \<Longrightarrow> get_all (param_headers en arguments ms) n = []"
  by (induction ms)
     (auto simp: lower_names mcp_names mcp_names(4-6) [symmetric] dest!: param_header_name split: option.splits)

text \<open>A tool call of the client as it arrives beside unrelated headers.\<close>

lemma call_headers:
  assumes "body_method parsed = Some ''tools/call''" "name_source_extract SrcName parsed = Some name"
    and "map_of mappings name = Some ms"
  shows "delivered en mappings parsed =
    (MCP_METHOD_HEADER, ''tools/call'') # (MCP_NAME_HEADER, name) # param_headers en (arguments_of parsed) ms"
proof -
  obtain params where p: "json_get parsed ''params'' = Some params"
      "Option.bind (json_get params ''name'') json_as_str = Some name"
    using assms(2) by (auto simp: name_source_extract_def bind_eq_Some_conv)
  have "arguments_of parsed = (case json_get params ''arguments'' of Some a \<Rightarrow> a | None \<Rightarrow> JNull)"
    by (simp add: arguments_of_def call_arguments_def p(1))
  then show ?thesis
    by (simp add: delivered_def client_headers_def assms(1) name_source_for_def assms(2)
        outgoing_custom_headers_def p assms(3) param_headers_def lower_names)
qed

lemma argument_header_carries:
  assumes ok: "header_env_ok en"
    and ready: "\<And>v. value_at_property_path arguments (hm_property_path m) = Some v \<Longrightarrow> header_ready en v"
    and name: "he_name en (MCP_PARAM_HEADER_PREFIX @ hm_suffix m) = Inr n"
    and vals: "get_all headers n = (case client_param_header en arguments m of None \<Rightarrow> [] | Some h \<Rightarrow> [snd h])"
  shows "mirrors_argument en headers arguments m"
proof (cases "argument_text en arguments m")
  case None
  then show ?thesis
    using name vals
    by (auto simp: mirrors_argument_def mirrors_def argument_text_def client_param_header_def split: option.splits if_splits)
next
  case (Some t)
  then obtain v where v: "value_at_property_path arguments (hm_property_path m) = Some v" "\<not> json_is_null v"
      "t = json_value_to_header_string en v"
    by (auto simp: argument_text_def split: option.splits if_splits)
  with ready obtain r where r: "json_value_to_header_string en v = Inr r" "utf8_valid (map of_char r)" "\<not> lookalike r"
    by (auto simp: header_ready_def)
  have "carries en (encode_header_value en r) r" by (rule encoded_value_carries [OF ok r(2,3)])
  then show ?thesis
    using name vals v r by (simp add: mirrors_argument_def Some mirrors_def client_param_header_def)
qed

lemma param_header_name_ok:
  assumes "header_env_ok en" "schema_header_mappings schema = Inr ms" "m \<in> set ms" "length (hm_suffix m) < 65000"
  shows "he_name en (MCP_PARAM_HEADER_PREFIX @ hm_suffix m) =
    Inr (MCP_PARAM_HEADER_PREFIX @ map ascii_lower (hm_suffix m))"
proof -
  let ?n = "MCP_PARAM_HEADER_PREFIX @ hm_suffix m"
  have "list_all is_tchar ?n" and "?n \<noteq> []" and "length ?n < 65536"
    using schema_mappings_ok(2) [OF assms(2,3)] assms(4)
    by (simp_all add: MCP_PARAM_HEADER_PREFIX_def is_tchar_def is_ascii_alphanumeric_def is_ascii_alphabetic_def)
  then have "he_name en ?n = Inr (map ascii_lower ?n)" using assms(1) unfolding header_env_ok_def by blast
  then show ?thesis by (simp add: lower_names)
qed

lemma strict_implies_mode:
  assumes "validate_with_tool_schema en headers parsed Strict (Some schema) = Some (Inr ())"
  shows "validate_with_tool_schema en headers parsed mode (Some schema) = Some (Inr ())"
proof -
  let ?src = "Option.bind (body_method parsed) name_source_for"
  let ?name = "\<lambda>mode n. case ?src of None \<Rightarrow> Some (Inr ())
      | Some src \<Rightarrow> check_name_header en mode (body_method parsed) n (name_source_extract src parsed)"
  obtain h n ms where h: "header_str en headers MCP_METHOD_HEADER = Some (Inr h)"
      "check_method_header en Strict h (body_method parsed) = Some (Inr ())"
    and n: "header_str en headers MCP_NAME_HEADER = Some (Inr n)" "?name Strict n = Some (Inr ())"
    and ms: "custom_header_mappings en schema = Inr ms"
      "\<And>m. m \<in> set ms \<Longrightarrow> check_mapping en headers (arguments_of parsed) Strict m = Some (Inr ())"
    using assms
    unfolding validate_with_tool_schema_def validate_schema_param_headers_def arguments_of_def
    by (auto simp: pbind_ok_iff check_mappings_iff)
  have "?name mode n = Some (Inr ())" using n(2) by (auto split: option.splits intro: check_name_lenient)
  moreover have "check_mappings en headers (arguments_of parsed) mode ms = Some (Inr ())"
    using ms(2) by (auto simp: check_mappings_iff intro: check_mapping_lenient)
  ultimately show ?thesis
    using h(1) n(1) ms(1) check_method_lenient [OF h(2)]
    by (simp add: validate_with_tool_schema_def validate_schema_param_headers_def arguments_of_def)
qed


lemma plain_carries: "header_env_ok en \<Longrightarrow> plain_text v \<Longrightarrow> carries en v v"
  by (auto simp: carries_def header_env_ok_def plain_text_def decode_sentinel_def lookalike_def)

lemma method_plain: "plain_text ''tools/call''"
proof -
  have p: "list_all printable ''tools/call''" by (simp add: printable_def)
  show ?thesis
    unfolding plain_text_def using p trim_str_fixed [OF p]
    by (simp add: lookalike_def str_starts_with_def BASE64_PREFIX_def)
qed




text \<open>A plain string argument that looks encoded.\<close>

definition sends_lookalike :: "json \<Rightarrow> header_mapping \<Rightarrow> bool" where
  "sends_lookalike arguments m \<longleftrightarrow>
     (case value_at_property_path arguments (hm_property_path m) of
        Some (JStr s) \<Rightarrow> list_all printable s \<and> trim_str s = s \<and> lookalike s
      | _ \<Rightarrow> False)"

text \<open>
  Values that the client leaves as they are but the server does not take as they are.  A plain
  argument that looks encoded is sent verbatim and decoded on arrival, and a tool name with white space
  at an end is sent verbatim and trimmed on arrival; the server refuses the call in both cases.
\<close>

theorem unescaped_values_refused:
  assumes ok: "header_env_ok en"
    and call: "body_method parsed = Some ''tools/call''" "name_source_extract SrcName parsed = Some name"
    and learnt: "map_of mappings name = Some ms" "schema_header_mappings schema = Inr ms"
    and bad: "(list_all printable name \<and> trim_str name \<noteq> name)
      \<or> list_ex (\<lambda>m. length (hm_suffix m) < 65000 \<and> sends_lookalike (arguments_of parsed) m) ms"
    and others: "unrelated others"
  shows "validate_with_tool_schema en (others @ delivered en mappings parsed) parsed Strict (Some schema) \<noteq> Some (Inr ())"
proof
  let ?headers = "others @ delivered en mappings parsed"
  note shape = call_headers [OF call learnt(1)]
  assume "validate_with_tool_schema en ?headers parsed Strict (Some schema) = Some (Inr ())"
  then have name_header: "mirrors en ?headers MCP_NAME_HEADER (Some name)"
    and args: "\<And>m. m \<in> set ms \<Longrightarrow> mirrors_argument en ?headers (arguments_of parsed) m"
    unfolding strict_accepts_iff using call learnt(2) by (auto simp: name_source_for_def)
  have "carries en name name"
    using name_header get_all_unrelated [OF others mcp_names(2)]
    by (simp add: mirrors_def shape mcp_names param_headers_not_named)
  then have "\<not> (list_all printable name \<and> trim_str name \<noteq> name)"
    using untrimmed_not_carried [OF ok] by blast
  then obtain m where "m \<in> set ms" "length (hm_suffix m) < 65000" "sends_lookalike (arguments_of parsed) m"
    using bad unfolding list_ex_iff by blast
  then obtain s where m: "m \<in> set ms" "length (hm_suffix m) < 65000"
      "value_at_property_path (arguments_of parsed) (hm_property_path m) = Some (JStr s)"
      "list_all printable s" "trim_str s = s" "lookalike s"
    by (auto simp: sends_lookalike_def split: option.split_asm json.split_asm)
  have name: "he_name en (MCP_PARAM_HEADER_PREFIX @ hm_suffix m)
      = Inr (MCP_PARAM_HEADER_PREFIX @ map ascii_lower (hm_suffix m))"
    by (rule param_header_name_ok [OF ok learnt(2) m(1,2)])
  have "encode_header_value en s = s" using m(4,5) by (auto simp: encode_header_value_def list_all_iff)
  then have "client_param_header en (arguments_of parsed) m = Some (MCP_PARAM_HEADER_PREFIX @ hm_suffix m, s)"
    by (simp add: client_param_header_def m(3))
  then have "get_all ?headers (MCP_PARAM_HEADER_PREFIX @ map ascii_lower (hm_suffix m)) = [s]"
    using get_all_unrelated [OF others mcp_names(3)] param_headers_one [OF schema_mappings_ok(1) [OF learnt(2)] m(1)]
    by (simp add: shape mcp_names mcp_names(5,6) [symmetric])
  then have "carries en s s"
    using args [OF m(1)] by (simp add: mirrors_argument_def name argument_text_def m(3) mirrors_def)
  then show False using lookalike_not_carried [OF ok m(6,4,5)] by blast
qed

lemma short_sentinel:
  assumes "str_starts_with BASE64_PREFIX v" "str_ends_with BASE64_SUFFIX v"
    "length v - length BASE64_SUFFIX < length BASE64_PREFIX"
  shows "v = ''=?base64?=''"
proof -
  have t: "take 9 v = ''=?base64?''" using assms(1) by (simp add: str_starts_with_def BASE64_PREFIX_def numeral_eq_Suc)
  have e: "drop (length v - 2) v = ''?=''" using assms(2) by (simp add: str_ends_with_def BASE64_SUFFIX_def numeral_eq_Suc)
  have l: "length v < 11" using assms(3) by (simp add: BASE64_PREFIX_def BASE64_SUFFIX_def)
  obtain rest where v: "v = ''=?base64?'' @ rest" using t by (metis append_take_drop_id)
  show ?thesis
  proof (cases rest)
    case Nil
    then show ?thesis using e by (simp add: v)
  next
    case (Cons c cs)
    then have "cs = []" using l by (simp add: v)
    then show ?thesis using e Cons by (simp add: v)
  qed
qed

text \<open>
  C39: the one header value that crashes the check.  Decoding a header panics exactly on the ten bytes
  in which the two markers of an encoded value share their question mark; sent as the
  \<open>Mcp-Method\<close> header they crash the check whatever the body, the mode and the schema.
\<close>

theorem overlapping_sentinel_panics:
  assumes "header_env_ok en"
  shows "(decode_sentinel en v = None \<longleftrightarrow> v = ''=?base64?='')
    \<and> validate_with_tool_schema en [(MCP_METHOD_HEADER, ''=?base64?='')] parsed mode schema = None"
proof -
  have one: "decode_sentinel en ''=?base64?='' = None" for en
    by (simp add: decode_sentinel_def str_starts_with_def str_ends_with_def BASE64_PREFIX_def BASE64_SUFFIX_def Let_def)
  have p: "list_all printable ''=?base64?=''" by (simp add: printable_def)
  then have "he_to_str en ''=?base64?='' = Inr ''=?base64?=''" using assms by (simp add: header_env_ok_def)
  moreover have "trim_str ''=?base64?='' = ''=?base64?=''" by (rule trim_str_fixed [OF p]) simp_all
  ultimately have "header_str en [(MCP_METHOD_HEADER, ''=?base64?='')] MCP_METHOD_HEADER = None"
    by (simp add: header_str_def header_text_def one)
  moreover have "v = ''=?base64?=''" if "decode_sentinel en v = None"
    using that short_sentinel [of v]
    by (auto simp: decode_sentinel_def Let_def split: if_splits sum.splits)
  ultimately show ?thesis using one by (auto simp: validate_with_tool_schema_def)
qed

section \<open>A concrete environment\<close>

text \<open>Hexadecimal digits \<open>a\<close> to \<open>p\<close> stand for the base64 alphabet.\<close>

definition nibble :: "nat \<Rightarrow> char" where
  "nibble n = char_of (97 + n mod 16)"

definition un_nibble :: "char \<Rightarrow> nat" where
  "un_nibble c = (of_char c - 97) mod 16"

definition hex_encode :: "string \<Rightarrow> string" where
  "hex_encode s = concat (map (\<lambda>c. [nibble (of_char c div 16), nibble (of_char c)]) s)"

fun hex_decode :: "string \<Rightarrow> string + string" where
  "hex_decode [] = Inr []"
| "hex_decode [c] = Inl ''Invalid input length''"
| "hex_decode (a # b # s) =
     result_bind (hex_decode s) (\<lambda>t. Inr (char_of (un_nibble a * 16 + un_nibble b) # t))"

definition demo_headers :: header_env where
  "demo_headers = \<lparr>
     he_to_str = (\<lambda>s. if list_all printable s then Inr s else Inl ''failed to convert header to a str''),
     he_name = (\<lambda>s. if s \<noteq> [] \<and> list_all is_tchar s \<and> length s < 65536
                    then Inr (map ascii_lower s) else Inl ''invalid HTTP header name''),
     he_decode = hex_decode, he_encode = hex_encode,
     he_number = (\<lambda>n. case n of NInt i \<Rightarrow> show_nat (nat i) | NFloat _ \<Rightarrow> ''0.5''),
     he_debug = (\<lambda>s. s), he_utf8_error = (\<lambda>_. ''invalid utf-8 sequence'')\<rparr>"

lemma un_nibble_nibble: "un_nibble (nibble n) = n mod 16"
  by (simp add: un_nibble_def nibble_def)

lemma hex_roundtrip: "hex_decode (hex_encode s) = Inr s"
proof (induction s)
  case (Cons c s)
  have "n div 16 mod 16 * 16 + n mod 16 = n" if "n < 256" for n :: nat
  proof -
    have "n div 16 < 16" using that by simp
    then show ?thesis by simp
  qed
  from this [of "of_char c"] have "char_of (un_nibble (nibble (of_char c div 16)) * 16 + un_nibble (nibble (of_char c))) = c"
    by (simp add: un_nibble_nibble)
  then show ?case using Cons by (simp add: hex_encode_def)
qed (simp add: hex_encode_def)

lemma printable_nibble: "printable (nibble n)"
  by (simp add: printable_def nibble_def)

lemma hex_printable: "list_all printable (hex_encode s)"
  by (induction s) (simp_all add: hex_encode_def printable_nibble)

lemma hex_decode_shorter: "hex_decode s = Inr t \<Longrightarrow> length t \<le> length s"
  by (induction s arbitrary: t rule: hex_decode.induct) (auto simp: result_bind_Inr_iff le_Suc_eq)

lemma demo_headers_ok: "header_env_ok demo_headers"
  by (simp add: header_env_ok_def demo_headers_def hex_roundtrip hex_printable hex_decode_shorter)


definition demo_schema :: json where
  "demo_schema = JObj [(''type'', JStr ''object''), (''properties'', JObj
     [(''region'', JObj [(''type'', JStr ''string''), (''x-mcp-header'', JStr ''Region'')])])]"

definition demo_mappings :: "header_mapping list" where
  "demo_mappings = [\<lparr>hm_suffix = ''Region'', hm_property_path = [''region'']\<rparr>]"

definition demo_call :: "string \<Rightarrow> string \<Rightarrow> json" where
  "demo_call name region = JObj [(''method'', JStr ''tools/call''),
     (''params'', JObj [(''name'', JStr name), (''arguments'', JObj [(''region'', JStr region)])])]"

lemma demo_schema_mappings: "schema_header_mappings demo_schema = Inr demo_mappings"
  by code_simp

lemma demo_call_facts:
  "body_method (demo_call name region) = Some ''tools/call''"
  "name_source_extract SrcName (demo_call name region) = Some name"
  "arguments_of (demo_call name region) = JObj [(''region'', JStr region)]"
  by (simp_all add: demo_call_def body_method_def name_source_extract_def arguments_of_def call_arguments_def)



lemma unescaped_values_refused_witness:
  "validate_with_tool_schema demo_headers
     ([] @ delivered demo_headers [(''deploy'', demo_mappings)] (demo_call ''deploy'' ''=?base64?aa?=''))
     (demo_call ''deploy'' ''=?base64?aa?='') Strict (Some demo_schema) \<noteq> Some (Inr ())"
proof (rule unescaped_values_refused [OF demo_headers_ok demo_call_facts(1,2) _ demo_schema_mappings])
  show "map_of [(''deploy'', demo_mappings)] ''deploy'' = Some demo_mappings" by simp
  have "list_all printable ''=?base64?aa?='' \<and> trim_str ''=?base64?aa?='' = ''=?base64?aa?=''
      \<and> lookalike ''=?base64?aa?=''" by code_simp
  then have "sends_lookalike (JObj [(''region'', JStr ''=?base64?aa?='')]) (hd demo_mappings)"
    by (simp add: sends_lookalike_def demo_mappings_def)
  then show "(list_all printable ''deploy'' \<and> trim_str ''deploy'' \<noteq> ''deploy'')
    \<or> list_ex (\<lambda>m. length (hm_suffix m) < 65000
        \<and> sends_lookalike (arguments_of (demo_call ''deploy'' ''=?base64?aa?='')) m) demo_mappings"
    by (simp add: demo_call_facts demo_mappings_def)
  show "unrelated []" by (simp add: unrelated_def)
qed

lemma overlapping_sentinel_panics_witness:
  "validate_with_tool_schema demo_headers [(MCP_METHOD_HEADER, ''=?base64?='')] (demo_call ''deploy'' ''eu'')
     Strict (Some demo_schema) = None"
  using overlapping_sentinel_panics [OF demo_headers_ok] by blast

end
