(* ===== verification/UriTemplate.thy ===== *)
theory UriTemplate
  imports Capabilities Framing "HOL-Library.Code_Target_Nat"
begin

text \<open>
  URI templates of resources (\<open>crates/tower-mcp/src/resource.rs\<close>): compilation to a regular
  expression and a list of query variables, and matching.

  The regex crate is a parameter: \<open>re_new\<close> compiles a pattern, \<open>re_captures\<close> gives the texts
  of the groups of a match.  Text is its UTF-8 bytes; every character the compiler looks at is ASCII.
\<close>

record regex_engine =
  re_new :: "string \<Rightarrow> string + unit"
  re_captures :: "string \<Rightarrow> string \<Rightarrow> string list option"

record compiled_template =
  ct_pattern :: string
  ct_variables :: "string list"
  ct_query_variables :: "string list"

section \<open>Compilation\<close>

definition regex_special :: "char \<Rightarrow> bool" where
  "regex_special c \<longleftrightarrow> c \<in> set ''.+*?^$()[]{}|'' \<or> c = CHR 0x5C"

definition not_brace :: "char \<Rightarrow> bool" where
  "not_brace c \<longleftrightarrow> c \<noteq> CHR ''}''"

text \<open>\<open>take_while\<close> consumes the closing brace.\<close>

definition until_brace :: "string \<Rightarrow> string \<times> string" where
  "until_brace s = (takeWhile not_brace s, drop 1 (dropWhile not_brace s))"

lemma until_brace_shorter: "length (snd (until_brace s)) \<le> length s"
  unfolding until_brace_def snd_conv length_drop by (rule le_trans [OF diff_le_self length_dropWhile_le])

lemma until_brace_shorter' [intro]: "length (snd (until_brace (x # xs))) \<le> Suc (length xs)"
  using until_brace_shorter [of "x # xs"] by simp

definition quoted_template :: "string \<Rightarrow> string" where
  "quoted_template template = ''URI template '' @ CHR 0x27 # template @ [CHR 0x27]"

text \<open>The names of a query expression; the first empty one is the error.\<close>

fun query_names :: "string \<Rightarrow> string list \<Rightarrow> string list \<Rightarrow> string + string list" where
  "query_names template [] names = Inr names"
| "query_names template (n # ns) names =
     (if trim_str n = [] then Inl (quoted_template template @ '' has an empty query variable name'')
      else query_names template ns (names @ [trim_str n]))"

function compile_loop ::
  "string \<Rightarrow> string \<Rightarrow> compiled_template \<Rightarrow> string + compiled_template" where
  "compile_loop template [] ct = Inr ct"
| "compile_loop template (c # cs) ct =
     (if c = CHR ''{'' then
        (case cs of
           d # ds \<Rightarrow>
             if d = CHR ''?'' \<or> d = CHR ''&'' then
               (if ct_query_variables ct \<noteq> [] then
                  Inl (quoted_template template @ '' declares more than one query expression'')
                else result_bind (query_names template (split_on (CHR '','') (fst (until_brace ds))) [])
                  (\<lambda>names.
                    if snd (until_brace ds) \<noteq> [] then
                      Inl (quoted_template template
                        @ '' has text after its query expression, which describes the end of the URI'')
                    else Inr (ct\<lparr>ct_query_variables := names\<rparr>)))
             else if d = CHR ''+'' then
               compile_loop template (snd (until_brace ds))
                 (ct\<lparr>ct_pattern := ct_pattern ct @ ''(.+)'',
                    ct_variables := ct_variables ct @ [fst (until_brace ds)]\<rparr>)
             else
               compile_loop template (snd (until_brace cs))
                 (ct\<lparr>ct_pattern := ct_pattern ct @ ''([^/]+)'',
                    ct_variables := ct_variables ct @ [fst (until_brace cs)]\<rparr>)
         | [] \<Rightarrow>
             compile_loop template []
               (ct\<lparr>ct_pattern := ct_pattern ct @ ''([^/]+)'', ct_variables := ct_variables ct @ [[]]\<rparr>))
      else
        compile_loop template cs
          (ct\<lparr>ct_pattern := ct_pattern ct @ (if regex_special c then [CHR 0x5C, c] else [c])\<rparr>))"
  by pat_completeness auto
termination
  by (relation "measure (\<lambda>(_, s, _). length s)")
     (auto simp: less_Suc_eq_le intro: until_brace_shorter le_SucI)

definition compile_uri_template :: "regex_engine \<Rightarrow> string \<Rightarrow> string + compiled_template" where
  "compile_uri_template re template =
     result_bind (compile_loop template template \<lparr>ct_pattern = ''^'', ct_variables = [], ct_query_variables = []\<rparr>)
       (\<lambda>ct. let pattern = ct_pattern ct @ ''$'' in
         case re_new re pattern of
           Inl e \<Rightarrow> Inl (''Invalid URI template '' @ CHR 0x27 # template @ CHR 0x27 # '': '' @ e)
         | Inr _ \<Rightarrow> Inr (ct\<lparr>ct_pattern := pattern\<rparr>))"

section \<open>Query strings\<close>

text \<open>\<open>char::to_digit(16)\<close>\<close>

definition hex_digit :: "char \<Rightarrow> nat option" where
  "hex_digit c =
     (let n = (of_char c :: nat) in
      if 48 \<le> n \<and> n \<le> 57 then Some (n - 48)
      else if 97 \<le> n \<and> n \<le> 102 then Some (n - 87)
      else if 65 \<le> n \<and> n \<le> 70 then Some (n - 55)
      else None)"

fun decode_bytes :: "string \<Rightarrow> string" where
  "decode_bytes [] = []"
| "decode_bytes (c # cs) =
     (if c = CHR ''+'' then CHR '' '' # decode_bytes cs
      else if c = CHR ''%'' then
        (case cs of
           h # l # rest \<Rightarrow>
             (case (hex_digit h, hex_digit l) of
                (Some high, Some low) \<Rightarrow> char_of (high * 16 + low) # decode_bytes rest
              | _ \<Rightarrow> c # decode_bytes cs)
         | _ \<Rightarrow> c # decode_bytes cs)
      else c # decode_bytes cs)"

definition decode_query_component :: "string \<Rightarrow> string" where
  "decode_query_component v =
     (if utf8_valid (map of_char (decode_bytes v)) then decode_bytes v else v)"

definition query_pair :: "string \<Rightarrow> string \<times> string" where
  "query_pair pair = (case split_once (CHR ''='') pair of Some kv \<Rightarrow> kv | None \<Rightarrow> (pair, []))"

definition note_query_pair ::
  "string list \<Rightarrow> (string \<times> string) list \<Rightarrow> string \<Rightarrow> (string \<times> string) list" where
  "note_query_pair declared found pair =
     (case query_pair pair of (raw_key, raw_value) \<Rightarrow>
        (let key = decode_query_component raw_key in
         if key \<notin> set declared then found
         else if map_of found key \<noteq> None then found
         else found @ [(key, decode_query_component raw_value)]))"

definition extract_query_variables :: "string \<Rightarrow> string list \<Rightarrow> (string \<times> string) list" where
  "extract_query_variables query declared =
     foldl (note_query_pair declared) [] (filter (\<lambda>p. p \<noteq> []) (split_on (CHR ''&'') query))"

section \<open>Matching\<close>

text \<open>\<open>collect\<close> and \<open>extend\<close> insert one pair after the other.\<close>

definition insert_all :: "(string \<times> string) list \<Rightarrow> (string \<times> string) list \<Rightarrow> (string \<times> string) list" where
  "insert_all kvs m = foldl (\<lambda>m kv. AList.update (fst kv) (snd kv) m) m kvs"

definition match_uri :: "regex_engine \<Rightarrow> compiled_template \<Rightarrow> string \<Rightarrow> (string \<times> string) list option" where
  "match_uri re ct uri =
     (let (path, query) =
        (if ct_query_variables ct = [] then (uri, None)
         else case split_once (CHR ''?'') uri of
             Some (p, q) \<Rightarrow> (p, Some q) | None \<Rightarrow> (uri, None))
      in case re_captures re (ct_pattern ct) path of
           None \<Rightarrow> None
         | Some groups \<Rightarrow>
             (let matched = insert_all (zip (ct_variables ct) groups) [] in
              Some (case query of
                  Some q \<Rightarrow> insert_all (extract_query_variables q (ct_query_variables ct)) matched
                | None \<Rightarrow> matched)))"


section \<open>Templates and what they stand for\<close>

text \<open>
  A template as its parts: a literal character, a simple and a reserved variable.  Characters are
  strings of one to four bytes.
\<close>

datatype part = Lit string | Simple string | Reserved string

fun part_text :: "part \<Rightarrow> string" where
  "part_text (Lit ch) = ch"
| "part_text (Simple n) = ''{'' @ n @ ''}''"
| "part_text (Reserved n) = ''{+'' @ n @ ''}''"

fun part_regex :: "part \<Rightarrow> string" where
  "part_regex (Lit ch) = concat (map (\<lambda>c. if regex_special c then [CHR 0x5C, c] else [c]) ch)"
| "part_regex (Simple n) = ''([^/]+)''"
| "part_regex (Reserved n) = ''(.+)''"

fun part_name :: "part \<Rightarrow> string list" where
  "part_name (Lit ch) = []"
| "part_name (Simple n) = [n]"
| "part_name (Reserved n) = [n]"

fun part_ok :: "part \<Rightarrow> bool" where
  "part_ok (Lit ch) \<longleftrightarrow> CHR ''{'' \<notin> set ch"
| "part_ok (Simple n) \<longleftrightarrow> list_all not_brace n \<and> (n \<noteq> [] \<longrightarrow> hd n \<notin> set ''?&+'')"
| "part_ok (Reserved n) \<longleftrightarrow> list_all not_brace n"

definition names_of :: "part list \<Rightarrow> string list" where
  "names_of parts = concat (map part_name parts)"

definition query_name_ok :: "string \<Rightarrow> bool" where
  "query_name_ok n \<longleftrightarrow> n \<noteq> [] \<and> trim_str n = n \<and> list_all not_brace n \<and> CHR '','' \<notin> set n"

fun join_with :: "char \<Rightarrow> string list \<Rightarrow> string" where
  "join_with c [] = []"
| "join_with c [s] = s"
| "join_with c (s # ss) = s @ c # join_with c ss"

definition query_text :: "string list \<Rightarrow> string" where
  "query_text query = (if query = [] then [] else ''{?'' @ join_with (CHR '','') query @ ''}'')"

definition template_text :: "part list \<Rightarrow> string list \<Rightarrow> string" where
  "template_text parts query = concat (map part_text parts) @ query_text query"

definition template_regex :: "part list \<Rightarrow> string" where
  "template_regex parts = ''^'' @ concat (map part_regex parts) @ ''$''"

subsection \<open>Compilation gives them back\<close>

lemma until_brace_append: "list_all not_brace n \<Longrightarrow> until_brace (n @ CHR ''}'' # s) = (n, s)"
proof -
  assume n: "list_all not_brace n"
  have "takeWhile not_brace (n @ CHR ''}'' # s) = n"
    using n by (induction n) (simp_all add: not_brace_def)
  moreover have "dropWhile not_brace (n @ CHR ''}'' # s) = CHR ''}'' # s"
    using n by (induction n) (simp_all add: not_brace_def)
  ultimately show ?thesis by (simp add: until_brace_def)
qed

lemma compile_literal:
  "CHR ''{'' \<notin> set ch \<Longrightarrow>
   compile_loop template (ch @ s) ct =
     compile_loop template s (ct\<lparr>ct_pattern := ct_pattern ct @ part_regex (Lit ch)\<rparr>)"
proof (induction ch arbitrary: ct)
  case (Cons c ch)
  then have "c \<noteq> CHR ''{''" "CHR ''{'' \<notin> set ch" by auto
  then show ?case using Cons.IH by (cases "regex_special c") simp_all
qed simp

lemma compile_part:
  assumes "part_ok p"
  shows "compile_loop template (part_text p @ s) ct =
    compile_loop template s (ct\<lparr>ct_pattern := ct_pattern ct @ part_regex p, ct_variables := ct_variables ct @ part_name p\<rparr>)"
proof (cases p)
  case (Lit ch)
  then show ?thesis using assms compile_literal [of ch template s ct] by simp
next
  case (Simple n)
  then have n: "list_all not_brace n" "n = [] \<or> hd n \<notin> set ''?&+''" using assms by auto
  obtain d ds where d: "n @ CHR ''}'' # s = d # ds" by (cases n) auto
  have "d \<noteq> CHR ''?'' \<and> d \<noteq> CHR ''&'' \<and> d \<noteq> CHR ''+''" using n(2) d by (cases n) auto
  moreover have "until_brace (d # ds) = (n, s)" using until_brace_append [OF n(1), of s] d by simp
  ultimately show ?thesis using Simple d by simp
next
  case (Reserved n)
  then show ?thesis using assms until_brace_append [of n s] by simp
qed

lemma compile_parts:
  "list_all part_ok parts \<Longrightarrow>
   compile_loop template (concat (map part_text parts) @ s) ct =
     compile_loop template s (ct\<lparr>ct_pattern := ct_pattern ct @ concat (map part_regex parts),
       ct_variables := ct_variables ct @ names_of parts\<rparr>)"
proof (induction parts arbitrary: ct)
  case (Cons p parts)
  have "compile_loop template (concat (map part_text (p # parts)) @ s) ct =
      compile_loop template (part_text p @ concat (map part_text parts) @ s) ct" by simp
  also have "\<dots> = compile_loop template s (ct\<lparr>ct_pattern := ct_pattern ct @ concat (map part_regex (p # parts)),
       ct_variables := ct_variables ct @ names_of (p # parts)\<rparr>)"
    using Cons by (simp add: compile_part names_of_def del: append_assoc) simp
  finally show ?case .
qed (simp add: names_of_def)

lemma split_on_clean: "c \<notin> set s \<Longrightarrow> split_on c s = [s]"
  by (induction s) auto

lemma split_on_prefix: "c \<notin> set s \<Longrightarrow> split_on c (s @ c # t) = s # split_on c t"
  by (induction s) auto

lemma split_join:
  "ss \<noteq> [] \<Longrightarrow> list_all (\<lambda>s. c \<notin> set s) ss \<Longrightarrow> split_on c (join_with c ss) = ss"
  by (induction c ss rule: join_with.induct) (simp_all add: split_on_clean split_on_prefix)

lemma query_names_ok:
  "list_all query_name_ok ns \<Longrightarrow> query_names template ns acc = Inr (acc @ ns)"
  by (induction ns arbitrary: acc) (simp_all add: query_name_ok_def)

lemma join_not_brace: "list_all query_name_ok ns \<Longrightarrow> list_all not_brace (join_with (CHR '','') ns)"
  by (induction "CHR '',''" ns rule: join_with.induct) (simp_all add: query_name_ok_def not_brace_def)

lemma compile_query:
  assumes "list_all query_name_ok query" "ct_query_variables ct = []"
  shows "compile_loop template (query_text query) ct = Inr (ct\<lparr>ct_query_variables := query\<rparr>)"
proof (cases "query = []")
  case False
  have "list_all (\<lambda>s. CHR '','' \<notin> set s) query" using assms(1) by (auto simp: list_all_iff query_name_ok_def)
  then have "split_on (CHR '','') (join_with (CHR '','') query) = query" by (rule split_join [OF False])
  then show ?thesis
    using False assms until_brace_append [OF join_not_brace [OF assms(1)], of "[]"]
    by (simp add: query_text_def query_names_ok)
qed (use assms in \<open>simp add: query_text_def\<close>)

lemma compile_template:
  assumes "list_all part_ok parts" "list_all query_name_ok query" "re_new re (template_regex parts) = Inr ()"
  shows "compile_uri_template re (template_text parts query) =
    Inr \<lparr>ct_pattern = template_regex parts, ct_variables = names_of parts, ct_query_variables = query\<rparr>"
proof -
  have "compile_loop t (template_text parts query) \<lparr>ct_pattern = ''^'', ct_variables = [], ct_query_variables = []\<rparr> =
      Inr \<lparr>ct_pattern = ''^'' @ concat (map part_regex parts), ct_variables = names_of parts, ct_query_variables = query\<rparr>"
    for t
    unfolding template_text_def compile_parts [OF assms(1)] by (subst compile_query [OF assms(2)]) simp_all
  then show ?thesis
    using assms(3) by (simp add: compile_uri_template_def template_regex_def Let_def)
qed


subsection \<open>Matching gives the values back\<close>

text \<open>
  The documented matching of the regex crate on the compiled patterns: groups take as many characters
  as they can and give back only what the rest needs.
\<close>

fun try_lengths :: "nat \<Rightarrow> string list \<Rightarrow> (string list \<Rightarrow> string list option) \<Rightarrow> string list option" where
  "try_lengths 0 s k = None"
| "try_lengths (Suc n) s k =
     (case k (drop (Suc n) s) of
        Some gs \<Rightarrow> Some (concat (take (Suc n) s) # gs) | None \<Rightarrow> try_lengths n s k)"

primrec match_parts :: "part list \<Rightarrow> string list \<Rightarrow> string list option" where
  "match_parts [] s = (if s = [] then Some [] else None)"
| "match_parts (p # ps) s =
     (case p of
        Lit ch \<Rightarrow> (case s of x # xs \<Rightarrow> if x = ch then match_parts ps xs else None | [] \<Rightarrow> None)
      | Simple n \<Rightarrow> try_lengths (length (takeWhile (\<lambda>c. c \<noteq> ''/'') s)) s (match_parts ps)
      | Reserved n \<Rightarrow> try_lengths (length (takeWhile (\<lambda>c. c \<noteq> [CHR 0x0A]) s)) s (match_parts ps))"

definition engine_handles :: "regex_engine \<Rightarrow> part list \<Rightarrow> bool" where
  "engine_handles re parts \<longleftrightarrow> re_new re (template_regex parts) = Inr ()
     \<and> (\<forall>s. re_captures re (template_regex parts) s = match_parts parts (utf8_chars s))"

definition is_char :: "string \<Rightarrow> bool" where
  "is_char ch = (case ch of [] \<Rightarrow> False | b # bs \<Rightarrow>
     (let n = (of_char b :: nat) in
      length bs = (if n < 128 then 0 else if n < 224 then 1 else if n < 240 then 2 else 3)))"

definition whole_text :: "string \<Rightarrow> bool" where
  "whole_text s \<longleftrightarrow> list_all is_char (utf8_chars s)"

lemma concat_utf8_chars: "concat (utf8_chars s) = s"
  by (induction s rule: utf8_chars.induct) (simp_all add: Let_def)

lemma utf8_chars_char: "is_char ch \<Longrightarrow> utf8_chars (ch @ s) = ch # utf8_chars s"
  by (cases ch) (auto simp: is_char_def Let_def split: if_splits)

lemma utf8_chars_concat: "list_all is_char cs \<Longrightarrow> utf8_chars (concat cs @ s) = cs @ utf8_chars s"
  by (induction cs) (simp_all add: utf8_chars_char)

lemma utf8_chars_whole: "whole_text v \<Longrightarrow> utf8_chars (v @ s) = utf8_chars v @ utf8_chars s"
  using utf8_chars_concat [of "utf8_chars v" s] by (simp add: whole_text_def concat_utf8_chars)

text \<open>Where a template leaves no choice: a simple variable ends at a slash or at the end, a reserved one at the end.\<close>

fun separated :: "part list \<Rightarrow> bool" where
  "separated [] = True"
| "separated (Lit ch # ps) = separated ps"
| "separated (Simple n # ps) = ((ps = [] \<or> (case hd ps of Lit ch \<Rightarrow> ch = ''/'' | _ \<Rightarrow> False)) \<and> separated ps)"
| "separated (Reserved n # ps) = (ps = [])"

fun expand :: "part list \<Rightarrow> string list \<Rightarrow> string" where
  "expand [] vs = []"
| "expand (Lit ch # ps) vs = ch @ expand ps vs"
| "expand (_ # ps) vs = hd vs @ expand ps (tl vs)"

fun values_fit :: "part list \<Rightarrow> string list \<Rightarrow> bool" where
  "values_fit [] vs = (vs = [])"
| "values_fit (Lit ch # ps) vs = (is_char ch \<and> values_fit ps vs)"
| "values_fit (Simple n # ps) vs =
     (vs \<noteq> [] \<and> hd vs \<noteq> [] \<and> whole_text (hd vs) \<and> CHR ''/'' \<notin> set (hd vs) \<and> values_fit ps (tl vs))"
| "values_fit (Reserved n # ps) vs =
     (vs \<noteq> [] \<and> hd vs \<noteq> [] \<and> whole_text (hd vs) \<and> CHR 0x0A \<notin> set (hd vs) \<and> values_fit ps (tl vs))"

lemma char_absent: "c \<notin> set v \<Longrightarrow> ch \<in> set (utf8_chars v) \<Longrightarrow> ch \<noteq> [c]"
  by (metis concat_utf8_chars in_set_conv_nth list.set_intros(1) UN_I set_concat)

lemma utf8_chars_Nil_iff [simp]: "utf8_chars v = [] \<longleftrightarrow> v = []"
  by (cases v) (simp_all add: Let_def)

lemma try_lengths_first:
  "n \<noteq> 0 \<Longrightarrow> k (drop n s) = Some gs \<Longrightarrow> try_lengths n s k = Some (concat (take n s) # gs)"
  by (cases n) simp_all

lemma try_whole_value:
  assumes "v \<noteq> []" "c \<notin> set v" "k rest = Some gs" "rest = [] \<or> hd rest = [c]"
  shows "try_lengths (length (takeWhile (\<lambda>ch. ch \<noteq> [c]) (utf8_chars v @ rest))) (utf8_chars v @ rest) k
    = Some (v # gs)"
proof -
  have all: "\<And>ch. ch \<in> set (utf8_chars v) \<Longrightarrow> ch \<noteq> [c]" by (rule char_absent [OF assms(2)])
  have "takeWhile (\<lambda>ch. ch \<noteq> [c]) (utf8_chars v @ rest) = utf8_chars v"
    using all assms(4) by (cases rest) (auto simp: takeWhile_append)
  moreover have "try_lengths (length (utf8_chars v)) (utf8_chars v @ rest) k = Some (v # gs)"
    using assms(1,3) try_lengths_first [of "length (utf8_chars v)" k "utf8_chars v @ rest"]
    by (simp add: concat_utf8_chars)
  ultimately show ?thesis by simp
qed

lemma match_expand:
  "separated parts \<Longrightarrow> values_fit parts vs \<Longrightarrow> match_parts parts (utf8_chars (expand parts vs)) = Some vs"
proof (induction parts arbitrary: vs)
  case (Cons p ps)
  show ?case
  proof (cases p)
    case (Lit ch)
    then show ?thesis using Cons by (simp add: utf8_chars_char)
  next
    case (Simple n)
    then obtain v ws where vs: "vs = v # ws" using Cons.prems(2) by (cases vs) auto
    have fit: "v \<noteq> []" "whole_text v" "CHR ''/'' \<notin> set v" "values_fit ps ws"
      using Cons.prems(2) by (auto simp: Simple vs)
    have "match_parts ps (utf8_chars (expand ps ws)) = Some ws"
      using Cons.IH Cons.prems(1) fit(4) by (simp add: Simple)
    moreover have "utf8_chars (expand ps ws) = [] \<or> hd (utf8_chars (expand ps ws)) = ''/''"
      using Cons.prems(1) fit(4) by (cases ps) (auto simp: Simple utf8_chars_char split: part.splits)
    ultimately show ?thesis
      using try_whole_value [OF fit(1,3)] by (simp add: Simple vs utf8_chars_whole [OF fit(2)])
  next
    case (Reserved n)
    then obtain v where vs: "vs = [v]" and "ps = []" using Cons.prems by (cases vs) auto
    have "v \<noteq> []" "CHR 0x0A \<notin> set v" using Cons.prems(2) by (auto simp: Reserved vs)
    from try_whole_value [OF this, of "match_parts []" "[]" "[]"] show ?thesis
      by (simp add: Reserved vs \<open>ps = []\<close>)
  qed
qed simp


subsection \<open>Query strings\<close>

definition decoded_pairs :: "string \<Rightarrow> (string \<times> string) list" where
  "decoded_pairs query =
     map (\<lambda>p. (decode_query_component (fst (query_pair p)), decode_query_component (snd (query_pair p))))
       (filter (\<lambda>p. p \<noteq> []) (split_on (CHR ''&'') query))"

lemma note_query_pair_map:
  "map_of (note_query_pair declared found p) k =
     (case map_of found k of Some v \<Rightarrow> Some v
      | None \<Rightarrow>
          if k \<in> set declared \<and> decode_query_component (fst (query_pair p)) = k
          then Some (decode_query_component (snd (query_pair p))) else None)"
  by (auto simp: note_query_pair_def Let_def map_of_append map_add_def split: prod.split option.splits)

lemma fold_query_pairs:
  "map_of (foldl (note_query_pair declared) found ps) k =
     (case map_of found k of Some v \<Rightarrow> Some v
      | None \<Rightarrow> if k \<in> set declared
          then map_of (map (\<lambda>p. (decode_query_component (fst (query_pair p)),
                                 decode_query_component (snd (query_pair p)))) ps) k
          else None)"
  by (induction ps arbitrary: found) (auto simp: note_query_pair_map split: option.splits)

lemma extract_map:
  "map_of (extract_query_variables query declared) k =
     (if k \<in> set declared then map_of (decoded_pairs query) k else None)"
  by (simp add: extract_query_variables_def fold_query_pairs decoded_pairs_def)

lemma note_query_pair_keys:
  "distinct (map fst found) \<and> set (map fst found) \<subseteq> set declared \<Longrightarrow>
   distinct (map fst (note_query_pair declared found p))
   \<and> set (map fst (note_query_pair declared found p)) \<subseteq> set declared"
  by (auto simp: note_query_pair_def Let_def map_of_eq_None_iff split: prod.split)

lemma extract_keys:
  "distinct (map fst (extract_query_variables query declared))
   \<and> set (map fst (extract_query_variables query declared)) \<subseteq> set declared"
proof -
  have "distinct (map fst (foldl (note_query_pair declared) found ps))
      \<and> set (map fst (foldl (note_query_pair declared) found ps)) \<subseteq> set declared"
    if "distinct (map fst found) \<and> set (map fst found) \<subseteq> set declared" for found ps
    using that by (induction ps arbitrary: found) (use note_query_pair_keys in \<open>simp_all\<close>)
  then show ?thesis by (simp add: extract_query_variables_def)
qed

text \<open>Percent encoding, and a query that supplies some variables.\<close>

definition hex_upper :: "nat \<Rightarrow> char" where
  "hex_upper d = (if d < 10 then char_of (48 + d) else char_of (55 + d))"

definition encode_byte :: "char \<Rightarrow> string" where
  "encode_byte c =
     (if is_ascii_alphanumeric c then [c]
      else [CHR ''%'', hex_upper (of_char c div 16), hex_upper (of_char c mod 16)])"

definition percent_encode :: "string \<Rightarrow> string" where
  "percent_encode s = concat (map encode_byte s)"

definition build_query :: "(string \<times> string) list \<Rightarrow> string" where
  "build_query kvs = join_with (CHR ''&'')
     (map (\<lambda>(k, v). percent_encode k @ CHR ''='' # percent_encode v) kvs)"

lemma hex_digit_upper: "d < 16 \<Longrightarrow> hex_digit (hex_upper d) = Some d"
  by (auto simp: hex_digit_def hex_upper_def Let_def)

lemma alphanumeric_code:
  "is_ascii_alphanumeric c \<Longrightarrow> c \<noteq> CHR ''+'' \<and> c \<noteq> CHR ''%'' \<and> c \<noteq> CHR ''&'' \<and> c \<noteq> CHR ''='' \<and> c \<noteq> CHR ''?''"
  by (auto simp: is_ascii_alphanumeric_def is_ascii_alphabetic_def)

lemma decode_encode_byte: "decode_bytes (encode_byte c @ s) = c # decode_bytes s"
proof (cases "is_ascii_alphanumeric c")
  case True
  then show ?thesis using alphanumeric_code [OF True] by (simp add: encode_byte_def)
next
  case False
  have n: "n div 16 < 16 \<and> n div 16 * 16 + n mod 16 = n" if "n < 256" for n :: nat using that by simp
  have "char_of (of_char c div 16 * 16 + of_char c mod 16 :: nat) = c"
    using n [of "of_char c"] by simp
  then show ?thesis
    using False n [of "of_char c"] by (simp add: encode_byte_def hex_digit_upper)
qed

lemma decode_percent_encode: "decode_bytes (percent_encode s) = s"
  by (induction s) (simp_all add: percent_encode_def decode_encode_byte)

lemma hex_upper_plain:
  assumes "d < 16"
  shows "hex_upper d \<noteq> CHR ''&''" "hex_upper d \<noteq> CHR ''=''" "hex_upper d \<noteq> CHR ''?''"
proof -
  have n: "of_char (hex_upper d) = (if d < 10 then 48 + d else 55 + d)"
    using assms by (simp add: hex_upper_def)
  show "hex_upper d \<noteq> CHR ''&''" "hex_upper d \<noteq> CHR ''=''" "hex_upper d \<noteq> CHR ''?''"
    using n assms by (auto split: if_splits)
qed

lemma encode_byte_plain: "x \<in> set (encode_byte c) \<Longrightarrow> x \<noteq> CHR ''&'' \<and> x \<noteq> CHR ''='' \<and> x \<noteq> CHR ''?''"
proof -
  have "n div 16 < 16" if "n < 256" for n :: nat using that by simp
  from this [of "of_char c"] have d: "(of_char c :: nat) div 16 < 16" by simp
  have m: "(of_char c :: nat) mod 16 < 16" by simp
  assume "x \<in> set (encode_byte c)"
  then show ?thesis
    using hex_upper_plain [OF d] hex_upper_plain [OF m]
    by (auto simp: encode_byte_def dest: alphanumeric_code split: if_splits)
qed

lemma percent_encode_plain:
  "CHR ''&'' \<notin> set (percent_encode s)" "CHR ''='' \<notin> set (percent_encode s)" "CHR ''?'' \<notin> set (percent_encode s)"
  by (auto simp: percent_encode_def dest: encode_byte_plain)

lemma split_once_prefix: "c \<notin> set s \<Longrightarrow> split_once c (s @ c # t) = Some (s, t)"
  by (induction s) auto

lemma split_once_absent: "c \<notin> set s \<Longrightarrow> split_once c s = None"
  by (induction s) auto

definition text_ok :: "string \<Rightarrow> bool" where
  "text_ok s \<longleftrightarrow> utf8_valid (map of_char s)"

lemma decode_component_encoded: "text_ok s \<Longrightarrow> decode_query_component (percent_encode s) = s"
  by (simp add: decode_query_component_def decode_percent_encode text_ok_def)

lemma decoded_build_query:
  assumes "list_all (\<lambda>kv. text_ok (fst kv) \<and> text_ok (snd kv)) kvs"
  shows "decoded_pairs (build_query kvs) = kvs"
proof (cases "kvs = []")
  case True
  then show ?thesis by (simp add: decoded_pairs_def build_query_def)
next
  case False
  let ?pair = "\<lambda>(k, v). percent_encode k @ CHR ''='' # percent_encode v"
  have "split_on (CHR ''&'') (build_query kvs) = map ?pair kvs"
    unfolding build_query_def
    by (rule split_join) (use False percent_encode_plain(1) in \<open>auto simp: list_all_iff split: prod.split\<close>)
  moreover have "filter (\<lambda>p. p \<noteq> []) (map ?pair kvs) = map ?pair kvs"
    by (auto intro: filter_True)
  moreover have "query_pair (?pair kv) = (percent_encode (fst kv), percent_encode (snd kv))" for kv
    by (cases kv) (simp add: query_pair_def split_once_prefix percent_encode_plain(2))
  ultimately show ?thesis
    using assms by (simp add: decoded_pairs_def list_all_iff decode_component_encoded map_idI)
qed

subsection \<open>Properties\<close>

lemma insert_all_map: "map_of (insert_all kvs m) k = (case map_of (rev kvs) k of Some v \<Rightarrow> Some v | None \<Rightarrow> map_of m k)"
  by (induction kvs arbitrary: m)
     (auto simp: insert_all_def map_of_append update_conv' split: option.splits)

lemma insert_all_distinct:
  "distinct (map fst kvs) \<Longrightarrow> map_of (insert_all kvs m) k = (case map_of kvs k of Some v \<Rightarrow> Some v | None \<Rightarrow> map_of m k)"
proof -
  assume d: "distinct (map fst kvs)"
  have "map_of (rev kvs) k = map_of kvs k"
  proof (cases "map_of kvs k")
    case None
    then show ?thesis by (metis map_of_eq_None_iff set_rev)
  next
    case (Some v)
    then show ?thesis using d by (simp add: map_of_eq_Some_iff rev_map [symmetric])
  qed
  then show ?thesis by (simp add: insert_all_map)
qed



definition demo_parts :: "part list" where
  "demo_parts = [Lit ''d'', Lit '':'', Lit ''/'', Simple ''name'']"

definition demo_engine :: regex_engine where
  "demo_engine = \<lparr>re_new = (\<lambda>_. Inr ()),
     re_captures = (\<lambda>pattern s. if pattern = ''^d:/([^/]+)$'' then match_parts demo_parts (utf8_chars s) else None)\<rparr>"


text \<open>
  What a query string gives.  Whatever the query, exactly the declared variables it mentions are
  found, each once, with the decoded value of its first occurrence; undeclared keys, empty pairs and the
  order of the pairs make no difference.
\<close>

theorem query_variables_exact:
  "map_of (extract_query_variables query declared) k =
     (if k \<in> set declared then map_of (decoded_pairs query) k else None)
   \<and> distinct (map fst (extract_query_variables query declared))"
  using extract_map extract_keys by blast

end
