(* ===== verification/OriginGate.thy ===== *)
theory OriginGate
  imports HttpHeaders UriTemplate
begin

text \<open>
  Validation of the \<open>Origin\<close> and \<open>Host\<close> headers (\<open>transport/origin.rs\<close>), with the address
  parser of the standard library that it relies on.  \<open>http::Uri\<close> is a parameter: \<open>ue_parse\<close> gives the
  parts of a URI.
\<close>

section \<open>\<open>IpAddr::from_str\<close>\<close>

text \<open>A reader takes what it needs from the front and gives the rest.\<close>

definition to_digit :: "nat \<Rightarrow> char \<Rightarrow> nat option" where
  "to_digit radix c = (case hex_digit c of None \<Rightarrow> None | Some d \<Rightarrow> if d < radix then Some d else None)"

definition read_number :: "nat \<Rightarrow> nat \<Rightarrow> bool \<Rightarrow> nat \<Rightarrow> string \<Rightarrow> (nat \<times> string) option" where
  "read_number radix max_digits zero_prefix bound s =
     (let ds = takeWhile (\<lambda>c. to_digit radix c \<noteq> None) s;
          n = foldl (\<lambda>a c. a * radix + the (to_digit radix c)) 0 ds
      in if ds = [] \<or> max_digits < length ds \<or> (\<not> zero_prefix \<and> hd ds = CHR ''0'' \<and> 1 < length ds) \<or> bound < n
         then None else Some (n, drop (length ds) s))"

definition read_given_char :: "char \<Rightarrow> string \<Rightarrow> string option" where
  "read_given_char c s = (case s of [] \<Rightarrow> None | x # xs \<Rightarrow> if x = c then Some xs else None)"

definition read_separator ::
  "char \<Rightarrow> nat \<Rightarrow> (string \<Rightarrow> ('a \<times> string) option) \<Rightarrow> string \<Rightarrow> ('a \<times> string) option" where
  "read_separator c index inner s =
     (if 0 < index then (case read_given_char c s of None \<Rightarrow> None | Some t \<Rightarrow> inner t) else inner s)"

definition read_octet :: "nat \<Rightarrow> string \<Rightarrow> (nat \<times> string) option" where
  "read_octet index = read_separator (CHR ''.'') index (read_number 10 3 False 255)"

definition read_ipv4 :: "string \<Rightarrow> ((nat \<times> nat \<times> nat \<times> nat) \<times> string) option" where
  "read_ipv4 s = do {
     (a, s1) \<leftarrow> read_octet 0 s;
     (b, s2) \<leftarrow> read_octet 1 s1;
     (c, s3) \<leftarrow> read_octet 2 s2;
     (d, s4) \<leftarrow> read_octet 3 s3;
     Some ((a, b, c, d), s4)
   }"

text \<open>
  \<open>read_groups\<close> from group \<open>i\<close> on, with room for so many more: the groups read, whether an
  IPv4 address ended them, and the rest.
\<close>

fun read_groups :: "nat \<Rightarrow> nat \<Rightarrow> string \<Rightarrow> nat list \<times> bool \<times> string" where
  "read_groups i 0 s = ([], False, s)"
| "read_groups i (Suc r) s =
     (case (if 0 < r then read_separator (CHR '':'') i read_ipv4 s else None) of
        Some ((a, b, c, d), t) \<Rightarrow> ([a * 256 + b, c * 256 + d], True, t)
      | None \<Rightarrow>
          (case read_separator (CHR '':'') i (read_number 16 4 True 65535) s of
             None \<Rightarrow> ([], False, s)
           | Some (g, t) \<Rightarrow> (case read_groups (Suc i) r t of (gs, v4, u) \<Rightarrow> (g # gs, v4, u))))"

definition read_ipv6 :: "string \<Rightarrow> (nat list \<times> string) option" where
  "read_ipv6 s =
     (case read_groups 0 8 s of (front, v4, s1) \<Rightarrow>
        if length front = 8 then Some (front, s1)
        else if v4 then None
        else do {
          s2 \<leftarrow> read_given_char (CHR '':'') s1;
          s3 \<leftarrow> read_given_char (CHR '':'') s2;
          (case read_groups 0 (8 - (length front + 1)) s3 of (tail, _, s4) \<Rightarrow>
             Some (front @ replicate (8 - length front - length tail) 0 @ tail, s4))
        })"

datatype ip_addr = V4 "nat \<times> nat \<times> nat \<times> nat" | V6 "nat list"

definition parse_ip :: "string \<Rightarrow> ip_addr option" where
  "parse_ip s =
     (case read_ipv4 s of
        Some (a, rest) \<Rightarrow> if rest = [] then Some (V4 a) else None
      | None \<Rightarrow>
          (case read_ipv6 s of
             Some (gs, rest) \<Rightarrow> if rest = [] then Some (V6 gs) else None
           | None \<Rightarrow> None))"

fun ip_is_loopback :: "ip_addr \<Rightarrow> bool" where
  "ip_is_loopback (V4 (a, b, c, d)) \<longleftrightarrow> a = 127"
| "ip_is_loopback (V6 gs) \<longleftrightarrow> gs = [0, 0, 0, 0, 0, 0, 0, 1]"

section \<open>Hosts\<close>

definition is_valid_port :: "string \<Rightarrow> bool" where
  "is_valid_port port \<longleftrightarrow> port \<noteq> [] \<and> list_all is_digit port \<and> read_nat port \<le> 65535"

definition host_only_local :: "string \<Rightarrow> bool" where
  "host_only_local name \<longleftrightarrow>
     eq_ignore_ascii_case name ''localhost'' \<or> eq_ignore_ascii_case name ''localhost.''
   \<or> (case parse_ip name of Some ip \<Rightarrow> ip_is_loopback ip | None \<Rightarrow> False)"

definition is_localhost_host :: "string \<Rightarrow> bool" where
  "is_localhost_host host =
     (case parse_ip host of
        Some ip \<Rightarrow> ip_is_loopback ip
      | None \<Rightarrow>
          (if host \<noteq> [] \<and> hd host = CHR ''['' then
             (case split_once (CHR '']'') (tl host) of
                None \<Rightarrow> False
              | Some (name, after_bracket) \<Rightarrow>
                  (after_bracket = [] \<or> (hd after_bracket = CHR '':'' \<and> is_valid_port (tl after_bracket)))
                  \<and> host_only_local name)
           else
             (case split_once (CHR '':'') host of
                Some (name, port) \<Rightarrow> is_valid_port port \<and> host_only_local name
              | None \<Rightarrow> host_only_local host)))"

section \<open>Origins\<close>

record uri_parts =
  up_scheme :: "string option"
  up_authority :: "(string \<times> string \<times> nat option) option"
  up_path :: string
  up_query :: "string option"

record uri_env =
  ue_parse :: "string \<Rightarrow> string + uri_parts"
  ue_debug :: "string \<Rightarrow> string"

definition strip_scheme_ci :: "string \<Rightarrow> string \<Rightarrow> string option" where
  "strip_scheme_ci s scheme =
     (if length scheme \<le> length s \<and> eq_ignore_ascii_case (take (length scheme) s) scheme
      then Some (drop (length scheme) s) else None)"

definition origin_scheme :: "string \<Rightarrow> (string \<times> nat) option" where
  "origin_scheme s =
     (if s = ''http'' \<or> s = ''ws'' then Some (''http'', 80)
      else if s = ''https'' \<or> s = ''wss'' then Some (''https'', 443)
      else None)"

definition parse_origin :: "uri_env \<Rightarrow> string \<Rightarrow> string + (string \<times> string \<times> nat)" where
  "parse_origin en v =
     (let shown = ue_debug en v in
      if CHR ''#'' \<in> set v then Inl (shown @ '' has a fragment, which an Origin cannot carry'')
      else case ue_parse en v of
          Inl e \<Rightarrow> Inl (shown @ '' is not a valid Origin: '' @ e)
        | Inr uri \<Rightarrow>
            (case up_scheme uri of
               None \<Rightarrow> Inl (shown @ '' has no scheme'')
             | Some scheme \<Rightarrow>
                 (case origin_scheme (map ascii_lower scheme) of
                    None \<Rightarrow> Inl (shown @ '' has unsupported scheme '' @ ue_debug en (map ascii_lower scheme))
                  | Some (sch, default_port) \<Rightarrow>
                      (case up_authority uri of
                         None \<Rightarrow> Inl (shown @ '' has no host'')
                       | Some (authority, host, port) \<Rightarrow>
                           if CHR ''@'' \<in> set authority then Inl (shown @ '' must not contain userinfo'')
                           else if up_path uri \<noteq> [] \<and> up_path uri \<noteq> ''/'' then Inl (shown @ '' must not have a path'')
                           else if up_query uri \<noteq> None then Inl (shown @ '' must not have a query'')
                           else Inr (sch, map ascii_lower host,
                             case port of Some p \<Rightarrow> p | None \<Rightarrow> default_port)))))"

text \<open>\<open>split_once("://")\<close> and \<open>strip_suffix('/')\<close>\<close>

fun after_scheme_mark :: "string \<Rightarrow> string option" where
  "after_scheme_mark [] = None"
| "after_scheme_mark (c # cs) =
     (if take 3 (c # cs) = ''://'' then Some (drop 3 (c # cs)) else after_scheme_mark cs)"

definition strip_slash :: "string \<Rightarrow> string" where
  "strip_slash s = (if s \<noteq> [] \<and> last s = CHR ''/'' then butlast s else s)"

definition origin_authority :: "string \<Rightarrow> string" where
  "origin_authority origin = (case after_scheme_mark origin of None \<Rightarrow> [] | Some rest \<Rightarrow> strip_slash rest)"

definition is_localhost_origin :: "uri_env \<Rightarrow> string \<Rightarrow> bool" where
  "is_localhost_origin en origin \<longleftrightarrow>
     (strip_scheme_ci origin ''http://'' \<noteq> None \<or> strip_scheme_ci origin ''https://'' \<noteq> None)
   \<and> result_ok (parse_origin en origin) \<and> is_localhost_host (origin_authority origin)"

datatype allowed_origin = AnyOrigin | OriginEntry string string nat

definition allowed_entry :: "uri_env \<Rightarrow> string \<Rightarrow> allowed_origin option" where
  "allowed_entry en entry =
     (if entry = ''*'' then Some AnyOrigin
      else case parse_origin en entry of Inr (s, h, p) \<Rightarrow> Some (OriginEntry s h p) | Inl _ \<Rightarrow> None)"

definition parse_allowed_origins :: "uri_env \<Rightarrow> string list \<Rightarrow> allowed_origin list" where
  "parse_allowed_origins en entries = List.map_filter (allowed_entry en) entries"

section \<open>The two checks\<close>

text \<open>A refusal is its status and text; \<open>None\<close> lets the request through.\<close>

definition header_text_or_empty :: "(string \<Rightarrow> string + string) \<Rightarrow> string \<Rightarrow> string" where
  "header_text_or_empty to_str raw = (case to_str raw of Inr s \<Rightarrow> s | Inl _ \<Rightarrow> [])"

definition validate_origin ::
  "uri_env \<Rightarrow> (string \<Rightarrow> string + string) \<Rightarrow> header_map \<Rightarrow> bool \<Rightarrow> allowed_origin list \<Rightarrow> (nat \<times> string) option" where
  "validate_origin en to_str headers enabled allowed =
     (if \<not> enabled then None
      else case get_all headers ''origin'' of
          [] \<Rightarrow> None
        | raw # rest \<Rightarrow>
            if rest \<noteq> [] then Some (403, ''Origin not allowed'')
            else
              (let origin = header_text_or_empty to_str raw in
               if is_localhost_origin en origin then None
               else if allowed = [] then Some (403, ''Cross-origin requests not allowed'')
               else if AnyOrigin \<in> set allowed then None
               else
                 (let matched = (case parse_origin en origin of
                      Inr (s, h, p) \<Rightarrow> list_ex (\<lambda>o'. o' = OriginEntry s h p) allowed | Inl _ \<Rightarrow> False)
                  in if \<not> matched then Some (403, ''Origin not allowed'') else None)))"

definition effective_host ::
  "(string \<Rightarrow> string + string) \<Rightarrow> header_map \<Rightarrow> string option \<Rightarrow> string option" where
  "effective_host to_str headers authority =
     (case get_all headers ''host'' of
        raw # _ \<Rightarrow> (case to_str raw of Inr s \<Rightarrow> Some s | Inl _ \<Rightarrow> authority)
      | [] \<Rightarrow> authority)"

definition validate_host ::
  "(string \<Rightarrow> string + string) \<Rightarrow> header_map \<Rightarrow> string option \<Rightarrow> bool \<Rightarrow> string list \<Rightarrow> (nat \<times> string) option" where
  "validate_host to_str headers authority enabled allowed_hosts =
     (if \<not> enabled then None
      else case effective_host to_str headers authority of
          None \<Rightarrow> if allowed_hosts = [] then None else Some (400, ''Missing Host header'')
        | Some host \<Rightarrow>
            if is_localhost_host host then None
            else if allowed_hosts = [] then None
            else if host \<in> set allowed_hosts then None
            else Some (400, ''Host not allowed''))"


section \<open>What a local host looks like\<close>

text \<open>An address is written with hexadecimal digits, dots and colons.\<close>

definition addr_char :: "char \<Rightarrow> bool" where
  "addr_char c \<longleftrightarrow> hex_digit c \<noteq> None \<or> c = CHR ''.'' \<or> c = CHR '':''"

definition takes :: "string \<Rightarrow> string \<Rightarrow> bool" where
  "takes s t \<longleftrightarrow> (\<exists>u. s = u @ t \<and> list_all addr_char u)"

lemma takes_refl [simp]: "takes s s"
  by (simp add: takes_def)

lemma takes_trans: "takes s t \<Longrightarrow> takes t u \<Longrightarrow> takes s u"
  unfolding takes_def by (metis append.assoc list_all_append)

lemma takes_all: "takes s [] \<Longrightarrow> list_all addr_char s"
  by (auto simp: takes_def)

lemma digits_are_addr_chars: "list_all addr_char (takeWhile (\<lambda>c. to_digit radix c \<noteq> None) s)"
  by (induction s) (auto simp: to_digit_def addr_char_def split: option.splits)

lemma read_number_takes: "read_number radix m z b s = Some (n, t) \<Longrightarrow> takes s t"
proof -
  let ?ds = "takeWhile (\<lambda>c. to_digit radix c \<noteq> None) s"
  assume "read_number radix m z b s = Some (n, t)"
  then have "t = drop (length ?ds) s" by (auto simp: read_number_def Let_def split: if_splits)
  then have "s = ?ds @ t" by (metis append_eq_conv_conj takeWhile_dropWhile_id)
  then show ?thesis using digits_are_addr_chars unfolding takes_def by blast
qed

lemma read_given_char_takes: "read_given_char c s = Some t \<Longrightarrow> addr_char c \<Longrightarrow> takes s t"
  by (auto simp: read_given_char_def takes_def split: list.splits if_splits)

lemma read_separator_takes:
  assumes "read_separator c i inner s = Some (x, t)" "addr_char c"
    and "\<And>s x t. inner s = Some (x, t) \<Longrightarrow> takes s t"
  shows "takes s t"
proof (cases "0 < i")
  case True
  then obtain u where "read_given_char c s = Some u" "inner u = Some (x, t)"
    using assms(1) by (auto simp: read_separator_def split: option.splits)
  then show ?thesis using assms(2,3) read_given_char_takes takes_trans by blast
next
  case False
  then show ?thesis using assms(1,3) by (simp add: read_separator_def)
qed

lemma dot_colon [simp]: "addr_char (CHR ''.'')" "addr_char (CHR '':'')"
  by (simp_all add: addr_char_def)

lemma read_octet_takes: "read_octet i s = Some (x, t) \<Longrightarrow> takes s t"
  unfolding read_octet_def by (erule read_separator_takes) (auto intro: read_number_takes)

lemma read_ipv4_takes: "read_ipv4 s = Some (x, t) \<Longrightarrow> takes s t"
  by (auto simp: read_ipv4_def bind_eq_Some_conv dest!: read_octet_takes intro: takes_trans)

lemma read_groups_takes: "read_groups i r s = (gs, v4, t) \<Longrightarrow> takes s t"
proof (induction i r s arbitrary: gs v4 t rule: read_groups.induct)
  case (2 i r s)
  show ?case
  proof (cases "if 0 < r then read_separator (CHR '':'') i read_ipv4 s else None")
    case (Some p)
    then obtain a b c d u where p: "p = ((a, b, c, d), u)" "read_separator (CHR '':'') i read_ipv4 s = Some ((a, b, c, d), u)"
      by (cases p) (auto split: if_splits)
    then show ?thesis
      using "2.prems" Some read_separator_takes [OF p(2)] read_ipv4_takes by auto
  next
    case None
    show ?thesis
    proof (cases "read_separator (CHR '':'') i (read_number 16 4 True 65535) s")
      case None
      then show ?thesis using "2.prems" \<open>(if 0 < r then _ else None) = None\<close> by simp
    next
      case (Some p)
      then obtain g u where p: "p = (g, u)" by (cases p)
      have "takes s u" using read_separator_takes [of "CHR '':''" i _ s g u] Some p read_number_takes by auto
      moreover have "takes u t"
        using "2.prems" "2.IH" None Some p by (auto split: prod.splits)
      ultimately show ?thesis by (rule takes_trans)
    qed
  qed
qed simp

lemma read_ipv6_takes: "read_ipv6 s = Some (gs, t) \<Longrightarrow> takes s t"
proof -
  assume r: "read_ipv6 s = Some (gs, t)"
  obtain front v4 s1 where g: "read_groups 0 8 s = (front, v4, s1)" by (cases "read_groups 0 8 s")
  have s1: "takes s s1" by (rule read_groups_takes [OF g])
  show ?thesis
  proof (cases "length front = 8")
    case True
    then show ?thesis using r g s1 by (simp add: read_ipv6_def)
  next
    case False
    obtain s2 s3 where c: "read_given_char (CHR '':'') s1 = Some s2" "read_given_char (CHR '':'') s2 = Some s3"
      using r g False by (auto simp: read_ipv6_def bind_eq_Some_conv split: if_splits)
    obtain tail w s4 where h: "read_groups 0 (8 - (length front + 1)) s3 = (tail, w, s4)"
      by (cases "read_groups 0 (8 - (length front + 1)) s3")
    have "t = s4" using r g False c h by (auto simp: read_ipv6_def split: if_splits)
    then show ?thesis
      using s1 read_given_char_takes [OF c(1) dot_colon(2)] read_given_char_takes [OF c(2) dot_colon(2)]
        read_groups_takes [OF h] takes_trans by metis
  qed
qed

lemma parse_ip_chars: "parse_ip s = Some ip \<Longrightarrow> list_all addr_char s"
  by (auto simp: parse_ip_def split: option.splits if_splits
      dest!: read_ipv4_takes read_ipv6_takes intro: takes_all)

text \<open>The documented forms: a loopback address, or a local name and an optional port.\<close>

definition port_suffix :: "string \<Rightarrow> bool" where
  "port_suffix s \<longleftrightarrow> s = [] \<or> (hd s = CHR '':'' \<and> is_valid_port (tl s))"

definition local_form :: "string \<Rightarrow> bool" where
  "local_form host \<longleftrightarrow>
     (\<exists>name port. port_suffix port \<and> host_only_local name
       \<and> ((host = CHR ''['' # name @ CHR '']'' # port \<and> CHR '']'' \<notin> set name)
        \<or> (host = name @ port \<and> CHR '':'' \<notin> set name \<and> (host \<noteq> [] \<longrightarrow> hd host \<noteq> CHR ''[''))))"

lemma bracketed_local:
  "is_localhost_host (CHR ''['' # inner) \<longleftrightarrow>
     (\<exists>name port. inner = name @ CHR '']'' # port \<and> CHR '']'' \<notin> set name \<and> port_suffix port \<and> host_only_local name)"
proof -
  have "parse_ip (CHR ''['' # inner) = None"
    using parse_ip_chars [of "CHR ''['' # inner"] by (cases "parse_ip (CHR ''['' # inner)") (auto simp: addr_char_def hex_digit_def)
  then have step: "is_localhost_host (CHR ''['' # inner) \<longleftrightarrow>
      (case split_once (CHR '']'') inner of None \<Rightarrow> False
       | Some (name, port) \<Rightarrow> port_suffix port \<and> host_only_local name)"
    by (simp add: is_localhost_host_def port_suffix_def split: option.split)
  show ?thesis
  proof (cases "split_once (CHR '']'') inner")
    case None
    have "CHR '']'' \<notin> set inner" using None split_once_None_iff by metis
    moreover have "\<not> is_localhost_host (CHR ''['' # inner)" unfolding step None by simp
    ultimately show ?thesis by auto
  next
    case (Some p)
    obtain name port where p: "p = (name, port)" by (cases p)
    have "name' = name \<and> port' = port" if "inner = name' @ CHR '']'' # port'" "CHR '']'' \<notin> set name'" for name' port'
      using that Some p split_once_prefix [OF that(2), of port'] by simp
    moreover have "inner = name @ CHR '']'' # port \<and> CHR '']'' \<notin> set name"
      using Some p by (simp add: split_once_Some_iff)
    ultimately have "(\<exists>name port. inner = name @ CHR '']'' # port \<and> CHR '']'' \<notin> set name \<and> port_suffix port \<and> host_only_local name)
        \<longleftrightarrow> port_suffix port \<and> host_only_local name"
      by metis
    moreover have "is_localhost_host (CHR ''['' # inner) \<longleftrightarrow> port_suffix port \<and> host_only_local name"
      unfolding step Some p by simp
    ultimately show ?thesis by blast
  qed
qed


lemma plain_local:
  assumes "host = [] \<or> hd host \<noteq> CHR ''[''" "parse_ip host = None"
  shows "is_localhost_host host \<longleftrightarrow>
     (\<exists>name port. host = name @ port \<and> CHR '':'' \<notin> set name \<and> port_suffix port \<and> host_only_local name)"
proof -
  have step: "is_localhost_host host \<longleftrightarrow>
      (case split_once (CHR '':'') host of
         Some (name, port) \<Rightarrow> is_valid_port port \<and> host_only_local name | None \<Rightarrow> host_only_local host)"
    using assms by (auto simp: is_localhost_host_def)
  show ?thesis
  proof (cases "split_once (CHR '':'') host")
    case None
    then have c: "CHR '':'' \<notin> set host" by (simp add: split_once_None_iff)
    have "port = []" if "host = name @ port" "port_suffix port" for name port
      using that c by (cases port) (auto simp: port_suffix_def)
    moreover have "port_suffix []" by (simp add: port_suffix_def)
    ultimately have "(\<exists>name port. host = name @ port \<and> CHR '':'' \<notin> set name \<and> port_suffix port \<and> host_only_local name)
        \<longleftrightarrow> host_only_local host"
      using c by (metis append_Nil2)
    moreover have "is_localhost_host host \<longleftrightarrow> host_only_local host"
      by (simp only: step None option.case)
    ultimately show ?thesis by blast
  next
    case (Some p)
    obtain n q where p: "p = (n, q)" by (cases p)
    have h: "host = n @ CHR '':'' # q" "CHR '':'' \<notin> set n" using Some p by (simp_all add: split_once_Some_iff)
    have "name = n \<and> port = CHR '':'' # q"
      if "host = name @ port" "CHR '':'' \<notin> set name" "port_suffix port" for name port
    proof (cases port)
      case Nil
      then show ?thesis using that(1,2) h(1) by auto
    next
      case (Cons c r)
      then have "host = name @ CHR '':'' # r" using that(1,3) by (simp add: port_suffix_def)
      then have "split_once (CHR '':'') host = Some (name, r)" using that(2) by (simp add: split_once_prefix)
      then show ?thesis using Some p Cons that(3) by (simp add: port_suffix_def)
    qed
    moreover have "port_suffix (CHR '':'' # q) \<longleftrightarrow> is_valid_port q" by (simp add: port_suffix_def)
    ultimately have "(\<exists>name port. host = name @ port \<and> CHR '':'' \<notin> set name \<and> port_suffix port \<and> host_only_local name)
        \<longleftrightarrow> is_valid_port q \<and> host_only_local n"
      using h by metis
    moreover have "is_localhost_host host \<longleftrightarrow> is_valid_port q \<and> host_only_local n"
      by (simp only: step Some p option.case prod.case)
    ultimately show ?thesis by blast
  qed
qed

lemma local_exact:
  "is_localhost_host host \<longleftrightarrow>
     (case parse_ip host of Some ip \<Rightarrow> ip_is_loopback ip | None \<Rightarrow> local_form host)"
proof (cases "parse_ip host")
  case (Some ip)
  then show ?thesis by (simp add: is_localhost_host_def)
next
  case None
  show ?thesis
  proof (cases "host = [] \<or> hd host \<noteq> CHR ''[''")
    case True
    then show ?thesis using plain_local [OF True None] by (auto simp: None local_form_def)
  next
    case False
    then obtain inner where i: "host = CHR ''['' # inner" by (cases host) auto
    have "local_form host \<longleftrightarrow>
        (\<exists>name port. inner = name @ CHR '']'' # port \<and> CHR '']'' \<notin> set name \<and> port_suffix port \<and> host_only_local name)"
      by (auto simp: local_form_def i)
    then have "is_localhost_host host \<longleftrightarrow> local_form host"
      unfolding i using bracketed_local [of inner] by (simp only:)
    then show ?thesis by (simp add: None)
  qed
qed

text \<open>No local host hides another one behind user information, a path, a query or a fragment.\<close>

definition host_char :: "char \<Rightarrow> bool" where
  "host_char c \<longleftrightarrow> c \<notin> set ''@/?#''"

lemma addr_char_host: "addr_char c \<Longrightarrow> host_char c"
  by (auto simp: addr_char_def host_char_def hex_digit_def)

lemma port_host_chars: "port_suffix p \<Longrightarrow> list_all host_char p"
  by (cases p) (auto simp: port_suffix_def is_valid_port_def list_all_iff host_char_def is_digit_def)

lemma lower_host_char: "host_char (ascii_lower c) \<Longrightarrow> host_char c"
  by (auto simp: host_char_def ascii_lower_def)

lemma host_only_chars: "host_only_local n \<Longrightarrow> list_all host_char n"
proof -
  assume h: "host_only_local n"
  have "list_all host_char n" if "map ascii_lower n = m" "list_all host_char m" for m
    using that lower_host_char by (auto simp: list_all_iff)
  then have eq: "list_all host_char n" if "eq_ignore_ascii_case n m" "list_all host_char (map ascii_lower m)" for m
    using that by (simp add: eq_ignore_ascii_case_def)
  have local: "list_all host_char (map ascii_lower ''localhost'')" "list_all host_char (map ascii_lower ''localhost.'')"
    by (simp_all add: ascii_lower_def host_char_def)
  have "list_all host_char n" if "parse_ip n = Some ip" for ip
    using parse_ip_chars [OF that] addr_char_host by (auto simp: list_all_iff)
  then show ?thesis
    using h eq local by (auto simp: host_only_local_def split: option.splits)
qed

lemma local_host_chars:
  assumes "is_localhost_host host"
  shows "list_all host_char host"
proof (cases "parse_ip host")
  case (Some ip)
  then show ?thesis using parse_ip_chars addr_char_host by (auto simp: list_all_iff)
next
  case None
  then obtain name port where "port_suffix port" "host_only_local name"
      "host = CHR ''['' # name @ CHR '']'' # port \<or> host = name @ port"
    using assms by (auto simp: local_exact local_form_def)
  then show ?thesis
    using port_host_chars host_only_chars by (auto simp: host_char_def)
qed

section \<open>What the origin check lets through\<close>

definition entry_allows :: "uri_env \<Rightarrow> string \<Rightarrow> string \<Rightarrow> bool" where
  "entry_allows en origin entry \<longleftrightarrow>
     entry = ''*'' \<or> (\<exists>t. parse_origin en entry = Inr t \<and> parse_origin en origin = Inr t)"

lemma map_filter_member: "y \<in> set (List.map_filter f xs) \<longleftrightarrow> (\<exists>x\<in>set xs. f x = Some y)"
proof (induction xs)
  case (Cons x xs)
  show ?case by (cases "f x") (auto simp: List.map_filter_simps Cons.IH)
qed (simp add: List.map_filter_simps)

lemma allowed_entry_any: "allowed_entry en e = Some AnyOrigin \<longleftrightarrow> e = ''*''"
proof (cases "e = ''*''")
  case True
  then show ?thesis by (simp add: allowed_entry_def)
next
  case False
  then show ?thesis by (cases "parse_origin en e") (simp_all add: allowed_entry_def split: prod.split)
qed

lemma allowed_entry_exact:
  "allowed_entry en e = Some (OriginEntry s h p) \<longleftrightarrow> e \<noteq> ''*'' \<and> parse_origin en e = Inr (s, h, p)"
proof (cases "e = ''*''")
  case True
  then show ?thesis by (simp add: allowed_entry_def)
next
  case False
  then show ?thesis by (cases "parse_origin en e") (simp_all add: allowed_entry_def split: prod.split)
qed

lemma any_allowed: "AnyOrigin \<in> set (parse_allowed_origins en entries) \<longleftrightarrow> ''*'' \<in> set entries"
  by (simp add: parse_allowed_origins_def map_filter_member allowed_entry_any)

lemma entry_allowed:
  "OriginEntry s h p \<in> set (parse_allowed_origins en entries)
   \<longleftrightarrow> (\<exists>e\<in>set entries. e \<noteq> ''*'' \<and> parse_origin en e = Inr (s, h, p))"
  by (simp add: parse_allowed_origins_def map_filter_member allowed_entry_exact)

lemma listed_origin:
  assumes "''*'' \<notin> set entries"
  shows "(case parse_origin en origin of
            Inr (s, h, p) \<Rightarrow> list_ex (\<lambda>o'. o' = OriginEntry s h p) (parse_allowed_origins en entries)
          | Inl _ \<Rightarrow> False)
         \<longleftrightarrow> list_ex (entry_allows en origin) entries"
proof (cases "parse_origin en origin")
  case (Inl e)
  then show ?thesis using assms by (auto simp: entry_allows_def list_ex_iff)
next
  case (Inr t)
  obtain s h p where "t = (s, h, p)" by (cases t)
  moreover have "(\<exists>e\<in>set entries. e \<noteq> ''*'' \<and> parse_origin en e = Inr t) \<longleftrightarrow> (\<exists>e\<in>set entries. entry_allows en origin e)"
    using assms Inr unfolding entry_allows_def by (metis sum.inject(2))
  ultimately show ?thesis using Inr by (simp add: list_ex_iff entry_allowed)
qed

lemma allowed_origin_passes:
  "parse_allowed_origins en entries \<noteq> []
     \<and> (AnyOrigin \<in> set (parse_allowed_origins en entries)
        \<or> (case parse_origin en origin of
             Inr (s, h, p) \<Rightarrow> list_ex (\<lambda>o'. o' = OriginEntry s h p) (parse_allowed_origins en entries)
           | Inl _ \<Rightarrow> False))
   \<longleftrightarrow> list_ex (entry_allows en origin) entries"
proof (cases "''*'' \<in> set entries")
  case True
  then have "AnyOrigin \<in> set (parse_allowed_origins en entries)" by (simp add: any_allowed)
  moreover have "list_ex (entry_allows en origin) entries" using True by (auto simp: list_ex_iff entry_allows_def)
  ultimately show ?thesis by auto
next
  case False
  have "AnyOrigin \<notin> set (parse_allowed_origins en entries)" using False by (simp add: any_allowed)
  then show ?thesis
    using listed_origin [OF False, of en origin]
    by (cases "parse_allowed_origins en entries = []") (auto split: sum.splits)
qed

definition origin_admitted :: "uri_env \<Rightarrow> string list \<Rightarrow> string \<Rightarrow> bool" where
  "origin_admitted en entries origin \<longleftrightarrow>
     is_localhost_origin en origin \<or> list_ex (entry_allows en origin) entries"

lemma origin_gate_rule:
  "validate_origin en to_str headers True (parse_allowed_origins en entries) = None
   \<longleftrightarrow> get_all headers ''origin'' = []
     \<or> (\<exists>raw. get_all headers ''origin'' = [raw] \<and> origin_admitted en entries (header_text_or_empty to_str raw))"
proof (cases "get_all headers ''origin''")
  case Nil
  then show ?thesis by (simp add: validate_origin_def)
next
  case (Cons raw rest)
  show ?thesis
  proof (cases "rest = []")
    case False
    then show ?thesis using Cons by (simp add: validate_origin_def)
  next
    case True
    define origin where "origin = header_text_or_empty to_str raw"
    have "validate_origin en to_str headers True (parse_allowed_origins en entries) = None
        \<longleftrightarrow> origin_admitted en entries origin"
    proof (cases "is_localhost_origin en origin")
      case True
      then show ?thesis using Cons \<open>rest = []\<close>
        by (simp add: validate_origin_def origin_admitted_def Let_def origin_def)
    next
      case False
      then show ?thesis using Cons \<open>rest = []\<close>
        by (simp add: validate_origin_def origin_admitted_def Let_def origin_def
            flip: allowed_origin_passes)
    qed
    then show ?thesis using Cons True by (simp add: origin_def)
  qed
qed

lemma host_gate_rule:
  "validate_host to_str headers authority True hosts = None
   \<longleftrightarrow> hosts = []
     \<or> (\<exists>host. effective_host to_str headers authority = Some host \<and> (is_localhost_host host \<or> host \<in> set hosts))"
  by (cases "effective_host to_str headers authority") (auto simp: validate_host_def)

lemma local_origin_authority:
  assumes "is_localhost_origin en origin"
  shows "list_all host_char (origin_authority origin) \<and> origin_authority origin \<noteq> []"
proof -
  have "is_localhost_host (origin_authority origin)" using assms by (simp add: is_localhost_origin_def)
  moreover have "\<not> is_localhost_host []" by code_simp
  ultimately show ?thesis using local_host_chars by metis
qed

section \<open>Properties\<close>

text \<open>
  A host counts as local exactly when it is a loopback address, or a local name or loopback address,
  bracketed or without a colon, followed by nothing or by a colon and a port number; so it never contains
  user information, a path, a query or a fragment.
\<close>

theorem localhost_host_exact:
  "(is_localhost_host host \<longleftrightarrow>
     (case parse_ip host of Some ip \<Rightarrow> ip_is_loopback ip | None \<Rightarrow> local_form host))
   \<and> (is_localhost_host host \<longrightarrow> list_all host_char host)"
  using local_exact local_host_chars by blast

lemma localhost_host_exact_witness:
  "list_all host_char ''[::1]:3000'' \<and> \<not> is_localhost_host ''localhost:1@evil.com''
   \<and> \<not> is_localhost_host ''[::1]evil.com'' \<and> is_localhost_host ''127.8.9.10'' \<and> \<not> is_localhost_host ''0177.0.0.1''"
proof -
  have "is_localhost_host ''[::1]:3000''" by code_simp
  then have "list_all host_char ''[::1]:3000''" using localhost_host_exact by blast
  moreover have "\<not> is_localhost_host ''localhost:1@evil.com''" by code_simp
  moreover have "\<not> is_localhost_host ''[::1]evil.com''" by code_simp
  moreover have "is_localhost_host ''127.8.9.10''" by code_simp
  moreover have "\<not> is_localhost_host ''0177.0.0.1''" by code_simp
  ultimately show ?thesis by simp
qed

text \<open>
  C6: a request passes the origin check exactly when the check is off, when it carries no \<open>Origin\<close>,
  or when it carries one only and that origin is local or equals an entry of the list after both are
  normalised (or the list holds \<open>*\<close>); and an origin passes as local only if everything after its scheme is
  a host and a port, so none with a second host behind \<open>@\<close>, a path, a query or a fragment does.
\<close>

theorem origin_gate:
  "(validate_origin en to_str headers enabled (parse_allowed_origins en entries) = None
    \<longleftrightarrow> \<not> enabled \<or> get_all headers ''origin'' = []
      \<or> (\<exists>raw. get_all headers ''origin'' = [raw] \<and> origin_admitted en entries (header_text_or_empty to_str raw)))
   \<and> (is_localhost_origin en origin \<longrightarrow>
       origin_authority origin \<noteq> [] \<and> list_all host_char (origin_authority origin))"
proof -
  have "validate_origin en to_str headers False allowed = None" for allowed
    by (simp add: validate_origin_def)
  then show ?thesis
    using origin_gate_rule local_origin_authority by (cases enabled) simp_all
qed

definition sample_uri_env :: uri_env where
  "sample_uri_env = \<lparr>
     ue_parse = (\<lambda>s.
       if s = ''http://127.0.0.1:8080'' then
         Inr \<lparr>up_scheme = Some ''http'', up_authority = Some (''127.0.0.1:8080'', ''127.0.0.1'', Some 8080),
              up_path = ''/'', up_query = None\<rparr>
       else if s = ''https://Example.com'' then
         Inr \<lparr>up_scheme = Some ''https'', up_authority = Some (''Example.com'', ''Example.com'', None),
              up_path = ''/'', up_query = None\<rparr>
       else if s = ''https://example.com:443'' then
         Inr \<lparr>up_scheme = Some ''https'', up_authority = Some (''example.com:443'', ''example.com'', Some 443),
              up_path = ''/'', up_query = None\<rparr>
       else Inl ''invalid uri''),
     ue_debug = id\<rparr>"

lemma origin_gate_witness:
  "list_all host_char ''127.0.0.1:8080''
   \<and> validate_origin sample_uri_env Inr [(''origin'', ''https://Example.com'')] True
       (parse_allowed_origins sample_uri_env [''https://example.com:443'']) = None
   \<and> validate_origin sample_uri_env Inr [(''origin'', ''http://127.0.0.1:8080''), (''origin'', ''https://evil.example'')] True
       (parse_allowed_origins sample_uri_env [''*'']) = Some (403, ''Origin not allowed'')
   \<and> validate_origin sample_uri_env Inr [(''origin'', ''null'')] True
       (parse_allowed_origins sample_uri_env [''https://example.com:443'']) = Some (403, ''Origin not allowed'')"
proof -
  have "is_localhost_origin sample_uri_env ''http://127.0.0.1:8080''" by code_simp
  moreover have "origin_authority ''http://127.0.0.1:8080'' = ''127.0.0.1:8080''" by code_simp
  ultimately have 1: "list_all host_char ''127.0.0.1:8080''" using origin_gate by metis
  have "parse_origin sample_uri_env ''https://Example.com'' = Inr (''https'', ''example.com'', 443)" by code_simp
  moreover have "parse_origin sample_uri_env ''https://example.com:443'' = Inr (''https'', ''example.com'', 443)" by code_simp
  ultimately have "origin_admitted sample_uri_env [''https://example.com:443''] (header_text_or_empty Inr ''https://Example.com'')"
    by (simp add: origin_admitted_def entry_allows_def header_text_or_empty_def)
  moreover have "get_all [(''origin'', ''https://Example.com'')] ''origin'' = [''https://Example.com'']" by code_simp
  ultimately have 2: "validate_origin sample_uri_env Inr [(''origin'', ''https://Example.com'')] True
       (parse_allowed_origins sample_uri_env [''https://example.com:443'']) = None"
    using origin_gate [of sample_uri_env Inr] by blast
  have 3: "validate_origin sample_uri_env Inr [(''origin'', ''http://127.0.0.1:8080''), (''origin'', ''https://evil.example'')] True
       (parse_allowed_origins sample_uri_env [''*'']) = Some (403, ''Origin not allowed'')" by code_simp
  have 4: "validate_origin sample_uri_env Inr [(''origin'', ''null'')] True
       (parse_allowed_origins sample_uri_env [''https://example.com:443'']) = Some (403, ''Origin not allowed'')" by code_simp
  show ?thesis using 1 2 3 4 by blast
qed

end
