(* ===== verification/Inspection.thy ===== *)
theory Inspection
  imports Timestamp Capabilities Framing "HOL-Library.Code_Target_Nat"
begin

text \<open>
  Semantic inspection of JSON-RPC values (\<open>tower-mcp-types\<close>, \<open>inspection.rs\<close> and
  \<open>inspection/mcp.rs\<close>): the structural check of envelopes and batches, and the check of
  methods, directions and parameters against one exact protocol revision.  The deserializers that
  serde derives for the parameter structures are a parameter.
\<close>

unbundle bit_operations_syntax

section \<open>Envelopes\<close>

record json_rpc_request =
  jr_jsonrpc :: string
  jr_id :: request_id
  jr_method :: string
  jr_params :: "json option"

record json_rpc_notification =
  jn_method :: string
  jn_params :: "json option"

datatype json_rpc_envelope =
  EnvRequest json_rpc_request
| EnvNotification json_rpc_notification
| EnvResult request_id json
| EnvError "request_id option" json_rpc_error

datatype batch_side = Calls | Responses

fun batch_side_display :: "batch_side \<Rightarrow> string" where
  "batch_side_display Calls = ''calls''"
| "batch_side_display Responses = ''responses''"

fun batch_kind :: "json_rpc_envelope \<Rightarrow> batch_side" where
  "batch_kind (EnvRequest _) = Calls"
| "batch_kind (EnvNotification _) = Calls"
| "batch_kind (EnvResult _ _) = Responses"
| "batch_kind (EnvError _ _) = Responses"

record json_rpc_batch =
  jb_kind :: batch_side
  jb_messages :: "json_rpc_envelope list"

datatype json_rpc_payload = SinglePayload json_rpc_envelope | BatchPayload json_rpc_batch

datatype inspection_error_kind =
  InvalidTopLevel | InvalidBatchMember | EmptyBatch | MixedBatch | MissingField | InvalidField
| InvalidVersion | ConflictingFields | InvalidEnvelope

record inspection_error =
  ie_kind :: inspection_error_kind
  ie_batch_index :: "nat option"
  ie_field :: "string option"
  ie_detail :: string

definition inspection_error_new ::
  "inspection_error_kind \<Rightarrow> string option \<Rightarrow> string \<Rightarrow> inspection_error" where
  "inspection_error_new kind field detail =
     \<lparr>ie_kind = kind, ie_batch_index = None, ie_field = field, ie_detail = detail\<rparr>"

definition at_batch_index :: "nat \<Rightarrow> inspection_error \<Rightarrow> inspection_error" where
  "at_batch_index index e =
     e\<lparr>ie_detail := ''batch item '' @ show_nat index @ '': '' @ ie_detail e, ie_batch_index := Some index\<rparr>"

definition JSONRPC_VERSION :: string where "JSONRPC_VERSION = ''2.0''"

definition ticked :: "string \<Rightarrow> string" where
  "ticked s = CHR 0x60 # s @ [CHR 0x60]"

text \<open>The members of the object, as \<open>serde_json::Map\<close>.\<close>

type_synonym json_object = "(string \<times> json) list"

definition inspect_version :: "json_object \<Rightarrow> inspection_error + unit" where
  "inspect_version ob =
     (case map_of ob ''jsonrpc'' of
        None \<Rightarrow> Inl (inspection_error_new MissingField (Some ''jsonrpc'')
                  (''JSON-RPC envelope is missing '' @ ticked ''jsonrpc''))
      | Some v \<Rightarrow>
          (case json_as_str v of
             Some version \<Rightarrow>
               if version = JSONRPC_VERSION then Inr ()
               else Inl (inspection_error_new InvalidVersion (Some ''jsonrpc'')
                 (''JSON-RPC version must be '' @ ticked JSONRPC_VERSION @ '', got '' @ ticked version))
           | None \<Rightarrow> Inl (inspection_error_new InvalidField (Some ''jsonrpc'')
               (''JSON-RPC '' @ ticked ''jsonrpc'' @ '' field must be a string''))))"

definition inspect_method :: "json_object \<Rightarrow> inspection_error + unit" where
  "inspect_method ob =
     (case map_of ob ''method'' of
        Some v \<Rightarrow>
          (case json_as_str v of
             Some m \<Rightarrow>
               if m \<noteq> [] then Inr ()
               else Inl (inspection_error_new InvalidField (Some ''method'')
                 (''JSON-RPC '' @ ticked ''method'' @ '' field must not be empty''))
           | None \<Rightarrow> Inl (inspection_error_new InvalidField (Some ''method'')
               (''JSON-RPC '' @ ticked ''method'' @ '' field must be a string'')))
      | None \<Rightarrow> Inl (inspection_error_new MissingField (Some ''method'')
          (''JSON-RPC call is missing '' @ ticked ''method'')))"

definition inspect_params :: "json_object \<Rightarrow> inspection_error + unit" where
  "inspect_params ob =
     (case map_of ob ''params'' of
        None \<Rightarrow> Inr ()
      | Some v \<Rightarrow>
          if json_is_object v \<or> json_is_array v then Inr ()
          else Inl (inspection_error_new InvalidField (Some ''params'')
            (''JSON-RPC '' @ ticked ''params'' @ '' field must be an object or array when present'')))"

definition valid_request_id :: "json \<Rightarrow> bool" where
  "valid_request_id v \<longleftrightarrow> request_id_from_json v \<noteq> None"

definition inspect_non_null_id :: "json_object \<Rightarrow> string \<Rightarrow> inspection_error + unit" where
  "inspect_non_null_id ob ctxt =
     (case map_of ob ''id'' of
        None \<Rightarrow> Inl (inspection_error_new MissingField (Some ''id'')
                  (''JSON-RPC '' @ ctxt @ '' is missing '' @ ticked ''id''))
      | Some v \<Rightarrow>
          if valid_request_id v then Inr ()
          else Inl (inspection_error_new InvalidField (Some ''id'')
            (''JSON-RPC '' @ ctxt @ '' '' @ ticked ''id'' @ '' must be a string or signed integer'')))"

definition inspect_optional_error_id :: "json_object \<Rightarrow> inspection_error + unit" where
  "inspect_optional_error_id ob =
     (case map_of ob ''id'' of
        None \<Rightarrow> Inr ()
      | Some v \<Rightarrow>
          if v = JNull \<or> valid_request_id v then Inr ()
          else Inl (inspection_error_new InvalidField (Some ''id'')
            (''JSON-RPC error response '' @ ticked ''id''
             @ '' must be null, a string, or a signed integer'')))"

text \<open>
  What serde derives for \<open>JsonRpcError\<close>: an object with an \<open>i32\<close> code, a string and
  optional data, or the array of the three.
\<close>

definition i32_ok :: "int \<Rightarrow> bool" where
  "i32_ok n \<longleftrightarrow> - 2147483648 \<le> n \<and> n \<le> 2147483647"

fun json_i32 :: "json \<Rightarrow> int option" where
  "json_i32 (JNum (NInt n)) = (if i32_ok n then Some n else None)"
| "json_i32 _ = None"

definition some_value :: "json \<Rightarrow> json option" where
  "some_value v = (if v = JNull then None else Some v)"

fun read_error_object :: "json \<Rightarrow> json_rpc_error option" where
  "read_error_object (JObj kvs) = do {
     c \<leftarrow> Option.bind (map_of kvs ''code'') json_i32;
     s \<leftarrow> Option.bind (map_of kvs ''message'') json_as_str;
     Some \<lparr>e_code = c, e_message = s, e_data = Option.bind (map_of kvs ''data'') some_value\<rparr>
   }"
| "read_error_object (JArr [a, b, d]) = do {
     c \<leftarrow> json_i32 a;
     s \<leftarrow> json_as_str b;
     Some \<lparr>e_code = c, e_message = s, e_data = some_value d\<rparr>
   }"
| "read_error_object _ = None"

text \<open>
  The deserializers and the texts of their errors.  Those of the envelopes only fail on the
  \<open>error\<close> member.
\<close>

record params_env =
  pe_envelope_error :: "json_object \<Rightarrow> string"
  pe_decode :: "string \<Rightarrow> json \<Rightarrow> string + unit"
  pe_meta :: "json \<Rightarrow> string + stateless_meta"

definition inspect_envelope :: "params_env \<Rightarrow> json_object \<Rightarrow> inspection_error + json_rpc_envelope" where
  "inspect_envelope pe ob =
     result_bind (inspect_version ob) (\<lambda>_.
     (let has_method = map_of ob ''method'' \<noteq> None;
          has_result = map_of ob ''result'' \<noteq> None;
          has_error = map_of ob ''error'' \<noteq> None
      in if has_method \<and> (has_result \<or> has_error) then
           Inl (inspection_error_new ConflictingFields (Some ''method'')
             (''JSON-RPC envelope cannot contain both '' @ ticked ''method'' @ '' and ''
              @ ticked ''result'' @ ''/'' @ ticked ''error''))
         else if has_result \<and> has_error then
           Inl (inspection_error_new ConflictingFields (Some ''result'')
             (''JSON-RPC response cannot contain both '' @ ticked ''result'' @ '' and '' @ ticked ''error''))
         else if has_method then
           result_bind (inspect_method ob) (\<lambda>_. result_bind (inspect_params ob) (\<lambda>_.
             (let m = the (json_as_str (the (map_of ob ''method''))) in
              case map_of ob ''id'' of
                Some v \<Rightarrow> result_bind (inspect_non_null_id ob ''request'') (\<lambda>_.
                  Inr (EnvRequest \<lparr>jr_jsonrpc = JSONRPC_VERSION, jr_id = the (request_id_from_json v),
                    jr_method = m, jr_params = map_of ob ''params''\<rparr>))
              | None \<Rightarrow> Inr (EnvNotification \<lparr>jn_method = m, jn_params = map_of ob ''params''\<rparr>))))
         else if has_result then
           result_bind (inspect_non_null_id ob ''success response'') (\<lambda>_.
             Inr (EnvResult (the (request_id_from_json (the (map_of ob ''id'')))) (the (map_of ob ''result''))))
         else if has_error then
           result_bind (inspect_optional_error_id ob) (\<lambda>_.
             (case read_error_object (the (map_of ob ''error'')) of
                Some e \<Rightarrow> Inr (EnvError (Option.bind (map_of ob ''id'') request_id_from_json) e)
              | None \<Rightarrow> Inl (inspection_error_new InvalidField (Some ''error'')
                  (''invalid JSON-RPC error response: '' @ pe_envelope_error pe ob))))
         else Inl (inspection_error_new InvalidEnvelope None
           (''JSON-RPC object must contain '' @ ticked ''method'' @ '', '' @ ticked ''result''
            @ '', or '' @ ticked ''error''))))"

text \<open>The loop over the members of a batch; the side is the one of the first.\<close>

fun inspect_members ::
  "params_env \<Rightarrow> nat \<Rightarrow> batch_side option \<Rightarrow> json list
   \<Rightarrow> inspection_error + batch_side option \<times> json_rpc_envelope list" where
  "inspect_members pe index kind [] = Inr (kind, [])"
| "inspect_members pe index kind (item # items) =
     (case json_as_object item of
        None \<Rightarrow> Inl (at_batch_index index
                  (inspection_error_new InvalidBatchMember None ''JSON-RPC batch member must be an object''))
      | Some ob \<Rightarrow>
          (case inspect_envelope pe ob of
             Inl e \<Rightarrow> Inl (at_batch_index index e)
           | Inr envelope \<Rightarrow>
               (let member_kind = batch_kind envelope in
                case kind of
                  Some expected \<Rightarrow>
                    if member_kind \<noteq> expected then
                      Inl (at_batch_index index (inspection_error_new MixedBatch None
                        (''JSON-RPC batch cannot mix '' @ batch_side_display expected @ '' with ''
                         @ batch_side_display member_kind)))
                    else result_bind (inspect_members pe (Suc index) kind items)
                      (\<lambda>(k, messages). Inr (k, envelope # messages))
                | None \<Rightarrow> result_bind (inspect_members pe (Suc index) (Some member_kind) items)
                      (\<lambda>(k, messages). Inr (k, envelope # messages)))))"

definition inspect_batch :: "params_env \<Rightarrow> json list \<Rightarrow> inspection_error + json_rpc_batch" where
  "inspect_batch pe items =
     (if items = [] then
        Inl (inspection_error_new EmptyBatch None ''JSON-RPC batch must contain at least one message'')
      else result_bind (inspect_members pe 0 None items)
        (\<lambda>(kind, messages). Inr \<lparr>jb_kind = the kind, jb_messages = messages\<rparr>))"

fun inspect_json_rpc :: "params_env \<Rightarrow> json \<Rightarrow> inspection_error + json_rpc_payload" where
  "inspect_json_rpc pe (JObj ob) = result_bind (inspect_envelope pe ob) (\<lambda>e. Inr (SinglePayload e))"
| "inspect_json_rpc pe (JArr items) = result_bind (inspect_batch pe items) (\<lambda>b. Inr (BatchPayload b))"
| "inspect_json_rpc pe _ =
     Inl (inspection_error_new InvalidTopLevel None ''JSON-RPC payload must be an object or array'')"

section \<open>Revisions and methods\<close>

definition REVISION_2025_03_26 :: "8 word" where "REVISION_2025_03_26 = 1"
definition REVISION_2025_06_18 :: "8 word" where "REVISION_2025_06_18 = 2"
definition REVISION_2025_11_25 :: "8 word" where "REVISION_2025_11_25 = 4"
definition REVISION_2026_07_28 :: "8 word" where "REVISION_2026_07_28 = 8"

definition LEGACY_REVISIONS :: "8 word" where
  "LEGACY_REVISIONS = REVISION_2025_03_26 OR REVISION_2025_06_18 OR REVISION_2025_11_25"

definition ALL_REVISIONS :: "8 word" where
  "ALL_REVISIONS = LEGACY_REVISIONS OR REVISION_2026_07_28"

definition MCP_INSPECTION_PROFILES :: "string list" where
  "MCP_INSPECTION_PROFILES = [''2026-07-28'', ''2025-11-25'', ''2025-06-18'', ''2025-03-26'']"

datatype mcp_revision = V2025_03_26 | V2025_06_18 | V2025_11_25 | V2026_07_28

fun revision_as_str :: "mcp_revision \<Rightarrow> string" where
  "revision_as_str V2025_03_26 = ''2025-03-26''"
| "revision_as_str V2025_06_18 = ''2025-06-18''"
| "revision_as_str V2025_11_25 = ''2025-11-25''"
| "revision_as_str V2026_07_28 = ''2026-07-28''"

fun revision_mask :: "mcp_revision \<Rightarrow> 8 word" where
  "revision_mask V2025_03_26 = REVISION_2025_03_26"
| "revision_mask V2025_06_18 = REVISION_2025_06_18"
| "revision_mask V2025_11_25 = REVISION_2025_11_25"
| "revision_mask V2026_07_28 = REVISION_2026_07_28"

datatype mcp_error_kind =
  UnsupportedProfile | JsonRpcStructure | BatchUnavailable | InitializeInBatch | MessageKindMismatch
| DirectionMismatch | MissingParams | InvalidParameters

record mcp_error =
  me_kind :: mcp_error_kind
  me_revision :: "string option"
  me_method :: "string option"
  me_batch_index :: "nat option"
  me_detail :: string
  me_source :: "inspection_error option"

definition mcp_error_new ::
  "mcp_error_kind \<Rightarrow> string option \<Rightarrow> string option \<Rightarrow> nat option \<Rightarrow> string \<Rightarrow> mcp_error" where
  "mcp_error_new kind revision m index detail =
     \<lparr>me_kind = kind, me_revision = revision, me_method = m, me_batch_index = index,
      me_detail = detail, me_source = None\<rparr>"

fun join_commas :: "string list \<Rightarrow> string" where
  "join_commas [] = []"
| "join_commas [s] = s"
| "join_commas (s # ss) = s @ '', '' @ join_commas ss"

definition unsupported_profile :: "string \<Rightarrow> mcp_error" where
  "unsupported_profile revision = mcp_error_new UnsupportedProfile (Some revision) None None
     (''unsupported MCP inspection profile '' @ ticked revision @ ''; supported profiles: ''
      @ join_commas MCP_INSPECTION_PROFILES)"

definition json_rpc_failure :: "mcp_revision \<Rightarrow> inspection_error \<Rightarrow> mcp_error" where
  "json_rpc_failure r e =
     \<lparr>me_kind = JsonRpcStructure, me_revision = Some (revision_as_str r), me_method = None,
      me_batch_index = ie_batch_index e, me_detail = ie_detail e, me_source = Some e\<rparr>"

definition revision_from_str :: "string \<Rightarrow> mcp_error + mcp_revision" where
  "revision_from_str s =
     (if s = ''2025-03-26'' then Inr V2025_03_26
      else if s = ''2025-06-18'' then Inr V2025_06_18
      else if s = ''2025-11-25'' then Inr V2025_11_25
      else if s = ''2026-07-28'' then Inr V2026_07_28
      else Inl (unsupported_profile s))"

datatype mcp_direction = ClientToServer | ServerToClient

fun direction_display :: "mcp_direction \<Rightarrow> string" where
  "direction_display ClientToServer = ''client-to-server''"
| "direction_display ServerToClient = ''server-to-client''"

datatype call_kind = RequestCall | NotificationCall

fun call_kind_display :: "call_kind \<Rightarrow> string" where
  "call_kind_display RequestCall = ''request''"
| "call_kind_display NotificationCall = ''notification''"

datatype method_class = Available | Unavailable | Extension

record method_inspection =
  mi_method :: string
  mi_kind :: call_kind
  mi_class :: method_class
  mi_batch_index :: "nat option"

datatype params_validator =
  VObject | VInitialize | VComplete | VSetLogLevel | VGetPrompt | VListPrompts |
  VListResources | VListResourceTemplates | VReadResource | VSubscribeResource |
  VUnsubscribeResource | VCallTool | VListTools | VCreateMessage | VListRoots | VElicit |
  VGetTask | VGetTaskResult | VListTasks | VCancelTask | VDiscover | VSubscriptionsListen
  | VCancelled | VProgress | VLoggingMessage | VResourceUpdated | VTaskStatus |
  VElicitationComplete | VSubscriptionsAcknowledged

record mcp_rule =
  mr_name :: string
  mr_kind :: call_kind
  mr_client_to_server :: "8 word"
  mr_server_to_client :: "8 word"
  mr_required_params :: "8 word"
  mr_validator :: params_validator

definition available_in :: "mcp_rule \<Rightarrow> mcp_revision \<Rightarrow> bool" where
  "available_in rule r \<longleftrightarrow> (mr_client_to_server rule OR mr_server_to_client rule) AND revision_mask r \<noteq> 0"

definition rule_allows :: "mcp_rule \<Rightarrow> mcp_revision \<Rightarrow> mcp_direction \<Rightarrow> bool" where
  "rule_allows rule r d \<longleftrightarrow>
     (case d of ClientToServer \<Rightarrow> mr_client_to_server rule | ServerToClient \<Rightarrow> mr_server_to_client rule)
       AND revision_mask r \<noteq> 0"

definition requires_params :: "mcp_rule \<Rightarrow> mcp_revision \<Rightarrow> bool" where
  "requires_params rule r \<longleftrightarrow> mr_required_params rule AND revision_mask r \<noteq> 0"

definition request_rule ::
  "string \<Rightarrow> 8 word \<Rightarrow> 8 word \<Rightarrow> 8 word \<Rightarrow> params_validator \<Rightarrow> mcp_rule" where
  "request_rule name c s p v = \<lparr>mr_name = name, mr_kind = RequestCall, mr_client_to_server = c,
     mr_server_to_client = s, mr_required_params = p, mr_validator = v\<rparr>"

definition notification_rule ::
  "string \<Rightarrow> 8 word \<Rightarrow> 8 word \<Rightarrow> 8 word \<Rightarrow> params_validator \<Rightarrow> mcp_rule" where
  "notification_rule name c s p v = \<lparr>mr_name = name, mr_kind = NotificationCall, mr_client_to_server = c,
     mr_server_to_client = s, mr_required_params = p, mr_validator = v\<rparr>"

definition METHOD_RULES :: "mcp_rule list" where
  "METHOD_RULES =
    [request_rule ''initialize'' LEGACY_REVISIONS 0 LEGACY_REVISIONS VInitialize,
     request_rule ''ping'' LEGACY_REVISIONS LEGACY_REVISIONS 0 VObject,
     request_rule ''completion/complete'' ALL_REVISIONS 0 ALL_REVISIONS VComplete,
     request_rule ''logging/setLevel'' LEGACY_REVISIONS 0 LEGACY_REVISIONS VSetLogLevel,
     request_rule ''prompts/get'' ALL_REVISIONS 0 ALL_REVISIONS VGetPrompt,
     request_rule ''prompts/list'' ALL_REVISIONS 0 REVISION_2026_07_28 VListPrompts,
     request_rule ''resources/list'' ALL_REVISIONS 0 REVISION_2026_07_28 VListResources,
     request_rule ''resources/templates/list'' ALL_REVISIONS 0 REVISION_2026_07_28 VListResourceTemplates,
     request_rule ''resources/read'' ALL_REVISIONS 0 ALL_REVISIONS VReadResource,
     request_rule ''resources/subscribe'' LEGACY_REVISIONS 0 LEGACY_REVISIONS VSubscribeResource,
     request_rule ''resources/unsubscribe'' LEGACY_REVISIONS 0 LEGACY_REVISIONS VUnsubscribeResource,
     request_rule ''tools/call'' ALL_REVISIONS 0 ALL_REVISIONS VCallTool,
     request_rule ''tools/list'' ALL_REVISIONS 0 REVISION_2026_07_28 VListTools,
     request_rule ''sampling/createMessage'' 0 LEGACY_REVISIONS LEGACY_REVISIONS VCreateMessage,
     request_rule ''roots/list'' 0 LEGACY_REVISIONS 0 VListRoots,
     request_rule ''elicitation/create'' 0 (REVISION_2025_06_18 OR REVISION_2025_11_25) (REVISION_2025_06_18 OR REVISION_2025_11_25) VElicit,
     request_rule ''tasks/get'' REVISION_2025_11_25 REVISION_2025_11_25 REVISION_2025_11_25 VGetTask,
     request_rule ''tasks/result'' REVISION_2025_11_25 REVISION_2025_11_25 REVISION_2025_11_25 VGetTaskResult,
     request_rule ''tasks/list'' REVISION_2025_11_25 REVISION_2025_11_25 0 VListTasks,
     request_rule ''tasks/cancel'' REVISION_2025_11_25 REVISION_2025_11_25 REVISION_2025_11_25 VCancelTask,
     request_rule ''tasks/update'' 0 0 0 VObject,
     request_rule ''server/discover'' REVISION_2026_07_28 0 REVISION_2026_07_28 VDiscover,
     request_rule ''subscriptions/listen'' REVISION_2026_07_28 0 REVISION_2026_07_28 VSubscriptionsListen,
     notification_rule ''notifications/cancelled'' ALL_REVISIONS ALL_REVISIONS ALL_REVISIONS VCancelled,
     notification_rule ''notifications/progress'' LEGACY_REVISIONS ALL_REVISIONS ALL_REVISIONS VProgress,
     notification_rule ''notifications/initialized'' LEGACY_REVISIONS 0 0 VObject,
     notification_rule ''notifications/roots/list_changed'' LEGACY_REVISIONS 0 0 VObject,
     notification_rule ''notifications/message'' 0 ALL_REVISIONS ALL_REVISIONS VLoggingMessage,
     notification_rule ''notifications/resources/updated'' 0 ALL_REVISIONS ALL_REVISIONS VResourceUpdated,
     notification_rule ''notifications/resources/list_changed'' 0 ALL_REVISIONS 0 VObject,
     notification_rule ''notifications/tools/list_changed'' 0 ALL_REVISIONS 0 VObject,
     notification_rule ''notifications/prompts/list_changed'' 0 ALL_REVISIONS 0 VObject,
     notification_rule ''notifications/elicitation/complete'' 0 REVISION_2025_11_25 REVISION_2025_11_25 VElicitationComplete,
     notification_rule ''notifications/tasks/status'' REVISION_2025_11_25 REVISION_2025_11_25 REVISION_2025_11_25 VTaskStatus,
     notification_rule ''notifications/subscriptions/acknowledged'' 0 REVISION_2026_07_28 REVISION_2026_07_28 VSubscriptionsAcknowledged]"

definition method_rule :: "string \<Rightarrow> mcp_rule option" where
  "method_rule m = find (\<lambda>rule. mr_name rule = m) METHOD_RULES"

section \<open>Parameters\<close>

definition missing_params :: "mcp_error_kind \<times> string" where
  "missing_params = (MissingParams, ''required '' @ ticked ''params'' @ '' field is missing'')"

definition bad_params :: "string \<Rightarrow> mcp_error_kind \<times> string" where
  "bad_params detail = (InvalidParameters, detail)"

definition decode_params :: "params_env \<Rightarrow> string \<Rightarrow> json \<Rightarrow> (mcp_error_kind \<times> string) + unit" where
  "decode_params pe type_name params =
     (case pe_decode pe type_name params of Inl e \<Rightarrow> Inl (bad_params e) | Inr _ \<Rightarrow> Inr ())"

text \<open>An \<open>Option\<close> field that is given: neither absent nor null.\<close>

definition field_given :: "json \<Rightarrow> string \<Rightarrow> bool" where
  "field_given params k \<longleftrightarrow> json_get params k \<notin> {None, Some JNull}"

fun params_type :: "params_validator \<Rightarrow> mcp_revision \<Rightarrow> string option" where
  "params_type VInitialize r = Some ''InitializeParams''"
| "params_type VComplete r = Some ''CompleteParams''"
| "params_type VSetLogLevel r = Some ''SetLogLevelParams''"
| "params_type VGetPrompt r = Some ''GetPromptParams''"
| "params_type VListPrompts r = Some ''ListPromptsParams''"
| "params_type VListResources r = Some ''ListResourcesParams''"
| "params_type VListResourceTemplates r = Some ''ListResourceTemplatesParams''"
| "params_type VReadResource r = Some ''ReadResourceParams''"
| "params_type VSubscribeResource r = Some ''SubscribeResourceParams''"
| "params_type VUnsubscribeResource r = Some ''UnsubscribeResourceParams''"
| "params_type VCallTool r = Some ''CallToolParams''"
| "params_type VListTools r = Some ''ListToolsParams''"
| "params_type VCreateMessage r = Some ''CreateMessageParams''"
| "params_type VListRoots r = Some ''ListRootsParams''"
| "params_type VElicit r = Some (if r = V2025_06_18 then ''ElicitFormParams'' else ''ElicitRequestParams'')"
| "params_type VGetTask r = Some ''GetTaskInfoParams''"
| "params_type VGetTaskResult r = Some ''GetTaskResultParams''"
| "params_type VListTasks r = Some ''ListTasksParams''"
| "params_type VCancelTask r = Some ''CancelTaskParams''"
| "params_type VDiscover r = Some ''DiscoverParams''"
| "params_type VSubscriptionsListen r = Some ''SubscriptionsListenParams''"
| "params_type VCancelled r = Some ''CancelledParams''"
| "params_type VProgress r = Some ''ProgressParams''"
| "params_type VLoggingMessage r = Some ''LoggingMessageParams''"
| "params_type VTaskStatus r = Some ''TaskStatusParams''"
| "params_type VElicitationComplete r = Some ''ElicitationCompleteParams''"
| "params_type VSubscriptionsAcknowledged r = Some ''SubscriptionsAcknowledgedParams''"
| "params_type VObject r = None"
| "params_type VResourceUpdated r = None"

definition run_validator ::
  "params_env \<Rightarrow> params_validator \<Rightarrow> mcp_revision \<Rightarrow> json \<Rightarrow> (mcp_error_kind \<times> string) + unit" where
  "run_validator pe v r params =
     (if v = VResourceUpdated then
        (if Option.bind (json_get params ''uri'') json_as_str \<noteq> None then Inr ()
         else Inl (bad_params (''required '' @ ticked ''uri'' @ '' field must be a string'')))
      else if v = VLoggingMessage \<and> json_get params ''data'' = None then
        Inl (bad_params (''required '' @ ticked ''data'' @ '' field is missing''))
      else case params_type v r of
          None \<Rightarrow> Inr ()
        | Some t \<Rightarrow> result_bind (decode_params pe t params) (\<lambda>_.
            if v = VSubscriptionsListen \<and> \<not> field_given params ''notifications'' then
              Inl (bad_params (''required '' @ ticked ''notifications'' @ '' field is missing''))
            else if v = VCancelled \<and> \<not> field_given params ''requestId'' then
              Inl (bad_params (''required non-null '' @ ticked ''requestId'' @ '' field is missing''))
            else Inr ()))"

text \<open>\<open>RequestMeta::validate_for_version\<close>; an error is the key that is missing.\<close>

definition META_PROTOCOL_VERSION :: string where
  "META_PROTOCOL_VERSION = ''io.modelcontextprotocol/protocolVersion''"

definition META_CLIENT_CAPABILITIES :: string where
  "META_CLIENT_CAPABILITIES = ''io.modelcontextprotocol/clientCapabilities''"

definition validate_for_version :: "stateless_meta \<Rightarrow> string \<Rightarrow> string + unit" where
  "validate_for_version meta version =
     (if version = PROTOCOL_VERSION_2026_07_28 then
        (if sm_protocol_version meta = None then Inl META_PROTOCOL_VERSION
         else if sm_client_capabilities meta = None then Inl META_CLIENT_CAPABILITIES
         else Inr ())
      else Inr ())"

definition meta_key_error :: "string \<Rightarrow> string" where
  "meta_key_error k = ''missing required _meta key for the negotiated protocol version: '' @ k"

definition validate_2026_request_meta :: "params_env \<Rightarrow> json \<Rightarrow> (mcp_error_kind \<times> string) + unit" where
  "validate_2026_request_meta pe params =
     (case json_get params ''_meta'' of
        None \<Rightarrow> Inl (bad_params (''required '' @ ticked ''_meta'' @ '' field is missing''))
      | Some v \<Rightarrow>
          (case pe_meta pe v of
             Inl e \<Rightarrow> Inl (bad_params e)
           | Inr meta \<Rightarrow>
               (case validate_for_version meta ''2026-07-28'' of
                  Inl k \<Rightarrow> Inl (bad_params (meta_key_error k))
                | Inr _ \<Rightarrow>
                    if sm_protocol_version meta \<noteq> Some ''2026-07-28'' then
                      Inl (bad_params (ticked (''_meta['' @ CHR 0x22 # META_PROTOCOL_VERSION @ CHR 0x22 # '']'')
                        @ '' must equal '' @ ticked ''2026-07-28''))
                    else Inr ())))"

definition validate_params ::
  "params_env \<Rightarrow> mcp_rule \<Rightarrow> mcp_revision \<Rightarrow> json option \<Rightarrow> (mcp_error_kind \<times> string) + unit" where
  "validate_params pe rule r params =
     (if params = None \<and> requires_params rule r then Inl missing_params
      else
        (let v = (case params of Some p \<Rightarrow> p | None \<Rightarrow> JObj []) in
         if \<not> json_is_object v then Inl (bad_params ''MCP method params must be a JSON object'')
         else result_bind (run_validator pe (mr_validator rule) r v) (\<lambda>_.
           if r = V2026_07_28 \<and> mr_kind rule = RequestCall then validate_2026_request_meta pe v
           else Inr ())))"

section \<open>The inspector\<close>

fun call_of :: "json_rpc_envelope \<Rightarrow> (string \<times> json option \<times> call_kind) option" where
  "call_of (EnvRequest q) = Some (jr_method q, jr_params q, RequestCall)"
| "call_of (EnvNotification n) = Some (jn_method n, jn_params n, NotificationCall)"
| "call_of (EnvResult _ _) = None"
| "call_of (EnvError _ _) = None"

definition inspect_call ::
  "params_env \<Rightarrow> mcp_revision \<Rightarrow> mcp_direction option \<Rightarrow> nat option \<Rightarrow> bool
   \<Rightarrow> string \<times> json option \<times> call_kind \<Rightarrow> mcp_error + method_inspection" where
  "inspect_call pe r direction index in_batch call =
     (case call of (m, params, kind) \<Rightarrow>
       (let entry = (\<lambda>c. \<lparr>mi_method = m, mi_kind = kind, mi_class = c, mi_batch_index = index\<rparr>);
            failed = (\<lambda>k detail. mcp_error_new k (Some (revision_as_str r)) (Some m) index detail)
        in case method_rule m of
             None \<Rightarrow> Inr (entry Extension)
           | Some rule \<Rightarrow>
               if \<not> available_in rule r then Inr (entry Unavailable)
               else if kind \<noteq> mr_kind rule then
                 Inl (failed MessageKindMismatch (''MCP '' @ revision_as_str r @ '' defines '' @ ticked m
                   @ '' as a '' @ call_kind_display (mr_kind rule) @ '', not a '' @ call_kind_display kind))
               else if (case direction of Some d \<Rightarrow> \<not> rule_allows rule r d | None \<Rightarrow> False) then
                 Inl (failed DirectionMismatch (''MCP '' @ revision_as_str r @ '' does not permit '' @ ticked m
                   @ '' in the '' @ direction_display (the direction) @ '' direction''))
               else if in_batch \<and> m = ''initialize'' then
                 Inl (failed InitializeInBatch
                   (''MCP '' @ ticked ''initialize'' @ '' must not be part of a JSON-RPC batch''))
               else
                 (case validate_params pe rule r params of
                    Inl (k, detail) \<Rightarrow> Inl (failed k (''invalid '' @ ticked m @ '' params for MCP ''
                      @ revision_as_str r @ '': '' @ detail))
                  | Inr _ \<Rightarrow> Inr (entry Available))))"

definition inspect_mcp_envelope ::
  "params_env \<Rightarrow> mcp_revision \<Rightarrow> mcp_direction option \<Rightarrow> nat option \<Rightarrow> bool
   \<Rightarrow> json_rpc_envelope \<Rightarrow> mcp_error + method_inspection option" where
  "inspect_mcp_envelope pe r direction index in_batch envelope =
     (case call_of envelope of
        None \<Rightarrow> Inr None
      | Some call \<Rightarrow> result_bind (inspect_call pe r direction index in_batch call) (\<lambda>i. Inr (Some i)))"

fun inspect_mcp_members ::
  "params_env \<Rightarrow> mcp_revision \<Rightarrow> mcp_direction option \<Rightarrow> nat \<Rightarrow> json_rpc_envelope list
   \<Rightarrow> mcp_error + method_inspection list" where
  "inspect_mcp_members pe r direction index [] = Inr []"
| "inspect_mcp_members pe r direction index (e # es) =
     result_bind (inspect_mcp_envelope pe r direction (Some index) True e) (\<lambda>i.
     result_bind (inspect_mcp_members pe r direction (Suc index) es) (\<lambda>is.
       Inr (case i of Some x \<Rightarrow> x # is | None \<Rightarrow> is)))"

record mcp_inspection =
  in_revision :: mcp_revision
  in_direction :: "mcp_direction option"
  in_payload :: json_rpc_payload
  in_methods :: "method_inspection list"

definition inspect_payload ::
  "params_env \<Rightarrow> mcp_revision \<Rightarrow> json_rpc_payload \<Rightarrow> mcp_direction option \<Rightarrow> mcp_error + mcp_inspection" where
  "inspect_payload pe r payload direction =
     (case payload of
        SinglePayload e \<Rightarrow>
          result_bind (inspect_mcp_envelope pe r direction None False e) (\<lambda>i.
            Inr \<lparr>in_revision = r, in_direction = direction, in_payload = payload,
              in_methods = (case i of Some x \<Rightarrow> [x] | None \<Rightarrow> [])\<rparr>)
      | BatchPayload b \<Rightarrow>
          if r \<noteq> V2025_03_26 then
            Inl (mcp_error_new BatchUnavailable (Some (revision_as_str r)) None None
              (''MCP '' @ revision_as_str r @ '' does not permit top-level JSON-RPC batches''))
          else result_bind (inspect_mcp_members pe r direction 0 (jb_messages b)) (\<lambda>is.
            Inr \<lparr>in_revision = r, in_direction = direction, in_payload = payload, in_methods = is\<rparr>))"

definition mcp_inspect ::
  "params_env \<Rightarrow> mcp_revision \<Rightarrow> json \<Rightarrow> mcp_direction option \<Rightarrow> mcp_error + mcp_inspection" where
  "mcp_inspect pe r v direction =
     (case inspect_json_rpc pe v of
        Inl e \<Rightarrow> Inl (json_rpc_failure r e)
      | Inr payload \<Rightarrow> inspect_payload pe r payload direction)"

section \<open>What is well formed\<close>

definition versioned :: "json_object \<Rightarrow> bool" where
  "versioned ob \<longleftrightarrow> map_of ob ''jsonrpc'' = Some (JStr ''2.0'')"

definition is_call :: "json_object \<Rightarrow> bool" where
  "is_call ob \<longleftrightarrow> versioned ob
     \<and> (\<exists>m. map_of ob ''method'' = Some (JStr m) \<and> m \<noteq> [])
     \<and> map_of ob ''result'' = None \<and> map_of ob ''error'' = None
     \<and> (case map_of ob ''params'' of None \<Rightarrow> True | Some v \<Rightarrow> json_is_object v \<or> json_is_array v)
     \<and> (case map_of ob ''id'' of None \<Rightarrow> True | Some v \<Rightarrow> valid_request_id v)"

definition is_result :: "json_object \<Rightarrow> bool" where
  "is_result ob \<longleftrightarrow> versioned ob \<and> map_of ob ''method'' = None \<and> map_of ob ''error'' = None
     \<and> map_of ob ''result'' \<noteq> None \<and> (\<exists>v. map_of ob ''id'' = Some v \<and> valid_request_id v)"

definition is_error :: "json_object \<Rightarrow> bool" where
  "is_error ob \<longleftrightarrow> versioned ob \<and> map_of ob ''method'' = None \<and> map_of ob ''result'' = None
     \<and> (\<exists>e. map_of ob ''error'' = Some e \<and> read_error_object e \<noteq> None)
     \<and> (case map_of ob ''id'' of None \<Rightarrow> True | Some v \<Rightarrow> v = JNull \<or> valid_request_id v)"

fun on_side :: "batch_side \<Rightarrow> json_object \<Rightarrow> bool" where
  "on_side Calls ob \<longleftrightarrow> is_call ob"
| "on_side Responses ob \<longleftrightarrow> is_result ob \<or> is_error ob"

fun payload_ok :: "json \<Rightarrow> bool" where
  "payload_ok (JObj ob) \<longleftrightarrow> (\<exists>s. on_side s ob)"
| "payload_ok (JArr items) \<longleftrightarrow>
     items \<noteq> [] \<and> (\<exists>s. \<forall>x\<in>set items. case json_as_object x of Some ob \<Rightarrow> on_side s ob | None \<Rightarrow> False)"
| "payload_ok _ \<longleftrightarrow> False"

lemma on_side_unique: "on_side s ob \<Longrightarrow> on_side t ob \<Longrightarrow> s = t"
  by (cases s; cases t) (auto simp: is_call_def is_result_def is_error_def)

lemma inspect_version_ok: "inspect_version ob = Inr u \<longleftrightarrow> versioned ob"
proof (cases "map_of ob ''jsonrpc''")
  case (Some v)
  then show ?thesis by (cases v) (auto simp: inspect_version_def versioned_def JSONRPC_VERSION_def)
qed (simp add: inspect_version_def versioned_def)

lemma inspect_method_ok: "inspect_method ob = Inr u \<longleftrightarrow> (\<exists>m. map_of ob ''method'' = Some (JStr m) \<and> m \<noteq> [])"
proof (cases "map_of ob ''method''")
  case (Some v)
  then show ?thesis by (cases v) (auto simp: inspect_method_def)
qed (simp add: inspect_method_def)

lemma inspect_params_ok:
  "inspect_params ob = Inr u
   \<longleftrightarrow> (case map_of ob ''params'' of None \<Rightarrow> True | Some v \<Rightarrow> json_is_object v \<or> json_is_array v)"
  by (cases "map_of ob ''params''") (auto simp: inspect_params_def)

lemma inspect_id_ok:
  "inspect_non_null_id ob ctxt = Inr u \<longleftrightarrow> (\<exists>v. map_of ob ''id'' = Some v \<and> valid_request_id v)"
  by (cases "map_of ob ''id''") (auto simp: inspect_non_null_id_def)

lemma inspect_error_id_ok:
  "inspect_optional_error_id ob = Inr u
   \<longleftrightarrow> (case map_of ob ''id'' of None \<Rightarrow> True | Some v \<Rightarrow> v = JNull \<or> valid_request_id v)"
  by (cases "map_of ob ''id''") (auto simp: inspect_optional_error_id_def)

lemmas member_checks = inspect_version_ok inspect_method_ok inspect_params_ok inspect_id_ok inspect_error_id_ok

text \<open>The call an object holds.\<close>

definition object_call :: "json_object \<Rightarrow> (string \<times> json option \<times> call_kind) option" where
  "object_call ob = (case map_of ob ''method'' of
     Some (JStr m) \<Rightarrow>
       Some (m, map_of ob ''params'', if map_of ob ''id'' = None then NotificationCall else RequestCall)
   | _ \<Rightarrow> None)"

lemma envelope_of_call:
  "map_of ob ''method'' \<noteq> None \<Longrightarrow>
   inspect_envelope pe ob = Inr e \<longleftrightarrow> is_call ob \<and>
     e = (let m = the (json_as_str (the (map_of ob ''method''))) in
          case map_of ob ''id'' of
            Some v \<Rightarrow> EnvRequest \<lparr>jr_jsonrpc = JSONRPC_VERSION, jr_id = the (request_id_from_json v),
              jr_method = m, jr_params = map_of ob ''params''\<rparr>
          | None \<Rightarrow> EnvNotification \<lparr>jn_method = m, jn_params = map_of ob ''params''\<rparr>)"
  by (cases "map_of ob ''id''")
     (auto simp: inspect_envelope_def is_call_def result_bind_Inr_iff member_checks Let_def split: if_splits)

lemma envelope_of_result:
  "map_of ob ''method'' = None \<Longrightarrow> map_of ob ''result'' \<noteq> None \<Longrightarrow>
   inspect_envelope pe ob = Inr e \<longleftrightarrow> is_result ob \<and>
     e = EnvResult (the (request_id_from_json (the (map_of ob ''id'')))) (the (map_of ob ''result''))"
  by (auto simp: inspect_envelope_def is_result_def result_bind_Inr_iff member_checks Let_def split: if_splits)

lemma envelope_of_error:
  assumes "map_of ob ''method'' = None" "map_of ob ''result'' = None" "map_of ob ''error'' = Some d"
  shows "inspect_envelope pe ob = Inr e \<longleftrightarrow> is_error ob \<and>
     e = EnvError (Option.bind (map_of ob ''id'') request_id_from_json) (the (read_error_object d))"
  using assms
  by (cases "read_error_object d")
     (auto simp: inspect_envelope_def is_error_def result_bind_Inr_iff member_checks Let_def)

lemma envelope_of_nothing:
  "map_of ob ''method'' = None \<Longrightarrow> map_of ob ''result'' = None \<Longrightarrow> map_of ob ''error'' = None \<Longrightarrow>
   \<not> (\<exists>e. inspect_envelope pe ob = Inr e) \<and> \<not> on_side s ob"
  by (cases s) (auto simp: inspect_envelope_def result_bind_Inr_iff Let_def is_call_def is_result_def is_error_def)

lemma envelope_side:
  assumes "inspect_envelope pe ob = Inr e"
  shows "on_side (batch_kind e) ob \<and> call_of e = (if batch_kind e = Calls then object_call ob else None)"
proof (cases "map_of ob ''method''")
  case (Some v)
  then have "is_call ob" and e: "e = (let m = the (json_as_str (the (map_of ob ''method''))) in
          case map_of ob ''id'' of
            Some v \<Rightarrow> EnvRequest \<lparr>jr_jsonrpc = JSONRPC_VERSION, jr_id = the (request_id_from_json v),
              jr_method = m, jr_params = map_of ob ''params''\<rparr>
          | None \<Rightarrow> EnvNotification \<lparr>jn_method = m, jn_params = map_of ob ''params''\<rparr>)"
    using envelope_of_call [of ob pe e] assms by auto
  then obtain m where "map_of ob ''method'' = Some (JStr m)" by (auto simp: is_call_def)
  then show ?thesis
    using \<open>is_call ob\<close> unfolding e by (cases "map_of ob ''id''") (simp_all add: object_call_def)
next
  case None
  show ?thesis
  proof (cases "map_of ob ''result''")
    case (Some v)
    then show ?thesis using assms envelope_of_result [OF None, of pe e] by auto
  next
    case no_result: None
    show ?thesis
    proof (cases "map_of ob ''error''")
      case (Some d)
      then show ?thesis using assms envelope_of_error [OF None no_result Some, of pe e] by auto
    next
      case no_error: None
      then show ?thesis using assms envelope_of_nothing [OF None no_result no_error] by blast
    qed
  qed
qed

lemma side_envelope:
  assumes "on_side s ob"
  shows "\<exists>e. inspect_envelope pe ob = Inr e \<and> batch_kind e = s"
proof -
  have "\<exists>e. inspect_envelope pe ob = Inr e"
  proof (cases s)
    case Calls
    then have "is_call ob" using assms by simp
    then show ?thesis using envelope_of_call [of ob pe] by (auto simp: is_call_def)
  next
    case Responses
    then have "is_result ob \<or> is_error ob" using assms by simp
    then show ?thesis
      using envelope_of_result [of ob pe] envelope_of_error [of ob _ pe]
      by (auto simp: is_result_def is_error_def)
  qed
  then show ?thesis using envelope_side assms on_side_unique by blast
qed

lemma members_accepted:
  "inspect_members pe n k items = Inr (k', es) \<Longrightarrow>
   list_all2 (\<lambda>x e. \<exists>ob. x = JObj ob \<and> inspect_envelope pe ob = Inr e) items es
   \<and> (k = Some s \<or> items \<noteq> [] \<longrightarrow> (\<exists>t. k' = Some t \<and> (k = None \<or> k = Some t) \<and> (\<forall>e\<in>set es. batch_kind e = t)))"
proof (induction pe n k items arbitrary: k' es s rule: inspect_members.induct)
  case (2 pe index kind item items)
  obtain ob e where item: "item = JObj ob" "inspect_envelope pe ob = Inr e"
    using "2.prems" by (cases item) (auto split: sum.splits)
  have same: "kind = None \<or> kind = Some (batch_kind e)"
    using "2.prems" item by (cases kind) (auto simp: Let_def split: if_splits)
  then obtain es' where rest: "inspect_members pe (Suc index) (Some (batch_kind e)) items = Inr (k', es')" "es = e # es'"
    using "2.prems" item by (auto simp: result_bind_Inr_iff Let_def split: option.splits if_splits)
  have "list_all2 (\<lambda>x e. \<exists>ob. x = JObj ob \<and> inspect_envelope pe ob = Inr e) items es'
      \<and> k' = Some (batch_kind e) \<and> (\<forall>x\<in>set es'. batch_kind x = batch_kind e)"
    using same
  proof
    assume k: "kind = None"
    show ?thesis using "2.IH"(1) [OF _ item(2) refl k rest(1), of "batch_kind e"] item by auto
  next
    assume k: "kind = Some (batch_kind e)"
    show ?thesis using "2.IH"(2) [OF _ item(2) refl k, of k' es' "batch_kind e"] item rest(1) k by auto
  qed
  then show ?case using item rest(2) same by auto
qed auto

lemma members_one_side:
  "(k = None \<or> k = Some s) \<Longrightarrow> \<forall>x\<in>set items. case json_as_object x of Some ob \<Rightarrow> on_side s ob | None \<Rightarrow> False
   \<Longrightarrow> result_ok (inspect_members pe n k items)"
proof (induction items arbitrary: n k)
  case (Cons x items)
  obtain ob where x: "json_as_object x = Some ob" "on_side s ob"
    using Cons.prems by (auto split: option.splits)
  obtain e where e: "inspect_envelope pe ob = Inr e" "batch_kind e = s" using side_envelope [OF x(2)] by blast
  have "result_ok (inspect_members pe (Suc n) (Some s) items)" using Cons.IH Cons.prems by auto
  then obtain k' es where "inspect_members pe (Suc n) (Some s) items = Inr (k', es)"
    by (auto simp: result_ok_iff)
  then show ?case using Cons.prems(1) x e by (auto simp: Let_def)
qed simp

lemma list_all2_member: "list_all2 P xs ys \<Longrightarrow> x \<in> set xs \<Longrightarrow> \<exists>y\<in>set ys. P x y"
  by (induction rule: list_all2_induct) auto

lemma json_as_object_Some: "json_as_object x = Some ob \<longleftrightarrow> x = JObj ob"
  by (cases x) auto

lemma batch_accepted:
  assumes "inspect_batch pe items = Inr b"
  shows "items \<noteq> [] \<and> (\<forall>e\<in>set (jb_messages b). batch_kind e = jb_kind b)
    \<and> list_all2 (\<lambda>x e. \<exists>ob. x = JObj ob \<and> inspect_envelope pe ob = Inr e) items (jb_messages b)"
proof -
  obtain k es where m: "items \<noteq> []" "inspect_members pe 0 None items = Inr (k, es)"
      "b = \<lparr>jb_kind = the k, jb_messages = es\<rparr>"
    using assms by (auto simp: inspect_batch_def result_bind_Inr_iff split: if_splits)
  show ?thesis using members_accepted [OF m(2)] m(1,3) by auto
qed

lemma payload_exact: "result_ok (inspect_json_rpc pe v) \<longleftrightarrow> payload_ok v"
proof (cases v)
  case (JObj ob)
  then show ?thesis
    using envelope_side [of pe ob] side_envelope [of _ ob pe] by (auto simp: result_ok_iff result_bind_Inr_iff)
next
  case (JArr items)
  show ?thesis
  proof
    assume "result_ok (inspect_json_rpc pe v)"
    then obtain b where b: "inspect_batch pe items = Inr b"
      using JArr by (auto simp: result_ok_iff result_bind_Inr_iff)
    have "\<exists>ob. x = JObj ob \<and> on_side (jb_kind b) ob" if x: "x \<in> set items" for x
    proof -
      obtain e ob where "e \<in> set (jb_messages b)" "x = JObj ob" "inspect_envelope pe ob = Inr e"
        using list_all2_member [of _ items "jb_messages b", OF _ x] batch_accepted [OF b] by blast
      then show ?thesis using envelope_side batch_accepted [OF b] by metis
    qed
    then show "payload_ok v" using JArr batch_accepted [OF b] by (auto simp: json_as_object_Some split: option.splits)
  next
    assume "payload_ok v"
    then obtain s where "items \<noteq> []"
        "\<forall>x\<in>set items. case json_as_object x of Some ob \<Rightarrow> on_side s ob | None \<Rightarrow> False"
      using JArr by auto
    then show "result_ok (inspect_json_rpc pe v)"
      using members_one_side [of None s items pe 0] JArr by (auto simp: inspect_batch_def result_ok_iff)
  qed
qed simp_all

section \<open>What a revision admits\<close>

text \<open>A call the selected revision defines: its kind, its direction, its parameters.\<close>

definition call_admitted ::
  "params_env \<Rightarrow> mcp_revision \<Rightarrow> mcp_direction option \<Rightarrow> bool \<Rightarrow> string \<times> json option \<times> call_kind \<Rightarrow> bool" where
  "call_admitted pe r direction in_batch call =
     (case call of (m, params, kind) \<Rightarrow>
       (case method_rule m of
          None \<Rightarrow> True
        | Some rule \<Rightarrow>
            \<not> available_in rule r
          \<or> (kind = mr_kind rule
             \<and> (case direction of Some d \<Rightarrow> rule_allows rule r d | None \<Rightarrow> True)
             \<and> \<not> (in_batch \<and> m = ''initialize'')
             \<and> result_ok (validate_params pe rule r params))))"

lemma inspect_call_ok: "result_ok (inspect_call pe r d i b call) \<longleftrightarrow> call_admitted pe r d b call"
proof -
  obtain m params kind where call: "call = (m, params, kind)" by (cases call)
  show ?thesis
  proof (cases "method_rule m")
    case (Some rule)
    then show ?thesis
      unfolding call
      by (cases "validate_params pe rule r params")
         (auto simp: inspect_call_def call_admitted_def Let_def split: option.splits)
  qed (simp add: call inspect_call_def call_admitted_def)
qed

definition envelope_admitted :: "params_env \<Rightarrow> mcp_revision \<Rightarrow> mcp_direction option \<Rightarrow> bool \<Rightarrow> json_rpc_envelope \<Rightarrow> bool" where
  "envelope_admitted pe r d b e = (case call_of e of None \<Rightarrow> True | Some call \<Rightarrow> call_admitted pe r d b call)"

lemma inspect_mcp_envelope_ok:
  "result_ok (inspect_mcp_envelope pe r d i b e) \<longleftrightarrow> envelope_admitted pe r d b e"
proof (cases "call_of e")
  case (Some call)
  then show ?thesis
    using inspect_call_ok [of pe r d i b call]
    by (cases "inspect_call pe r d i b call") (simp_all add: inspect_mcp_envelope_def envelope_admitted_def)
qed (simp add: inspect_mcp_envelope_def envelope_admitted_def)

lemma inspect_mcp_members_ok:
  "result_ok (inspect_mcp_members pe r d i es) \<longleftrightarrow> (\<forall>e\<in>set es. envelope_admitted pe r d True e)"
proof (induction es arbitrary: i)
  case (Cons e es)
  then show ?case
    using inspect_mcp_envelope_ok [of pe r d "Some i" True e] Cons.IH [of "Suc i"]
    by (cases "inspect_mcp_envelope pe r d (Some i) True e"; cases "inspect_mcp_members pe r d (Suc i) es") simp_all
qed simp

text \<open>The calls of a payload.\<close>

definition value_members :: "json \<Rightarrow> json list" where
  "value_members v = (case v of JArr items \<Rightarrow> items | _ \<Rightarrow> [v])"

definition member_call :: "json \<Rightarrow> (string \<times> json option \<times> call_kind) option" where
  "member_call x = Option.bind (json_as_object x) object_call"

lemma object_call_side: "on_side s ob \<Longrightarrow> object_call ob \<noteq> None \<longleftrightarrow> s = Calls"
  by (cases s) (auto simp: object_call_def is_call_def is_result_def is_error_def)

lemma envelope_call:
  assumes "inspect_envelope pe ob = Inr e"
  shows "call_of e = object_call ob"
proof (cases "batch_kind e = Calls")
  case True
  then show ?thesis using envelope_side [OF assms] by simp
next
  case False
  then show ?thesis using envelope_side [OF assms] object_call_side [of "batch_kind e" ob] by metis
qed

lemma calls_admitted:
  "(\<forall>e\<in>set es. envelope_admitted pe r d b e)
   \<longleftrightarrow> (\<forall>call. Some call \<in> call_of ` set es \<longrightarrow> call_admitted pe r d b call)"
proof -
  have "envelope_admitted pe r d b e \<longleftrightarrow> (\<forall>call. Some call = call_of e \<longrightarrow> call_admitted pe r d b call)" for e
    by (cases "call_of e") (simp_all add: envelope_admitted_def)
  then show ?thesis by blast
qed

lemma members_calls:
  "list_all2 (\<lambda>x e. \<exists>ob. x = JObj ob \<and> inspect_envelope pe ob = Inr e) items es
   \<Longrightarrow> map call_of es = map member_call items"
  by (induction rule: list_all2_induct) (auto simp: member_call_def envelope_call)

lemma inspection_exact:
  "result_ok (mcp_inspect pe r v d) \<longleftrightarrow>
     payload_ok v \<and> (json_is_array v \<longrightarrow> r = V2025_03_26)
   \<and> (\<forall>call. Some call \<in> member_call ` set (value_members v) \<longrightarrow> call_admitted pe r d (json_is_array v) call)"
proof (cases "inspect_json_rpc pe v")
  case (Inl e)
  then show ?thesis using payload_exact [of pe v] by (simp add: mcp_inspect_def)
next
  case (Inr payload)
  have ok: "payload_ok v" using payload_exact [of pe v] Inr by simp
  show ?thesis
  proof (cases v)
    case (JObj ob)
    then obtain e where e: "payload = SinglePayload e" "inspect_envelope pe ob = Inr e"
      using Inr by (auto simp: result_bind_Inr_iff)
    have "result_ok (mcp_inspect pe r v d) \<longleftrightarrow> envelope_admitted pe r d False e"
      using Inr e inspect_mcp_envelope_ok [of pe r d None False e]
      by (cases "inspect_mcp_envelope pe r d None False e") (simp_all add: mcp_inspect_def inspect_payload_def)
    moreover have "value_members v = [v]" "member_call v = call_of e" "json_is_array v = False"
      using JObj envelope_call [OF e(2)] by (simp_all add: value_members_def member_call_def)
    ultimately show ?thesis
      using ok calls_admitted [of "[e]" pe r d False] by simp
  next
    case (JArr items)
    then obtain b where b: "payload = BatchPayload b" "inspect_batch pe items = Inr b"
      using Inr by (auto simp: result_bind_Inr_iff)
    have calls: "call_of ` set (jb_messages b) = member_call ` set items"
    proof -
      have "map call_of (jb_messages b) = map member_call items"
        by (rule members_calls) (use batch_accepted [OF b(2)] in blast)
      then show ?thesis by (metis list.set_map)
    qed
    have "result_ok (mcp_inspect pe r v d) \<longleftrightarrow>
        r = V2025_03_26 \<and> (\<forall>e\<in>set (jb_messages b). envelope_admitted pe r d True e)"
      using Inr b(1) inspect_mcp_members_ok [of pe r d 0 "jb_messages b"]
      by (cases "r = V2025_03_26"; cases "inspect_mcp_members pe r d 0 (jb_messages b)")
         (simp_all add: mcp_inspect_def inspect_payload_def)
    moreover have "(\<forall>e\<in>set (jb_messages b). envelope_admitted pe r d True e)
        \<longleftrightarrow> (\<forall>call. Some call \<in> call_of ` set (jb_messages b) \<longrightarrow> call_admitted pe r d True call)"
      unfolding calls_admitted ..
    ultimately show ?thesis using ok JArr calls by (simp add: value_members_def)
  qed (use Inr in simp_all)
qed

text \<open>\<open>METHOD_RULES\<close> has one rule per name, and no revision lets both kinds through.\<close>

lemma method_rules_distinct: "distinct (map mr_name METHOD_RULES)"
  by code_simp

lemma initialize_rule:
  "method_rule ''initialize'' = Some (request_rule ''initialize'' LEGACY_REVISIONS 0 LEGACY_REVISIONS VInitialize)
   \<and> available_in (request_rule ''initialize'' LEGACY_REVISIONS 0 LEGACY_REVISIONS VInitialize) V2025_03_26"
  by code_simp

lemma modern_meta_required:
  "result_ok (validate_2026_request_meta pe params) \<longleftrightarrow>
     (\<exists>v meta caps. json_get params ''_meta'' = Some v \<and> pe_meta pe v = Inr meta
       \<and> sm_protocol_version meta = Some PROTOCOL_VERSION_2026_07_28 \<and> sm_client_capabilities meta = Some caps)"
proof (cases "json_get params ''_meta''")
  case (Some v)
  then show ?thesis
    by (cases "pe_meta pe v")
       (auto simp: validate_2026_request_meta_def validate_for_version_def PROTOCOL_VERSION_2026_07_28_def
         split: sum.splits if_splits)
qed (simp add: validate_2026_request_meta_def)

lemma params_accepted:
  "result_ok (validate_params pe rule r params) \<longleftrightarrow>
     (params \<noteq> None \<or> \<not> requires_params rule r)
   \<and> json_is_object (case params of Some p \<Rightarrow> p | None \<Rightarrow> JObj [])
   \<and> result_ok (run_validator pe (mr_validator rule) r (case params of Some p \<Rightarrow> p | None \<Rightarrow> JObj []))
   \<and> (r = V2026_07_28 \<and> mr_kind rule = RequestCall \<longrightarrow>
       result_ok (validate_2026_request_meta pe (case params of Some p \<Rightarrow> p | None \<Rightarrow> JObj [])))"
  by (cases "run_validator pe (mr_validator rule) r (case params of Some p \<Rightarrow> p | None \<Rightarrow> JObj [])")
     (auto simp: validate_params_def Let_def)

lemma batch_without_initialize:
  assumes "result_ok (mcp_inspect pe r (JArr items) d)"
  shows "r = V2025_03_26 \<and> (\<forall>x\<in>set items. \<forall>m params kind. member_call x = Some (m, params, kind) \<longrightarrow> m \<noteq> ''initialize'')"
proof -
  have "json_is_array (JArr items)" "value_members (JArr items) = items" by (simp_all add: value_members_def)
  then have r: "r = V2025_03_26" and a: "\<And>call. Some call \<in> member_call ` set items \<Longrightarrow> call_admitted pe r d True call"
    using iffD1 [OF inspection_exact assms] by metis+
  have "\<not> call_admitted pe r d True (''initialize'', params, kind)" for params kind
    using initialize_rule r by (simp add: call_admitted_def)
  then show ?thesis using r a by (metis imageI)
qed

section \<open>Properties\<close>

text \<open>
  The structural inspection accepts exactly the JSON-RPC payloads: an object that is a request, a
  notification, a result or an error, or a non-empty array of such objects that are all calls or all
  responses; the members of an accepted batch are all on the side the batch names.
\<close>

theorem json_rpc_inspection_exact:
  "(result_ok (inspect_json_rpc pe v) \<longleftrightarrow> payload_ok v)
   \<and> (inspect_json_rpc pe v = Inr (BatchPayload b) \<longrightarrow>
       jb_messages b \<noteq> [] \<and> (\<forall>e\<in>set (jb_messages b). batch_kind e = jb_kind b))"
proof -
  have "jb_messages b \<noteq> [] \<and> (\<forall>e\<in>set (jb_messages b). batch_kind e = jb_kind b)"
    if i: "inspect_json_rpc pe v = Inr (BatchPayload b)"
  proof -
    obtain items where "inspect_batch pe items = Inr b"
      using i by (cases v) (auto simp: result_bind_Inr_iff)
    then show ?thesis using batch_accepted list_all2_lengthD by fastforce
  qed
  then show ?thesis using payload_exact by blast
qed

definition demo_params :: params_env where
  "demo_params = \<lparr>
     pe_envelope_error = (\<lambda>_. ''invalid type''),
     pe_decode = (\<lambda>_ _. Inr ()),
     pe_meta = (\<lambda>v. Inr \<lparr>sm_protocol_version = Option.bind (json_get v META_PROTOCOL_VERSION) json_as_str,
       sm_client_capabilities = map_option (\<lambda>_. no_capabilities) (json_get v META_CLIENT_CAPABILITIES)\<rparr>)\<rparr>"

definition demo_ping :: json where
  "demo_ping = JObj [(''jsonrpc'', JStr ''2.0''), (''id'', JNum (NInt 1)), (''method'', JStr ''ping'')]"

definition demo_answer :: "json \<Rightarrow> json" where
  "demo_answer e = JObj [(''jsonrpc'', JStr ''2.0''), (''id'', JNum (NInt 1)), (''error'', e)]"

text \<open>The array form of an error object is accepted as well.\<close>

lemma json_rpc_inspection_exact_witness:
  "payload_ok (JArr [demo_ping, demo_ping]) \<and> \<not> payload_ok (JArr [demo_ping, demo_answer (JArr [])])
   \<and> payload_ok (demo_answer (JArr [JNum (NInt (-32000)), JStr ''no'', JNull]))
   \<and> batch_kind (EnvNotification \<lparr>jn_method = ''x'', jn_params = None\<rparr>) = Calls"
proof -
  let ?e = "EnvNotification \<lparr>jn_method = ''x'', jn_params = None\<rparr>"
  have "inspect_json_rpc demo_params (JArr [JObj [(''jsonrpc'', JStr ''2.0''), (''method'', JStr ''x'')]])
      = Inr (BatchPayload \<lparr>jb_kind = Calls, jb_messages = [?e]\<rparr>)" by code_simp
  then have "batch_kind ?e = Calls"
    using json_rpc_inspection_exact [of demo_params _ "\<lparr>jb_kind = Calls, jb_messages = [?e]\<rparr>"] by force
  moreover have "result_ok (inspect_json_rpc demo_params (JArr [demo_ping, demo_ping]))" by code_simp
  moreover have "\<not> result_ok (inspect_json_rpc demo_params (JArr [demo_ping, demo_answer (JArr [])]))" by code_simp
  moreover have "result_ok (inspect_json_rpc demo_params (demo_answer (JArr [JNum (NInt (-32000)), JStr ''no'', JNull])))"
    by code_simp
  ultimately show ?thesis unfolding payload_exact by blast
qed

text \<open>
  C25: against one revision the inspector accepts a value exactly when it is a well formed payload, a
  batch only under 2025-03-26, and every call in it is of no revision, of another revision, or one this
  revision defines in that kind and direction, not \<open>initialize\<close> in a batch, with parameters
  that decode; a request of 2026-07-28 then carries its version and the client's capabilities.
\<close>

theorem mcp_inspection_exact:
  "(result_ok (mcp_inspect pe r v d) \<longleftrightarrow>
      payload_ok v \<and> (json_is_array v \<longrightarrow> r = V2025_03_26)
    \<and> (\<forall>call. Some call \<in> member_call ` set (value_members v) \<longrightarrow> call_admitted pe r d (json_is_array v) call))
   \<and> (call_admitted pe V2026_07_28 d b (m, params, RequestCall) \<and> method_rule m = Some rule
       \<and> available_in rule V2026_07_28 \<longrightarrow>
      (\<exists>p v meta. params = Some p \<and> json_get p ''_meta'' = Some v \<and> pe_meta pe v = Inr meta
        \<and> sm_protocol_version meta = Some PROTOCOL_VERSION_2026_07_28 \<and> sm_client_capabilities meta \<noteq> None))"
proof -
  have "\<exists>p v meta. params = Some p \<and> json_get p ''_meta'' = Some v \<and> pe_meta pe v = Inr meta
        \<and> sm_protocol_version meta = Some PROTOCOL_VERSION_2026_07_28 \<and> sm_client_capabilities meta \<noteq> None"
    if a: "call_admitted pe V2026_07_28 d b (m, params, RequestCall)" "method_rule m = Some rule"
      "available_in rule V2026_07_28"
  proof -
    have "result_ok (validate_2026_request_meta pe (case params of Some p \<Rightarrow> p | None \<Rightarrow> JObj []))"
      using a by (simp add: call_admitted_def params_accepted)
    then show ?thesis unfolding modern_meta_required by (cases params) auto
  qed
  then show ?thesis using inspection_exact by blast
qed

definition demo_modern :: "string \<Rightarrow> json" where
  "demo_modern m = JObj [(''jsonrpc'', JStr ''2.0''), (''id'', JNum (NInt 1)), (''method'', JStr m),
     (''params'', JObj [(''_meta'', JObj [(META_PROTOCOL_VERSION, JStr ''2026-07-28''),
       (META_CLIENT_CAPABILITIES, JObj [])])])]"

lemma mcp_inspection_exact_witness:
  "call_admitted demo_params V2026_07_28 (Some ClientToServer) False
     (''tools/list'', Some (JObj [(''_meta'', JObj [(META_PROTOCOL_VERSION, JStr ''2026-07-28''),
       (META_CLIENT_CAPABILITIES, JObj [])])]), RequestCall)
   \<and> \<not> result_ok (mcp_inspect demo_params V2025_11_25 (JArr [demo_ping]) (Some ClientToServer))
   \<and> result_ok (mcp_inspect demo_params V2025_03_26 (JArr [demo_ping]) (Some ClientToServer))
   \<and> \<not> result_ok (mcp_inspect demo_params V2025_11_25 (demo_modern ''sampling/createMessage'') (Some ClientToServer))"
proof -
  have "result_ok (mcp_inspect demo_params V2026_07_28 (demo_modern ''tools/list'') (Some ClientToServer))"
    by code_simp
  moreover have "member_call (demo_modern ''tools/list'') = Some (''tools/list'', Some (JObj [(''_meta'',
       JObj [(META_PROTOCOL_VERSION, JStr ''2026-07-28''), (META_CLIENT_CAPABILITIES, JObj [])])]), RequestCall)"
    by code_simp
  moreover have "value_members (demo_modern ''tools/list'') = [demo_modern ''tools/list'']"
      "\<not> json_is_array (demo_modern ''tools/list'')" by code_simp+
  ultimately have "call_admitted demo_params V2026_07_28 (Some ClientToServer) False
     (''tools/list'', Some (JObj [(''_meta'', JObj [(META_PROTOCOL_VERSION, JStr ''2026-07-28''),
       (META_CLIENT_CAPABILITIES, JObj [])])]), RequestCall)"
    using mcp_inspection_exact [of demo_params V2026_07_28 "demo_modern ''tools/list''"] by force
  moreover have "\<not> result_ok (mcp_inspect demo_params V2025_11_25 (JArr [demo_ping]) (Some ClientToServer))"
    by code_simp
  moreover have "result_ok (mcp_inspect demo_params V2025_03_26 (JArr [demo_ping]) (Some ClientToServer))"
    by code_simp
  moreover have "\<not> result_ok (mcp_inspect demo_params V2025_11_25
      (demo_modern ''sampling/createMessage'') (Some ClientToServer))" by code_simp
  ultimately show ?thesis by blast
qed

end
