(* ===== verification/JsonRpcService.thy ===== *)
theory JsonRpcService
  imports Inspection TraceContext
begin

text \<open>
  The JSON-RPC service around the router (\<open>jsonrpc.rs\<close>) with the protocol policy
  (\<open>protocol_support.rs\<close>): which revision a value is read under, what reaches the router,
  what is answered for it, and batches whose members are polled in any order.  The router is an
  argument; what the service needs of it is the locale \<open>answering_service\<close>, interpreted on
  the wrapper \<open>McpRouter::call\<close>.
\<close>

section \<open>Protocol support\<close>

definition SUPPORTED_PROTOCOL_VERSIONS :: "string list" where
  "SUPPORTED_PROTOCOL_VERSIONS = [''2025-11-25'', ''2025-06-18'', ''2025-03-26'']"

definition COMPILED_PROTOCOL_VERSIONS :: "string list" where
  "COMPILED_PROTOCOL_VERSIONS =
     [PROTOCOL_VERSION_2026_07_28, ''2025-11-25'', ''2025-06-18'', ''2025-03-26'']"

definition is_protocol_version_compiled :: "string \<Rightarrow> bool" where
  "is_protocol_version_compiled version \<longleftrightarrow> version \<in> set COMPILED_PROTOCOL_VERSIONS"

datatype protocol_support_error = NoVersion | NotCompiled string "string list" | DuplicateVersion string

record protocol_support =
  ps_versions :: "string list"

definition support_compiled :: protocol_support where
  "support_compiled = \<lparr>ps_versions = COMPILED_PROTOCOL_VERSIONS\<rparr>"

definition support_stable :: protocol_support where
  "support_stable = \<lparr>ps_versions = SUPPORTED_PROTOCOL_VERSIONS\<rparr>"

fun configure_versions ::
  "string list \<Rightarrow> string list \<Rightarrow> string list \<Rightarrow> protocol_support_error + string list" where
  "configure_versions seen configured [] = Inr configured"
| "configure_versions seen configured (v # vs) =
     (if \<not> is_protocol_version_compiled v then Inl (NotCompiled v COMPILED_PROTOCOL_VERSIONS)
      else if v \<in> set seen then Inl (DuplicateVersion v)
      else configure_versions (v # seen) (configured @ [v]) vs)"

definition try_new_support :: "string list \<Rightarrow> protocol_support_error + protocol_support" where
  "try_new_support versions =
     result_bind (configure_versions [] [] versions)
       (\<lambda>configured. if configured = [] then Inl NoVersion else Inr \<lparr>ps_versions = configured\<rparr>)"

definition support_contains :: "protocol_support \<Rightarrow> string \<Rightarrow> bool" where
  "support_contains ps version \<longleftrightarrow> list_ex (\<lambda>c. c = version) (ps_versions ps)"

definition support_preferred :: "protocol_support \<Rightarrow> string" where
  "support_preferred ps = ps_versions ps ! 0"

section \<open>Errors\<close>

definition invalid_request :: "string \<Rightarrow> json_rpc_error" where
  "invalid_request msg = json_rpc_error_new InvalidRequest msg"

text \<open>\<open>McpErrorCode::UnsupportedProtocolVersion\<close> is -32022.\<close>

definition unsupported_protocol_version :: "string \<Rightarrow> string list \<Rightarrow> json_rpc_error" where
  "unsupported_protocol_version requested supported =
     \<lparr>e_code = - 32022,
      e_message = ''Unsupported protocol version: '' @ requested @ '' (supported: ''
        @ join_commas supported @ '')'',
      e_data = Some (JObj [(''supported'', JArr (map JStr supported)), (''requested'', JStr requested)])\<rparr>"

definition inspection_error_to_json_rpc :: "mcp_error \<Rightarrow> json_rpc_error" where
  "inspection_error_to_json_rpc e =
     (case me_kind e of
        MissingParams \<Rightarrow> invalid_params (me_detail e)
      | InvalidParameters \<Rightarrow> invalid_params (me_detail e)
      | UnsupportedProfile \<Rightarrow> unsupported_protocol_version
          (case me_revision e of Some r \<Rightarrow> r | None \<Rightarrow> ''unknown'') MCP_INSPECTION_PROFILES
      | _ \<Rightarrow> invalid_request (me_detail e))"

section \<open>Requests and their extensions\<close>

text \<open>
  The entries of the type map the service reads or writes; \<open>xs_tracked\<close> says that a
  \<open>PeerCancelled\<close> is present.
\<close>

record service_extensions =
  xs_request :: request_extensions
  xs_support :: "protocol_support option"
  xs_revision :: "mcp_revision option"
  xs_trace :: "trace_context option"
  xs_tracked :: bool

record jsonrpc_service =
  sv_extensions :: service_extensions
  sv_support :: protocol_support

definition effective_support :: "service_extensions \<Rightarrow> protocol_support \<Rightarrow> protocol_support" where
  "effective_support ext configured = (case xs_support ext of Some s \<Rightarrow> s | None \<Rightarrow> configured)"

datatype json_rpc_response = RespResult request_id json | RespError "request_id option" json_rpc_error

fun response_id :: "json_rpc_response \<Rightarrow> request_id option" where
  "response_id (RespResult i _) = Some i"
| "response_id (RespError i _) = i"

definition jsonrpc_validate :: "json_rpc_request \<Rightarrow> json_rpc_error + unit" where
  "jsonrpc_validate q =
     (if jr_jsonrpc q \<noteq> JSONRPC_VERSION then
        Inl (invalid_request (''Invalid JSON-RPC version: expected '' @ [CHR 0x27] @ JSONRPC_VERSION
          @ [CHR 0x27] @ '', got '' @ [CHR 0x27] @ jr_jsonrpc q @ [CHR 0x27]))
      else Inr ())"

text \<open>The serialized request.\<close>

definition request_json :: "json_rpc_request \<Rightarrow> json" where
  "request_json q = JObj ([(''jsonrpc'', JStr (jr_jsonrpc q)), (''id'', request_id_to_json (jr_id q)),
     (''method'', JStr (jr_method q))]
     @ (case jr_params q of None \<Rightarrow> [] | Some p \<Rightarrow> [(''params'', p)]))"

text \<open>\<open>/params/_meta/io.modelcontextprotocol~1protocolVersion\<close>\<close>

definition declared_version :: "json \<Rightarrow> string option" where
  "declared_version v =
     Option.bind (Option.bind (Option.bind (json_get v ''params'') (\<lambda>p. json_get p ''_meta''))
       (\<lambda>m. json_get m META_PROTOCOL_VERSION)) json_as_str"

section \<open>The revision of a value\<close>

definition allowed_revision :: "string \<Rightarrow> protocol_support \<Rightarrow> json_rpc_error + mcp_revision" where
  "allowed_revision version ps =
     (if \<not> support_contains ps version then Inl (unsupported_protocol_version version (ps_versions ps))
      else case revision_from_str version of
          Inr r \<Rightarrow> Inr r
        | Inl _ \<Rightarrow> Inl (unsupported_protocol_version version (ps_versions ps)))"

definition first_legacy :: "protocol_support \<Rightarrow> string option" where
  "first_legacy ps = find (\<lambda>v. v \<in> set SUPPORTED_PROTOCOL_VERSIONS) (ps_versions ps)"

definition initialize_revision :: "json \<Rightarrow> protocol_support \<Rightarrow> json_rpc_error + mcp_revision" where
  "initialize_revision v ps =
     (let requested = Option.bind (Option.bind (json_get v ''params'') (\<lambda>p. json_get p ''protocolVersion'')) json_as_str;
          selected = (case requested of
              Some version \<Rightarrow>
                if version \<in> set SUPPORTED_PROTOCOL_VERSIONS \<and> support_contains ps version
                then Some version else first_legacy ps
            | None \<Rightarrow> first_legacy ps)
      in case selected of
           None \<Rightarrow> Inl (unsupported_protocol_version
             (case requested of Some s \<Rightarrow> s | None \<Rightarrow> ''unknown'') (ps_versions ps))
         | Some version \<Rightarrow> allowed_revision version ps)"

definition connection_revision ::
  "service_extensions \<Rightarrow> protocol_support \<Rightarrow> mcp_revision option \<Rightarrow> json \<Rightarrow> json_rpc_error + mcp_revision" where
  "connection_revision ext ps negotiated v =
     (case (case xs_revision ext of Some r \<Rightarrow> Some r | None \<Rightarrow> negotiated) of
        Some r \<Rightarrow>
          if support_contains ps (revision_as_str r) then Inr r
          else Inl (unsupported_protocol_version (revision_as_str r) (ps_versions ps))
      | None \<Rightarrow>
          if length (ps_versions ps) = 1 then allowed_revision (support_preferred ps) ps
          else if json_is_array v then
            Inl (invalid_request ''Cannot determine the exact MCP revision for a batch before protocol negotiation'')
          else case first_legacy ps of
              None \<Rightarrow> Inl (invalid_request
                ''Request does not declare an MCP revision and no legacy revision is enabled'')
            | Some version \<Rightarrow> allowed_revision version ps)"

fun json_items :: "json \<Rightarrow> json list" where
  "json_items (JArr items) = items"
| "json_items _ = []"

definition resolve_revision ::
  "service_extensions \<Rightarrow> protocol_support \<Rightarrow> mcp_revision option \<Rightarrow> json \<Rightarrow> json_rpc_error + mcp_revision" where
  "resolve_revision ext ps negotiated v =
     (case List.map_filter declared_version (json_items v) of
        version # declared \<Rightarrow>
          if list_ex (\<lambda>c. c \<noteq> version) declared then
            Inl (invalid_request ''A JSON-RPC batch cannot mix MCP protocol revisions'')
          else allowed_revision version ps
      | [] \<Rightarrow>
          (case declared_version v of
             Some version \<Rightarrow> allowed_revision version ps
           | None \<Rightarrow>
               if Option.bind (json_get v ''method'') json_as_str = Some ''initialize''
               then initialize_revision v ps
               else connection_revision ext ps negotiated v))"

definition inspect_runtime_value ::
  "params_env \<Rightarrow> json \<Rightarrow> mcp_revision \<Rightarrow> protocol_support \<Rightarrow> mcp_direction \<Rightarrow> json_rpc_error + mcp_inspection" where
  "inspect_runtime_value pe v r ps direction =
     (if \<not> support_contains ps (revision_as_str r) then
        Inl (unsupported_protocol_version (revision_as_str r) (ps_versions ps))
      else case mcp_inspect pe r v (Some direction) of
          Inl e \<Rightarrow> Inl (inspection_error_to_json_rpc e)
        | Inr i \<Rightarrow> Inr i)"

definition inspect_incoming_value ::
  "params_env \<Rightarrow> jsonrpc_service \<Rightarrow> mcp_revision option \<Rightarrow> json \<Rightarrow> mcp_direction \<Rightarrow> json_rpc_error + mcp_inspection" where
  "inspect_incoming_value pe sv negotiated v direction =
     (let ps = effective_support (sv_extensions sv) (sv_support sv) in
      result_bind (resolve_revision (sv_extensions sv) ps negotiated v)
        (\<lambda>r. inspect_runtime_value pe v r ps direction))"

section \<open>The lifecycle of 2026-07-28\<close>

text \<open>
  The third-party parts: the deserializers (\<open>sn_capabilities\<close> and
  \<open>sn_request_meta\<close> for the two structures of \<open>_meta\<close>), the serializer of a
  response, and how a string is shown for debugging.
\<close>

record 'm service_env =
  sn_params :: params_env
  sn_capabilities :: "json \<Rightarrow> bool"
  sn_request_meta :: "json \<Rightarrow> string + stateless_meta"
  sn_response :: "'m \<Rightarrow> string + json"
  sn_debug :: "string \<Rightarrow> string"

definition is_removed_modern_method :: "string \<Rightarrow> bool" where
  "is_removed_modern_method m \<longleftrightarrow> m \<in> {''initialize'', ''notifications/initialized'', ''ping'',
     ''logging/setLevel'', ''resources/subscribe'', ''resources/unsubscribe'', ''notifications/roots/list_changed''}"

text \<open>The metadata of a request that names a protocol version in it.\<close>

definition modern_meta :: "json_rpc_request \<Rightarrow> (json \<times> json_object) option" where
  "modern_meta q = do {
     p \<leftarrow> jr_params q;
     ob \<leftarrow> json_as_object p;
     m \<leftarrow> map_of ob ''_meta'';
     members \<leftarrow> json_as_object m;
     if map_of members META_PROTOCOL_VERSION = None then None else Some (m, members)
   }"

definition prepare_modern_request ::
  "'m service_env \<Rightarrow> json_rpc_request \<Rightarrow> service_extensions \<Rightarrow> protocol_support
   \<Rightarrow> json_rpc_error + service_extensions \<times> string option" where
  "prepare_modern_request en q ext ps =
     (case modern_meta q of
        None \<Rightarrow> Inr (ext, None)
      | Some (meta, members) \<Rightarrow>
          (case validate_meta_object meta of
             Inl e \<Rightarrow> Inl (invalid_params (meta_error_display (sn_debug en) e))
           | Inr _ \<Rightarrow>
          (case Option.bind (map_of members META_PROTOCOL_VERSION) json_as_str of
             None \<Rightarrow> Inl (invalid_params (''Missing or invalid _meta.'' @ META_PROTOCOL_VERSION))
           | Some version \<Rightarrow>
          (case map_of members META_CLIENT_CAPABILITIES of
             None \<Rightarrow> Inl (invalid_params (''Missing _meta.'' @ META_CLIENT_CAPABILITIES))
           | Some caps \<Rightarrow>
               if \<not> json_is_object caps \<or> \<not> sn_capabilities en caps then
                 Inl (invalid_params (''Invalid _meta.'' @ META_CLIENT_CAPABILITIES))
               else if \<not> support_contains ps version then
                 Inl (unsupported_protocol_version version (ps_versions ps))
               else if version = PROTOCOL_VERSION_2026_07_28 \<and> is_removed_modern_method (jr_method q) then
                 Inl (method_not_found (jr_method q))
               else (case sn_request_meta en meta of
                   Inl e \<Rightarrow> Inl (invalid_params e)
                 | Inr parsed \<Rightarrow>
                     Inr (ext\<lparr>xs_request := (xs_request ext)\<lparr>rx_meta := Some parsed\<rparr>\<rparr>, Some version))))))"

text \<open>\<open>ResultType::Complete.stamp_into\<close> and the caching defaults.\<close>

definition version_carries_result_type :: "string \<Rightarrow> bool" where
  "version_carries_result_type version \<longleftrightarrow> version = PROTOCOL_VERSION_2026_07_28"

fun insert_missing :: "string \<Rightarrow> json \<Rightarrow> json \<Rightarrow> json" where
  "insert_missing k v (JObj kvs) = JObj (if map_of kvs k = None then kvs @ [(k, v)] else kvs)"
| "insert_missing k v j = j"

definition stamp_into :: "string \<Rightarrow> json \<Rightarrow> string \<Rightarrow> json" where
  "stamp_into result_type result version =
     (if \<not> version_carries_result_type version then result
      else insert_missing ''resultType'' (JStr result_type) result)"

definition is_cacheable_result_method :: "string \<Rightarrow> bool" where
  "is_cacheable_result_method m \<longleftrightarrow> m \<in> {''server/discover'', ''tools/list'', ''prompts/list'',
     ''resources/list'', ''resources/read'', ''resources/templates/list''}"

definition apply_protocol_result_fields :: "json_rpc_response \<Rightarrow> string \<Rightarrow> string \<Rightarrow> json_rpc_response" where
  "apply_protocol_result_fields response m version =
     (if version \<noteq> PROTOCOL_VERSION_2026_07_28 then response
      else case response of
          RespError i e \<Rightarrow> response
        | RespResult i result \<Rightarrow>
            (let stamped = stamp_into ''complete'' result version in
             RespResult i
               (if \<not> is_cacheable_result_method m then stamped
                else insert_missing ''cacheScope'' (JStr ''private'')
                  (insert_missing ''ttlMs'' (JNum (NInt 0)) stamped))))"

section \<open>The typed request\<close>

text \<open>\<open>McpRequest\<close>, each variant with the value its parameters were read from.\<close>

datatype typed_request =
  Initialize json | ListTools json | CallTool json | ListResources json | ListResourceTemplates json
| ReadResource json | SubscribeResource json | UnsubscribeResource json | ListPrompts json
| GetPrompt json | GetTaskInfo json | UpdateTask json | CancelTask json | Ping
| SetLoggingLevel json | Complete json | Discover json | SubscriptionsListen json
| UnknownRequest string "json option"

fun method_name :: "typed_request \<Rightarrow> string" where
  "method_name (Initialize _) = ''initialize''"
| "method_name (ListTools _) = ''tools/list''"
| "method_name (CallTool _) = ''tools/call''"
| "method_name (ListResources _) = ''resources/list''"
| "method_name (ListResourceTemplates _) = ''resources/templates/list''"
| "method_name (ReadResource _) = ''resources/read''"
| "method_name (SubscribeResource _) = ''resources/subscribe''"
| "method_name (UnsubscribeResource _) = ''resources/unsubscribe''"
| "method_name (ListPrompts _) = ''prompts/list''"
| "method_name (GetPrompt _) = ''prompts/get''"
| "method_name (GetTaskInfo _) = ''tasks/get''"
| "method_name (UpdateTask _) = ''tasks/update''"
| "method_name (CancelTask _) = ''tasks/cancel''"
| "method_name Ping = ''ping''"
| "method_name (SetLoggingLevel _) = ''logging/setLevel''"
| "method_name (Complete _) = ''completion/complete''"
| "method_name (Discover _) = ''server/discover''"
| "method_name (SubscriptionsListen _) = ''subscriptions/listen''"
| "method_name (UnknownRequest m _) = m"

text \<open>\<open>from_value(params)?\<close>, and \<open>unwrap_or_default\<close> with the default as the empty object.\<close>

definition read_strict :: "params_env \<Rightarrow> string \<Rightarrow> (json \<Rightarrow> typed_request) \<Rightarrow> json \<Rightarrow> string + typed_request" where
  "read_strict pe t f params =
     (case pe_decode pe t params of Inl e \<Rightarrow> Inl (''Serialization error: '' @ e) | Inr _ \<Rightarrow> Inr (f params))"

definition read_lenient :: "params_env \<Rightarrow> string \<Rightarrow> (json \<Rightarrow> typed_request) \<Rightarrow> json \<Rightarrow> string + typed_request" where
  "read_lenient pe t f params =
     Inr (f (case pe_decode pe t params of Inl _ \<Rightarrow> JObj [] | Inr _ \<Rightarrow> params))"

definition from_jsonrpc :: "params_env \<Rightarrow> json_rpc_request \<Rightarrow> string + typed_request" where
  "from_jsonrpc pe q =
     (let params = (case jr_params q of Some p \<Rightarrow> p | None \<Rightarrow> JObj []); m = jr_method q in
      if m = ''initialize'' then read_strict pe ''InitializeParams'' Initialize params
      else if m = ''tools/list'' then read_lenient pe ''ListToolsParams'' ListTools params
      else if m = ''tools/call'' then read_strict pe ''CallToolParams'' CallTool params
      else if m = ''resources/list'' then read_lenient pe ''ListResourcesParams'' ListResources params
      else if m = ''resources/templates/list'' then
        read_lenient pe ''ListResourceTemplatesParams'' ListResourceTemplates params
      else if m = ''resources/read'' then read_strict pe ''ReadResourceParams'' ReadResource params
      else if m = ''resources/subscribe'' then read_strict pe ''SubscribeResourceParams'' SubscribeResource params
      else if m = ''resources/unsubscribe'' then
        read_strict pe ''UnsubscribeResourceParams'' UnsubscribeResource params
      else if m = ''prompts/list'' then read_lenient pe ''ListPromptsParams'' ListPrompts params
      else if m = ''prompts/get'' then read_strict pe ''GetPromptParams'' GetPrompt params
      else if m = ''tasks/get'' then read_strict pe ''GetTaskInfoParams'' GetTaskInfo params
      else if m = ''tasks/update'' then read_strict pe ''UpdateTaskParams'' UpdateTask params
      else if m = ''tasks/cancel'' then read_strict pe ''CancelTaskParams'' CancelTask params
      else if m = ''ping'' then Inr Ping
      else if m = ''logging/setLevel'' then read_strict pe ''SetLogLevelParams'' SetLoggingLevel params
      else if m = ''completion/complete'' then read_strict pe ''CompleteParams'' Complete params
      else if m = ''server/discover'' then read_lenient pe ''DiscoverParams'' Discover params
      else if m = ''subscriptions/listen'' then read_lenient pe ''SubscriptionsListenParams'' SubscriptionsListen params
      else Inr (UnknownRequest m (jr_params q)))"

lemma from_jsonrpc_method: "from_jsonrpc pe q = Inr r \<Longrightarrow> method_name r = jr_method q"
  by (auto simp: from_jsonrpc_def read_strict_def read_lenient_def Let_def split: if_splits sum.splits)

section \<open>The router, as the service sees it\<close>

record service_request =
  rr_id :: request_id
  rr_inner :: typed_request
  rr_extensions :: service_extensions

record 'm router_response =
  rp_id :: request_id
  rp_inner :: "json_rpc_error + 'm"

text \<open>
  A call of the inner service: its new state, its response, and whether a cancellation of the peer
  found the request before the response was ready.
\<close>

type_synonym ('s, 'm) inner_service = "'s \<Rightarrow> service_request \<Rightarrow> 's \<times> 'm router_response \<times> bool"

definition into_jsonrpc :: "'m service_env \<Rightarrow> 'm router_response \<Rightarrow> json_rpc_response" where
  "into_jsonrpc en rp =
     (case rp_inner rp of
        Inr m \<Rightarrow>
          (case sn_response en m of
             Inr result \<Rightarrow> RespResult (rp_id rp) result
           | Inl e \<Rightarrow> RespError (Some (rp_id rp)) (internal_error (''Serialization error: '' @ e)))
      | Inl e \<Rightarrow> RespError (Some (rp_id rp)) e)"

text \<open>
  \<open>Error::into_json_rpc_error\<close>: a structured error is kept, any other becomes an internal error
  with its text.
\<close>

datatype handler_error = JsonRpcFailure json_rpc_error | OtherFailure string

fun into_json_rpc_error :: "handler_error \<Rightarrow> json_rpc_error" where
  "into_json_rpc_error (JsonRpcFailure e) = e"
| "into_json_rpc_error (OtherFailure text) = internal_error text"

text \<open>\<open>McpRouter::call\<close> around \<open>handle\<close>.\<close>

definition router_call ::
  "('s \<Rightarrow> service_request \<Rightarrow> 's \<times> (handler_error + 'm) \<times> bool) \<Rightarrow> ('s, 'm) inner_service" where
  "router_call handle s rr =
     (case handle s rr of (s', result, cancelled) \<Rightarrow>
        (s', \<lparr>rp_id = rr_id rr,
              rp_inner = (case result of Inl e \<Rightarrow> Inl (into_json_rpc_error e) | Inr m \<Rightarrow> Inr m)\<rparr>, cancelled))"

section \<open>A single request\<close>

text \<open>
  What happens before the router is called: the response, when the request is answered without it, or the
  request handed on with the version whose result fields apply.
\<close>

definition add_trace :: "json_rpc_request \<Rightarrow> service_extensions \<Rightarrow> service_extensions" where
  "add_trace q ext =
     (case Option.bind (Option.bind (jr_params q) (\<lambda>p. json_get p ''_meta'')) trace_from_meta of
        Some t \<Rightarrow> ext\<lparr>xs_trace := Some t\<rparr> | None \<Rightarrow> ext)"

definition prepare_single ::
  "'m service_env \<Rightarrow> jsonrpc_service \<Rightarrow> mcp_revision option \<Rightarrow> json_rpc_request
   \<Rightarrow> json_rpc_response + service_request \<times> string option" where
  "prepare_single en sv negotiated q =
     (let refuse = (\<lambda>e. Inl (RespError (Some (jr_id q)) e)) in
      case jsonrpc_validate q of
        Inl e \<Rightarrow> refuse e
      | Inr _ \<Rightarrow>
          (let ps = effective_support (sv_extensions sv) (sv_support sv);
               ext = (sv_extensions sv)\<lparr>xs_support := Some ps\<rparr>
           in case inspect_incoming_value (sn_params en) \<lparr>sv_extensions = ext, sv_support = ps\<rparr> negotiated
                     (request_json q) ClientToServer of
                Inl e \<Rightarrow> refuse e
              | Inr _ \<Rightarrow>
                  (case prepare_modern_request en q ext ps of
                     Inl e \<Rightarrow> refuse e
                   | Inr (ext', version) \<Rightarrow>
                       (case from_jsonrpc (sn_params en) q of
                          Inl e \<Rightarrow> refuse (invalid_params e)
                        | Inr inner \<Rightarrow>
                            Inr (\<lparr>rr_id = jr_id q, rr_inner = inner, rr_extensions = add_trace q ext'\<rparr>, version)))))"

text \<open>The revision a successful \<open>initialize\<close> response selects.\<close>

definition selected_revision :: "protocol_support \<Rightarrow> string \<Rightarrow> json_rpc_response \<Rightarrow> mcp_revision option" where
  "selected_revision ps m response =
     (case response of
        RespError _ _ \<Rightarrow> None
      | RespResult _ result \<Rightarrow>
          if m \<noteq> ''initialize'' then None
          else case Option.bind (json_get result ''protocolVersion'') json_as_str of
              None \<Rightarrow> None
            | Some version \<Rightarrow>
                if \<not> support_contains ps version then None
                else case revision_from_str version of Inr r \<Rightarrow> Some r | Inl _ \<Rightarrow> None)"

definition finish_single ::
  "'m service_env \<Rightarrow> protocol_support \<Rightarrow> string \<Rightarrow> string option \<Rightarrow> 'm router_response
   \<Rightarrow> mcp_revision option \<Rightarrow> json_rpc_response \<times> mcp_revision option" where
  "finish_single en ps m version rp negotiated =
     (let response = into_jsonrpc en rp;
          negotiated' = (case selected_revision ps m response of Some r \<Rightarrow> Some r | None \<Rightarrow> negotiated)
      in (case version of
            Some v \<Rightarrow> apply_protocol_result_fields response m v
          | None \<Rightarrow> response, negotiated'))"

definition process_single_request ::
  "'m service_env \<Rightarrow> ('s, 'm) inner_service \<Rightarrow> jsonrpc_service \<Rightarrow> json_rpc_request
   \<Rightarrow> 's \<times> mcp_revision option \<Rightarrow> ('s \<times> mcp_revision option) \<times> json_rpc_response \<times> bool" where
  "process_single_request en inner sv q st =
     (case prepare_single en sv (snd st) q of
        Inl response \<Rightarrow> (st, response, False)
      | Inr (rr, version) \<Rightarrow>
          (case inner (fst st) rr of (s', rp, cancelled) \<Rightarrow>
             (case finish_single en (effective_support (sv_extensions sv) (sv_support sv)) (jr_method q) version rp (snd st)
              of (response, negotiated) \<Rightarrow> ((s', negotiated), response, cancelled))))"

text \<open>\<open>process_answerable_request\<close>: only a tracked request can be left unanswered.\<close>

definition track_request :: "json_rpc_request \<Rightarrow> jsonrpc_service \<Rightarrow> jsonrpc_service" where
  "track_request q sv =
     (if jr_method q \<noteq> ''initialize''
      then sv\<lparr>sv_extensions := (sv_extensions sv)\<lparr>xs_tracked := True\<rparr>\<rparr> else sv)"

definition answer_of :: "json_rpc_request \<Rightarrow> json_rpc_response \<Rightarrow> bool \<Rightarrow> json_rpc_response option" where
  "answer_of q response cancelled =
     (if jr_method q \<noteq> ''initialize'' \<and> cancelled then None else Some response)"

definition process_answerable_request ::
  "'m service_env \<Rightarrow> ('s, 'm) inner_service \<Rightarrow> jsonrpc_service \<Rightarrow> json_rpc_request
   \<Rightarrow> 's \<times> mcp_revision option \<Rightarrow> ('s \<times> mcp_revision option) \<times> json_rpc_response option" where
  "process_answerable_request en inner sv q st =
     (case process_single_request en inner (track_request q sv) q st of
        (st', response, cancelled) \<Rightarrow> (st', answer_of q response cancelled))"

section \<open>Batches\<close>

text \<open>
  The futures of the members are polled in any order.  One poll runs a waiting member up to and through
  the router, the next one finishes it.
\<close>

datatype 'm batch_member =
  WaitingMember json_rpc_request
| CalledMember json_rpc_request "string option" "'m router_response" bool
| AnsweredMember "json_rpc_response option"

record ('s, 'm) batch_state =
  bt_inner :: 's
  bt_negotiated :: "mcp_revision option"
  bt_members :: "'m batch_member list"

definition member_service :: "bool \<Rightarrow> json_rpc_request \<Rightarrow> jsonrpc_service \<Rightarrow> jsonrpc_service" where
  "member_service answerable q sv = (if answerable then track_request q sv else sv)"

definition member_answer ::
  "bool \<Rightarrow> json_rpc_request \<Rightarrow> json_rpc_response \<Rightarrow> bool \<Rightarrow> json_rpc_response option" where
  "member_answer answerable q response cancelled =
     (if answerable then answer_of q response cancelled else Some response)"

definition poll_member ::
  "'m service_env \<Rightarrow> ('s, 'm) inner_service \<Rightarrow> jsonrpc_service \<Rightarrow> bool \<Rightarrow> nat
   \<Rightarrow> ('s, 'm) batch_state \<Rightarrow> ('s, 'm) batch_state" where
  "poll_member en inner sv answerable i bt =
     (if length (bt_members bt) \<le> i then bt
      else case bt_members bt ! i of
          WaitingMember q \<Rightarrow>
            (case prepare_single en (member_service answerable q sv) (bt_negotiated bt) q of
               Inl response \<Rightarrow>
                 bt\<lparr>bt_members := (bt_members bt)[i := AnsweredMember (member_answer answerable q response False)]\<rparr>
             | Inr (rr, version) \<Rightarrow>
                 (case inner (bt_inner bt) rr of (s', rp, cancelled) \<Rightarrow>
                    bt\<lparr>bt_inner := s',
                       bt_members := (bt_members bt)[i := CalledMember q version rp cancelled]\<rparr>))
        | CalledMember q version rp cancelled \<Rightarrow>
            (case finish_single en (effective_support (sv_extensions sv) (sv_support sv)) (jr_method q) version rp
                    (bt_negotiated bt) of
               (response, negotiated) \<Rightarrow>
                 bt\<lparr>bt_negotiated := negotiated,
                    bt_members := (bt_members bt)[i := AnsweredMember (member_answer answerable q response cancelled)]\<rparr>)
        | AnsweredMember _ \<Rightarrow> bt)"

definition batch_json :: "json_rpc_request list \<Rightarrow> json" where
  "batch_json qs = JArr (map request_json qs)"

definition start_batch ::
  "'m service_env \<Rightarrow> jsonrpc_service \<Rightarrow> json_rpc_request list \<Rightarrow> 's \<times> mcp_revision option
   \<Rightarrow> json_rpc_error + ('s, 'm) batch_state" where
  "start_batch en sv qs st =
     (if qs = [] then Inl (invalid_request ''Empty batch request'')
      else case inspect_incoming_value (sn_params en) sv (snd st) (batch_json qs) ClientToServer of
          Inl e \<Rightarrow> Inl e
        | Inr _ \<Rightarrow> Inr \<lparr>bt_inner = fst st, bt_negotiated = snd st, bt_members = map WaitingMember qs\<rparr>)"

fun member_result :: "'m batch_member \<Rightarrow> json_rpc_response option option" where
  "member_result (AnsweredMember r) = Some r"
| "member_result _ = None"

text \<open>\<open>join_all\<close> is ready when every member is.\<close>

definition joined :: "('s, 'm) batch_state \<Rightarrow> json_rpc_response option list option" where
  "joined bt =
     (if list_all (\<lambda>x. member_result x \<noteq> None) (bt_members bt)
      then Some (map (\<lambda>x. the (member_result x)) (bt_members bt)) else None)"

definition poll_batch ::
  "'m service_env \<Rightarrow> ('s, 'm) inner_service \<Rightarrow> jsonrpc_service \<Rightarrow> bool \<Rightarrow> nat list
   \<Rightarrow> ('s, 'm) batch_state \<Rightarrow> ('s, 'm) batch_state" where
  "poll_batch en inner sv answerable schedule bt = fold (poll_member en inner sv answerable) schedule bt"

text \<open>
  \<open>run_batch\<close> under a schedule of polls: an error, or the state and, once all members are done,
  their answers.
\<close>

definition run_batch ::
  "'m service_env \<Rightarrow> ('s, 'm) inner_service \<Rightarrow> jsonrpc_service \<Rightarrow> bool \<Rightarrow> nat list \<Rightarrow> json_rpc_request list
   \<Rightarrow> 's \<times> mcp_revision option
   \<Rightarrow> json_rpc_error + ('s, 'm) batch_state \<times> json_rpc_response option list option" where
  "run_batch en inner sv answerable schedule qs st =
     result_bind (start_batch en sv qs st)
       (\<lambda>bt. let bt' = poll_batch en inner sv answerable schedule bt in Inr (bt', joined bt'))"

datatype response_message = SingleResponse json_rpc_response | BatchResponse "json_rpc_response list"

text \<open>\<open>call_batch\<close>, \<open>call_message\<close> and their answerable twins, as what is written.\<close>

definition batch_message ::
  "bool \<Rightarrow> json_rpc_error + json_rpc_response option list \<Rightarrow> response_message option" where
  "batch_message answerable result =
     (case result of
        Inl e \<Rightarrow> Some (SingleResponse (RespError None e))
      | Inr rs \<Rightarrow>
          (let responses = List.map_filter id rs in
           if answerable \<and> responses = [] then None else Some (BatchResponse responses)))"

definition single_message :: "json_rpc_response option \<Rightarrow> response_message option" where
  "single_message r = map_option SingleResponse r"

section \<open>What reaches the router\<close>

lemma support_contains_iff: "support_contains ps v \<longleftrightarrow> v \<in> set (ps_versions ps)"
  by (auto simp: support_contains_def list_ex_iff)

lemma revision_from_as: "revision_from_str (revision_as_str r) = Inr r"
  by (cases r) (simp_all add: revision_from_str_def)

lemma revision_as_str_inj [simp]: "revision_as_str a = revision_as_str b \<longleftrightarrow> a = b"
  by (cases a; cases b) simp_all

lemma revision_from_str_iff: "revision_from_str s = Inr r \<longleftrightarrow> s = revision_as_str r"
  by (cases r) (auto simp: revision_from_str_def split: if_splits)

lemma allowed_revision_iff: "allowed_revision v ps = Inr r \<longleftrightarrow> v = revision_as_str r \<and> v \<in> set (ps_versions ps)"
  by (auto simp: allowed_revision_def support_contains_iff revision_from_str_iff revision_from_as split: sum.splits)

lemma resolved_is_supported:
  "resolve_revision ext ps negotiated v = Inr r \<Longrightarrow> revision_as_str r \<in> set (ps_versions ps)"
  by (auto simp: resolve_revision_def connection_revision_def initialize_revision_def Let_def support_contains_iff
      allowed_revision_iff split: list.splits option.splits if_splits)

lemma inspected_under_revision:
  "inspect_incoming_value pe sv negotiated v d = Inr i \<Longrightarrow>
   \<exists>r. resolve_revision (sv_extensions sv) (effective_support (sv_extensions sv) (sv_support sv)) negotiated v = Inr r
     \<and> result_ok (mcp_inspect pe r v (Some d))"
  by (auto simp: inspect_incoming_value_def inspect_runtime_value_def result_bind_Inr_iff Let_def
      split: if_splits sum.splits)

lemma request_json_call: "member_call (request_json q) = Some (jr_method q, jr_params q, RequestCall)"
  by (cases "jr_params q") (simp_all add: member_call_def request_json_def object_call_def)

lemma request_json_shape: "json_is_array (request_json q) = False" "value_members (request_json q) = [request_json q]"
    "json_items (request_json q) = []"
  by (simp_all add: request_json_def value_members_def)

text \<open>What \<open>prepare_modern_request\<close> has checked about a request it lets through.\<close>

definition modern_checked ::
  "'m service_env \<Rightarrow> protocol_support \<Rightarrow> json_rpc_request \<Rightarrow> string option \<Rightarrow> stateless_meta option \<Rightarrow> bool" where
  "modern_checked en ps q version meta \<longleftrightarrow>
     (case modern_meta q of
        None \<Rightarrow> version = None
      | Some (m, members) \<Rightarrow>
          validate_meta_object m = Inr () \<and> (\<exists>v parsed caps.
            version = Some v \<and> map_of members META_PROTOCOL_VERSION = Some (JStr v) \<and> v \<in> set (ps_versions ps)
          \<and> map_of members META_CLIENT_CAPABILITIES = Some caps \<and> json_is_object caps \<and> sn_capabilities en caps
          \<and> (v = PROTOCOL_VERSION_2026_07_28 \<longrightarrow> \<not> is_removed_modern_method (jr_method q))
          \<and> sn_request_meta en m = Inr parsed \<and> meta = Some parsed))"

lemma json_as_str_Some: "json_as_str v = Some s \<longleftrightarrow> v = JStr s"
  by (cases v) auto

lemma prepare_modern_checked:
  assumes "prepare_modern_request en q ext ps = Inr (ext', version)"
  shows "modern_checked en ps q version (rx_meta (xs_request ext')) \<and> xs_support ext' = xs_support ext
    \<and> xs_tracked ext' = xs_tracked ext"
proof (cases "modern_meta q")
  case None
  then show ?thesis using assms by (simp add: prepare_modern_request_def modern_checked_def)
next
  case (Some mm)
  obtain m members where mm: "mm = (m, members)" by (cases mm)
  have "validate_meta_object m = Inr ()"
    using assms Some mm by (cases "validate_meta_object m") (simp_all add: prepare_modern_request_def)
  moreover obtain v where v: "map_of members META_PROTOCOL_VERSION = Some (JStr v)"
    using assms Some mm
    by (auto simp: prepare_modern_request_def json_as_str_Some bind_eq_Some_conv split: sum.splits option.splits)
  moreover obtain caps where caps: "map_of members META_CLIENT_CAPABILITIES = Some caps"
    using assms Some mm v
    by (cases "map_of members META_CLIENT_CAPABILITIES") (auto simp: prepare_modern_request_def split: sum.splits)
  ultimately show ?thesis
    using assms Some mm
    by (auto simp: prepare_modern_request_def modern_checked_def support_contains_iff split: if_splits sum.splits)
qed

lemma add_trace_simps [simp]:
  "xs_support (add_trace q ext) = xs_support ext" "xs_tracked (add_trace q ext) = xs_tracked ext"
  "xs_request (add_trace q ext) = xs_request ext"
  by (simp_all add: add_trace_def split: option.split)

lemma prepared_request:
  assumes "prepare_single en sv negotiated q = Inr (rr, version)"
  defines "ps \<equiv> effective_support (sv_extensions sv) (sv_support sv)"
  shows "jr_jsonrpc q = JSONRPC_VERSION"
    and "\<exists>r. resolve_revision ((sv_extensions sv)\<lparr>xs_support := Some ps\<rparr>) ps negotiated (request_json q) = Inr r
          \<and> call_admitted (sn_params en) r (Some ClientToServer) False (jr_method q, jr_params q, RequestCall)"
    and "modern_checked en ps q version (rx_meta (xs_request (rr_extensions rr)))"
    and "rr_id rr = jr_id q" and "method_name (rr_inner rr) = jr_method q"
    and "xs_support (rr_extensions rr) = Some ps"
proof -
  let ?ext = "(sv_extensions sv)\<lparr>xs_support := Some ps\<rparr>"
  obtain i ext' inner where
      p: "jsonrpc_validate q = Inr ()"
        "inspect_incoming_value (sn_params en) \<lparr>sv_extensions = ?ext, sv_support = ps\<rparr> negotiated (request_json q) ClientToServer = Inr i"
        "prepare_modern_request en q ?ext ps = Inr (ext', version)" "from_jsonrpc (sn_params en) q = Inr inner"
        "rr = \<lparr>rr_id = jr_id q, rr_inner = inner, rr_extensions = add_trace q ext'\<rparr>"
    using assms(1) unfolding ps_def by (auto simp: prepare_single_def Let_def split: sum.splits)
  show "jr_jsonrpc q = JSONRPC_VERSION" using p(1) by (auto simp: jsonrpc_validate_def split: if_splits)
  obtain r where r: "resolve_revision ?ext ps negotiated (request_json q) = Inr r"
      "result_ok (mcp_inspect (sn_params en) r (request_json q) (Some ClientToServer))"
    using inspected_under_revision [OF p(2)] by (auto simp: effective_support_def)
  have "call_admitted (sn_params en) r (Some ClientToServer) False (jr_method q, jr_params q, RequestCall)"
    using r(2) request_json_shape request_json_call [of q] unfolding inspection_exact by force
  then show "\<exists>r. resolve_revision ?ext ps negotiated (request_json q) = Inr r
      \<and> call_admitted (sn_params en) r (Some ClientToServer) False (jr_method q, jr_params q, RequestCall)"
    using r(1) by blast
  show "modern_checked en ps q version (rx_meta (xs_request (rr_extensions rr)))"
      "xs_support (rr_extensions rr) = Some ps"
    using prepare_modern_checked [OF p(3)] by (simp_all add: p(5))
  show "rr_id rr = jr_id q" "method_name (rr_inner rr) = jr_method q"
    using from_jsonrpc_method [OF p(4)] by (simp_all add: p(5))
qed

section \<open>What is answered\<close>

lemma prepare_refused:
  "prepare_single en sv negotiated q = Inl response \<Longrightarrow> \<exists>e. response = RespError (Some (jr_id q)) e"
  by (auto simp: prepare_single_def Let_def split: sum.splits)

lemma into_jsonrpc_id: "response_id (into_jsonrpc en rp) = Some (rp_id rp)"
  by (simp add: into_jsonrpc_def split: sum.split)

lemma result_fields_id [simp]: "response_id (apply_protocol_result_fields r m v) = response_id r"
  by (cases r) (simp_all add: apply_protocol_result_fields_def Let_def)

lemma finish_single_id: "finish_single en ps m version rp n = (response, n') \<Longrightarrow> response_id response = Some (rp_id rp)"
  by (auto simp: finish_single_def Let_def into_jsonrpc_id split: option.splits)

lemma finish_single_negotiated:
  "finish_single en ps m version rp n = (response, n') \<Longrightarrow>
   n' = n \<or> m = ''initialize'' \<and> (\<exists>r. n' = Some r \<and> revision_as_str r \<in> set (ps_versions ps)
     \<and> (\<exists>i result. into_jsonrpc en rp = RespResult i result
          \<and> json_get result ''protocolVersion'' = Some (JStr (revision_as_str r))))"
  by (auto simp: finish_single_def selected_revision_def Let_def support_contains_iff revision_from_str_iff
      json_as_str_Some bind_eq_Some_conv split: option.splits json_rpc_response.splits if_splits sum.splits)

text \<open>How far a member of a batch has come, and that it is the member of its request.\<close>

fun member_polls :: "'m batch_member \<Rightarrow> nat" where
  "member_polls (WaitingMember _) = 2"
| "member_polls (CalledMember _ _ _ _) = 1"
| "member_polls (AnsweredMember _) = 0"

lemma member_done: "member_result x \<noteq> None \<longleftrightarrow> member_polls x = 0"
  by (cases x) simp_all

fun member_of :: "bool \<Rightarrow> json_rpc_request \<Rightarrow> 'm batch_member \<Rightarrow> bool" where
  "member_of answerable q (WaitingMember q') \<longleftrightarrow> q' = q"
| "member_of answerable q (CalledMember q' version rp c) \<longleftrightarrow> q' = q \<and> rp_id rp = jr_id q"
| "member_of answerable q (AnsweredMember r) \<longleftrightarrow>
     (case r of None \<Rightarrow> answerable \<and> jr_method q \<noteq> ''initialize'' | Some resp \<Rightarrow> response_id resp = Some (jr_id q))"

definition batch_ok :: "bool \<Rightarrow> mcp_revision option \<Rightarrow> json_rpc_request list \<Rightarrow> ('s, 'm) batch_state \<Rightarrow> bool" where
  "batch_ok answerable negotiated qs bt \<longleftrightarrow>
     bt_negotiated bt = negotiated \<and> list_all2 (member_of answerable) qs (bt_members bt)"

lemma answered_member:
  "response_id r = Some (jr_id q) \<Longrightarrow> member_of answerable q (AnsweredMember (member_answer answerable q r c))"
  by (simp add: member_answer_def answer_of_def)

lemma poll_member_length [simp]:
  "length (bt_members (poll_member en inner sv answerable i bt)) = length (bt_members bt)"
  by (auto simp: poll_member_def Let_def split: batch_member.split sum.split prod.split)

lemma poll_member_other:
  "j \<noteq> i \<Longrightarrow> bt_members (poll_member en inner sv answerable i bt) ! j = bt_members bt ! j"
  by (auto simp: poll_member_def Let_def split: batch_member.split sum.split prod.split)

lemma poll_member_progress:
  "i < length (bt_members bt) \<Longrightarrow>
   member_polls (bt_members (poll_member en inner sv answerable i bt) ! i) \<le> member_polls (bt_members bt ! i) - 1"
  by (auto simp: poll_member_def Let_def split: batch_member.split sum.split prod.split)

locale answering_service =
  fixes inner :: "('s, 'm) inner_service"
  assumes answers_own_id: "inner s rr = (s', rp, c) \<Longrightarrow> rp_id rp = rr_id rr"
begin

lemma single_answer_id:
  assumes "process_single_request en inner sv q st = (st', response, c)"
  shows "response_id response = Some (jr_id q)"
proof (cases "prepare_single en sv (snd st) q")
  case (Inl r)
  then show ?thesis using assms prepare_refused [OF Inl] by (auto simp: process_single_request_def)
next
  case (Inr p)
  obtain rr version where p: "p = (rr, version)" by (cases p)
  obtain s' rp c' where i: "inner (fst st) rr = (s', rp, c')" by (cases "inner (fst st) rr")
  have "rp_id rp = jr_id q" using answers_own_id [OF i] prepared_request(4) Inr p by metis
  then show ?thesis
    using assms Inr p i
    by (auto simp: process_single_request_def dest: finish_single_id split: prod.splits)
qed

lemma poll_member_ok:
  assumes ok: "batch_ok answerable negotiated qs bt" and init: "\<forall>q\<in>set qs. jr_method q \<noteq> ''initialize''"
  shows "batch_ok answerable negotiated qs (poll_member en inner sv answerable i bt)"
proof (cases "i < length (bt_members bt)")
  case False
  then show ?thesis using ok by (simp add: poll_member_def)
next
  case True
  have neg: "bt_negotiated bt = negotiated" and all: "list_all2 (member_of answerable) qs (bt_members bt)"
    using ok by (simp_all add: batch_ok_def)
  have len: "length qs = length (bt_members bt)" using all by (rule list_all2_lengthD)
  have mi: "member_of answerable (qs ! i) (bt_members bt ! i)" using all True len by (simp add: list_all2_conv_all_nth)
  have upd: "list_all2 (member_of answerable) qs ((bt_members bt)[i := x])" if "member_of answerable (qs ! i) x" for x
    using list_all2_update_cong [OF all that, of i] by (simp add: len)
  have no_init: "jr_method (qs ! i) \<noteq> ''initialize''" using init True len by simp
  show ?thesis
  proof (cases "bt_members bt ! i")
    case (WaitingMember q)
    then have q: "q = qs ! i" using mi by simp
    show ?thesis
    proof (cases "prepare_single en (member_service answerable q sv) (bt_negotiated bt) q")
      case (Inl r)
      then have "response_id r = Some (jr_id q)" using prepare_refused by fastforce
      then show ?thesis
        using True WaitingMember Inl neg upd answered_member q by (simp add: poll_member_def batch_ok_def)
    next
      case (Inr p)
      obtain rr version where p: "p = (rr, version)" by (cases p)
      obtain s' rp c where c: "inner (bt_inner bt) rr = (s', rp, c)" by (cases "inner (bt_inner bt) rr")
      have "rp_id rp = jr_id q" using answers_own_id [OF c] prepared_request(4) Inr p by metis
      then show ?thesis
        using True WaitingMember Inr p c neg upd q by (simp add: poll_member_def batch_ok_def)
    qed
  next
    case (CalledMember q version rp c)
    then have q: "q = qs ! i" "rp_id rp = jr_id (qs ! i)" using mi by simp_all
    obtain response n where f: "finish_single en (effective_support (sv_extensions sv) (sv_support sv))
        (jr_method q) version rp (bt_negotiated bt) = (response, n)"
      by (cases "finish_single en (effective_support (sv_extensions sv) (sv_support sv)) (jr_method q) version rp
        (bt_negotiated bt)")
    have "response_id response = Some (jr_id (qs ! i))" "n = bt_negotiated bt"
      using finish_single_id [OF f] finish_single_negotiated [OF f] q no_init by auto
    then show ?thesis
      using True CalledMember f neg upd answered_member [of response "qs ! i"] q
      by (simp add: poll_member_def batch_ok_def)
  next
    case (AnsweredMember r)
    then show ?thesis using True ok by (simp add: poll_member_def)
  qed
qed

lemma poll_batch_ok:
  "batch_ok answerable negotiated qs bt \<Longrightarrow> \<forall>q\<in>set qs. jr_method q \<noteq> ''initialize'' \<Longrightarrow>
   batch_ok answerable negotiated qs (poll_batch en inner sv answerable schedule bt)"
  unfolding poll_batch_def by (induction schedule arbitrary: bt) (simp_all add: poll_member_ok)

end

interpretation router: answering_service "router_call handle" for handle
  by unfold_locales (auto simp: router_call_def split: prod.splits)

lemma poll_batch_progress:
  "i < length (bt_members bt) \<Longrightarrow>
   member_polls (bt_members (poll_batch en inner sv answerable schedule bt) ! i)
     \<le> member_polls (bt_members bt ! i) - count_list schedule i"
  unfolding poll_batch_def
proof (induction schedule arbitrary: bt)
  case (Cons j schedule)
  show ?case
  proof (cases "j = i")
    case True
    then show ?thesis
      using Cons.IH [of "poll_member en inner sv answerable j bt"] Cons.prems
        poll_member_progress [OF Cons.prems, of en inner sv answerable] by simp
  next
    case False
    then show ?thesis
      using Cons.IH [of "poll_member en inner sv answerable j bt"] Cons.prems
        poll_member_other [of i j en inner sv answerable bt] by simp
  qed
qed simp

lemma poll_batch_length:
  "length (bt_members (poll_batch en inner sv answerable schedule bt)) = length (bt_members bt)"
  unfolding poll_batch_def by (induction schedule arbitrary: bt) simp_all

lemma started_batch:
  assumes "start_batch en sv qs st = Inr bt"
  shows "bt_members bt = map WaitingMember qs" "bt_negotiated bt = snd st" "qs \<noteq> []"
    and "resolve_revision (sv_extensions sv) (effective_support (sv_extensions sv) (sv_support sv)) (snd st)
           (batch_json qs) = Inr V2025_03_26"
    and "\<forall>q\<in>set qs. jr_method q \<noteq> ''initialize''"
proof -
  obtain i where i: "qs \<noteq> []" "inspect_incoming_value (sn_params en) sv (snd st) (batch_json qs) ClientToServer = Inr i"
      "bt = \<lparr>bt_inner = fst st, bt_negotiated = snd st, bt_members = map WaitingMember qs\<rparr>"
    using assms by (auto simp: start_batch_def split: if_splits sum.splits)
  then show "bt_members bt = map WaitingMember qs" "bt_negotiated bt = snd st" "qs \<noteq> []" by simp_all
  obtain r where r: "resolve_revision (sv_extensions sv) (effective_support (sv_extensions sv) (sv_support sv)) (snd st)
      (batch_json qs) = Inr r" "result_ok (mcp_inspect (sn_params en) r (batch_json qs) (Some ClientToServer))"
    using inspected_under_revision [OF i(2)] by blast
  note b = batch_without_initialize [OF r(2) [unfolded batch_json_def]]
  show "resolve_revision (sv_extensions sv) (effective_support (sv_extensions sv) (sv_support sv)) (snd st)
      (batch_json qs) = Inr V2025_03_26" using r(1) b by simp
  show "\<forall>q\<in>set qs. jr_method q \<noteq> ''initialize''" using b request_json_call by (metis imageI list.set_map)
qed

section \<open>Runs of a connection\<close>

inductive connection_reach ::
  "'m service_env \<Rightarrow> ('s, 'm) inner_service \<Rightarrow> jsonrpc_service \<Rightarrow> 's \<times> mcp_revision option \<Rightarrow> bool"
  for en inner sv where
  fresh: "connection_reach en inner sv (s, None)"
| single: "connection_reach en inner sv st \<Longrightarrow>
    process_single_request en inner sv' q st = (st', response, c) \<Longrightarrow>
    sv' \<in> {sv, track_request q sv} \<Longrightarrow> connection_reach en inner sv st'"
| batch: "connection_reach en inner sv st \<Longrightarrow>
    run_batch en inner sv answerable schedule qs st = Inr (bt, rs) \<Longrightarrow>
    connection_reach en inner sv (bt_inner bt, bt_negotiated bt)"
| elsewhere: "connection_reach en inner sv (s, n) \<Longrightarrow> connection_reach en inner sv (s', n)"

inductive_cases connection_reachE: "connection_reach en inner sv (s, n)"

definition negotiated_ok :: "jsonrpc_service \<Rightarrow> mcp_revision option \<Rightarrow> bool" where
  "negotiated_ok sv n \<longleftrightarrow> (case n of None \<Rightarrow> True | Some r \<Rightarrow>
     revision_as_str r \<in> set (ps_versions (effective_support (sv_extensions sv) (sv_support sv))))"

lemma track_request_support [simp]:
  "effective_support (sv_extensions (track_request q sv)) (sv_support (track_request q sv))
   = effective_support (sv_extensions sv) (sv_support sv)"
  by (simp add: track_request_def effective_support_def split: option.split)

lemma process_single_negotiated:
  assumes "process_single_request en inner sv q st = (st', response, c)"
  shows "snd st' = snd st \<or> jr_method q = ''initialize'' \<and> negotiated_ok sv (snd st')"
proof (cases "prepare_single en sv (snd st) q")
  case (Inl r)
  then show ?thesis using assms by (auto simp: process_single_request_def)
next
  case (Inr p)
  then show ?thesis
    using assms
    by (auto simp: process_single_request_def negotiated_ok_def dest!: finish_single_negotiated split: prod.splits)
qed

context answering_service
begin

lemma negotiated_reach: "connection_reach en inner sv st \<Longrightarrow> negotiated_ok sv (snd st)"
proof (induction rule: connection_reach.induct)
  case (single st sv' q st' response c)
  have "effective_support (sv_extensions sv') (sv_support sv') = effective_support (sv_extensions sv) (sv_support sv)"
    using single.hyps(3) by auto
  then have "negotiated_ok sv' = negotiated_ok sv" by (simp add: negotiated_ok_def fun_eq_iff split: option.split)
  then show ?case
    using process_single_negotiated [OF single.hyps(2)] single.IH by metis
next
  case (batch st answerable schedule qs bt rs)
  obtain bt0 where b: "start_batch en sv qs st = Inr bt0" "bt = poll_batch en inner sv answerable schedule bt0"
    using batch.hyps(2) by (auto simp: run_batch_def result_bind_Inr_iff Let_def)
  have "batch_ok answerable (snd st) qs bt0"
    using started_batch [OF b(1)] by (simp add: batch_ok_def list_all2_conv_all_nth)
  then have "batch_ok answerable (snd st) qs bt" using poll_batch_ok started_batch(5) [OF b(1)] b(2) by blast
  then show ?case using batch.IH by (simp add: batch_ok_def)
qed (simp_all add: negotiated_ok_def)

lemma batch_outcome:
  assumes "run_batch en inner sv answerable schedule qs st = Inr (bt, rs)"
  shows "bt_negotiated bt = snd st"
    and "rs = Some answers \<Longrightarrow> list_all2 (\<lambda>q r. case r of
           None \<Rightarrow> answerable | Some response \<Rightarrow> response_id response = Some (jr_id q)) qs answers"
    and "(\<And>i. i < length qs \<Longrightarrow> 2 \<le> count_list schedule i) \<Longrightarrow> rs \<noteq> None"
proof -
  obtain bt0 where b: "start_batch en sv qs st = Inr bt0" "bt = poll_batch en inner sv answerable schedule bt0"
      "rs = joined bt"
    using assms by (auto simp: run_batch_def result_bind_Inr_iff Let_def)
  have "batch_ok answerable (snd st) qs bt0"
    using started_batch [OF b(1)] by (simp add: batch_ok_def list_all2_conv_all_nth)
  then have ok: "batch_ok answerable (snd st) qs bt" using poll_batch_ok started_batch(5) [OF b(1)] b(2) by blast
  show "bt_negotiated bt = snd st" using ok by (simp add: batch_ok_def)
  have answers: "member_of answerable q x \<Longrightarrow> member_result x \<noteq> None \<Longrightarrow>
      (case the (member_result x) of None \<Rightarrow> answerable | Some response \<Rightarrow> response_id response = Some (jr_id q))" for q x
    by (cases x) (auto split: option.splits)
  show "list_all2 (\<lambda>q r. case r of None \<Rightarrow> answerable | Some response \<Rightarrow> response_id response = Some (jr_id q)) qs answers"
    if "rs = Some answers"
  proof -
    have "list_all (\<lambda>x. member_result x \<noteq> None) (bt_members bt)"
        and a: "answers = map (\<lambda>x. the (member_result x)) (bt_members bt)"
      using that b(3) by (auto simp: joined_def split: if_splits)
    then have "case answers ! i of None \<Rightarrow> answerable | Some response \<Rightarrow> response_id response = Some (jr_id (qs ! i))"
      if "i < length qs" for i
      using ok that answers [of "qs ! i" "bt_members bt ! i"]
      by (simp add: batch_ok_def list_all2_conv_all_nth list_all_length)
    moreover have "length qs = length answers"
      using ok by (auto simp: a batch_ok_def dest: list_all2_lengthD)
    ultimately show ?thesis by (simp add: list_all2_conv_all_nth)
  qed
  show "rs \<noteq> None" if c: "\<And>i. i < length qs \<Longrightarrow> 2 \<le> count_list schedule i"
  proof -
    have "member_polls (bt_members bt ! i) = 0" if i: "i < length (bt_members bt)" for i
    proof -
      have i0: "i < length (bt_members bt0)" "i < length qs"
        using i started_batch(1) [OF b(1)] by (simp_all add: b(2) poll_batch_length)
      then have "member_polls (bt_members bt0 ! i) = 2" using started_batch(1) [OF b(1)] by simp
      then show ?thesis
        using poll_batch_progress [OF i0(1), of en inner sv answerable schedule] c [OF i0(2)] b(2) by simp
    qed
    then have "list_all (\<lambda>x. member_result x \<noteq> None) (bt_members bt)"
      unfolding list_all_length member_done by blast
    then show ?thesis using b(3) by (simp add: joined_def)
  qed
qed

end

section \<open>Properties\<close>


text \<open>
  C16: a request gets exactly one response, under its identifier, and reaches the router only when its
  version is 2.0, it passes the inspection under a revision the policy allows, and, when it names a
  protocol version in its metadata, that metadata is conforming, the version allowed, the client's
  capabilities decode and the method is not one 2026-07-28 removed.  Otherwise nothing changes.
\<close>

theorem request_reaches_router_checked:
  assumes "process_single_request en (router_call handle) sv q st = (st', response, c)"
  defines "ps \<equiv> effective_support (sv_extensions sv) (sv_support sv)"
  shows "response_id response = Some (jr_id q)
    \<and> ((st' = st \<and> (\<exists>e. response = RespError (Some (jr_id q)) e))
      \<or> (\<exists>rr version r. prepare_single en sv (snd st) q = Inr (rr, version)
          \<and> fst st' = fst (router_call handle (fst st) rr)
          \<and> jr_jsonrpc q = ''2.0'' \<and> rr_id rr = jr_id q \<and> method_name (rr_inner rr) = jr_method q
          \<and> revision_as_str r \<in> set (ps_versions ps)
          \<and> call_admitted (sn_params en) r (Some ClientToServer) False (jr_method q, jr_params q, RequestCall)
          \<and> modern_checked en ps q version (rx_meta (xs_request (rr_extensions rr)))))"
proof (cases "prepare_single en sv (snd st) q")
  case (Inl r)
  then show ?thesis
    using assms(1) prepare_refused [OF Inl] by (auto simp: process_single_request_def)
next
  case (Inr p)
  obtain rr version where p: "p = (rr, version)" by (cases p)
  note checks = prepared_request [OF Inr [unfolded p], folded ps_def]
  have "fst st' = fst (router_call handle (fst st) rr)"
    using assms(1) Inr p by (auto simp: process_single_request_def split: prod.splits)
  moreover obtain r where "revision_as_str r \<in> set (ps_versions ps)"
      "call_admitted (sn_params en) r (Some ClientToServer) False (jr_method q, jr_params q, RequestCall)"
    using checks(2) resolved_is_supported by blast
  ultimately show ?thesis
    using router.single_answer_id [OF assms(1)] Inr p checks(1,3,4,5) by (auto simp: JSONRPC_VERSION_def)
qed

text \<open>
  On every connection, whatever requests and batches it served, the negotiated revision is none or one
  the policy allows, and only an answered \<open>initialize\<close> changes it.
\<close>

theorem negotiated_revision_allowed:
  assumes "connection_reach en (router_call handle) sv st"
  shows "negotiated_ok sv (snd st)
    \<and> (process_single_request en (router_call handle) sv q st = (st', response, c) \<and> snd st' \<noteq> snd st \<longrightarrow>
        jr_method q = ''initialize'')"
  using router.negotiated_reach [OF assms] process_single_negotiated by blast

text \<open>
  A result of 2026-07-28 always carries its \<open>resultType\<close>, a cacheable one also
  \<open>ttlMs\<close> and \<open>cacheScope\<close>; what the router set is kept and nothing else is added.  A
  response of an older revision, and an error, is sent as it is.
\<close>

theorem modern_results_complete:
  "(version \<noteq> ''2026-07-28'' \<longrightarrow> apply_protocol_result_fields response m version = response)
   \<and> apply_protocol_result_fields (RespError i e) m version = RespError i e
   \<and> (\<exists>kvs'. apply_protocol_result_fields (RespResult j (JObj kvs)) m ''2026-07-28'' = RespResult j (JObj kvs')
       \<and> map_of kvs' ''resultType'' \<noteq> None
       \<and> (is_cacheable_result_method m \<longrightarrow> map_of kvs' ''ttlMs'' \<noteq> None \<and> map_of kvs' ''cacheScope'' \<noteq> None)
       \<and> (\<forall>k v. map_of kvs k = Some v \<longrightarrow> map_of kvs' k = Some v)
       \<and> (\<forall>k. map_of kvs' k \<noteq> map_of kvs k \<longrightarrow> k \<in> {''resultType'', ''ttlMs'', ''cacheScope''}))"
proof -
  have fields: "\<exists>kvs'. insert_missing k v (JObj kvs) = JObj kvs' \<and> map_of kvs' k \<noteq> None
      \<and> (\<forall>l. l \<noteq> k \<or> map_of kvs k \<noteq> None \<longrightarrow> map_of kvs' l = map_of kvs l)" for k v kvs
    by (cases "map_of kvs k") (auto simp: map_add_def split: option.split)
  obtain a where a: "insert_missing ''resultType'' (JStr ''complete'') (JObj kvs) = JObj a" "map_of a ''resultType'' \<noteq> None"
      "\<And>l. l \<noteq> ''resultType'' \<or> map_of kvs ''resultType'' \<noteq> None \<Longrightarrow> map_of a l = map_of kvs l"
    using fields [of "''resultType''" _ kvs] by blast
  obtain b where b: "insert_missing ''ttlMs'' (JNum (NInt 0)) (JObj a) = JObj b" "map_of b ''ttlMs'' \<noteq> None"
      "\<And>l. l \<noteq> ''ttlMs'' \<or> map_of a ''ttlMs'' \<noteq> None \<Longrightarrow> map_of b l = map_of a l"
    using fields [of "''ttlMs''" _ a] by blast
  obtain d where d: "insert_missing ''cacheScope'' (JStr ''private'') (JObj b) = JObj d" "map_of d ''cacheScope'' \<noteq> None"
      "\<And>l. l \<noteq> ''cacheScope'' \<or> map_of b ''cacheScope'' \<noteq> None \<Longrightarrow> map_of d l = map_of b l"
    using fields [of "''cacheScope''" _ b] by blast
  have step: "apply_protocol_result_fields (RespResult j (JObj kvs)) m ''2026-07-28''
      = RespResult j (if is_cacheable_result_method m then JObj d else JObj a)"
    by (simp add: apply_protocol_result_fields_def stamp_into_def version_carries_result_type_def
        PROTOCOL_VERSION_2026_07_28_def a(1) b(1) d(1) del: insert_missing.simps)
  show ?thesis
  proof (cases "is_cacheable_result_method m")
    case True
    have "map_of d ''resultType'' \<noteq> None" "map_of d ''ttlMs'' \<noteq> None"
      using a(2) b(2,3) d(3) by simp_all
    moreover have "map_of d k = Some v" if "map_of kvs k = Some v" for k v
      using that a(3) b(3) d(3) by (metis option.distinct(1))
    moreover have "map_of d k = map_of kvs k" if "k \<notin> {''resultType'', ''ttlMs'', ''cacheScope''}" for k
      using that a(3) b(3) d(3) by auto
    ultimately show ?thesis
      using step True d(2) by (auto simp: apply_protocol_result_fields_def PROTOCOL_VERSION_2026_07_28_def)
  next
    case False
    have "map_of a k = Some v" if "map_of kvs k = Some v" for k v
      using that a(3) by (metis option.distinct(1))
    moreover have "map_of a k = map_of kvs k" if "k \<noteq> ''resultType''" for k
      using that a(3) by auto
    ultimately show ?thesis
      using step False a(2) by (auto simp: apply_protocol_result_fields_def PROTOCOL_VERSION_2026_07_28_def)
  qed
qed

text \<open>
  C40: one member that names 2025-03-26 in its metadata is enough for a batch to run on a connection that
  negotiated another revision, and the members that name none are then read under the negotiated one.
\<close>

theorem declared_batch_ignores_negotiation:
  assumes support: "''2025-03-26'' \<in> set (ps_versions ps)" "revision_as_str r \<in> set (ps_versions ps)"
    and qs: "q \<in> set qs" "declared_version (request_json q) = Some ''2025-03-26''"
      "\<forall>q\<in>set qs. declared_version (request_json q) \<in> {None, Some ''2025-03-26''}"
    and plain: "p \<in> set qs" "declared_version (request_json p) = None" "jr_method p \<noteq> ''initialize''"
    and fresh: "xs_revision ext = None"
  shows "resolve_revision ext ps (Some r) (batch_json qs) = Inr V2025_03_26
       \<and> resolve_revision ext ps (Some r) (request_json p) = Inr r"
proof
  have items: "json_items (batch_json qs) = map request_json qs" by (simp add: batch_json_def)
  have "set (List.map_filter declared_version (map request_json qs)) = {''2025-03-26''}"
  proof
    show "set (List.map_filter declared_version (map request_json qs)) \<subseteq> {''2025-03-26''}"
      using qs(3) by (force simp: List.map_filter_def)
    show "{''2025-03-26''} \<subseteq> set (List.map_filter declared_version (map request_json qs))"
      using qs(1,2) by (force simp: List.map_filter_def)
  qed
  then obtain rest where d: "List.map_filter declared_version (json_items (batch_json qs)) = ''2025-03-26'' # rest"
      "set rest \<subseteq> {''2025-03-26''}"
    unfolding items by (cases "List.map_filter declared_version (map request_json qs)") auto
  have "\<not> list_ex (\<lambda>c. c \<noteq> ''2025-03-26'') rest" using d(2) by (auto simp: list_ex_iff)
  moreover have "allowed_revision ''2025-03-26'' ps = Inr V2025_03_26" using support(1) by (simp add: allowed_revision_iff)
  ultimately show "resolve_revision ext ps (Some r) (batch_json qs) = Inr V2025_03_26"
    by (simp add: resolve_revision_def d(1))
  have "json_get (request_json p) ''method'' = Some (JStr (jr_method p))" by (simp add: request_json_def)
  moreover have "List.map_filter declared_version (json_items (request_json p)) = []"
    by (simp add: request_json_shape(3) List.map_filter_simps)
  ultimately show "resolve_revision ext ps (Some r) (request_json p) = Inr r"
    using plain(2,3) fresh support(2)
    by (simp add: resolve_revision_def connection_revision_def support_contains_iff)
qed

section \<open>Concrete runs\<close>

definition demo_jsonrpc :: jsonrpc_service where
  "demo_jsonrpc = \<lparr>sv_extensions = \<lparr>
       xs_request = \<lparr>rx_meta = None, rx_claims = None, rx_replayed_final = False\<rparr>,
       xs_support = None, xs_revision = None, xs_trace = None, xs_tracked = False\<rparr>,
     sv_support = support_compiled\<rparr>"

definition demo_jsonrpc_env :: "json service_env" where
  "demo_jsonrpc_env = \<lparr>sn_params = demo_params, sn_capabilities = json_is_object, sn_request_meta = pe_meta demo_params,
     sn_response = Inr, sn_debug = id\<rparr>"

text \<open>A router that counts, answers \<open>initialize\<close> with 2025-11-25 and refuses resources.\<close>

definition demo_handle :: "nat \<Rightarrow> service_request \<Rightarrow> nat \<times> (handler_error + json) \<times> bool" where
  "demo_handle n rr = (Suc n, (case rr_inner rr of
       Initialize _ \<Rightarrow> Inr (JObj [(''protocolVersion'', JStr ''2025-11-25'')])
     | ReadResource _ \<Rightarrow> Inl (OtherFailure ''gone'')
     | _ \<Rightarrow> Inr (JObj [])), False)"

definition demo_request :: "int \<Rightarrow> string \<Rightarrow> json option \<Rightarrow> json_rpc_request" where
  "demo_request i m params = \<lparr>jr_jsonrpc = ''2.0'', jr_id = IdNumber i, jr_method = m, jr_params = params\<rparr>"

definition demo_declared :: json where
  "demo_declared = JObj [(''_meta'', JObj [(META_PROTOCOL_VERSION, JStr ''2025-03-26''),
     (META_CLIENT_CAPABILITIES, JObj [])])]"

definition demo_batch :: "json_rpc_request list" where
  "demo_batch = [demo_request 1 ''tools/list'' (Some demo_declared), demo_request 2 ''ping'' None]"

lemma demo_batch_starts:
  "result_ok (start_batch demo_jsonrpc_env demo_jsonrpc demo_batch (0 :: nat, Some V2025_11_25))"
  by code_simp


lemma declared_batch_ignores_negotiation_witness:
  "resolve_revision (sv_extensions demo_jsonrpc) support_compiled (Some V2025_11_25) (batch_json demo_batch) = Inr V2025_03_26
   \<and> resolve_revision (sv_extensions demo_jsonrpc) support_compiled (Some V2025_11_25)
       (request_json (demo_request 2 ''ping'' None)) = Inr V2025_11_25"
proof -
  have 1: "declared_version (request_json (demo_request 1 ''tools/list'' (Some demo_declared))) = Some ''2025-03-26''"
    by code_simp
  have 2: "declared_version (request_json (demo_request 2 ''ping'' None)) = None" by code_simp
  have members: "set demo_batch = {demo_request 1 ''tools/list'' (Some demo_declared), demo_request 2 ''ping'' None}"
    by (simp add: demo_batch_def)
  have s: "''2025-03-26'' \<in> set (ps_versions support_compiled)" "revision_as_str V2025_11_25 \<in> set (ps_versions support_compiled)"
      "jr_method (demo_request 2 ''ping'' None) \<noteq> ''initialize''" "xs_revision (sv_extensions demo_jsonrpc) = None"
    by (simp_all add: support_compiled_def COMPILED_PROTOCOL_VERSIONS_def demo_request_def demo_jsonrpc_def)
  show ?thesis
    by (rule declared_batch_ignores_negotiation [where q = "demo_request 1 ''tools/list'' (Some demo_declared)"])
       (use 1 2 members s in auto)
qed

lemma request_reaches_router_checked_witness:
  "\<exists>st' response c. process_single_request demo_jsonrpc_env (router_call demo_handle) demo_jsonrpc
       (demo_request 7 ''resources/read'' (Some (JObj [(''uri'', JStr ''a'')]))) (4, None) = (st', response, c)
     \<and> st' = (5, None) \<and> response_id response = Some (IdNumber 7)"
proof -
  obtain st' response c where r: "process_single_request demo_jsonrpc_env (router_call demo_handle) demo_jsonrpc
       (demo_request 7 ''resources/read'' (Some (JObj [(''uri'', JStr ''a'')]))) (4, None) = (st', response, c)"
    by (metis prod.exhaust)
  have "fst (process_single_request demo_jsonrpc_env (router_call demo_handle) demo_jsonrpc
       (demo_request 7 ''resources/read'' (Some (JObj [(''uri'', JStr ''a'')]))) (4, None)) = (5, None)"
    by code_simp
  then have "st' = (5, None)" using r by simp
  moreover have "response_id response = Some (IdNumber 7)"
    using request_reaches_router_checked [OF r] by (simp add: demo_request_def)
  ultimately show ?thesis using r by blast
qed

lemma negotiated_revision_allowed_witness:
  "negotiated_ok demo_jsonrpc (Some V2025_11_25)
   \<and> connection_reach demo_jsonrpc_env (router_call demo_handle) demo_jsonrpc (1, Some V2025_11_25)"
proof -
  obtain st' response c where r: "process_single_request demo_jsonrpc_env (router_call demo_handle) demo_jsonrpc
       (demo_request 1 ''initialize'' (Some (JObj []))) (0, None) = (st', response, c)"
    by (metis prod.exhaust)
  have "fst (process_single_request demo_jsonrpc_env (router_call demo_handle) demo_jsonrpc
       (demo_request 1 ''initialize'' (Some (JObj []))) (0, None)) = (1, Some V2025_11_25)"
    by code_simp
  then have "st' = (1, Some V2025_11_25)" using r by simp
  then have "connection_reach demo_jsonrpc_env (router_call demo_handle) demo_jsonrpc (1, Some V2025_11_25)"
    using connection_reach.single [OF connection_reach.fresh r] by simp
  then show ?thesis using negotiated_revision_allowed by fastforce
qed

lemma modern_results_complete_witness:
  "apply_protocol_result_fields (RespResult (IdNumber 1) (JObj [])) ''tools/list'' ''2025-11-25''
     = RespResult (IdNumber 1) (JObj [])
   \<and> apply_protocol_result_fields (RespResult (IdNumber 1) (JObj [(''ttlMs'', JNum (NInt 5))])) ''tools/list'' ''2026-07-28''
     = RespResult (IdNumber 1) (JObj [(''ttlMs'', JNum (NInt 5)), (''resultType'', JStr ''complete''),
         (''cacheScope'', JStr ''private'')])"
proof -
  have "''2025-11-25'' \<noteq> ''2026-07-28''" by simp
  then have "apply_protocol_result_fields (RespResult (IdNumber 1) (JObj [])) ''tools/list'' ''2025-11-25''
     = RespResult (IdNumber 1) (JObj [])"
    by (rule modern_results_complete [THEN conjunct1, rule_format])
  moreover have "apply_protocol_result_fields (RespResult (IdNumber 1) (JObj [(''ttlMs'', JNum (NInt 5))]))
      ''tools/list'' ''2026-07-28''
     = RespResult (IdNumber 1) (JObj [(''ttlMs'', JNum (NInt 5)), (''resultType'', JStr ''complete''),
         (''cacheScope'', JStr ''private'')])" by code_simp
  ultimately show ?thesis by blast
qed

end
