(* ===== verification/Registry.thy ===== *)
theory Registry
  imports TaskCreation JsonRpcService UriTemplate
begin

text \<open>
  What a router serves and how it changes at run time: tools, resources, templates and prompts, the
  capability filters of \<open>filter.rs\<close> and the dynamic registries of \<open>registry.rs\<close>.
  A session, the boxed values of a type map, a policy closure and the handlers behind an item are the
  application's: type variables, functions, and left out of the items.
\<close>

section \<open>The items\<close>

record tool_annotations =
  ta_title :: "string option"
  ta_read_only_hint :: bool
  ta_destructive_hint :: bool
  ta_idempotent_hint :: bool
  ta_open_world_hint :: bool

text \<open>\<open>tl_rest\<close> stands for title, icons and metadata, which are only copied.\<close>

record tool = tool_info +
  tl_description :: "string option"
  tl_input_schema :: json
  tl_output_schema :: "json option"
  tl_annotations :: "tool_annotations option"
  tl_rest :: json

record resource =
  rs_uri :: string
  rs_name :: string
  rs_description :: "string option"

record resource_template =
  tp_uri_template :: string
  tp_name :: string
  tp_description :: "string option"
  tp_compiled :: compiled_template

record prompt_argument =
  pa_name :: string
  pa_required :: bool

record prompt =
  pr_name :: string
  pr_description :: "string option"
  pr_arguments :: "prompt_argument list"

section \<open>Capability filters\<close>

datatype denial_behavior = DenyNotFound | DenyUnauthorized | DenyCustom "string \<Rightarrow> handler_error"

fun denial_to_error :: "denial_behavior \<Rightarrow> string \<Rightarrow> handler_error" where
  "denial_to_error DenyNotFound name = JsonRpcFailure (invalid_params (''Not found: '' @ name))"
| "denial_to_error DenyUnauthorized name = JsonRpcFailure (forbidden (''Unauthorized: '' @ name))"
| "denial_to_error (DenyCustom f) name = f name"

definition denial_error_or_not_found :: "denial_behavior \<Rightarrow> string \<Rightarrow> handler_error \<Rightarrow> handler_error" where
  "denial_error_or_not_found d name not_found =
     (case d of DenyNotFound \<Rightarrow> not_found | _ \<Rightarrow> denial_to_error d name)"

datatype capability_operation = ListOperation | AccessOperation string

record ('s, 'v) filter_context =
  fc_session :: 's
  fc_extensions :: "string \<rightharpoonup> 'v"
  fc_operation :: capability_operation

definition filter_context_new ::
  "'s \<Rightarrow> (string \<rightharpoonup> 'v) \<Rightarrow> (string \<rightharpoonup> 'v) \<Rightarrow> capability_operation \<Rightarrow> ('s, 'v) filter_context" where
  "filter_context_new session router_extensions request_extensions operation =
     \<lparr>fc_session = session, fc_extensions = router_extensions ++ request_extensions, fc_operation = operation\<rparr>"

definition context_target :: "('s, 'v) filter_context \<Rightarrow> string option" where
  "context_target c = (case fc_operation c of ListOperation \<Rightarrow> None | AccessOperation target \<Rightarrow> Some target)"

record ('c, 's, 'v) capability_filter =
  cf_filter :: "('s, 'v) filter_context \<Rightarrow> 'c \<Rightarrow> bool"
  cf_denial :: denial_behavior

definition filter_with_context ::
  "(('s, 'v) filter_context \<Rightarrow> 'c \<Rightarrow> bool) \<Rightarrow> ('c, 's, 'v) capability_filter" where
  "filter_with_context f = \<lparr>cf_filter = f, cf_denial = DenyNotFound\<rparr>"

definition filter_of_session :: "('s \<Rightarrow> 'c \<Rightarrow> bool) \<Rightarrow> ('c, 's, 'v) capability_filter" where
  "filter_of_session f = filter_with_context (\<lambda>ctx. f (fc_session ctx))"

definition filter_denying ::
  "denial_behavior \<Rightarrow> ('c, 's, 'v) capability_filter \<Rightarrow> ('c, 's, 'v) capability_filter" where
  "filter_denying d f = f\<lparr>cf_denial := d\<rparr>"

definition filter_is_visible :: "('c, 's, 'v) capability_filter \<Rightarrow> 's \<Rightarrow> 'c \<Rightarrow> bool" where
  "filter_is_visible f session c =
     cf_filter f (filter_context_new session Map.empty Map.empty ListOperation) c"

definition allow_list :: "('c \<Rightarrow> string) \<Rightarrow> string list \<Rightarrow> ('c, 's, 'v) capability_filter" where
  "allow_list name_of names = filter_of_session (\<lambda>session c. name_of c \<in> set names)"

definition deny_list :: "('c \<Rightarrow> string) \<Rightarrow> string list \<Rightarrow> ('c, 's, 'v) capability_filter" where
  "deny_list name_of names = filter_of_session (\<lambda>session c. name_of c \<notin> set names)"

definition write_guard :: "('s \<Rightarrow> bool) \<Rightarrow> (tool, 's, 'v) capability_filter" where
  "write_guard is_write_allowed = filter_of_session (\<lambda>session t.
     (case tl_annotations t of None \<Rightarrow> False | Some a \<Rightarrow> ta_read_only_hint a) \<or> is_write_allowed session)"

text \<open>\<open>filter.map(is_visible_with_context).unwrap_or(true)\<close>\<close>

definition passes :: "('c, 's, 'v) capability_filter option \<Rightarrow> ('s, 'v) filter_context \<Rightarrow> 'c \<Rightarrow> bool" where
  "passes f ctx c = (case f of None \<Rightarrow> True | Some f \<Rightarrow> cf_filter f ctx c)"

section \<open>Notifications of a registry\<close>

datatype list_notification = ToolsListChanged | PromptsListChanged | ResourcesListChanged

text \<open>A bounded channel: what it holds, and how much it may hold.\<close>

record notification_sender =
  ns_closed :: bool
  ns_capacity :: nat
  ns_queue :: "list_notification list"

definition try_send :: "list_notification \<Rightarrow> notification_sender \<Rightarrow> notification_sender" where
  "try_send n tx =
     (if ns_closed tx \<or> ns_capacity tx \<le> length (ns_queue tx) then tx
      else tx\<lparr>ns_queue := ns_queue tx @ [n]\<rparr>)"

definition broadcast_changed :: "list_notification \<Rightarrow> notification_sender list \<Rightarrow> notification_sender list" where
  "broadcast_changed n senders = map (try_send n) (filter (\<lambda>tx. \<not> ns_closed tx) senders)"

section \<open>What a replacement changed\<close>

record registry_change =
  rc_added :: "string list"
  rc_removed :: "string list"
  rc_replaced :: "string list"

text \<open>Differences and the intersection of two \<open>BTreeSet\<close>s, in order.\<close>

definition change_between :: "string list \<Rightarrow> string list \<Rightarrow> registry_change" where
  "change_between previous current =
     (let p = sort (remdups previous); c = sort (remdups current)
      in \<lparr>rc_added = filter (\<lambda>k. k \<notin> set p) c,
          rc_removed = filter (\<lambda>k. k \<notin> set c) p,
          rc_replaced = filter (\<lambda>k. k \<in> set p) c\<rparr>)"

section \<open>Registries keyed by a name\<close>

text \<open>
  The registries of tools, prompts and resources hold a map under one lock and the senders under
  another.  \<open>rg_items\<close> is the map, as an association list.
\<close>

record 'c keyed_registry =
  rg_items :: "(string \<times> 'c) list"
  rg_senders :: "notification_sender list"

definition keyed_registry_new :: "'c keyed_registry" where
  "keyed_registry_new = \<lparr>rg_items = [], rg_senders = []\<rparr>"

definition add_notification_sender :: "notification_sender \<Rightarrow> 'c keyed_registry \<Rightarrow> 'c keyed_registry" where
  "add_notification_sender tx r = r\<lparr>rg_senders := rg_senders r @ [tx]\<rparr>"

definition registry_broadcast :: "list_notification \<Rightarrow> 'c keyed_registry \<Rightarrow> 'c keyed_registry" where
  "registry_broadcast n r = r\<lparr>rg_senders := broadcast_changed n (rg_senders r)\<rparr>"

definition registry_list :: "'c keyed_registry \<Rightarrow> 'c list" where
  "registry_list r = map snd (rg_items r)"

definition registry_get :: "'c keyed_registry \<Rightarrow> string \<Rightarrow> 'c option" where
  "registry_get r name = map_of (rg_items r) name"

definition registry_contains :: "'c keyed_registry \<Rightarrow> string \<Rightarrow> bool" where
  "registry_contains r name \<longleftrightarrow> map_of (rg_items r) name \<noteq> None"

definition keyed_insert :: "('c \<Rightarrow> string) \<Rightarrow> 'c \<Rightarrow> (string \<times> 'c) list \<Rightarrow> (string \<times> 'c) list" where
  "keyed_insert key c m = AList.update (key c) c m"

definition registry_register ::
  "('c \<Rightarrow> string) \<Rightarrow> list_notification \<Rightarrow> 'c \<Rightarrow> 'c keyed_registry \<Rightarrow> 'c keyed_registry" where
  "registry_register key n c r = registry_broadcast n (r\<lparr>rg_items := keyed_insert key c (rg_items r)\<rparr>)"

definition registry_unregister :: "list_notification \<Rightarrow> string \<Rightarrow> 'c keyed_registry \<Rightarrow> 'c keyed_registry \<times> bool" where
  "registry_unregister n name r =
     (let removed = map_of (rg_items r) name \<noteq> None;
          r' = r\<lparr>rg_items := AList.delete name (rg_items r)\<rparr>
      in (if removed then registry_broadcast n r' else r', removed))"

definition keyed_collect :: "('c \<Rightarrow> string) \<Rightarrow> 'c list \<Rightarrow> (string \<times> 'c) list" where
  "keyed_collect key cs = foldl (\<lambda>m c. keyed_insert key c m) [] cs"

definition registry_replace_all ::
  "('c \<Rightarrow> string) \<Rightarrow> list_notification \<Rightarrow> 'c list \<Rightarrow> 'c keyed_registry \<Rightarrow> 'c keyed_registry \<times> registry_change" where
  "registry_replace_all key n cs r =
     (let items = keyed_collect key cs; previous = rg_items r
      in (registry_broadcast n (r\<lparr>rg_items := items\<rparr>), change_between (map fst previous) (map fst items)))"

text \<open>The three registries.\<close>

definition register_tool :: "tool \<Rightarrow> tool keyed_registry \<Rightarrow> tool keyed_registry" where
  "register_tool = registry_register tl_name ToolsListChanged"

definition unregister_tool :: "string \<Rightarrow> tool keyed_registry \<Rightarrow> tool keyed_registry \<times> bool" where
  "unregister_tool = registry_unregister ToolsListChanged"

definition replace_all_tools :: "tool list \<Rightarrow> tool keyed_registry \<Rightarrow> tool keyed_registry \<times> registry_change" where
  "replace_all_tools = registry_replace_all tl_name ToolsListChanged"

definition register_prompt :: "prompt \<Rightarrow> prompt keyed_registry \<Rightarrow> prompt keyed_registry" where
  "register_prompt = registry_register pr_name PromptsListChanged"

definition unregister_prompt :: "string \<Rightarrow> prompt keyed_registry \<Rightarrow> prompt keyed_registry \<times> bool" where
  "unregister_prompt = registry_unregister PromptsListChanged"

definition replace_all_prompts :: "prompt list \<Rightarrow> prompt keyed_registry \<Rightarrow> prompt keyed_registry \<times> registry_change" where
  "replace_all_prompts = registry_replace_all pr_name PromptsListChanged"

definition register_resource :: "resource \<Rightarrow> resource keyed_registry \<Rightarrow> resource keyed_registry" where
  "register_resource = registry_register rs_uri ResourcesListChanged"

definition unregister_resource :: "string \<Rightarrow> resource keyed_registry \<Rightarrow> resource keyed_registry \<times> bool" where
  "unregister_resource = registry_unregister ResourcesListChanged"

definition replace_all_resources ::
  "resource list \<Rightarrow> resource keyed_registry \<Rightarrow> resource keyed_registry \<times> registry_change" where
  "replace_all_resources = registry_replace_all rs_uri ResourcesListChanged"

section \<open>The registry of templates\<close>

text \<open>An ordered list, since the first template that matches is used.\<close>

record template_registry =
  tg_items :: "resource_template list"
  tg_senders :: "notification_sender list"

definition template_broadcast :: "template_registry \<Rightarrow> template_registry" where
  "template_broadcast r = r\<lparr>tg_senders := broadcast_changed ResourcesListChanged (tg_senders r)\<rparr>"

definition template_push :: "resource_template \<Rightarrow> resource_template list \<Rightarrow> resource_template list" where
  "template_push t ts = filter (\<lambda>u. tp_uri_template u \<noteq> tp_uri_template t) ts @ [t]"

definition register_template :: "resource_template \<Rightarrow> template_registry \<Rightarrow> template_registry" where
  "register_template t r = template_broadcast (r\<lparr>tg_items := template_push t (tg_items r)\<rparr>)"

definition unregister_template :: "string \<Rightarrow> template_registry \<Rightarrow> template_registry \<times> bool" where
  "unregister_template pattern r =
     (let kept = filter (\<lambda>u. tp_uri_template u \<noteq> pattern) (tg_items r);
          removed = length kept < length (tg_items r)
      in (if removed then template_broadcast (r\<lparr>tg_items := kept\<rparr>) else r\<lparr>tg_items := kept\<rparr>, removed))"

definition replace_all_templates ::
  "resource_template list \<Rightarrow> template_registry \<Rightarrow> template_registry \<times> registry_change" where
  "replace_all_templates ts r =
     (let ordered = foldl (\<lambda>us t. template_push t us) [] ts; previous = tg_items r
      in (template_broadcast (r\<lparr>tg_items := ordered\<rparr>),
          change_between (map tp_uri_template previous) (map tp_uri_template ordered)))"

definition contains_template :: "template_registry \<Rightarrow> string \<Rightarrow> bool" where
  "contains_template r pattern \<longleftrightarrow> list_ex (\<lambda>t. tp_uri_template t = pattern) (tg_items r)"

fun first_match ::
  "regex_engine \<Rightarrow> string \<Rightarrow> resource_template list \<Rightarrow> (resource_template \<times> (string \<times> string) list) option" where
  "first_match re uri [] = None"
| "first_match re uri (t # ts) =
     (case match_uri re (tp_compiled t) uri of
        Some variables \<Rightarrow> Some (t, variables)
      | None \<Rightarrow> first_match re uri ts)"

section \<open>What every registry promises\<close>

text \<open>
  Two registries are the same to their readers when every key leads to the same item; the laws below are
  what both kinds give.  A replacement is then registering the new items, one by one, into an empty
  registry, and what it reports is the difference of the keys.
\<close>

locale item_registry =
  fixes lookup :: "'r \<Rightarrow> string \<Rightarrow> 'c option"
    and keys :: "'r \<Rightarrow> string list"
    and key :: "'c \<Rightarrow> string"
    and register :: "'c \<Rightarrow> 'r \<Rightarrow> 'r"
    and unregister :: "string \<Rightarrow> 'r \<Rightarrow> 'r \<times> bool"
    and replace_all :: "'c list \<Rightarrow> 'r \<Rightarrow> 'r \<times> registry_change"
    and fresh :: 'r
    and ok :: "'r \<Rightarrow> bool"
  assumes fresh_ok: "ok fresh"
    and fresh_empty: "lookup fresh k = None"
    and keys_are: "ok r \<Longrightarrow> k \<in> set (keys r) \<longleftrightarrow> lookup r k \<noteq> None"
    and register_ok: "ok r \<Longrightarrow> ok (register c r)"
    and lookup_register: "ok r \<Longrightarrow> lookup (register c r) = (lookup r)(key c \<mapsto> c)"
    and unregister_ok: "ok r \<Longrightarrow> ok (fst (unregister k r))"
    and lookup_unregister: "ok r \<Longrightarrow> lookup (fst (unregister k r)) = (lookup r)(k := None)"
    and unregister_tells: "ok r \<Longrightarrow> snd (unregister k r) \<longleftrightarrow> lookup r k \<noteq> None"
    and replace_ok: "ok r \<Longrightarrow> ok (fst (replace_all cs r))"
    and lookup_replace: "ok r \<Longrightarrow> lookup (fst (replace_all cs r)) = lookup (foldl (\<lambda>r c. register c r) fresh cs)"
    and replace_tells: "ok r \<Longrightarrow> snd (replace_all cs r) = change_between (keys r) (keys (fst (replace_all cs r)))"
begin

lemma registered_ok: "ok r \<Longrightarrow> ok (foldl (\<lambda>r c. register c r) r cs)"
  by (induction cs arbitrary: r) (simp_all add: register_ok)

lemma lookup_registered:
  "ok r \<Longrightarrow> lookup (foldl (\<lambda>r c. register c r) r cs) k =
     (case find (\<lambda>c. key c = k) (rev cs) of Some c \<Rightarrow> Some c | None \<Rightarrow> lookup r k)"
proof (induction cs arbitrary: r)
  case (Cons c cs)
  have "find P (as @ bs) = (case find P as of Some x \<Rightarrow> Some x | None \<Rightarrow> find P bs)" for P and as bs :: "'c list"
    by (induction as) auto
  then show ?case
    using Cons by (auto simp: register_ok lookup_register split: option.split)
qed simp

text \<open>The last item of a key wins, and the report partitions the keys.\<close>

lemma replaced:
  assumes "ok r" and "replace_all cs r = (r', change)"
  shows "lookup r' k = find (\<lambda>c. key c = k) (rev cs)"
    and "set (rc_added change) = key ` set cs - {k. lookup r k \<noteq> None}"
    and "set (rc_removed change) = {k. lookup r k \<noteq> None} - key ` set cs"
    and "set (rc_replaced change) = key ` set cs \<inter> {k. lookup r k \<noteq> None}"
    and "\<forall>ks\<in>{rc_added change, rc_removed change, rc_replaced change}. sorted ks \<and> distinct ks"
proof -
  have l: "lookup r' k = find (\<lambda>c. key c = k) (rev cs)" for k
  proof -
    have "lookup r' = lookup (foldl (\<lambda>r c. register c r) fresh cs)"
      using lookup_replace [OF assms(1), of cs] assms(2) by simp
    then show ?thesis using lookup_registered [OF fresh_ok, of cs k] by (simp add: fresh_empty split: option.split)
  qed
  have ok': "ok r'" using replace_ok [OF assms(1), of cs] assms(2) by simp
  have new: "set (keys r') = key ` set cs"
  proof -
    have "k \<in> set (keys r') \<longleftrightarrow> (\<exists>c\<in>set cs. key c = k)" for k
      using keys_are [OF ok', of k] l [of k] find_None_iff [of "\<lambda>c. key c = k" "rev cs"] by auto
    then show ?thesis by auto
  qed
  have old: "set (keys r) = {k. lookup r k \<noteq> None}" using keys_are [OF assms(1)] by blast
  have c: "change = change_between (keys r) (keys r')" using replace_tells [OF assms(1), of cs] assms(2) by simp
  show "lookup r' k = find (\<lambda>c. key c = k) (rev cs)" by (rule l)
  show "set (rc_added change) = key ` set cs - {k. lookup r k \<noteq> None}"
    unfolding c change_between_def Let_def using new old by auto
  show "set (rc_removed change) = {k. lookup r k \<noteq> None} - key ` set cs"
    unfolding c change_between_def Let_def using new old by auto
  show "set (rc_replaced change) = key ` set cs \<inter> {k. lookup r k \<noteq> None}"
    unfolding c change_between_def Let_def using new old by auto
  show "\<forall>ks\<in>{rc_added change, rc_removed change, rc_replaced change}. sorted ks \<and> distinct ks"
    unfolding c change_between_def Let_def by (simp add: sorted_wrt_filter)
qed

end

subsection \<open>The keyed registries\<close>

definition keyed_ok :: "('c \<Rightarrow> string) \<Rightarrow> (string \<times> 'c) list \<Rightarrow> bool" where
  "keyed_ok key m \<longleftrightarrow> distinct (map fst m) \<and> (\<forall>(k, c)\<in>set m. k = key c)"

lemma in_updated: "(k', c') \<in> set (AList.update k c m) \<Longrightarrow> (k', c') = (k, c) \<or> (k', c') \<in> set m"
  by (induction m) (auto split: if_splits)

lemma keyed_insert_ok: "keyed_ok key m \<Longrightarrow> keyed_ok key (keyed_insert key c m)"
  unfolding keyed_ok_def keyed_insert_def by (auto simp: distinct_update dest: in_updated)

lemma keyed_insert_get: "map_of (keyed_insert key c m) = (map_of m)(key c \<mapsto> c)"
  by (simp add: keyed_insert_def update_conv')

lemma keyed_delete_ok: "keyed_ok key m \<Longrightarrow> keyed_ok key (AList.delete k m)"
  unfolding keyed_ok_def by (simp add: distinct_delete) (simp add: AList.delete_eq)

lemma keyed_collect_ok: "keyed_ok key (keyed_collect key cs)"
proof -
  have "keyed_ok key m \<Longrightarrow> keyed_ok key (foldl (\<lambda>m c. keyed_insert key c m) m cs)" for m
    by (induction cs arbitrary: m) (simp_all add: keyed_insert_ok)
  from this [of "[]"] show ?thesis unfolding keyed_collect_def by (simp add: keyed_ok_def [of _ "[]"])
qed

lemma keyed_items: "keyed_ok key m \<Longrightarrow> c \<in> set (map snd m) \<longleftrightarrow> map_of m (key c) = Some c"
  by (force simp: keyed_ok_def map_of_eq_Some_iff)

lemma keyed_key: "keyed_ok key m \<Longrightarrow> map_of m k = Some c \<Longrightarrow> key c = k"
  by (auto simp: keyed_ok_def map_of_eq_Some_iff)

lemma registry_broadcast_items [simp]: "rg_items (registry_broadcast n r) = rg_items r"
  by (simp add: registry_broadcast_def)

lemma keyed_registry_laws:
  "item_registry registry_get (\<lambda>r. map fst (rg_items r)) key (registry_register key n) (registry_unregister n)
     (registry_replace_all key n) keyed_registry_new (\<lambda>r. keyed_ok key (rg_items r))"
proof unfold_locales
  fix r :: "'a keyed_registry" and cs
  have items: "rg_items (foldl (\<lambda>r c. registry_register key n c r) s cs) = foldl (\<lambda>m c. keyed_insert key c m) (rg_items s) cs"
    for s by (induction cs arbitrary: s) (simp_all add: registry_register_def)
  show "registry_get (fst (registry_replace_all key n cs r)) = registry_get (foldl (\<lambda>r c. registry_register key n c r) keyed_registry_new cs)"
    by (simp add: fun_eq_iff registry_get_def items registry_replace_all_def keyed_collect_def keyed_registry_new_def Let_def)
qed (auto simp: keyed_registry_new_def registry_get_def keyed_ok_def [of _ "[]"] registry_register_def registry_unregister_def
    registry_replace_all_def keyed_insert_ok keyed_delete_ok keyed_collect_ok Let_def fun_eq_iff keyed_insert_get
    update_conv' delete_conv' map_of_eq_None_iff)

interpretation tools_kept: item_registry registry_get "\<lambda>r. map fst (rg_items r)" tl_name register_tool unregister_tool
    replace_all_tools keyed_registry_new "\<lambda>r. keyed_ok tl_name (rg_items r)"
  unfolding register_tool_def unregister_tool_def replace_all_tools_def by (rule keyed_registry_laws)

interpretation prompts_kept: item_registry registry_get "\<lambda>r. map fst (rg_items r)" pr_name register_prompt unregister_prompt
    replace_all_prompts keyed_registry_new "\<lambda>r. keyed_ok pr_name (rg_items r)"
  unfolding register_prompt_def unregister_prompt_def replace_all_prompts_def by (rule keyed_registry_laws)

interpretation resources_kept: item_registry registry_get "\<lambda>r. map fst (rg_items r)" rs_uri register_resource
    unregister_resource replace_all_resources keyed_registry_new "\<lambda>r. keyed_ok rs_uri (rg_items r)"
  unfolding register_resource_def unregister_resource_def replace_all_resources_def by (rule keyed_registry_laws)

subsection \<open>The registry of templates\<close>

definition template_get :: "template_registry \<Rightarrow> string \<Rightarrow> resource_template option" where
  "template_get r pattern = find (\<lambda>t. tp_uri_template t = pattern) (tg_items r)"

definition template_registry_new :: template_registry where
  "template_registry_new = \<lparr>tg_items = [], tg_senders = []\<rparr>"

definition patterns_distinct :: "resource_template list \<Rightarrow> bool" where
  "patterns_distinct ts \<longleftrightarrow> distinct (map tp_uri_template ts)"

lemma template_push_distinct: "patterns_distinct ts \<Longrightarrow> patterns_distinct (template_push t ts)"
  by (auto simp: patterns_distinct_def template_push_def distinct_map_filter)

lemma find_push:
  "find (\<lambda>u. tp_uri_template u = k) (template_push t ts) =
     (if tp_uri_template t = k then Some t else find (\<lambda>u. tp_uri_template u = k) ts)"
  by (induction ts) (auto simp: template_push_def)

lemma find_filtered:
  "find (\<lambda>u. tp_uri_template u = k) (filter (\<lambda>u. tp_uri_template u \<noteq> p) ts) =
     (if p = k then None else find (\<lambda>u. tp_uri_template u = k) ts)"
  by (induction ts) auto

lemma fewer_kept: "length (filter P xs) < length xs \<longleftrightarrow> (\<exists>x\<in>set xs. \<not> P x)"
  by (induction xs) (auto simp: less_Suc_eq_le)

lemma template_broadcast_items [simp]: "tg_items (template_broadcast r) = tg_items r"
  by (simp add: template_broadcast_def)

interpretation templates_kept: item_registry template_get "\<lambda>r. map tp_uri_template (tg_items r)" tp_uri_template
    register_template unregister_template replace_all_templates template_registry_new "\<lambda>r. patterns_distinct (tg_items r)"
proof unfold_locales
  fix r cs k
  have items: "tg_items (foldl (\<lambda>r c. register_template c r) s cs) = foldl (\<lambda>us t. template_push t us) (tg_items s) cs" for s
    by (induction cs arbitrary: s) (simp_all add: register_template_def)
  show "template_get (fst (replace_all_templates cs r)) = template_get (foldl (\<lambda>r c. register_template c r) template_registry_new cs)"
    by (simp add: fun_eq_iff template_get_def items replace_all_templates_def template_registry_new_def Let_def)
  have "patterns_distinct us \<Longrightarrow> patterns_distinct (foldl (\<lambda>us t. template_push t us) us cs)" for us
    by (induction cs arbitrary: us) (simp_all add: template_push_distinct)
  then show "patterns_distinct (tg_items (fst (replace_all_templates cs r)))"
    by (simp add: replace_all_templates_def patterns_distinct_def Let_def)
  show "patterns_distinct (tg_items (register_template c r))" if "patterns_distinct (tg_items r)" for c
    using that by (simp add: register_template_def template_push_distinct)
  show "snd (unregister_template k r) \<longleftrightarrow> template_get r k \<noteq> None"
    by (auto simp: unregister_template_def template_get_def fewer_kept find_None_iff Let_def)
  show "(k \<in> set (map tp_uri_template (tg_items r))) = (template_get r k \<noteq> None)"
    by (auto simp: template_get_def find_None_iff)
qed (auto simp: template_registry_new_def template_get_def register_template_def unregister_template_def
    replace_all_templates_def Let_def fun_eq_iff find_push find_filtered
    patterns_distinct_def [of "[]"] patterns_distinct_def [of "filter P ts" for P ts] patterns_distinct_def [of "tg_items r" for r]
    distinct_map_filter)

section \<open>Registries as one sees them\<close>

text \<open>One notification to every open channel that has room for it; closed channels are forgotten.\<close>

lemma broadcast_reaches:
  "broadcast_changed n senders = map (\<lambda>tx. if length (ns_queue tx) < ns_capacity tx
      then tx\<lparr>ns_queue := ns_queue tx @ [n]\<rparr> else tx) (filter (\<lambda>tx. \<not> ns_closed tx) senders)"
  by (auto simp: broadcast_changed_def try_send_def)

text \<open>
  C27: Replacing all dynamic tools leaves under each name the last of the new tools with it and nothing else,
  whatever was registered before; the report lists, sorted and without repetition, exactly the names that
  appeared, vanished and stayed; and every session whose channel has room is told once.
\<close>

theorem tools_replaced_at_once:
  assumes "keyed_ok tl_name (rg_items r)" and "replace_all_tools ts r = (r', change)"
  shows "registry_get r' = (\<lambda>name. find (\<lambda>t. tl_name t = name) (rev ts))
    \<and> keyed_ok tl_name (rg_items r')
    \<and> set (rc_added change) = tl_name ` set ts - {k. registry_get r k \<noteq> None}
    \<and> set (rc_removed change) = {k. registry_get r k \<noteq> None} - tl_name ` set ts
    \<and> set (rc_replaced change) = tl_name ` set ts \<inter> {k. registry_get r k \<noteq> None}
    \<and> (\<forall>ks\<in>{rc_added change, rc_removed change, rc_replaced change}. sorted ks \<and> distinct ks)
    \<and> rg_senders r' = map (\<lambda>tx. if length (ns_queue tx) < ns_capacity tx
         then tx\<lparr>ns_queue := ns_queue tx @ [ToolsListChanged]\<rparr> else tx)
       (filter (\<lambda>tx. \<not> ns_closed tx) (rg_senders r))"
proof (intro conjI)
  show "registry_get r' = (\<lambda>name. find (\<lambda>t. tl_name t = name) (rev ts))"
    using tools_kept.replaced(1) [OF assms] by blast
  show "keyed_ok tl_name (rg_items r')" using tools_kept.replace_ok [OF assms(1), of ts] assms(2) by simp
  show "rg_senders r' = map (\<lambda>tx. if length (ns_queue tx) < ns_capacity tx
         then tx\<lparr>ns_queue := ns_queue tx @ [ToolsListChanged]\<rparr> else tx)
       (filter (\<lambda>tx. \<not> ns_closed tx) (rg_senders r))"
    using assms(2) by (auto simp: replace_all_tools_def registry_replace_all_def registry_broadcast_def broadcast_reaches Let_def)
qed (rule tools_kept.replaced [OF assms])+

section \<open>A concrete registry\<close>

definition demo_annotations :: tool_annotations where
  "demo_annotations = \<lparr>ta_title = None, ta_read_only_hint = True, ta_destructive_hint = False,
     ta_idempotent_hint = True, ta_open_world_hint = False\<rparr>"

definition catalog_tool :: "string \<Rightarrow> string option \<Rightarrow> tool_annotations option \<Rightarrow> tool" where
  "catalog_tool name description a = \<lparr>tl_name = name, tl_task_support = TsForbidden, tl_live = False,
     tl_required_capabilities = None, tl_description = description, tl_input_schema = JObj [],
     tl_output_schema = None, tl_annotations = a, tl_rest = JNull\<rparr>"

definition demo_dynamic :: "tool keyed_registry" where
  "demo_dynamic = register_tool (catalog_tool ''read'' None None)
     (register_tool (catalog_tool ''wipe'' None (Some demo_annotations)) keyed_registry_new)"

lemma demo_dynamic_ok: "keyed_ok tl_name (rg_items demo_dynamic)"
  by (simp add: demo_dynamic_def register_tool_def registry_register_def keyed_registry_new_def keyed_ok_def keyed_insert_def
      catalog_tool_def)

lemma tools_replaced_at_once_witness:
  "rc_replaced (snd (replace_all_tools [catalog_tool ''wipe'' None None] demo_dynamic)) = [''wipe'']
   \<and> rc_removed (snd (replace_all_tools [catalog_tool ''wipe'' None None] demo_dynamic)) = [''read'']
   \<and> registry_get (fst (replace_all_tools [catalog_tool ''wipe'' None None] demo_dynamic)) ''read'' = None"
proof -
  obtain r change where r: "replace_all_tools [catalog_tool ''wipe'' None None] demo_dynamic = (r, change)"
    by (metis prod.exhaust)
  have "registry_get r ''read'' = None"
    using tools_replaced_at_once [OF demo_dynamic_ok r] by (simp add: catalog_tool_def)
  moreover have "rc_replaced (snd (replace_all_tools [catalog_tool ''wipe'' None None] demo_dynamic)) = [''wipe'']
      \<and> rc_removed (snd (replace_all_tools [catalog_tool ''wipe'' None None] demo_dynamic)) = [''read'']"
    by code_simp
  ultimately show ?thesis by (simp add: r)
qed


end
