(* ===== verification/Catalog.thy ===== *)
theory Catalog
  imports Registry Pagination
begin

text \<open>
  The list, access and completion arms of \<open>McpRouter::handle\<close> (\<open>router.rs\<close>), with
  \<open>merge\<close>, \<open>nest\<close> and the switches of \<open>router/builder.rs\<close>.  Hash maps are
  association lists with distinct keys, in any order.
\<close>

section \<open>The router's catalog\<close>

text \<open>
  The part of \<open>McpRouterInner\<close> these arms read.  \<open>ca_extensions\<close> are the entries of the
  router's type map that only policies read; the lazy initializer of the prompt registry is a closure over
  that registry.
\<close>

datatype hint_scope = HintPublic | HintPrivate

record ('s, 'v) catalog =
  ca_tools :: "(string \<times> tool) list"
  ca_resources :: "(string \<times> resource) list"
  ca_templates :: "resource_template list"
  ca_prompts :: "(string \<times> prompt) list"
  ca_dynamic_tools :: "tool keyed_registry option"
  ca_dynamic_resources :: "resource keyed_registry option"
  ca_dynamic_templates :: "template_registry option"
  ca_dynamic_prompts :: "prompt keyed_registry option"
  ca_prompt_initializer :: "(prompt keyed_registry option \<Rightarrow> prompt keyed_registry option \<times> (handler_error + unit)) option"
  ca_disabled_tools :: "string list"
  ca_disabled_resources :: "string list"
  ca_disabled_prompts :: "string list"
  ca_tool_filter :: "(tool, 's, 'v) capability_filter option"
  ca_resource_filter :: "(resource, 's, 'v) capability_filter option"
  ca_template_filter :: "(resource_template, 's, 'v) capability_filter option"
  ca_prompt_filter :: "(prompt, 's, 'v) capability_filter option"
  ca_extensions :: "string \<rightharpoonup> 'v"
  ca_protocol_extensions :: "(string \<times> json) list"
  ca_page_size :: "nat option"
  ca_list_ttl_ms :: "nat option"
  ca_read_ttl_ms :: "nat option"
  ca_cache_scope :: "hint_scope option"

text \<open>
  The extensions of a request: what the router reads itself, and the entries only policies read.
\<close>

record 'v catalog_request =
  cq_known :: request_extensions
  cq_entries :: "string \<rightharpoonup> 'v"

definition final_tasks_enabled :: "('s, 'v) catalog \<Rightarrow> bool" where
  "final_tasks_enabled ca \<longleftrightarrow> map_of (ca_protocol_extensions ca) TASKS_EXTENSION_ID \<noteq> None"

definition capability_filter_context ::
  "'s \<Rightarrow> ('s, 'v) catalog \<Rightarrow> 'v catalog_request \<Rightarrow> capability_operation \<Rightarrow> ('s, 'v) filter_context" where
  "capability_filter_context sess ca q operation =
     filter_context_new sess (ca_extensions ca) (cq_entries q) operation"

definition effective_cache_scope :: "('s, 'v) catalog \<Rightarrow> nat option \<Rightarrow> hint_scope option" where
  "effective_cache_scope ca ttl =
     (case ca_cache_scope ca of Some s \<Rightarrow> Some s | None \<Rightarrow> map_option (\<lambda>_. HintPrivate) ttl)"

section \<open>Lists\<close>

record 'd list_result =
  li_items :: "'d list"
  li_next_cursor :: "string option"
  li_ttl_ms :: "nat option"
  li_cache_scope :: "hint_scope option"

text \<open>\<open>None\<close> is the panic of \<open>paginate\<close>.\<close>

definition list_page ::
  "(string \<Rightarrow> string) \<Rightarrow> (string \<Rightarrow> string option) \<Rightarrow> ('s, 'v) catalog \<Rightarrow> string option \<Rightarrow> 'd list
   \<Rightarrow> (handler_error + 'd list_result) option" where
  "list_page enc dec ca cursor items =
     map_option (\<lambda>r. case r of
         Inl e \<Rightarrow> Inl (JsonRpcFailure e)
       | Inr (page, next_cursor) \<Rightarrow> Inr \<lparr>li_items = page, li_next_cursor = next_cursor,
           li_ttl_ms = ca_list_ttl_ms ca, li_cache_scope = effective_cache_scope ca (ca_list_ttl_ms ca)\<rparr>)
       (paginate enc dec items cursor (ca_page_size ca))"

text \<open>
  Static items that are visible, then the dynamic ones whose key is not among those keys, sorted.
\<close>

definition merge_listed ::
  "('c \<Rightarrow> string) \<Rightarrow> ('c \<Rightarrow> bool) \<Rightarrow> 'c list \<Rightarrow> 'c keyed_registry option \<Rightarrow> 'c list" where
  "merge_listed key is_visible statics dynamic =
     (let shown = filter is_visible statics
      in sort_key key (shown @ (case dynamic of
           None \<Rightarrow> []
         | Some r \<Rightarrow> filter (\<lambda>c. key c \<notin> key ` set shown \<and> is_visible c) (registry_list r))))"

subsection \<open>tools/list\<close>

record tool_definition =
  td_name :: string
  td_description :: "string option"
  td_input_schema :: json
  td_output_schema :: "json option"
  td_annotations :: "tool_annotations option"
  td_execution :: "task_support_mode option"
  td_rest :: json

definition definition_of_tool :: "tool \<Rightarrow> tool_definition" where
  "definition_of_tool t =
     \<lparr>td_name = tl_name t, td_description = tl_description t, td_input_schema = tl_input_schema t,
      td_output_schema = tl_output_schema t, td_annotations = tl_annotations t,
      td_execution = (if tl_task_support t = TsForbidden then None else Some (tl_task_support t)),
      td_rest = tl_rest t\<rparr>"

definition listed_definition :: "bool \<Rightarrow> tool \<Rightarrow> tool_definition" where
  "listed_definition final_protocol t =
     (let d = definition_of_tool t in
      if final_protocol then d\<lparr>td_execution := None\<rparr>
      else if (case td_output_schema d of
                 None \<Rightarrow> False
               | Some schema \<Rightarrow> Option.bind (json_get schema ''type'') json_as_str \<noteq> Some ''object'')
      then d\<lparr>td_output_schema := None\<rparr>
      else d)"

definition tool_is_visible :: "'s \<Rightarrow> ('s, 'v) catalog \<Rightarrow> 'v catalog_request \<Rightarrow> tool \<Rightarrow> bool" where
  "tool_is_visible sess ca q t \<longleftrightarrow>
     (let final_protocol = is_final_protocol_request (cq_known q);
          negotiated = (final_protocol \<and> final_tasks_enabled ca \<and> client_declares_tasks (cq_known q))
      in tl_name t \<notin> set (ca_disabled_tools ca)
       \<and> \<not> (final_protocol \<and> tl_task_support t = TsRequired \<and> \<not> negotiated)
       \<and> passes (ca_tool_filter ca) (capability_filter_context sess ca q ListOperation) t)"

definition listed_tools :: "'s \<Rightarrow> ('s, 'v) catalog \<Rightarrow> 'v catalog_request \<Rightarrow> tool list" where
  "listed_tools sess ca q =
     merge_listed tl_name (tool_is_visible sess ca q) (map snd (ca_tools ca)) (ca_dynamic_tools ca)"

definition list_tools ::
  "(string \<Rightarrow> string) \<Rightarrow> (string \<Rightarrow> string option) \<Rightarrow> 's \<Rightarrow> ('s, 'v) catalog \<Rightarrow> 'v catalog_request
   \<Rightarrow> string option \<Rightarrow> (handler_error + tool_definition list_result) option" where
  "list_tools enc dec sess ca q cursor =
     list_page enc dec ca cursor
       (map (listed_definition (is_final_protocol_request (cq_known q))) (listed_tools sess ca q))"

subsection \<open>resources/list, resources/templates/list and prompts/list\<close>

definition resource_is_visible :: "'s \<Rightarrow> ('s, 'v) catalog \<Rightarrow> 'v catalog_request \<Rightarrow> resource \<Rightarrow> bool" where
  "resource_is_visible sess ca q r \<longleftrightarrow>
     rs_uri r \<notin> set (ca_disabled_resources ca)
     \<and> passes (ca_resource_filter ca) (capability_filter_context sess ca q ListOperation) r"

definition listed_resources :: "'s \<Rightarrow> ('s, 'v) catalog \<Rightarrow> 'v catalog_request \<Rightarrow> resource list" where
  "listed_resources sess ca q =
     merge_listed rs_uri (resource_is_visible sess ca q) (map snd (ca_resources ca)) (ca_dynamic_resources ca)"

definition list_resources ::
  "(string \<Rightarrow> string) \<Rightarrow> (string \<Rightarrow> string option) \<Rightarrow> 's \<Rightarrow> ('s, 'v) catalog \<Rightarrow> 'v catalog_request
   \<Rightarrow> string option \<Rightarrow> (handler_error + resource list_result) option" where
  "list_resources enc dec sess ca q cursor = list_page enc dec ca cursor (listed_resources sess ca q)"

definition template_is_visible :: "('s, 'v) catalog \<Rightarrow> ('s, 'v) filter_context \<Rightarrow> resource_template \<Rightarrow> bool" where
  "template_is_visible ca ctx t =
     (case ca_template_filter ca of Some f \<Rightarrow> cf_filter f ctx t | None \<Rightarrow> ca_resource_filter ca = None)"

text \<open>Here precedence is resolved before filtering.\<close>

definition listed_templates :: "'s \<Rightarrow> ('s, 'v) catalog \<Rightarrow> 'v catalog_request \<Rightarrow> resource_template list" where
  "listed_templates sess ca q =
     (let ctx = capability_filter_context sess ca q ListOperation;
          static_patterns = tp_uri_template ` set (ca_templates ca)
      in sort_key tp_uri_template (filter (template_is_visible ca ctx) (ca_templates ca)
           @ (case ca_dynamic_templates ca of
                None \<Rightarrow> []
              | Some r \<Rightarrow> filter (\<lambda>t. tp_uri_template t \<notin> static_patterns \<and> template_is_visible ca ctx t) (tg_items r))))"

definition list_resource_templates ::
  "(string \<Rightarrow> string) \<Rightarrow> (string \<Rightarrow> string option) \<Rightarrow> 's \<Rightarrow> ('s, 'v) catalog \<Rightarrow> 'v catalog_request
   \<Rightarrow> string option \<Rightarrow> (handler_error + resource_template list_result) option" where
  "list_resource_templates enc dec sess ca q cursor = list_page enc dec ca cursor (listed_templates sess ca q)"

text \<open>The initializer runs before the catalog is looked at; its error ends the request.\<close>

definition run_initializer :: "('s, 'v) catalog \<Rightarrow> ('s, 'v) catalog \<times> (handler_error + unit)" where
  "run_initializer ca =
     (case ca_prompt_initializer ca of
        None \<Rightarrow> (ca, Inr ())
      | Some f \<Rightarrow> (case f (ca_dynamic_prompts ca) of (r, res) \<Rightarrow> (ca\<lparr>ca_dynamic_prompts := r\<rparr>, res)))"

definition prompt_is_visible :: "'s \<Rightarrow> ('s, 'v) catalog \<Rightarrow> 'v catalog_request \<Rightarrow> prompt \<Rightarrow> bool" where
  "prompt_is_visible sess ca q p \<longleftrightarrow>
     pr_name p \<notin> set (ca_disabled_prompts ca)
     \<and> passes (ca_prompt_filter ca) (capability_filter_context sess ca q ListOperation) p"

definition listed_prompts :: "'s \<Rightarrow> ('s, 'v) catalog \<Rightarrow> 'v catalog_request \<Rightarrow> prompt list" where
  "listed_prompts sess ca q =
     merge_listed pr_name (prompt_is_visible sess ca q) (map snd (ca_prompts ca)) (ca_dynamic_prompts ca)"

definition list_prompts ::
  "(string \<Rightarrow> string) \<Rightarrow> (string \<Rightarrow> string option) \<Rightarrow> 's \<Rightarrow> ('s, 'v) catalog \<Rightarrow> 'v catalog_request
   \<Rightarrow> string option \<Rightarrow> ('s, 'v) catalog \<times> (handler_error + prompt list_result) option" where
  "list_prompts enc dec sess ca q cursor =
     (case run_initializer ca of
        (ca', Inl e) \<Rightarrow> (ca', Some (Inl e))
      | (ca', Inr _) \<Rightarrow> (ca', list_page enc dec ca' cursor (listed_prompts sess ca' q)))"

section \<open>Access\<close>

definition resource_not_found :: "string \<Rightarrow> json_rpc_error" where
  "resource_not_found uri =
     (json_rpc_error_new InvalidParams (''Resource not found: '' @ uri))\<lparr>e_data := Some (JObj [(''uri'', JStr uri)])\<rparr>"

definition prompt_not_found :: "string \<Rightarrow> json_rpc_error" where
  "prompt_not_found name = invalid_params (''Prompt not found: '' @ name)"

text \<open>Static before dynamic.\<close>

definition find_item :: "(string \<times> 'c) list \<Rightarrow> 'c keyed_registry option \<Rightarrow> string \<Rightarrow> 'c option" where
  "find_item statics dynamic name =
     (case map_of statics name of
        Some c \<Rightarrow> Some c
      | None \<Rightarrow> Option.bind dynamic (\<lambda>r. registry_get r name))"

text \<open>The start of \<open>CallTool\<close>, up to the choice of the task mode.\<close>

definition find_tool :: "'s \<Rightarrow> ('s, 'v) catalog \<Rightarrow> 'v catalog_request \<Rightarrow> string \<Rightarrow> handler_error + tool" where
  "find_tool sess ca q name =
     (if name \<in> set (ca_disabled_tools ca) then Inl (JsonRpcFailure (tool_not_found name))
      else case find_item (ca_tools ca) (ca_dynamic_tools ca) name of
          None \<Rightarrow> Inl (JsonRpcFailure (tool_not_found name))
        | Some t \<Rightarrow>
            (case ca_tool_filter ca of
               None \<Rightarrow> Inr t
             | Some f \<Rightarrow>
                 if \<not> cf_filter f (capability_filter_context sess ca q (AccessOperation name)) t
                 then Inl (denial_error_or_not_found (cf_denial f) name (JsonRpcFailure (tool_not_found name)))
                 else Inr t))"

subsection \<open>resources/read\<close>

datatype read_target = TargetResource resource | TargetTemplate resource_template "(string \<times> string) list"

definition authorize_resource :: "('s, 'v) catalog \<Rightarrow> ('s, 'v) filter_context \<Rightarrow> resource \<Rightarrow> string \<Rightarrow> handler_error + unit" where
  "authorize_resource ca ctx r uri =
     (case ca_resource_filter ca of
        None \<Rightarrow> Inr ()
      | Some f \<Rightarrow> if \<not> cf_filter f ctx r then Inl (denial_to_error (cf_denial f) uri) else Inr ())"

definition authorize_resource_template ::
  "('s, 'v) catalog \<Rightarrow> ('s, 'v) filter_context \<Rightarrow> resource_template \<Rightarrow> string \<Rightarrow> handler_error + unit" where
  "authorize_resource_template ca ctx t uri =
     (case ca_template_filter ca of
        Some f \<Rightarrow> if \<not> cf_filter f ctx t then Inl (denial_to_error (cf_denial f) uri) else Inr ()
      | None \<Rightarrow> (case ca_resource_filter ca of Some f \<Rightarrow> Inl (denial_to_error (cf_denial f) uri) | None \<Rightarrow> Inr ()))"

definition dynamic_templates :: "('s, 'v) catalog \<Rightarrow> resource_template list" where
  "dynamic_templates ca = (case ca_dynamic_templates ca of None \<Rightarrow> [] | Some r \<Rightarrow> tg_items r)"

definition find_resource ::
  "regex_engine \<Rightarrow> 's \<Rightarrow> ('s, 'v) catalog \<Rightarrow> 'v catalog_request \<Rightarrow> string \<Rightarrow> handler_error + read_target" where
  "find_resource re sess ca q uri =
     (if uri \<in> set (ca_disabled_resources ca) then Inl (JsonRpcFailure (resource_not_found uri))
      else
        (let ctx = capability_filter_context sess ca q (AccessOperation uri);
             via = (\<lambda>t variables. result_bind (authorize_resource_template ca ctx t uri)
                      (\<lambda>_. Inr (TargetTemplate t variables)))
         in case map_of (ca_resources ca) uri of
              Some r \<Rightarrow> result_bind (authorize_resource ca ctx r uri) (\<lambda>_. Inr (TargetResource r))
            | None \<Rightarrow>
           (case Option.bind (ca_dynamic_resources ca) (\<lambda>d. registry_get d uri) of
              Some r \<Rightarrow> result_bind (authorize_resource ca ctx r uri) (\<lambda>_. Inr (TargetResource r))
            | None \<Rightarrow>
           (case first_match re uri (ca_templates ca) of
              Some (t, variables) \<Rightarrow> via t variables
            | None \<Rightarrow>
           (case first_match re uri (dynamic_templates ca) of
              Some (t, variables) \<Rightarrow> via t variables
            | None \<Rightarrow> Inl (JsonRpcFailure (resource_not_found uri)))))))"

record read_result =
  rd_contents :: json
  rd_ttl_ms :: "nat option"
  rd_cache_scope :: "hint_scope option"

definition apply_read_cache_hints :: "('s, 'v) catalog \<Rightarrow> read_result \<Rightarrow> read_result" where
  "apply_read_cache_hints ca r =
     (let r' = (if rd_ttl_ms r = None then r\<lparr>rd_ttl_ms := ca_read_ttl_ms ca\<rparr> else r)
      in if rd_cache_scope r' = None then r'\<lparr>rd_cache_scope := effective_cache_scope ca (rd_ttl_ms r')\<rparr> else r')"

datatype 'r request_outcome = OutcomeComplete 'r | OutcomeInput input_required_result

text \<open>The end of a read or a prompt: \<open>None\<close> is the panic of the capability check.\<close>

definition finish_outcome ::
  "request_extensions \<Rightarrow> ('r \<Rightarrow> 'r) \<Rightarrow> handler_error + 'r request_outcome
   \<Rightarrow> (handler_error + 'r request_outcome) option" where
  "finish_outcome x hints got =
     (case got of
        Inl e \<Rightarrow> Some (Inl e)
      | Inr (OutcomeComplete r) \<Rightarrow> Some (Inr (OutcomeComplete (hints r)))
      | Inr (OutcomeInput i) \<Rightarrow>
          map_option (\<lambda>v. case v of Inl e \<Rightarrow> Inl (JsonRpcFailure e) | Inr _ \<Rightarrow> Inr (OutcomeInput i))
            (validate_input_required_result x i))"

definition read_resource ::
  "regex_engine \<Rightarrow> (read_target \<Rightarrow> handler_error + read_result request_outcome) \<Rightarrow> 's \<Rightarrow> ('s, 'v) catalog
   \<Rightarrow> 'v catalog_request \<Rightarrow> string \<Rightarrow> (handler_error + read_result request_outcome) option" where
  "read_resource re reader sess ca q uri =
     (case find_resource re sess ca q uri of
        Inl e \<Rightarrow> Some (Inl e)
      | Inr target \<Rightarrow> finish_outcome (cq_known q) (apply_read_cache_hints ca) (reader target))"

subsection \<open>prompts/get\<close>

text \<open>The part shared with completion, after the initializer ran.\<close>

definition find_prompt :: "'s \<Rightarrow> ('s, 'v) catalog \<Rightarrow> 'v catalog_request \<Rightarrow> string \<Rightarrow> handler_error + prompt" where
  "find_prompt sess ca q name =
     (if name \<in> set (ca_disabled_prompts ca) then Inl (JsonRpcFailure (prompt_not_found name))
      else case find_item (ca_prompts ca) (ca_dynamic_prompts ca) name of
          None \<Rightarrow> Inl (JsonRpcFailure (prompt_not_found name))
        | Some p \<Rightarrow>
            (case ca_prompt_filter ca of
               None \<Rightarrow> Inr p
             | Some f \<Rightarrow>
                 if \<not> cf_filter f (capability_filter_context sess ca q (AccessOperation name)) p
                 then Inl (denial_error_or_not_found (cf_denial f) name (JsonRpcFailure (prompt_not_found name)))
                 else Inr p))"

definition missing_required_arguments :: "prompt_argument list \<Rightarrow> (string \<times> string) list \<Rightarrow> string list" where
  "missing_required_arguments declared supplied =
     sort (map pa_name (filter (\<lambda>a. pa_required a \<and> map_of supplied (pa_name a) = None) declared))"

definition missing_arguments_error :: "string \<Rightarrow> string list \<Rightarrow> json_rpc_error" where
  "missing_arguments_error name missing =
     (invalid_params (''prompt '' @ [CHR 0x27] @ name @ [CHR 0x27] @ '' is missing required argument''
        @ (if length missing = 1 then [] else ''s'') @ '': '' @ join_commas missing))
       \<lparr>e_data := Some (JObj [(''missingArguments'', JArr (map JStr missing))])\<rparr>"

definition get_prompt ::
  "(prompt \<Rightarrow> (string \<times> string) list \<Rightarrow> handler_error + 'r request_outcome) \<Rightarrow> 's \<Rightarrow> ('s, 'v) catalog
   \<Rightarrow> 'v catalog_request \<Rightarrow> string \<Rightarrow> (string \<times> string) list
   \<Rightarrow> ('s, 'v) catalog \<times> (handler_error + 'r request_outcome) option" where
  "get_prompt handler sess ca q name arguments =
     (case run_initializer ca of
        (ca', Inl e) \<Rightarrow> (ca', Some (Inl e))
      | (ca', Inr _) \<Rightarrow>
          (ca', case find_prompt sess ca' q name of
             Inl e \<Rightarrow> Some (Inl e)
           | Inr p \<Rightarrow>
               (let missing = missing_required_arguments (pr_arguments p) arguments in
                if missing \<noteq> [] then Some (Inl (JsonRpcFailure (missing_arguments_error name missing)))
                else finish_outcome (cq_known q) id (handler p arguments))))"

section \<open>Completion\<close>

datatype completion_reference = PromptReference string | ResourceReference string

definition authorize_completion_resource ::
  "('s, 'v) catalog \<Rightarrow> ('s, 'v) filter_context \<Rightarrow> resource \<Rightarrow> string \<Rightarrow> handler_error + unit" where
  "authorize_completion_resource ca ctx r uri =
     (case ca_resource_filter ca of
        None \<Rightarrow> Inr ()
      | Some f \<Rightarrow>
          if \<not> cf_filter f ctx r
          then Inl (denial_error_or_not_found (cf_denial f) uri (JsonRpcFailure (resource_not_found uri)))
          else Inr ())"

definition authorize_completion_resource_template ::
  "('s, 'v) catalog \<Rightarrow> ('s, 'v) filter_context \<Rightarrow> resource_template \<Rightarrow> string \<Rightarrow> handler_error + unit" where
  "authorize_completion_resource_template ca ctx t target =
     (let denied = (\<lambda>d. Inl (denial_error_or_not_found d target (JsonRpcFailure (resource_not_found target)))) in
      case ca_template_filter ca of
        Some f \<Rightarrow> if \<not> cf_filter f ctx t then denied (cf_denial f) else Inr ()
      | None \<Rightarrow> (case ca_resource_filter ca of Some f \<Rightarrow> denied (cf_denial f) | None \<Rightarrow> Inr ()))"

definition authorize_resource_reference ::
  "regex_engine \<Rightarrow> 's \<Rightarrow> ('s, 'v) catalog \<Rightarrow> 'v catalog_request \<Rightarrow> string \<Rightarrow> handler_error + unit" where
  "authorize_resource_reference re sess ca q uri =
     (if uri \<in> set (ca_disabled_resources ca) then Inl (JsonRpcFailure (resource_not_found uri))
      else
        (let ctx = capability_filter_context sess ca q (AccessOperation uri);
             by_pattern = find (\<lambda>t. tp_uri_template t = uri);
             template = (\<lambda>t. authorize_completion_resource_template ca ctx t uri)
         in case map_of (ca_resources ca) uri of
              Some r \<Rightarrow> authorize_completion_resource ca ctx r uri
            | None \<Rightarrow>
           (case Option.bind (ca_dynamic_resources ca) (\<lambda>d. registry_get d uri) of
              Some r \<Rightarrow> authorize_completion_resource ca ctx r uri
            | None \<Rightarrow>
           (case by_pattern (ca_templates ca) of
              Some t \<Rightarrow> template t
            | None \<Rightarrow>
           (case by_pattern (dynamic_templates ca) of
              Some t \<Rightarrow> template t
            | None \<Rightarrow>
           (case find (\<lambda>t. match_uri re (tp_compiled t) uri \<noteq> None) (ca_templates ca) of
              Some t \<Rightarrow> template t
            | None \<Rightarrow>
           (case first_match re uri (dynamic_templates ca) of
              Some (t, variables) \<Rightarrow> template t
            | None \<Rightarrow> Inl (JsonRpcFailure (resource_not_found uri)))))))))"

definition authorize_completion_reference ::
  "regex_engine \<Rightarrow> 's \<Rightarrow> ('s, 'v) catalog \<Rightarrow> 'v catalog_request \<Rightarrow> completion_reference
   \<Rightarrow> ('s, 'v) catalog \<times> (handler_error + unit)" where
  "authorize_completion_reference re sess ca q reference =
     (case reference of
        PromptReference name \<Rightarrow>
          (case run_initializer ca of
             (ca', Inl e) \<Rightarrow> (ca', Inl e)
           | (ca', Inr _) \<Rightarrow> (ca', map_sum id (\<lambda>_. ()) (find_prompt sess ca' q name)))
      | ResourceReference uri \<Rightarrow> (ca, authorize_resource_reference re sess ca q uri))"

text \<open>
  The \<open>Complete\<close> arm: without a handler the answer is empty.  \<open>token\<close> is what reading
  the optional progress token gave, \<open>result\<close> what the handler answers.
\<close>

definition handle_complete ::
  "regex_engine \<Rightarrow> (string + unit) \<Rightarrow> (handler_error + json) option \<Rightarrow> 's \<Rightarrow> ('s, 'v) catalog \<Rightarrow> 'v catalog_request
   \<Rightarrow> completion_reference \<Rightarrow> ('s, 'v) catalog \<times> (handler_error + json)" where
  "handle_complete re token handler sess ca q reference =
     (case handler of
        None \<Rightarrow> (ca, Inr (JArr []))
      | Some result \<Rightarrow>
          (case authorize_completion_reference re sess ca q reference of
             (ca', Inl e) \<Rightarrow> (ca', Inl e)
           | (ca', Inr _) \<Rightarrow>
               (ca', case token of
                  Inl text \<Rightarrow> Inl (JsonRpcFailure (invalid_params (''Invalid completion progress token: '' @ text)))
                | Inr _ \<Rightarrow> result)))"

section \<open>Subscriptions\<close>

definition authorize_static_resource_subscription ::
  "'s \<Rightarrow> ('s, 'v) catalog \<Rightarrow> 'v catalog_request \<Rightarrow> string \<Rightarrow> handler_error + unit" where
  "authorize_static_resource_subscription sess ca q uri =
     (if uri \<in> set (ca_disabled_resources ca) then Inl (JsonRpcFailure (resource_not_found uri))
      else case map_of (ca_resources ca) uri of
          None \<Rightarrow> Inl (JsonRpcFailure (resource_not_found uri))
        | Some r \<Rightarrow> authorize_resource ca (capability_filter_context sess ca q (AccessOperation uri)) r uri)"

text \<open>The membership of the session, a set of URIs.\<close>

definition subscribe_resource ::
  "'s \<Rightarrow> ('s, 'v) catalog \<Rightarrow> 'v catalog_request \<Rightarrow> string \<Rightarrow> string list \<Rightarrow> string list \<times> (handler_error + unit)" where
  "subscribe_resource sess ca q uri subs =
     (case authorize_static_resource_subscription sess ca q uri of
        Inl e \<Rightarrow> (subs, Inl e)
      | Inr _ \<Rightarrow> (List.insert uri subs, Inr ()))"

definition unsubscribe_resource ::
  "'s \<Rightarrow> ('s, 'v) catalog \<Rightarrow> 'v catalog_request \<Rightarrow> string \<Rightarrow> string list \<Rightarrow> string list \<times> (handler_error + unit)" where
  "unsubscribe_resource sess ca q uri subs =
     (case authorize_static_resource_subscription sess ca q uri of
        Inl e \<Rightarrow> (subs, Inl e)
      | Inr _ \<Rightarrow> (removeAll uri subs, Inr ()))"

text \<open>\<open>tool_annotations_map\<close>: the enabled static tools, then the enabled dynamic ones.\<close>

definition static_annotations :: "('s, 'v) catalog \<Rightarrow> (string \<times> tool_annotations) list" where
  "static_annotations ca =
     List.map_filter (\<lambda>(name, t). if name \<in> set (ca_disabled_tools ca) then None
       else map_option (Pair name) (tl_annotations t)) (ca_tools ca)"

definition note_dynamic_annotations ::
  "string list \<Rightarrow> (string \<times> tool_annotations) list \<Rightarrow> tool \<Rightarrow> (string \<times> tool_annotations) list" where
  "note_dynamic_annotations disabled m t =
     (if tl_name t \<in> set disabled then m
      else if map_of m (tl_name t) \<noteq> None then m
      else case tl_annotations t of None \<Rightarrow> m | Some a \<Rightarrow> AList.update (tl_name t) a m)"

definition tool_annotations_map :: "('s, 'v) catalog \<Rightarrow> (string \<times> tool_annotations) list" where
  "tool_annotations_map ca =
     (case ca_dynamic_tools ca of
        None \<Rightarrow> static_annotations ca
      | Some r \<Rightarrow> foldl (note_dynamic_annotations (ca_disabled_tools ca)) (static_annotations ca) (registry_list r))"

definition annotated_read_only :: "(string \<times> tool_annotations) list \<Rightarrow> string \<Rightarrow> bool" where
  "annotated_read_only m name = (case map_of m name of None \<Rightarrow> False | Some a \<Rightarrow> ta_read_only_hint a)"

definition annotated_destructive :: "(string \<times> tool_annotations) list \<Rightarrow> string \<Rightarrow> bool" where
  "annotated_destructive m name = (case map_of m name of None \<Rightarrow> True | Some a \<Rightarrow> ta_destructive_hint a)"

definition annotated_idempotent :: "(string \<times> tool_annotations) list \<Rightarrow> string \<Rightarrow> bool" where
  "annotated_idempotent m name = (case map_of m name of None \<Rightarrow> False | Some a \<Rightarrow> ta_idempotent_hint a)"

section \<open>Building and composing\<close>

definition router_new :: "('s, 'v) catalog" where
  "router_new = \<lparr>ca_tools = [], ca_resources = [], ca_templates = [], ca_prompts = [],
     ca_dynamic_tools = None, ca_dynamic_resources = None, ca_dynamic_templates = None, ca_dynamic_prompts = None,
     ca_prompt_initializer = None, ca_disabled_tools = [], ca_disabled_resources = [], ca_disabled_prompts = [],
     ca_tool_filter = None, ca_resource_filter = None, ca_template_filter = None, ca_prompt_filter = None,
     ca_extensions = Map.empty, ca_protocol_extensions = [], ca_page_size = None, ca_list_ttl_ms = None,
     ca_read_ttl_ms = None, ca_cache_scope = None\<rparr>"

definition router_tool :: "tool \<Rightarrow> ('s, 'v) catalog \<Rightarrow> ('s, 'v) catalog" where
  "router_tool t ca = ca\<lparr>ca_tools := keyed_insert tl_name t (ca_tools ca)\<rparr>"

definition router_resource :: "resource \<Rightarrow> ('s, 'v) catalog \<Rightarrow> ('s, 'v) catalog" where
  "router_resource r ca = ca\<lparr>ca_resources := keyed_insert rs_uri r (ca_resources ca)\<rparr>"

definition router_template :: "resource_template \<Rightarrow> ('s, 'v) catalog \<Rightarrow> ('s, 'v) catalog" where
  "router_template t ca = ca\<lparr>ca_templates := ca_templates ca @ [t]\<rparr>"

definition router_prompt :: "prompt \<Rightarrow> ('s, 'v) catalog \<Rightarrow> ('s, 'v) catalog" where
  "router_prompt p ca = ca\<lparr>ca_prompts := keyed_insert pr_name p (ca_prompts ca)\<rparr>"

definition disable_tool :: "string \<Rightarrow> ('s, 'v) catalog \<Rightarrow> ('s, 'v) catalog" where
  "disable_tool name ca = ca\<lparr>ca_disabled_tools := List.insert name (ca_disabled_tools ca)\<rparr>"

definition enable_tool :: "string \<Rightarrow> ('s, 'v) catalog \<Rightarrow> ('s, 'v) catalog" where
  "enable_tool name ca = ca\<lparr>ca_disabled_tools := removeAll name (ca_disabled_tools ca)\<rparr>"

definition disable_resource :: "string \<Rightarrow> ('s, 'v) catalog \<Rightarrow> ('s, 'v) catalog" where
  "disable_resource uri ca = ca\<lparr>ca_disabled_resources := List.insert uri (ca_disabled_resources ca)\<rparr>"

definition enable_resource :: "string \<Rightarrow> ('s, 'v) catalog \<Rightarrow> ('s, 'v) catalog" where
  "enable_resource uri ca = ca\<lparr>ca_disabled_resources := removeAll uri (ca_disabled_resources ca)\<rparr>"

definition disable_prompt :: "string \<Rightarrow> ('s, 'v) catalog \<Rightarrow> ('s, 'v) catalog" where
  "disable_prompt name ca = ca\<lparr>ca_disabled_prompts := List.insert name (ca_disabled_prompts ca)\<rparr>"

definition enable_prompt :: "string \<Rightarrow> ('s, 'v) catalog \<Rightarrow> ('s, 'v) catalog" where
  "enable_prompt name ca = ca\<lparr>ca_disabled_prompts := removeAll name (ca_disabled_prompts ca)\<rparr>"

text \<open>Inserting every entry of another map.\<close>

definition insert_entries :: "(string \<times> 'c) list \<Rightarrow> (string \<times> 'c) list \<Rightarrow> (string \<times> 'c) list" where
  "insert_entries m other = foldl (\<lambda>m (k, c). AList.update k c m) m other"

definition merge_router :: "('s, 'v) catalog \<Rightarrow> ('s, 'v) catalog \<Rightarrow> ('s, 'v) catalog" where
  "merge_router ca other = ca
     \<lparr>ca_tools := insert_entries (ca_tools ca) (ca_tools other),
      ca_resources := insert_entries (ca_resources ca) (ca_resources other),
      ca_templates := ca_templates ca @ ca_templates other,
      ca_prompts := insert_entries (ca_prompts ca) (ca_prompts other),
      ca_protocol_extensions := insert_entries (ca_protocol_extensions ca) (ca_protocol_extensions other)\<rparr>"

datatype merge_conflict_kind = ConflictTool | ConflictResource | ConflictTemplate | ConflictPrompt

fun conflict_kind_as_str :: "merge_conflict_kind \<Rightarrow> string" where
  "conflict_kind_as_str ConflictTool = ''tool''"
| "conflict_kind_as_str ConflictResource = ''resource''"
| "conflict_kind_as_str ConflictTemplate = ''resource template''"
| "conflict_kind_as_str ConflictPrompt = ''prompt''"

fun conflict_rank :: "merge_conflict_kind \<Rightarrow> nat" where
  "conflict_rank ConflictTool = 0"
| "conflict_rank ConflictResource = 1"
| "conflict_rank ConflictTemplate = 2"
| "conflict_rank ConflictPrompt = 3"

type_synonym merge_conflict = "merge_conflict_kind \<times> string"

definition conflict_display :: "merge_conflict \<Rightarrow> string" where
  "conflict_display c = conflict_kind_as_str (fst c) @ '' '' @ [CHR 0x27] @ snd c @ [CHR 0x27]"

definition conflicts_display :: "merge_conflict list \<Rightarrow> string" where
  "conflicts_display cs = ''cannot merge routers: '' @ join_commas (map conflict_display cs) @ '' defined by both''"

definition shared_keys :: "merge_conflict_kind \<Rightarrow> (string \<times> 'c) list \<Rightarrow> (string \<times> 'c) list \<Rightarrow> merge_conflict list" where
  "shared_keys kind mine other = map (Pair kind) (filter (\<lambda>k. map_of mine k \<noteq> None) (map fst other))"

text \<open>Sorting by kind and name is sorting by name and then, stably, by kind.\<close>

definition router_conflicts :: "('s, 'v) catalog \<Rightarrow> ('s, 'v) catalog \<Rightarrow> merge_conflict list" where
  "router_conflicts ca other =
     sort_key (\<lambda>c. conflict_rank (fst c)) (sort_key snd
       (shared_keys ConflictTool (ca_tools ca) (ca_tools other)
        @ shared_keys ConflictResource (ca_resources ca) (ca_resources other)
        @ map (\<lambda>t. (ConflictTemplate, tp_uri_template t))
            (filter (\<lambda>t. list_ex (\<lambda>u. tp_uri_template u = tp_uri_template t) (ca_templates ca)) (ca_templates other))
        @ shared_keys ConflictPrompt (ca_prompts ca) (ca_prompts other)))"

definition try_merge :: "('s, 'v) catalog \<Rightarrow> ('s, 'v) catalog \<Rightarrow> merge_conflict list + ('s, 'v) catalog" where
  "try_merge ca other =
     (let conflicts = router_conflicts ca other in if conflicts = [] then Inr (merge_router ca other) else Inl conflicts)"

definition with_name_prefix :: "string \<Rightarrow> tool \<Rightarrow> tool" where
  "with_name_prefix prefix t = t\<lparr>tl_name := prefix @ ''.'' @ tl_name t\<rparr>"

definition nest_router :: "string \<Rightarrow> ('s, 'v) catalog \<Rightarrow> ('s, 'v) catalog \<Rightarrow> ('s, 'v) catalog" where
  "nest_router prefix ca other = ca
     \<lparr>ca_tools := foldl (\<lambda>m t. keyed_insert tl_name (with_name_prefix prefix t) m) (ca_tools ca) (map snd (ca_tools other)),
      ca_resources := insert_entries (ca_resources ca) (ca_resources other),
      ca_templates := ca_templates ca @ ca_templates other,
      ca_prompts := insert_entries (ca_prompts ca) (ca_prompts other),
      ca_protocol_extensions := insert_entries (ca_protocol_extensions ca) (ca_protocol_extensions other)\<rparr>"

end
