(* ===== verification/CatalogProps.thy ===== *)
theory CatalogProps
  imports Catalog
begin

text \<open>
  What a client sees of a router's catalog: the lists against the calls, hidden against absent items,
  completion against access, and the composition of routers.
\<close>

section \<open>Well-formed catalogs\<close>

definition dynamic_ok :: "('c \<Rightarrow> string) \<Rightarrow> 'c keyed_registry option \<Rightarrow> bool" where
  "dynamic_ok key r = (case r of None \<Rightarrow> True | Some r \<Rightarrow> keyed_ok key (rg_items r))"

definition catalog_ok :: "('s, 'v) catalog \<Rightarrow> bool" where
  "catalog_ok ca \<longleftrightarrow> keyed_ok tl_name (ca_tools ca) \<and> keyed_ok rs_uri (ca_resources ca) \<and> keyed_ok pr_name (ca_prompts ca)
     \<and> dynamic_ok tl_name (ca_dynamic_tools ca) \<and> dynamic_ok rs_uri (ca_dynamic_resources ca)
     \<and> dynamic_ok pr_name (ca_dynamic_prompts ca)"

lemma insert_entries_get: "map_of (insert_entries m other) = map_of m ++ map_of (rev other)"
proof (induction other arbitrary: m)
  case (Cons kc other)
  obtain k c where kc: "kc = (k, c)" by (cases kc)
  have "insert_entries m (kc # other) = insert_entries (AList.update k c m) other"
    by (simp add: insert_entries_def kc)
  then show ?case by (simp add: Cons kc update_conv' map_add_def fun_eq_iff split: option.split)
qed (simp add: insert_entries_def)

lemma insert_entries_ok: "keyed_ok key m \<Longrightarrow> keyed_ok key other \<Longrightarrow> keyed_ok key (insert_entries m other)"
proof (induction other arbitrary: m)
  case (Cons kc other)
  obtain k c where kc: "kc = (k, c)" by (cases kc)
  have k: "k = key c" and rest: "keyed_ok key other" using Cons.prems(2) by (auto simp: keyed_ok_def kc)
  have "insert_entries m (kc # other) = insert_entries (keyed_insert key c m) other"
    by (simp add: insert_entries_def kc keyed_insert_def k)
  then show ?case using Cons.IH [OF keyed_insert_ok [OF Cons.prems(1)] rest] by simp
qed (simp add: insert_entries_def)

lemma distinct_map_of_rev: "distinct (map fst m) \<Longrightarrow> map_of (rev m) = map_of m"
  by (rule map_of_inject_set [THEN iffD2]) (simp_all add: rev_map [symmetric])

lemma find_item_cases:
  "find_item statics dynamic name = Some c \<longleftrightarrow>
     map_of statics name = Some c
   \<or> map_of statics name = None \<and> (\<exists>r. dynamic = Some r \<and> registry_get r name = Some c)"
  by (auto simp: find_item_def bind_eq_Some_conv split: option.split)

lemma merge_listed_set:
  "set (merge_listed key vis statics dynamic) = {c \<in> set statics. vis c}
     \<union> {c. \<exists>r. dynamic = Some r \<and> c \<in> set (registry_list r) \<and> vis c \<and> (\<forall>s\<in>set statics. vis s \<longrightarrow> key s \<noteq> key c)}"
  by (cases dynamic) (auto simp: merge_listed_def Let_def image_iff)

lemma merge_listed_sorted: "sorted (map key (merge_listed key vis statics dynamic))"
  by (simp add: merge_listed_def Let_def)

lemma registry_items: "keyed_ok key (rg_items r) \<Longrightarrow> c \<in> set (registry_list r) \<longleftrightarrow> registry_get r (key c) = Some c"
  unfolding registry_list_def registry_get_def by (rule keyed_items)

text \<open>The list holds what an access would find, as long as no hidden static item shadows a dynamic one.\<close>

lemma merge_listed_found:
  assumes "keyed_ok key m" and "dynamic_ok key dynamic"
    and shadow: "\<And>s r d. s \<in> set (map snd m) \<Longrightarrow> dynamic = Some r \<Longrightarrow> d \<in> set (registry_list r) \<Longrightarrow> key s = key d
                   \<Longrightarrow> vis d \<Longrightarrow> vis s"
  shows "c \<in> set (merge_listed key vis (map snd m) dynamic) \<longleftrightarrow> vis c \<and> find_item m dynamic (key c) = Some c"
proof -
  have s: "d \<in> set (map snd m) \<longleftrightarrow> map_of m (key d) = Some d" for d by (rule keyed_items [OF assms(1)])
  have same: "map_of m (key c) = Some d \<Longrightarrow> key d = key c" for d by (rule keyed_key [OF assms(1)])
  have r: "(\<exists>r. dynamic = Some r \<and> c \<in> set (registry_list r) \<and> P) \<longleftrightarrow> (\<exists>r. dynamic = Some r \<and> registry_get r (key c) = Some c \<and> P)" for P
    using assms(2) by (cases dynamic) (simp_all add: dynamic_ok_def registry_items)
  show ?thesis
  proof (cases "map_of m (key c)")
    case None
    then have "\<not> (\<exists>d\<in>set (map snd m). key d = key c)" using s by (metis option.distinct(1))
    then show ?thesis unfolding merge_listed_set find_item_cases using None r [of True] by auto
  next
    case (Some d)
    have "d \<in> set (map snd m)" "key d = key c" using Some same s [of d] by auto
    then have "\<not> (\<exists>r. dynamic = Some r \<and> c \<in> set (registry_list r) \<and> vis c \<and> (\<forall>s\<in>set (map snd m). vis s \<longrightarrow> key s \<noteq> key c))"
      using shadow by blast
    then show ?thesis unfolding merge_listed_set find_item_cases using Some s [of c] by (simp del: map_map) blast
  qed
qed

text \<open>Keys are listed once.\<close>

lemma merge_listed_distinct:
  assumes "keyed_ok key m" and "dynamic_ok key dynamic"
  shows "distinct (map key (merge_listed key vis (map snd m) dynamic))"
proof -
  have d: "distinct (map key (map snd l))" if "keyed_ok key l" for l
  proof -
    have eq: "map (key \<circ> snd) l = map fst l" using that by (force simp: keyed_ok_def)
    show ?thesis unfolding map_map eq using that by (simp add: keyed_ok_def)
  qed
  have sub: "distinct (map key (filter P cs))" if "distinct (map key cs)" for P cs
    using that by (rule distinct_map_filter)
  have sorted: "distinct (map key (sort_key key cs)) \<longleftrightarrow> distinct (map key cs)" for cs
    by (simp add: distinct_map)
  show ?thesis
  proof (cases dynamic)
    case None
    then show ?thesis using sub [OF d [OF assms(1)]] by (simp add: merge_listed_def sorted Let_def)
  next
    case (Some r)
    have "distinct (map key (registry_list r))" using d [of "rg_items r"] assms(2) Some by (simp add: dynamic_ok_def registry_list_def)
    then show ?thesis
      using sub [OF d [OF assms(1)]] sub Some by (auto simp: merge_listed_def sorted Let_def image_iff simp del: map_map)
  qed
qed

section \<open>Lists and calls\<close>

text \<open>Whether the request's revision offers the tool at all.\<close>

definition offered :: "('s, 'v) catalog \<Rightarrow> 'v catalog_request \<Rightarrow> tool \<Rightarrow> bool" where
  "offered ca q t \<longleftrightarrow> (is_final_protocol_request (cq_known q) \<and> tl_task_support t = TsRequired
     \<longrightarrow> final_tasks_enabled ca \<and> client_declares_tasks (cq_known q))"

lemma tool_visible_iff:
  "tool_is_visible sess ca q t \<longleftrightarrow> tl_name t \<notin> set (ca_disabled_tools ca) \<and> offered ca q t
     \<and> passes (ca_tool_filter ca) (capability_filter_context sess ca q ListOperation) t"
  by (auto simp: tool_is_visible_def offered_def Let_def)

lemma find_tool_iff:
  "find_tool sess ca q name = Inr t \<longleftrightarrow> name \<notin> set (ca_disabled_tools ca)
     \<and> find_item (ca_tools ca) (ca_dynamic_tools ca) name = Some t
     \<and> passes (ca_tool_filter ca) (capability_filter_context sess ca q (AccessOperation name)) t"
  by (auto simp: find_tool_def passes_def split: option.split)

text \<open>
  C12: When the tool policy does not tell listing from access and no hidden static tool has the name of a
  dynamic one, \<open>tools/list\<close> shows, sorted and each name once, exactly the tools that a call of
  their name would reach and that the request's revision offers.
\<close>

theorem tools_listed_are_callable:
  assumes "catalog_ok ca"
    and policy: "\<And>t. passes (ca_tool_filter ca) (capability_filter_context sess ca q ListOperation) t
        = passes (ca_tool_filter ca) (capability_filter_context sess ca q (AccessOperation (tl_name t))) t"
    and shadow: "\<And>s r d. s \<in> set (map snd (ca_tools ca)) \<Longrightarrow> ca_dynamic_tools ca = Some r \<Longrightarrow> d \<in> set (registry_list r)
        \<Longrightarrow> tl_name s = tl_name d \<Longrightarrow> tool_is_visible sess ca q d \<Longrightarrow> tool_is_visible sess ca q s"
  shows "set (listed_tools sess ca q) = {t. find_tool sess ca q (tl_name t) = Inr t \<and> offered ca q t}
    \<and> sorted (map tl_name (listed_tools sess ca q)) \<and> distinct (map tl_name (listed_tools sess ca q))"
proof (intro conjI)
  have ok: "keyed_ok tl_name (ca_tools ca)" "dynamic_ok tl_name (ca_dynamic_tools ca)"
    using assms(1) by (simp_all add: catalog_ok_def)
  have "t \<in> set (listed_tools sess ca q) \<longleftrightarrow> find_tool sess ca q (tl_name t) = Inr t \<and> offered ca q t" for t
    using merge_listed_found [where vis = "tool_is_visible sess ca q", OF ok shadow, where c = t]
    by (auto simp: listed_tools_def tool_visible_iff find_tool_iff policy)
  then show "set (listed_tools sess ca q) = {t. find_tool sess ca q (tl_name t) = Inr t \<and> offered ca q t}" by blast
  show "sorted (map tl_name (listed_tools sess ca q))" by (simp add: listed_tools_def merge_listed_sorted)
  show "distinct (map tl_name (listed_tools sess ca q))" unfolding listed_tools_def by (rule merge_listed_distinct [OF ok])
qed

text \<open>
  C29: A static tool that the policy hides does not shadow a dynamic tool of its name in
  \<open>tools/list\<close>: the dynamic one is listed, but every call of the name reaches the hidden static
  tool and is refused.  For resource templates a hidden static template keeps its dynamic twin out of the list.
\<close>

theorem hidden_static_lists_dynamic:
  assumes "catalog_ok ca" and "map_of (ca_tools ca) name = Some s" and "ca_dynamic_tools ca = Some r"
    and "registry_get r name = Some d" and filter: "ca_tool_filter ca = Some f" "cf_denial f = DenyNotFound"
    and hidden: "\<And>operation. \<not> cf_filter f (capability_filter_context sess ca q operation) s"
    and visible: "tool_is_visible sess ca q d"
  shows "d \<in> set (listed_tools sess ca q) \<and> find_tool sess ca q name = Inl (JsonRpcFailure (tool_not_found name))
    \<and> (\<forall>t\<in>set (listed_templates sess ca q). (\<exists>u\<in>set (ca_templates ca). tp_uri_template u = tp_uri_template t)
         \<longrightarrow> t \<in> set (ca_templates ca))"
proof (intro conjI)
  have ok: "keyed_ok tl_name (ca_tools ca)" "keyed_ok tl_name (rg_items r)"
    using assms(1,3) by (simp_all add: catalog_ok_def dynamic_ok_def)
  have names: "tl_name s = name" "tl_name d = name"
    using keyed_key [OF ok(1) assms(2)] keyed_key [OF ok(2)] assms(4) by (auto simp: registry_get_def)
  have "\<not> tool_is_visible sess ca q s" using filter hidden by (simp add: tool_visible_iff passes_def)
  moreover have "t = s" if "t \<in> set (map snd (ca_tools ca))" "tl_name t = name" for t
    using that assms(2) keyed_items [OF ok(1), of t] by simp
  ultimately have "\<forall>t\<in>set (map snd (ca_tools ca)). tool_is_visible sess ca q t \<longrightarrow> tl_name t \<noteq> tl_name d"
    unfolding names(2) by metis
  moreover have "d \<in> set (registry_list r)" using registry_items [OF ok(2), of d] assms(4) names by simp
  ultimately show "d \<in> set (listed_tools sess ca q)"
    using visible assms(3) unfolding listed_tools_def merge_listed_set by blast
  show "find_tool sess ca q name = Inl (JsonRpcFailure (tool_not_found name))"
    using assms(2) filter hidden by (simp add: find_tool_def find_item_def denial_error_or_not_found_def)
  show "\<forall>t\<in>set (listed_templates sess ca q). (\<exists>u\<in>set (ca_templates ca). tp_uri_template u = tp_uri_template t)
         \<longrightarrow> t \<in> set (ca_templates ca)"
    by (auto simp: listed_templates_def Let_def rev_image_eqI split: option.splits)
qed

lemma annotations_kept:
  "map_of m name = Some b \<Longrightarrow> map_of (foldl (note_dynamic_annotations disabled) m ts) name = Some b"
proof (induction ts arbitrary: m)
  case (Cons t ts)
  then have "map_of (note_dynamic_annotations disabled m t) name = Some b"
    by (auto simp: note_dynamic_annotations_def update_conv' split: option.split)
  then show ?case using Cons.IH by simp
qed simp

text \<open>
  C30: A static tool without annotations is described by the annotations of a dynamic tool of the same name,
  although a call reaches the static one: middleware that lets read-only tools pass lets it pass.
\<close>

theorem shadowed_tool_annotates:
  assumes "catalog_ok ca" and "map_of (ca_tools ca) name = Some s" and "tl_annotations s = None"
    and "ca_dynamic_tools ca = Some r" and "registry_get r name = Some d" and "tl_annotations d = Some a"
    and "name \<notin> set (ca_disabled_tools ca)" and "ca_tool_filter ca = None"
  shows "map_of (tool_annotations_map ca) name = Some a \<and> find_tool sess ca q name = Inr s
    \<and> annotated_read_only (tool_annotations_map ca) name = ta_read_only_hint a"
proof -
  have ok: "keyed_ok tl_name (ca_tools ca)" "keyed_ok tl_name (rg_items r)"
    using assms(1,4) by (simp_all add: catalog_ok_def dynamic_ok_def)
  let ?note = "note_dynamic_annotations (ca_disabled_tools ca)"
  have static: "map_of (static_annotations ca) name = None"
  proof -
    have "t = s" if "(name, t) \<in> set (ca_tools ca)" for t
      using that assms(2) ok(1) by (simp add: keyed_ok_def)
    then show ?thesis
      using assms(3) by (auto simp: map_of_eq_None_iff static_annotations_def List.map_filter_def split: if_splits)
  qed
  have dn: "tl_name d = name" using keyed_key [OF ok(2)] assms(5) by (auto simp: registry_get_def)
  have "map_of (foldl ?note m ts) name = Some a"
    if "map_of m name = None" "d \<in> set ts" "\<forall>t\<in>set ts. tl_name t = name \<longrightarrow> t = d" for m ts
    using that
  proof (induction ts arbitrary: m)
    case (Cons t ts)
    show ?case
    proof (cases "tl_name t = name")
      case True
      then have "map_of (?note m t) name = Some a"
        using Cons.prems assms(6,7) dn by (simp add: note_dynamic_annotations_def update_conv')
      then show ?thesis using annotations_kept by simp
    next
      case False
      then have "map_of (?note m t) name = None"
        using Cons.prems(1) by (simp add: note_dynamic_annotations_def update_conv' split: option.split)
      moreover have "d \<in> set ts" using Cons.prems(2) False dn by auto
      ultimately show ?thesis using Cons.IH [of "?note m t"] Cons.prems(3) by simp
    qed
  qed simp
  moreover have "d \<in> set (registry_list r)" using registry_items [OF ok(2), of d] assms(5) dn by simp
  moreover have "\<forall>t\<in>set (registry_list r). tl_name t = name \<longrightarrow> t = d"
    using registry_items [OF ok(2)] assms(5) by auto
  ultimately have "map_of (tool_annotations_map ca) name = Some a"
    using static assms(4) by (simp add: tool_annotations_map_def)
  then show ?thesis using assms(2,7,8) by (simp add: find_tool_def find_item_def annotated_read_only_def)
qed

section \<open>Hidden and absent\<close>

text \<open>The policies, where set, hide what they deny.\<close>

definition hides :: "('c, 's, 'v) capability_filter option \<Rightarrow> bool" where
  "hides f = (case f of None \<Rightarrow> True | Some f \<Rightarrow> cf_denial f = DenyNotFound)"

lemma refused_template: "authorize_completion_resource_template ca ctx t uri = Inl e \<Longrightarrow>
    hides (ca_template_filter ca) \<Longrightarrow> hides (ca_resource_filter ca) \<Longrightarrow> e = JsonRpcFailure (resource_not_found uri)"
  by (auto simp: authorize_completion_resource_template_def hides_def denial_error_or_not_found_def Let_def
      split: option.splits if_splits)

lemma refused_resource: "authorize_completion_resource ca ctx r uri = Inl e \<Longrightarrow>
    hides (ca_resource_filter ca) \<Longrightarrow> e = JsonRpcFailure (resource_not_found uri)"
  by (auto simp: authorize_completion_resource_def hides_def denial_error_or_not_found_def split: option.splits if_splits)



section \<open>Completion and access\<close>

lemma find_first_match:
  "find (\<lambda>t. match_uri re (tp_compiled t) uri \<noteq> None) ts = map_option fst (first_match re uri ts)"
  by (induction ts) (auto split: option.split)

lemma template_allowed_iff:
  "result_ok (authorize_completion_resource_template ca ctx t uri) \<longleftrightarrow> result_ok (authorize_resource_template ca ctx t uri)"
  by (simp add: authorize_completion_resource_template_def authorize_resource_template_def Let_def split: option.split)

lemma resource_allowed_iff:
  "result_ok (authorize_completion_resource ca ctx r uri) \<longleftrightarrow> result_ok (authorize_resource ca ctx r uri)"
  by (simp add: authorize_completion_resource_def authorize_resource_def split: option.split)

lemma result_ok_bind_Inr: "result_ok (result_bind x (\<lambda>_. Inr y)) \<longleftrightarrow> result_ok x"
  by (cases x) simp_all

lemma no_pattern: "uri \<notin> tp_uri_template ` set ts \<Longrightarrow> find (\<lambda>t. tp_uri_template t = uri) ts = None"
  by (auto simp: find_None_iff)


section \<open>Merging routers\<close>

lemma shared_keys_set: "set (shared_keys kind mine other) = Pair kind ` (dom (map_of mine) \<inter> dom (map_of other))"
proof -
  have "set (filter (\<lambda>k. map_of mine k \<noteq> None) (map fst other)) = dom (map_of mine) \<inter> dom (map_of other)"
    by (auto simp: map_of_eq_None_iff dom_map_of_conv_image_fst simp del: not_None_eq)
  then show ?thesis by (simp add: shared_keys_def del: not_None_eq)
qed

lemma router_conflicts_set:
  "set (router_conflicts ca other) =
     Pair ConflictTool ` (dom (map_of (ca_tools ca)) \<inter> dom (map_of (ca_tools other)))
   \<union> Pair ConflictResource ` (dom (map_of (ca_resources ca)) \<inter> dom (map_of (ca_resources other)))
   \<union> Pair ConflictTemplate ` (tp_uri_template ` set (ca_templates ca) \<inter> tp_uri_template ` set (ca_templates other))
   \<union> Pair ConflictPrompt ` (dom (map_of (ca_prompts ca)) \<inter> dom (map_of (ca_prompts other)))"
proof -
  have "set (map (\<lambda>t. (ConflictTemplate, tp_uri_template t))
      (filter (\<lambda>t. list_ex (\<lambda>u. tp_uri_template u = tp_uri_template t) (ca_templates ca)) (ca_templates other)))
    = Pair ConflictTemplate ` (tp_uri_template ` set (ca_templates ca) \<inter> tp_uri_template ` set (ca_templates other))"
    by (auto simp: list_ex_iff image_iff) metis+
  then show ?thesis by (simp add: router_conflicts_def shared_keys_set Un_assoc)
qed

lemma inserted_kept:
  assumes "keyed_ok key other" and "dom (map_of m) \<inter> dom (map_of other) = {}"
  shows "map_of m \<subseteq>\<^sub>m map_of (insert_entries m other) \<and> map_of other \<subseteq>\<^sub>m map_of (insert_entries m other)"
proof -
  have "map_of (insert_entries m other) = map_of m ++ map_of other"
    using assms(1) by (simp add: insert_entries_get distinct_map_of_rev keyed_ok_def)
  then show ?thesis using assms(2) by (metis map_add_comm map_le_map_add)
qed

text \<open>
  Merging with a check fails exactly when both routers define a name, and then names every clash, by kind
  and name; when it succeeds every item of either router is kept.
\<close>

theorem try_merge_loses_nothing:
  assumes "catalog_ok ca" and "catalog_ok other"
  shows "case try_merge ca other of
      Inl cs \<Rightarrow> cs \<noteq> [] \<and> sorted (map (\<lambda>c. conflict_rank (fst c)) cs)
        \<and> set cs = Pair ConflictTool ` (dom (map_of (ca_tools ca)) \<inter> dom (map_of (ca_tools other)))
           \<union> Pair ConflictResource ` (dom (map_of (ca_resources ca)) \<inter> dom (map_of (ca_resources other)))
           \<union> Pair ConflictTemplate ` (tp_uri_template ` set (ca_templates ca) \<inter> tp_uri_template ` set (ca_templates other))
           \<union> Pair ConflictPrompt ` (dom (map_of (ca_prompts ca)) \<inter> dom (map_of (ca_prompts other)))
    | Inr m \<Rightarrow> catalog_ok m
        \<and> map_of (ca_tools ca) \<subseteq>\<^sub>m map_of (ca_tools m) \<and> map_of (ca_tools other) \<subseteq>\<^sub>m map_of (ca_tools m)
        \<and> map_of (ca_resources ca) \<subseteq>\<^sub>m map_of (ca_resources m) \<and> map_of (ca_resources other) \<subseteq>\<^sub>m map_of (ca_resources m)
        \<and> map_of (ca_prompts ca) \<subseteq>\<^sub>m map_of (ca_prompts m) \<and> map_of (ca_prompts other) \<subseteq>\<^sub>m map_of (ca_prompts m)
        \<and> ca_templates m = ca_templates ca @ ca_templates other"
proof (cases "router_conflicts ca other = []")
  case False
  have "sorted (map (\<lambda>c. conflict_rank (fst c)) (router_conflicts ca other))" by (simp add: router_conflicts_def)
  then show ?thesis using False by (simp add: try_merge_def Let_def router_conflicts_set)
next
  case True
  have none: "set (router_conflicts ca other) = {}" using True by simp
  have apart: "dom (map_of (ca_tools ca)) \<inter> dom (map_of (ca_tools other)) = {}"
      "dom (map_of (ca_resources ca)) \<inter> dom (map_of (ca_resources other)) = {}"
      "dom (map_of (ca_prompts ca)) \<inter> dom (map_of (ca_prompts other)) = {}"
    using none unfolding router_conflicts_set by auto
  have ok: "keyed_ok tl_name (ca_tools other)" "keyed_ok rs_uri (ca_resources other)" "keyed_ok pr_name (ca_prompts other)"
    using assms(2) by (simp_all add: catalog_ok_def)
  have "catalog_ok (merge_router ca other)"
    using assms(1) ok by (simp add: merge_router_def catalog_ok_def insert_entries_ok)
  then show ?thesis
    using True inserted_kept [OF ok(1) apart(1)] inserted_kept [OF ok(2) apart(2)] inserted_kept [OF ok(3) apart(3)]
    by (simp add: try_merge_def Let_def) (simp add: merge_router_def)
qed

section \<open>Concrete catalogs\<close>

text \<open>A static tool \<open>wipe\<close>, and the dynamic tools \<open>wipe\<close> and \<open>read\<close>.\<close>

definition demo_catalog :: "(unit, unit) catalog" where
  "demo_catalog = (router_tool (catalog_tool ''wipe'' (Some ''internal'') None) router_new)\<lparr>ca_dynamic_tools := Some demo_dynamic\<rparr>"

definition demo_policy :: "(tool, unit, unit) capability_filter" where
  "demo_policy = filter_of_session (\<lambda>_ t. tl_description t \<noteq> Some ''internal'')"

definition demo_query :: "unit catalog_request" where
  "demo_query = \<lparr>cq_known = \<lparr>rx_meta = None, rx_claims = None, rx_replayed_final = False\<rparr>, cq_entries = Map.empty\<rparr>"

lemmas demo_catalog_defs = demo_catalog_def demo_dynamic_def router_tool_def router_new_def keyed_insert_def
  register_tool_def registry_register_def registry_broadcast_def keyed_registry_new_def broadcast_changed_def catalog_tool_def

lemma demo_catalog_ok: "catalog_ok demo_catalog" "catalog_ok router_new" "registry_get demo_dynamic ''wipe'' =
    Some (catalog_tool ''wipe'' None (Some demo_annotations))"
  by (simp_all add: catalog_ok_def keyed_ok_def dynamic_ok_def demo_catalog_defs registry_get_def)

lemma tools_listed_are_callable_witness:
  "set (listed_tools () (demo_catalog\<lparr>ca_tool_filter := Some (deny_list tl_name [''read''])\<rparr>) demo_query)
     = {catalog_tool ''wipe'' (Some ''internal'') None}"
proof -
  let ?ca = "demo_catalog\<lparr>ca_tool_filter := Some (deny_list tl_name [''read''])\<rparr>"
  have ok: "catalog_ok ?ca" using demo_catalog_ok(1) by (simp add: catalog_ok_def)
  have "set (listed_tools () ?ca demo_query) = {t. find_tool () ?ca demo_query (tl_name t) = Inr t \<and> offered ?ca demo_query t}"
    by (rule tools_listed_are_callable [THEN conjunct1, OF ok])
       (auto simp: passes_def deny_list_def filter_of_session_def filter_with_context_def capability_filter_context_def
         filter_context_new_def tool_visible_iff offered_def demo_catalog_defs demo_query_def is_final_protocol_request_def)
  also have "\<dots> = {catalog_tool ''wipe'' (Some ''internal'') None}"
    by (auto simp: find_tool_iff find_item_cases passes_def deny_list_def filter_of_session_def filter_with_context_def
        offered_def demo_query_def is_final_protocol_request_def demo_catalog_defs registry_get_def split: if_splits)
  finally show ?thesis .
qed

lemma hidden_static_lists_dynamic_witness:
  "catalog_tool ''wipe'' None (Some demo_annotations) \<in>
     set (listed_tools () (demo_catalog\<lparr>ca_tool_filter := Some demo_policy\<rparr>) demo_query)
   \<and> find_tool () (demo_catalog\<lparr>ca_tool_filter := Some demo_policy\<rparr>) demo_query ''wipe''
      = Inl (JsonRpcFailure (tool_not_found ''wipe''))"
proof -
  let ?ca = "demo_catalog\<lparr>ca_tool_filter := Some demo_policy\<rparr>"
  have "catalog_ok ?ca" using demo_catalog_ok(1) by (simp add: catalog_ok_def)
  moreover have "map_of (ca_tools ?ca) ''wipe'' = Some (catalog_tool ''wipe'' (Some ''internal'') None)"
      "ca_dynamic_tools ?ca = Some demo_dynamic"
    by (simp_all add: demo_catalog_def router_tool_def router_new_def keyed_insert_def catalog_tool_def)
  moreover have "cf_denial demo_policy = DenyNotFound"
      "\<not> cf_filter demo_policy (capability_filter_context () ?ca demo_query operation) (catalog_tool ''wipe'' (Some ''internal'') None)"
      "tool_is_visible () ?ca demo_query (catalog_tool ''wipe'' None (Some demo_annotations))" for operation
    by (simp_all add: demo_policy_def filter_of_session_def filter_with_context_def catalog_tool_def tool_visible_iff
        offered_def passes_def demo_query_def is_final_protocol_request_def demo_catalog_def router_tool_def router_new_def)
  ultimately show ?thesis
    using hidden_static_lists_dynamic [OF _ _ _ demo_catalog_ok(3), of ?ca] by simp
qed

lemma shadowed_tool_annotates_witness:
  "annotated_read_only (tool_annotations_map demo_catalog) ''wipe''
   \<and> find_tool () demo_catalog demo_query ''wipe'' = Inr (catalog_tool ''wipe'' (Some ''internal'') None)"
proof -
  have "map_of (ca_tools demo_catalog) ''wipe'' = Some (catalog_tool ''wipe'' (Some ''internal'') None)"
      "ca_dynamic_tools demo_catalog = Some demo_dynamic" "ca_disabled_tools demo_catalog = []" "ca_tool_filter demo_catalog = None"
    by (simp_all add: demo_catalog_def router_tool_def router_new_def keyed_insert_def catalog_tool_def)
  then show ?thesis
    using shadowed_tool_annotates [OF demo_catalog_ok(1) _ _ _ demo_catalog_ok(3)]
    by (simp add: catalog_tool_def demo_annotations_def)
qed

definition demo_note :: resource where
  "demo_note = \<lparr>rs_uri = ''n'', rs_name = ''note'', rs_description = None\<rparr>"

definition demo_shelf :: "(unit, unit) catalog" where
  "demo_shelf = (router_resource demo_note router_new)\<lparr>ca_resource_filter := Some (allow_list rs_name [])\<rparr>"




lemma try_merge_loses_nothing_witness:
  "try_merge demo_catalog demo_catalog = Inl [(ConflictTool, ''wipe'')]
   \<and> (case try_merge demo_catalog (router_new :: (unit, unit) catalog) of Inl _ \<Rightarrow> False
      | Inr m \<Rightarrow> map_of (ca_tools demo_catalog) \<subseteq>\<^sub>m map_of (ca_tools m))"
proof
  show "try_merge demo_catalog demo_catalog = Inl [(ConflictTool, ''wipe'')]"
    by (simp add: try_merge_def router_conflicts_def shared_keys_def demo_catalog_defs)
  have "router_conflicts demo_catalog (router_new :: (unit, unit) catalog) = []"
    by (simp add: router_conflicts_def shared_keys_def router_new_def)
  then obtain m where m: "try_merge demo_catalog (router_new :: (unit, unit) catalog) = Inr m"
    by (simp add: try_merge_def)
  show "case try_merge demo_catalog (router_new :: (unit, unit) catalog) of Inl _ \<Rightarrow> False
      | Inr m \<Rightarrow> map_of (ca_tools demo_catalog) \<subseteq>\<^sub>m map_of (ca_tools m)"
    using try_merge_loses_nothing [OF demo_catalog_ok(1,2)] by (simp add: m)
qed

end
