(* ===== verification/RouterLifecycle.thy ===== *)
theory RouterLifecycle
  imports Catalog SessionState
begin

text \<open>
  The parts of \<open>router.rs\<close> around the handlers: the requests in flight and their cancellation, the
  capabilities a server advertises, \<open>initialize\<close>, \<open>server/discover\<close> and the
  notifications.  Locks are not poisoned: nothing that holds one panics.
\<close>

section \<open>Requests in flight\<close>

text \<open>
  A cancellation token is its own, or a child of the token of a connection.  \<open>fr_cancelled\<close> and
  \<open>fr_marked\<close> are the tokens cancelled and the \<open>PeerCancelled\<close> flags marked so far.
\<close>

datatype cancellation_token = RootToken nat | ChildToken nat nat

record in_flight_dispatch =
  ifd_dispatch :: "64 word"
  ifd_token :: cancellation_token
  ifd_peer :: "nat option"

record in_flight_registry =
  fr_next :: "64 word"
  fr_entries :: "(request_id \<times> in_flight_dispatch list) list"
  fr_cancelled :: "cancellation_token list"
  fr_marked :: "nat list"

definition in_flight_new :: in_flight_registry where
  "in_flight_new = \<lparr>fr_next = 0, fr_entries = [], fr_cancelled = [], fr_marked = []\<rparr>"

text \<open>The token of a context: the transport's, a child of the connection's, or its own.\<close>

definition context_token :: "cancellation_token option \<Rightarrow> nat option \<Rightarrow> nat \<Rightarrow> cancellation_token" where
  "context_token transport connection own =
     (case transport of
        Some t \<Rightarrow> t
      | None \<Rightarrow> (case connection of Some c \<Rightarrow> ChildToken c own | None \<Rightarrow> RootToken own))"

fun token_is_cancelled :: "cancellation_token list \<Rightarrow> cancellation_token \<Rightarrow> bool" where
  "token_is_cancelled ts (RootToken n) \<longleftrightarrow> RootToken n \<in> set ts"
| "token_is_cancelled ts (ChildToken c n) \<longleftrightarrow> ChildToken c n \<in> set ts \<or> RootToken c \<in> set ts"

definition next_dispatch :: "in_flight_registry \<Rightarrow> 64 word \<times> in_flight_registry" where
  "next_dispatch r = (fr_next r, r\<lparr>fr_next := fr_next r + 1\<rparr>)"

definition register_in_flight :: "request_id \<Rightarrow> in_flight_dispatch \<Rightarrow> in_flight_registry \<Rightarrow> in_flight_registry" where
  "register_in_flight i e r =
     (let entries = (case map_of (fr_entries r) i of Some es \<Rightarrow> es | None \<Rightarrow> [])
      in r\<lparr>fr_entries := AList.update i (entries @ [e]) (fr_entries r)\<rparr>)"

definition complete_dispatch :: "request_id \<Rightarrow> 64 word \<Rightarrow> in_flight_registry \<Rightarrow> in_flight_registry" where
  "complete_dispatch i d r =
     (case map_of (fr_entries r) i of
        None \<Rightarrow> r
      | Some es \<Rightarrow>
          (let kept = filter (\<lambda>e. ifd_dispatch e \<noteq> d) es
           in r\<lparr>fr_entries := (if kept = [] then AList.delete i (fr_entries r) else AList.update i kept (fr_entries r))\<rparr>))"

definition complete_request :: "request_id \<Rightarrow> in_flight_registry \<Rightarrow> in_flight_registry" where
  "complete_request i r = r\<lparr>fr_entries := AList.delete i (fr_entries r)\<rparr>"

definition cancel_request :: "request_id \<Rightarrow> in_flight_registry \<Rightarrow> in_flight_registry \<times> bool" where
  "cancel_request i r =
     (case map_of (fr_entries r) i of
        None \<Rightarrow> (r, False)
      | Some es \<Rightarrow> (r\<lparr>fr_cancelled := fr_cancelled r @ map ifd_token es,
                       fr_marked := fr_marked r @ List.map_filter ifd_peer es\<rparr>, es \<noteq> []))"

subsection \<open>The life of a dispatch\<close>

text \<open>
  \<open>call\<close> names the dispatch; the first poll of its future makes the guard; the handler's context registers
  it; the guard unregisters it whenever and however the future ends.  A future that is dropped before its first
  poll has no guard.
\<close>

datatype flight_phase = Called | Guarded | Registered | Ended

record flight =
  fl_id :: request_id
  fl_dispatch :: "64 word"
  fl_token :: cancellation_token
  fl_peer :: "nat option"
  fl_phase :: flight_phase

record flight_world =
  fw_registry :: in_flight_registry
  fw_flights :: "flight list"

datatype flight_step =
  CallStep request_id cancellation_token "nat option"
| FirstPoll nat
| ContextStep nat
| DropStep nat
| CancelStep request_id

definition flight_entry :: "flight \<Rightarrow> in_flight_dispatch" where
  "flight_entry f = \<lparr>ifd_dispatch = fl_dispatch f, ifd_token = fl_token f, ifd_peer = fl_peer f\<rparr>"

definition set_phase :: "nat \<Rightarrow> flight_phase \<Rightarrow> flight_world \<Rightarrow> flight_world" where
  "set_phase k p w = w\<lparr>fw_flights := (fw_flights w)[k := (fw_flights w ! k)\<lparr>fl_phase := p\<rparr>]\<rparr>"

fun take_step :: "flight_world \<Rightarrow> flight_step \<Rightarrow> flight_world" where
  "take_step w (CallStep i token peer) =
     (case next_dispatch (fw_registry w) of (d, r) \<Rightarrow>
        w\<lparr>fw_registry := r,
          fw_flights := fw_flights w @ [\<lparr>fl_id = i, fl_dispatch = d, fl_token = token, fl_peer = peer, fl_phase = Called\<rparr>]\<rparr>)"
| "take_step w (FirstPoll k) =
     (if k < length (fw_flights w) \<and> fl_phase (fw_flights w ! k) = Called then set_phase k Guarded w else w)"
| "take_step w (ContextStep k) =
     (if k < length (fw_flights w) \<and> fl_phase (fw_flights w ! k) = Guarded then
        set_phase k Registered (w\<lparr>fw_registry := register_in_flight (fl_id (fw_flights w ! k))
          (flight_entry (fw_flights w ! k)) (fw_registry w)\<rparr>)
      else w)"
| "take_step w (DropStep k) =
     (if k < length (fw_flights w) \<and> fl_phase (fw_flights w ! k) \<noteq> Ended then
        set_phase k Ended
          (if fl_phase (fw_flights w ! k) = Called then w
           else w\<lparr>fw_registry := complete_dispatch (fl_id (fw_flights w ! k)) (fl_dispatch (fw_flights w ! k)) (fw_registry w)\<rparr>)
      else w)"
| "take_step w (CancelStep i) = w\<lparr>fw_registry := fst (cancel_request i (fw_registry w))\<rparr>"

definition run_steps :: "flight_step list \<Rightarrow> flight_world" where
  "run_steps steps = foldl take_step \<lparr>fw_registry = in_flight_new, fw_flights = []\<rparr> steps"

section \<open>What a server advertises\<close>

record server_config =
  sf_has_notifications :: bool
  sf_resource_subscriptions :: bool
  sf_tools_list_changed :: "bool option"
  sf_prompts_list_changed :: "bool option"
  sf_resources_list_changed :: "bool option"
  sf_mcp_logging :: "bool option"
  sf_logging_deprecated :: "deprecation_info option"
  sf_has_completion :: bool

text \<open>
  \<open>vc_tasks\<close> says whether the legacy tasks capability is there: its content is fixed.
\<close>

record server_capabilities =
  vc_tools :: "bool option"
  vc_resources :: "(bool \<times> bool) option"
  vc_prompts :: "bool option"
  vc_logging :: "deprecation_info option option"
  vc_tasks :: bool
  vc_completions :: bool
  vc_extensions :: "(string \<times> json) list option"

definition has_task_support :: "('s, 'v) catalog \<Rightarrow> bool" where
  "has_task_support ca \<longleftrightarrow> list_ex (\<lambda>t. tl_task_support t \<noteq> TsForbidden) (map snd (ca_tools ca))"

definition server_capabilities :: "server_config \<Rightarrow> ('s, 'v) catalog \<Rightarrow> server_capabilities" where
  "server_capabilities sf ca =
     (let advertised = (\<lambda>flag. case flag of Some b \<Rightarrow> b | None \<Rightarrow> sf_has_notifications sf);
          has_resources = (ca_resources ca \<noteq> [] \<or> ca_templates ca \<noteq> []);
          has_dynamic_resources = (ca_dynamic_resources ca \<noteq> None \<or> ca_dynamic_templates ca \<noteq> None);
          extensions = (if has_task_support ca
            then AList.update TASKS_EXTENSION_ID (JObj []) (ca_protocol_extensions ca) else ca_protocol_extensions ca)
      in \<lparr>vc_tools = (if ca_tools ca = [] \<and> ca_dynamic_tools ca = None then None
                      else Some (advertised (sf_tools_list_changed sf))),
          vc_resources = (if has_resources \<or> has_dynamic_resources
                      then Some (sf_resource_subscriptions sf, advertised (sf_resources_list_changed sf)) else None),
          vc_prompts = (if ca_prompts ca = [] \<and> ca_dynamic_prompts ca = None then None
                      else Some (advertised (sf_prompts_list_changed sf))),
          vc_logging = (if advertised (sf_mcp_logging sf) then Some (sf_logging_deprecated sf) else None),
          vc_tasks = has_task_support ca,
          vc_completions = sf_has_completion sf,
          vc_extensions = (if extensions = [] then None else Some extensions)\<rparr>)"

definition capabilities_for_protocol ::
  "server_config \<Rightarrow> ('s, 'v) catalog \<Rightarrow> string option \<Rightarrow> server_capabilities" where
  "capabilities_for_protocol sf ca version =
     (let c = server_capabilities sf ca in
      if version \<noteq> Some PROTOCOL_VERSION_2026_07_28 then c
      else
        (let c1 = c\<lparr>vc_tasks := False, vc_resources := map_option (\<lambda>(_, changed). (False, changed)) (vc_resources c)\<rparr>
         in if final_tasks_enabled ca then c1
            else case vc_extensions c1 of
                None \<Rightarrow> c1
              | Some extensions \<Rightarrow>
                  (let kept = AList.delete TASKS_EXTENSION_ID extensions
                   in c1\<lparr>vc_extensions := (if kept = [] then None else Some kept)\<rparr>)))"

text \<open>\<open>NegotiatedExtensions::from_maps\<close>: the settings of both sides.\<close>

definition negotiated_extensions ::
  "(string \<times> json) list option \<Rightarrow> (string \<times> json) list option \<Rightarrow> (string \<times> json \<times> json) list" where
  "negotiated_extensions client server =
     (case (client, server) of
        (Some c, Some s) \<Rightarrow>
          List.map_filter (\<lambda>(identifier, client_settings). case map_of s identifier of
              None \<Rightarrow> None
            | Some server_settings \<Rightarrow>
                if \<not> result_ok (validate_extension_identifier identifier) \<or> \<not> json_is_object client_settings
                   \<or> \<not> json_is_object server_settings
                then None else Some (identifier, client_settings, server_settings)) c
      | _ \<Rightarrow> [])"

section \<open>initialize and server/discover\<close>

definition initialize_version :: "protocol_support option \<Rightarrow> string \<Rightarrow> handler_error + string" where
  "initialize_version support requested =
     (if requested \<in> set SUPPORTED_PROTOCOL_VERSIONS
         \<and> (case support of None \<Rightarrow> True | Some ps \<Rightarrow> support_contains ps requested)
      then Inr requested
      else case support of
          None \<Rightarrow> Inr LATEST_PROTOCOL_VERSION
        | Some ps \<Rightarrow>
            (case find (\<lambda>v. v \<in> set SUPPORTED_PROTOCOL_VERSIONS) (ps_versions ps) of
               Some v \<Rightarrow> Inr v
             | None \<Rightarrow> Inl (JsonRpcFailure (unsupported_protocol_version requested (ps_versions ps)))))"

text \<open>
  What a session keeps of the handshake: its phase, and the client's capabilities with the extensions
  negotiated.
\<close>

record router_session =
  ro_state :: session_state
  ro_capabilities :: "client_capabilities option"
  ro_negotiated :: "(string \<times> json \<times> json) list"

definition record_client_handshake ::
  "server_config \<Rightarrow> ('s, 'v) catalog \<Rightarrow> string \<Rightarrow> client_capabilities option \<Rightarrow> router_session \<Rightarrow> router_session" where
  "record_client_handshake sf ca version caps ss =
     (case caps of
        None \<Rightarrow> ss
      | Some c \<Rightarrow> ss\<lparr>ro_capabilities := Some c,
          ro_negotiated := negotiated_extensions (cc_extensions c)
            (vc_extensions (capabilities_for_protocol sf ca (Some version)))\<rparr>)"

definition handle_initialize ::
  "server_config \<Rightarrow> ('s, 'v) catalog \<Rightarrow> protocol_support option \<Rightarrow> string \<Rightarrow> client_capabilities \<Rightarrow> router_session
   \<Rightarrow> router_session \<times> (handler_error + string \<times> server_capabilities)" where
  "handle_initialize sf ca support requested caps ss =
     (case initialize_version support requested of
        Inl e \<Rightarrow> (ss, Inl e)
      | Inr version \<Rightarrow>
          (record_client_handshake sf ca version (Some caps) (ss\<lparr>ro_state := fst (mark_initializing (ro_state ss))\<rparr>),
           Inr (version, capabilities_for_protocol sf ca (Some version))))"

definition handle_discover ::
  "server_config \<Rightarrow> ('s, 'v) catalog \<Rightarrow> protocol_support option \<Rightarrow> string list \<times> server_capabilities" where
  "handle_discover sf ca support =
     ((case support of None \<Rightarrow> SUPPORTED_PROTOCOL_VERSIONS | Some ps \<Rightarrow> ps_versions ps),
      capabilities_for_protocol sf ca (Some PROTOCOL_VERSION_2026_07_28))"

text \<open>The gate every request passes first.\<close>

definition session_gate :: "request_extensions \<Rightarrow> session_state \<Rightarrow> string \<Rightarrow> handler_error + unit" where
  "session_gate x ses name =
     (if \<not> is_final_protocol_request x \<and> \<not> is_request_allowed ses name
      then Inl (JsonRpcFailure (invalid_request
        (''Session not initialized. Only '' @ [CHR 0x27] @ ''initialize'' @ [CHR 0x27] @ '' and '' @ [CHR 0x27] @ ''ping''
         @ [CHR 0x27] @ '' are allowed before initialization. Got: '' @ name)))
      else Inr ())"

datatype mcp_notification = InitializedNote | CancelledNote "request_id option" | OtherNote

definition handle_notification ::
  "mcp_notification \<Rightarrow> session_state \<times> in_flight_registry \<Rightarrow> session_state \<times> in_flight_registry" where
  "handle_notification n st =
     (case n of
        InitializedNote \<Rightarrow> (fst (mark_initialized (fst st)), snd st)
      | CancelledNote (Some i) \<Rightarrow> (fst st, fst (cancel_request i (snd st)))
      | CancelledNote None \<Rightarrow> st
      | OtherNote \<Rightarrow> st)"

section \<open>The registry is exact\<close>

definition in_flight :: "in_flight_registry \<Rightarrow> request_id \<Rightarrow> in_flight_dispatch list" where
  "in_flight r i = (case map_of (fr_entries r) i of None \<Rightarrow> [] | Some es \<Rightarrow> es)"

definition running :: "flight_world \<Rightarrow> request_id \<Rightarrow> flight set" where
  "running w i = {f \<in> set (fw_flights w). fl_phase f = Registered \<and> fl_id f = i}"

text \<open>The dispatches are numbered in order, and the registry mirrors the registered flights.\<close>

definition flights_ok :: "flight_world \<Rightarrow> bool" where
  "flights_ok w \<longleftrightarrow>
     (\<forall>k<length (fw_flights w). fl_dispatch (fw_flights w ! k) = of_nat k)
   \<and> fr_next (fw_registry w) = of_nat (length (fw_flights w))
   \<and> distinct (map fst (fr_entries (fw_registry w)))
   \<and> (\<forall>i. map_of (fr_entries (fw_registry w)) i \<noteq> Some [])
   \<and> (\<forall>i. set (in_flight (fw_registry w) i) = flight_entry ` running w i)
   \<and> (\<forall>i. distinct (map ifd_dispatch (in_flight (fw_registry w) i)))"

lemma in_flight_register:
  "in_flight (register_in_flight i e r) j = (if j = i then in_flight r i @ [e] else in_flight r j)"
  by (simp add: in_flight_def register_in_flight_def Let_def update_conv')

lemma in_flight_complete:
  "in_flight (complete_dispatch i d r) j =
     (if j = i then filter (\<lambda>e. ifd_dispatch e \<noteq> d) (in_flight r i) else in_flight r j)"
  by (auto simp: in_flight_def complete_dispatch_def Let_def update_conv' delete_conv' split: option.split)

lemma complete_no_empty:
  "\<forall>j. map_of (fr_entries r) j \<noteq> Some [] \<Longrightarrow> map_of (fr_entries (complete_dispatch i d r)) j \<noteq> Some []"
  by (simp add: complete_dispatch_def Let_def update_conv' delete_conv' split: option.split)

lemma register_no_empty:
  "\<forall>j. map_of (fr_entries r) j \<noteq> Some [] \<Longrightarrow> map_of (fr_entries (register_in_flight i e r)) j \<noteq> Some []"
  by (simp add: register_in_flight_def Let_def update_conv')

lemma registry_distinct:
  "distinct (map fst (fr_entries r)) \<Longrightarrow> distinct (map fst (fr_entries (register_in_flight i e r)))"
  "distinct (map fst (fr_entries r)) \<Longrightarrow> distinct (map fst (fr_entries (complete_dispatch i d r)))"
  by (simp_all add: register_in_flight_def complete_dispatch_def Let_def distinct_update distinct_delete split: option.split)

lemma registry_next [simp]:
  "fr_next (register_in_flight i e r) = fr_next r" "fr_next (complete_dispatch i d r) = fr_next r"
  "fr_next (fst (cancel_request i r)) = fr_next r" "fr_entries (fst (cancel_request i r)) = fr_entries r"
  by (simp_all add: register_in_flight_def complete_dispatch_def cancel_request_def Let_def split: option.split)

lemma running_set_phase:
  assumes "k < length (fw_flights w)" and "f = fw_flights w ! k"
    and "\<forall>l<length (fw_flights w). l \<noteq> k \<longrightarrow> fw_flights w ! l \<noteq> f"
  shows "running (set_phase k p w) i = (running w i - {f}) \<union> (if p = Registered \<and> fl_id f = i then {f\<lparr>fl_phase := p\<rparr>} else {})"
proof -
  have s: "set (fw_flights (set_phase k p w)) = (set (fw_flights w) - {f}) \<union> {f\<lparr>fl_phase := p\<rparr>}"
    using assms by (auto simp: set_phase_def in_set_conv_nth nth_list_update split: if_splits)
  show ?thesis unfolding running_def s by (auto dest: arg_cong [where f = fl_phase])
qed

lemma flights_distinct:
  assumes "flights_ok w" and "length (fw_flights w) \<le> 2 ^ 64" and "k < length (fw_flights w)" "l < length (fw_flights w)"
  shows "fl_dispatch (fw_flights w ! k) = fl_dispatch (fw_flights w ! l) \<longleftrightarrow> k = l"
proof -
  have "(of_nat k :: 64 word) = of_nat l \<longleftrightarrow> k = l"
    using assms(2-4) by (simp add: word_of_nat_eq_iff take_bit_nat_eq_self)
  then show ?thesis using assms(1,3,4) by (simp add: flights_ok_def)
qed

lemma registered_in_flight:
  assumes "flights_ok w" and "e \<in> set (in_flight (fw_registry w) i)"
  obtains k where "k < length (fw_flights w)" "fl_phase (fw_flights w ! k) = Registered" "fl_id (fw_flights w ! k) = i"
    "e = flight_entry (fw_flights w ! k)"
proof -
  have "e \<in> flight_entry ` running w i" using assms by (auto simp: flights_ok_def)
  then show ?thesis using that by (auto simp: running_def in_set_conv_nth)
qed

lemma set_phase_simps [simp]:
  "fw_registry (set_phase k p w) = fw_registry w" "length (fw_flights (set_phase k p w)) = length (fw_flights w)"
  by (simp_all add: set_phase_def)

lemma set_phase_dispatch:
  "k < length (fw_flights w) \<Longrightarrow> l < length (fw_flights w) \<Longrightarrow>
     fl_dispatch (fw_flights (set_phase k p w) ! l) = fl_dispatch (fw_flights w ! l)"
  by (simp add: set_phase_def nth_list_update)

lemma take_step_ok:
  assumes "flights_ok w" and "length (fw_flights w) < 2 ^ 64"
  shows "flights_ok (take_step w s)"
proof -
  note ok = assms(1) [unfolded flights_ok_def]
  have apart: "\<forall>l<length (fw_flights w). l \<noteq> k \<longrightarrow> fw_flights w ! l \<noteq> fw_flights w ! k" if "k < length (fw_flights w)" for k
    using flights_distinct [OF assms(1)] assms(2) that by (metis less_imp_le_nat)
  show ?thesis
  proof (cases s)
    case (CallStep i token peer)
    let ?f = "\<lparr>fl_id = i, fl_dispatch = fr_next (fw_registry w), fl_token = token, fl_peer = peer, fl_phase = Called\<rparr>"
    have w: "take_step w s = w\<lparr>fw_registry := (fw_registry w)\<lparr>fr_next := fr_next (fw_registry w) + 1\<rparr>,
        fw_flights := fw_flights w @ [?f]\<rparr>" by (simp add: CallStep next_dispatch_def)
    have "running (take_step w s) j = running w j" for j by (auto simp: running_def w)
    moreover have "in_flight (fw_registry (take_step w s)) j = in_flight (fw_registry w) j" for j
      by (simp add: w in_flight_def)
    ultimately show ?thesis
      unfolding flights_ok_def using ok by (simp add: w nth_append less_Suc_eq add.commute)
  next
    case (FirstPoll k)
    show ?thesis
    proof (cases "k < length (fw_flights w) \<and> fl_phase (fw_flights w ! k) = Called")
      case True
      then have w: "take_step w s = set_phase k Guarded w" by (simp add: FirstPoll)
      have "running (set_phase k Guarded w) j = running w j" for j
        using running_set_phase [of k w "fw_flights w ! k" Guarded j] apart [of k] True by (auto simp: running_def)
      then show ?thesis unfolding flights_ok_def w using ok True by (simp add: set_phase_dispatch)
    qed (use assms(1) in \<open>auto simp: FirstPoll\<close>)
  next
    case (ContextStep k)
    show ?thesis
    proof (cases "k < length (fw_flights w) \<and> fl_phase (fw_flights w ! k) = Guarded")
      case True
      let ?f = "fw_flights w ! k"
      let ?r = "register_in_flight (fl_id ?f) (flight_entry ?f) (fw_registry w)"
      let ?w = "w\<lparr>fw_registry := ?r\<rparr>"
      have w: "take_step w s = set_phase k Registered ?w" using True by (simp add: ContextStep)
      have run: "running (set_phase k Registered ?w) j
          = running w j \<union> (if fl_id ?f = j then {?f\<lparr>fl_phase := Registered\<rparr>} else {})" for j
        using running_set_phase [of k ?w ?f Registered j] apart [of k] True by (auto simp: running_def)
      have entry: "flight_entry (?f\<lparr>fl_phase := Registered\<rparr>) = flight_entry ?f" by (simp add: flight_entry_def)
      have "ifd_dispatch (flight_entry ?f) \<notin> ifd_dispatch ` set (in_flight (fw_registry w) (fl_id ?f))"
      proof
        assume "ifd_dispatch (flight_entry ?f) \<in> ifd_dispatch ` set (in_flight (fw_registry w) (fl_id ?f))"
        then obtain e where e: "e \<in> set (in_flight (fw_registry w) (fl_id ?f))" "ifd_dispatch e = fl_dispatch ?f"
          by (auto simp: flight_entry_def)
        from registered_in_flight [OF assms(1) e(1)] obtain l where
          l: "l < length (fw_flights w)" "fl_phase (fw_flights w ! l) = Registered" "e = flight_entry (fw_flights w ! l)" by metis
        then have "l = k" using flights_distinct [OF assms(1), of l k] assms(2) True e(2) by (simp add: flight_entry_def)
        then show False using l(2) True by simp
      qed
      then show ?thesis
        unfolding flights_ok_def w using ok True
        by (simp add: set_phase_dispatch in_flight_register run entry registry_distinct register_no_empty
            del: map_of_eq_Some_iff)
    qed (use assms(1) in \<open>auto simp: ContextStep\<close>)
  next
    case (DropStep k)
    show ?thesis
    proof (cases "k < length (fw_flights w) \<and> fl_phase (fw_flights w ! k) \<noteq> Ended")
      case True
      let ?f = "fw_flights w ! k"
      show ?thesis
      proof (cases "fl_phase ?f = Called")
        case called: True
        have w: "take_step w s = set_phase k Ended w" using True called by (simp add: DropStep)
        have "running (set_phase k Ended w) j = running w j" for j
          using running_set_phase [of k w ?f Ended j] apart [of k] True called by (auto simp: running_def)
        then show ?thesis unfolding flights_ok_def w using ok True by (simp add: set_phase_dispatch)
      next
        case False
        let ?r = "complete_dispatch (fl_id ?f) (fl_dispatch ?f) (fw_registry w)"
        let ?w = "w\<lparr>fw_registry := ?r\<rparr>"
        have w: "take_step w s = set_phase k Ended ?w" using True False by (simp add: DropStep)
        have run: "running (set_phase k Ended ?w) j = running w j - {?f}" for j
          using running_set_phase [of k ?w ?f Ended j] apart [of k] True by (auto simp: running_def)
        have own: "g = ?f" if "g \<in> running w j" "fl_dispatch g = fl_dispatch ?f" for g j
          using that flights_distinct [OF assms(1)] assms(2) True by (auto simp: running_def in_set_conv_nth)
        have "set (in_flight ?r j) = flight_entry ` (running w j - {?f})" for j
        proof -
          have other: "?f \<notin> running w j" if "j \<noteq> fl_id ?f" using that by (simp add: running_def)
          have "{e \<in> flight_entry ` running w j. ifd_dispatch e \<noteq> fl_dispatch ?f} = flight_entry ` (running w j - {?f})"
            using own [of _ j] by (auto simp: flight_entry_def)
          then show ?thesis using ok other by (auto simp: in_flight_complete)
        qed
        moreover have "distinct (map ifd_dispatch (in_flight ?r j))" for j
          using ok by (simp add: in_flight_complete distinct_map_filter)
        ultimately show ?thesis
          unfolding flights_ok_def w run using ok True
          by (simp add: set_phase_dispatch registry_distinct complete_no_empty
              del: map_of_eq_Some_iff)
      qed
    qed (use assms(1) in \<open>auto simp: DropStep\<close>)
  next
    case (CancelStep i)
    have "running (take_step w s) j = running w j" "in_flight (fw_registry (take_step w s)) j = in_flight (fw_registry w) j" for j
      by (simp_all add: CancelStep running_def in_flight_def)
    then show ?thesis unfolding flights_ok_def using ok by (simp add: CancelStep)
  qed
qed

lemma flights_grow: "length (fw_flights w) \<le> length (fw_flights (take_step w s))"
  by (cases s) (simp_all add: next_dispatch_def)

lemma run_steps_snoc: "run_steps (steps @ [s]) = take_step (run_steps steps) s"
  by (simp add: run_steps_def)

lemma flights_of_steps: "length (fw_flights (run_steps steps)) \<le> length steps"
proof (induction steps rule: rev_induct)
  case (snoc s steps)
  have "length (fw_flights (take_step w s)) \<le> Suc (length (fw_flights w))" for w
    by (cases s) (simp_all add: next_dispatch_def)
  then show ?case using snoc by (metis run_steps_snoc length_append_singleton not_less_eq_eq order.trans)
qed (simp add: run_steps_def)

lemma run_steps_ok: "length steps \<le> 2 ^ 64 \<Longrightarrow> flights_ok (run_steps steps)"
proof (induction steps rule: rev_induct)
  case Nil
  show ?case by (simp add: run_steps_def flights_ok_def in_flight_new_def in_flight_def running_def)
next
  case (snoc s steps)
  have "length (fw_flights (run_steps steps)) < 2 ^ 64" using flights_of_steps [of steps] snoc.prems by simp
  then show ?case using snoc take_step_ok by (simp add: run_steps_snoc)
qed

text \<open>
  C4: In every interleaving of calls, polls, drops and cancellations the registry holds under each id exactly
  the dispatches that have a context and have not ended, each once, and no entry for other ids; a cancellation
  cancels the tokens and marks the flags of exactly those, and tells whether there were any.
\<close>

theorem in_flight_exact:
  assumes "length steps \<le> 2 ^ 64"
  shows "set (in_flight (fw_registry (run_steps steps)) i) = flight_entry ` running (run_steps steps) i
    \<and> distinct (map ifd_dispatch (in_flight (fw_registry (run_steps steps)) i))
    \<and> (map_of (fr_entries (fw_registry (run_steps steps))) i = None \<longleftrightarrow> running (run_steps steps) i = {})
    \<and> (\<exists>r. cancel_request i (fw_registry (run_steps steps)) = (r, running (run_steps steps) i \<noteq> {})
         \<and> set (fr_cancelled r) = set (fr_cancelled (fw_registry (run_steps steps))) \<union> fl_token ` running (run_steps steps) i
         \<and> set (fr_marked r) = set (fr_marked (fw_registry (run_steps steps)))
             \<union> {p. \<exists>f\<in>running (run_steps steps) i. fl_peer f = Some p}
         \<and> fr_entries r = fr_entries (fw_registry (run_steps steps)))"
proof -
  let ?w = "run_steps steps"
  note ok = run_steps_ok [OF assms, unfolded flights_ok_def]
  have s: "set (in_flight (fw_registry ?w) i) = flight_entry ` running ?w i" using ok by blast
  have none: "map_of (fr_entries (fw_registry ?w)) i = None \<longleftrightarrow> running ?w i = {}"
  proof
    assume "running ?w i = {}"
    then have "in_flight (fw_registry ?w) i = []" using s by simp
    then show "map_of (fr_entries (fw_registry ?w)) i = None" using ok by (auto simp: in_flight_def split: option.splits)
  qed (use s in \<open>simp add: in_flight_def\<close>)
  have "\<exists>r. cancel_request i (fw_registry ?w) = (r, running ?w i \<noteq> {})
         \<and> set (fr_cancelled r) = set (fr_cancelled (fw_registry ?w)) \<union> fl_token ` running ?w i
         \<and> set (fr_marked r) = set (fr_marked (fw_registry ?w)) \<union> {p. \<exists>f\<in>running ?w i. fl_peer f = Some p}
         \<and> fr_entries r = fr_entries (fw_registry ?w)"
  proof (cases "map_of (fr_entries (fw_registry ?w)) i")
    case None
    then show ?thesis using none by (simp add: cancel_request_def)
  next
    case (Some es)
    have es: "set es = flight_entry ` running ?w i" using s Some by (simp add: in_flight_def)
    have "es \<noteq> [] \<longleftrightarrow> running ?w i \<noteq> {}" using es by auto
    moreover have "ifd_token ` set es = fl_token ` running ?w i" by (simp add: es image_image flight_entry_def)
    moreover have "set (List.map_filter ifd_peer es) = {p. \<exists>f\<in>running ?w i. fl_peer f = Some p}"
      by (force simp: List.map_filter_def es flight_entry_def)
    ultimately show ?thesis using Some by (simp add: cancel_request_def)
  qed
  then show ?thesis using s none ok by blast
qed

section \<open>Initialize and the inspection\<close>

text \<open>Both choose the same version from the same policy.\<close>

definition chosen_version :: "protocol_support \<Rightarrow> string \<Rightarrow> string option" where
  "chosen_version ps requested =
     (if requested \<in> set SUPPORTED_PROTOCOL_VERSIONS \<and> support_contains ps requested then Some requested
      else first_legacy ps)"

lemma initialize_version_chosen:
  "initialize_version (Some ps) requested = (case chosen_version ps requested of
      Some v \<Rightarrow> Inr v
    | None \<Rightarrow> Inl (JsonRpcFailure (unsupported_protocol_version requested (ps_versions ps))))"
  by (simp add: initialize_version_def chosen_version_def first_legacy_def)

lemma initialize_revision_chosen:
  assumes "Option.bind (Option.bind (json_get v ''params'') (\<lambda>p. json_get p ''protocolVersion'')) json_as_str = Some requested"
  shows "initialize_revision v ps = (case chosen_version ps requested of
      Some version \<Rightarrow> allowed_revision version ps
    | None \<Rightarrow> Inl (unsupported_protocol_version requested (ps_versions ps)))"
  unfolding initialize_revision_def Let_def assms by (simp add: chosen_version_def split: option.split)

text \<open>
  C20: An \<open>initialize\<close> request that reaches the router and does not declare a revision in its metadata
  is answered with the very revision it was inspected under, which becomes the revision of the connection.
\<close>

theorem initialize_answers_inspected_revision:
  assumes "prepare_single en sv negotiated q = Inr (rr, version)" and "jr_method q = ''initialize''"
    and "declared_version (request_json q) = None"
    and "jr_params q = Some p" "json_get p ''protocolVersion'' = Some (JStr requested)"
  defines "ps \<equiv> effective_support (sv_extensions sv) (sv_support sv)"
  shows "\<exists>r. resolve_revision ((sv_extensions sv)\<lparr>xs_support := Some ps\<rparr>) ps negotiated (request_json q) = Inr r
    \<and> initialize_version (xs_support (rr_extensions rr)) requested = Inr (revision_as_str r)
    \<and> snd (handle_initialize sf ca (xs_support (rr_extensions rr)) requested caps ss)
        = Inr (revision_as_str r, capabilities_for_protocol sf ca (Some (revision_as_str r)))
    \<and> selected_revision ps (jr_method q) (RespResult (jr_id q) (JObj ((''protocolVersion'', JStr (revision_as_str r)) # rest))) = Some r"
proof -
  let ?v = "request_json q"
  obtain r where r: "resolve_revision ((sv_extensions sv)\<lparr>xs_support := Some ps\<rparr>) ps negotiated ?v = Inr r"
    using prepared_request(2) [OF assms(1)] unfolding ps_def by blast
  have support: "xs_support (rr_extensions rr) = Some ps" using prepared_request(6) [OF assms(1)] unfolding ps_def .
  have req: "Option.bind (Option.bind (json_get ?v ''params'') (\<lambda>p. json_get p ''protocolVersion'')) json_as_str = Some requested"
    using assms(4,5) by (simp add: request_json_def)
  have "json_get ?v ''method'' = Some (JStr ''initialize'')" using assms(2) by (simp add: request_json_def)
  then have i: "initialize_revision ?v ps = Inr r"
    using r assms(3) by (simp add: resolve_revision_def request_json_shape(3) List.map_filter_simps)
  then have v: "initialize_version (Some ps) requested = Inr (revision_as_str r)"
    by (auto simp: initialize_version_chosen initialize_revision_chosen [OF req] allowed_revision_iff split: option.splits)
  have "revision_as_str r \<in> set (ps_versions ps)" using resolved_is_supported [OF r] .
  then have "selected_revision ps (jr_method q) (RespResult (jr_id q) (JObj ((''protocolVersion'', JStr (revision_as_str r)) # rest))) = Some r"
    using assms(2) by (simp add: selected_revision_def support_contains_iff revision_from_as)
  then show ?thesis using r v support by (auto simp: handle_initialize_def)
qed

lemma negotiated_both:
  assumes "k \<in> fst ` set (negotiated_extensions client server)"
  shows "(\<exists>m. client = Some m \<and> k \<in> fst ` set m) \<and> Option.bind server (\<lambda>m. map_of m k) \<noteq> None"
proof -
  obtain c s where cs: "client = Some c" "server = Some s"
    using assms by (cases client; cases server) (auto simp: negotiated_extensions_def)
  obtain a where a: "(k, a) \<in> set (negotiated_extensions (Some c) (Some s))" using assms cs by auto
  then obtain cv where "(k, cv) \<in> set c" "map_of s k \<noteq> None"
    by (auto simp: negotiated_extensions_def List.map_filter_def split: option.splits if_splits)
  then show ?thesis using cs by force
qed

lemma delete_updated: "AList.delete k (AList.update k v m) = AList.delete k m"
  by (induction m) auto

text \<open>
  To a 2026-07-28 client a server never advertises the legacy tasks capability or subscriptions, the tasks
  extension only if it opted in, and everything else as to any client; a tasks extension is negotiated only if
  both sides declare it.
\<close>

theorem modern_surface:
  fixes ca :: "('s, 'v) catalog" and sf :: server_config
  defines "c \<equiv> capabilities_for_protocol sf ca (Some PROTOCOL_VERSION_2026_07_28)"
  shows "\<not> vc_tasks c \<and> Option.bind (vc_resources c) (\<lambda>(subscribe, changed). if subscribe then Some changed else None) = None
    \<and> (Option.bind (vc_extensions c) (\<lambda>m. map_of m TASKS_EXTENSION_ID) \<noteq> None) = final_tasks_enabled ca
    \<and> vc_tools c = vc_tools (server_capabilities sf ca) \<and> vc_prompts c = vc_prompts (server_capabilities sf ca)
    \<and> vc_logging c = vc_logging (server_capabilities sf ca) \<and> vc_completions c = sf_has_completion sf
    \<and> (k = TASKS_EXTENSION_ID \<or> Option.bind (vc_extensions c) (\<lambda>m. map_of m k) = map_of (ca_protocol_extensions ca) k)
    \<and> (TASKS_EXTENSION_ID \<notin> fst ` set (negotiated_extensions client (vc_extensions c))
        \<or> final_tasks_enabled ca \<and> (\<exists>m. client = Some m \<and> TASKS_EXTENSION_ID \<in> fst ` set m))"
proof (intro conjI)
  have e: "vc_extensions c = (let m = (if final_tasks_enabled ca
        then (if has_task_support ca then AList.update TASKS_EXTENSION_ID (JObj []) (ca_protocol_extensions ca) else ca_protocol_extensions ca)
        else AList.delete TASKS_EXTENSION_ID (ca_protocol_extensions ca)) in if m = [] then None else Some m)"
    by (auto simp: c_def capabilities_for_protocol_def server_capabilities_def Let_def delete_updated)
  have get: "Option.bind (if m = [] then None else Some m) (\<lambda>m. map_of m k) = map_of m k" for m :: "(string \<times> json) list" and k
    by simp
  show tasks: "(Option.bind (vc_extensions c) (\<lambda>m. map_of m TASKS_EXTENSION_ID) \<noteq> None) = final_tasks_enabled ca"
    unfolding e Let_def get by (auto simp: final_tasks_enabled_def update_conv' delete_conv')
  show "k = TASKS_EXTENSION_ID \<or> Option.bind (vc_extensions c) (\<lambda>m. map_of m k) = map_of (ca_protocol_extensions ca) k"
    unfolding e Let_def get by (auto simp: update_conv' delete_conv')
  show "TASKS_EXTENSION_ID \<notin> fst ` set (negotiated_extensions client (vc_extensions c))
      \<or> final_tasks_enabled ca \<and> (\<exists>m. client = Some m \<and> TASKS_EXTENSION_ID \<in> fst ` set m)"
    using tasks negotiated_both [of TASKS_EXTENSION_ID client "vc_extensions c"] by blast
qed (auto simp: c_def capabilities_for_protocol_def server_capabilities_def Let_def split: option.splits)

section \<open>Concrete runs\<close>

text \<open>A client reuses an id: both dispatches are tracked, and the end of one leaves the other.\<close>

definition demo_flight_steps :: "flight_step list" where
  "demo_flight_steps = [CallStep (IdNumber 1) (RootToken 0) (Some 7), CallStep (IdNumber 1) (ChildToken 9 1) None,
     FirstPoll 0, FirstPoll 1, ContextStep 0, ContextStep 1, DropStep 0]"

lemma in_flight_exact_witness:
  "snd (cancel_request (IdNumber 1) (fw_registry (run_steps demo_flight_steps)))
   \<and> set (fr_cancelled (fst (cancel_request (IdNumber 1) (fw_registry (run_steps demo_flight_steps))))) = {ChildToken 9 1}"
proof -
  have "length demo_flight_steps \<le> 2 ^ 64" by (simp add: demo_flight_steps_def)
  note exact = in_flight_exact [OF this, of "IdNumber 1"]
  let ?ended = "\<lparr>fl_id = IdNumber 1, fl_dispatch = 0, fl_token = RootToken 0, fl_peer = Some 7, fl_phase = Ended\<rparr>"
  let ?left = "\<lparr>fl_id = IdNumber 1, fl_dispatch = 1, fl_token = ChildToken 9 1, fl_peer = None, fl_phase = Registered\<rparr>"
  have "fw_flights (run_steps demo_flight_steps) = [?ended, ?left]" by code_simp
  then have run: "running (run_steps demo_flight_steps) (IdNumber 1) = {?left}"
    by (auto simp: running_def)
  have none: "fr_cancelled (fw_registry (run_steps demo_flight_steps)) = []" by code_simp
  obtain r where "cancel_request (IdNumber 1) (fw_registry (run_steps demo_flight_steps)) = (r, {?left} \<noteq> {})"
      "set (fr_cancelled r) = set [] \<union> fl_token ` {?left}"
    using exact unfolding run none by metis
  then show ?thesis by simp
qed

definition demo_hello :: json_rpc_request where
  "demo_hello = demo_request 1 ''initialize'' (Some (JObj [(''protocolVersion'', JStr ''2025-06-18'')]))"

definition demo_server :: server_config where
  "demo_server = \<lparr>sf_has_notifications = True, sf_resource_subscriptions = True, sf_tools_list_changed = None,
     sf_prompts_list_changed = None, sf_resources_list_changed = None, sf_mcp_logging = None,
     sf_logging_deprecated = None, sf_has_completion = False\<rparr>"

lemma initialize_answers_inspected_revision_witness:
  "\<exists>r. initialize_version (Some support_compiled) ''2025-06-18'' = Inr (revision_as_str r)
     \<and> selected_revision support_compiled ''initialize''
         (RespResult (IdNumber 1) (JObj [(''protocolVersion'', JStr (revision_as_str r))])) = Some r"
proof -
  have "result_ok (prepare_single demo_jsonrpc_env demo_jsonrpc None demo_hello)" by code_simp
  then obtain rr version where p: "prepare_single demo_jsonrpc_env demo_jsonrpc None demo_hello = Inr (rr, version)"
    by (auto simp: result_ok_iff)
  have h: "jr_method demo_hello = ''initialize''" "declared_version (request_json demo_hello) = None"
    by code_simp+
  have params: "jr_params demo_hello = Some (JObj [(''protocolVersion'', JStr ''2025-06-18'')])"
      "json_get (JObj [(''protocolVersion'', JStr ''2025-06-18'')]) ''protocolVersion'' = Some (JStr ''2025-06-18'')"
      "jr_id demo_hello = IdNumber 1"
    by (simp_all add: demo_hello_def demo_request_def)
  have ps: "effective_support (sv_extensions demo_jsonrpc) (sv_support demo_jsonrpc) = support_compiled"
    by (simp add: effective_support_def demo_jsonrpc_def)
  have "xs_support (rr_extensions rr) = Some support_compiled" using prepared_request(6) [OF p] by (simp add: ps)
  then show ?thesis
    using initialize_answers_inspected_revision [OF p h(1,2) params(1,2), of demo_server router_new no_capabilities
        "\<lparr>ro_state = session_new, ro_capabilities = None, ro_negotiated = []\<rparr>" "[]"]
    by (auto simp: ps h(1) params(3))
qed

lemma modern_surface_witness:
  "TASKS_EXTENSION_ID \<notin> fst ` set (negotiated_extensions (Some [(TASKS_EXTENSION_ID, JObj [])])
     (vc_extensions (capabilities_for_protocol demo_server (router_new :: (unit, unit) catalog) (Some PROTOCOL_VERSION_2026_07_28))))"
proof -
  have "\<not> final_tasks_enabled (router_new :: (unit, unit) catalog)" by (simp add: final_tasks_enabled_def router_new_def)
  then show ?thesis using modern_surface [of demo_server "router_new :: (unit, unit) catalog"] by blast
qed

end
