(* ===== verification/Spec2Isabelle.thy ===== *)
theory Spec2Isabelle
  imports TaskWait ExpiryWorker SessionRegistry ResponseCache TraceContext Pagination Jwks LiveWait TaskCreation HttpHeaders UriTemplate OriginGate JsonRpcService CatalogProps RouterLifecycle
begin

text \<open>
  A model of the core of tower-mcp, a Model Context Protocol implementation in Rust, with the theorems
  that make it correct.  Paths below are relative to \<open>crates/tower-mcp/src/\<close>; the protocol
  types are in \<open>crates/tower-mcp-types/src/\<close>.

  \<^bold>\<open>The program.\<close>  A server reads frames from a transport, routes requests to
  handlers and answers them.  Around that core it keeps state: the lifecycle phase of a session, the
  sessions of the HTTP transport with the stores that let another process resume them, the events
  of an SSE stream kept for replay, and the tasks that outlive the request that started them.  A
  client keeps the responses it may reuse.  OAuth decides which requests get in at all.

  \<^bold>\<open>Theories.\<close>
  \<^item> \<open>Prelude\<close>: machine integers with checked arithmetic, JSON values, results, hash
    maps as association lists, ordered sets of strings, string splitting.
  \<^item> \<open>SessionState\<close> (\<open>session.rs\<close>): the phase and the handshake flag, each
    transition as a function and as the atomic operations that threads interleave.
  \<^item> \<open>Timestamp\<close> (\<open>async_task.rs\<close>, \<open>chrono_now_iso8601\<close>): the
    calendar arithmetic, against the proleptic Gregorian calendar.
  \<^item> \<open>Payload\<close> (\<open>async_task.rs\<close>, \<open>error.rs\<close>): what a task record
    costs when serialized, measured by the counting writer over a serializer parameter.
  \<^item> \<open>TaskStore\<close>, \<open>TaskOps\<close> (\<open>async_task.rs\<close>,
    \<open>MemoryTaskStore\<close>): the store and every operation of the trait, each as the critical
    sections it takes; \<open>TaskAccounting\<close>, \<open>TaskSafety\<close>: the invariant of the byte
    accounting, and that no section panics; \<open>TaskMoves\<close>: the few ways a section moves the
    store, as the laws of the locale \<open>record_moves\<close>; \<open>TaskHistory\<close>: what happens to
    one record over time; \<open>TaskProps\<close>, \<open>TaskProtocol\<close>: the properties of the
    operations.
  \<^item> \<open>TaskWait\<close> (\<open>wait_for_completion\<close>) and \<open>ExpiryWorker\<close>
    (\<open>WorkerSignal\<close>, \<open>memory_task_store_worker\<close>): the future that waits for a task
    and the thread that expires tasks, between the sections of all other operations; both interpret
    \<open>record_moves\<close>.
  \<^item> \<open>SessionStore\<close> (\<open>session_store.rs\<close>) and \<open>EventStore\<close>
    (\<open>event_store.rs\<close>): the in-memory stores and the two-tier caching stores; the traits are
    the locales \<open>session_backend\<close> and \<open>ring_log\<close>, the tiers
    \<open>session_tiers\<close> and \<open>event_tiers\<close>, all interpreted on the in-memory stores.
  \<^item> \<open>Framing\<close> (\<open>framing.rs\<close>): the bounded line reader over a stream of
    buffer fills and faults, its blocking twin, the classification of frames and their identifiers,
    and the character-level string operations of the standard library.
  \<^item> \<open>SessionRegistry\<close> (\<open>transport/http/session.rs\<close>,
    \<open>transport/http/principal.rs\<close>): live sessions on a heap over the two stores, each handler
    cut where it releases the registry lock, and the binding of a session to its principal.
  \<^item> \<open>ResponseCache\<close> (\<open>client/response_cache.rs\<close>): entries, generations and
    partitions of the client cache.
  \<^item> \<open>LiveTasks\<close> (\<open>task_execution.rs\<close>) and \<open>LiveWait\<close>
    (\<open>tool/task.rs\<close>): the registry of live task executions with its admissions and
    cancellation cells, and a live handler's wait for its input, both against everything that can
    run in between.
  \<^item> \<open>Capabilities\<close> (\<open>router/capabilities.rs\<close>, \<open>protocol.rs\<close>,
    \<open>router/task_ops.rs\<close>): metadata keys, client capabilities as JSON values, task
    owners, and what a handler may ask of a client.
  \<^item> \<open>TaskRouter\<close> (\<open>router.rs\<close>, \<open>router/task_ops.rs\<close>,
    \<open>router/policy.rs\<close>): \<open>tasks/get\<close>, \<open>tasks/update\<close> and
    \<open>tasks/cancel\<close> of both protocol lifecycles as actions over a world, the task store being
    an interface; \<open>TaskRouterProps\<close>: its laws as the locale \<open>task_store_laws\<close>,
    interpreted on the in-memory store, and the properties; \<open>TaskCreation\<close>:
    \<open>tools/call\<close> as a task, from the choice of its mode to the end of the spawned execution,
    and the panic policy.
  \<^item> \<open>TraceContext\<close> (\<open>trace_context.rs\<close>), \<open>Pagination\<close>
    (\<open>router/pagination.rs\<close>).
  \<^item> \<open>OAuth\<close> (\<open>oauth/scope.rs\<close>, \<open>oauth/error.rs\<close>,
    \<open>oauth/middleware.rs\<close>, \<open>oauth/token.rs\<close>, \<open>auth.rs\<close>,
    \<open>ascii.rs\<close>) and \<open>Jwks\<close> (\<open>oauth/token.rs\<close>).
  \<^item> \<open>HttpHeaders\<close> (\<open>transport/http_headers.rs\<close>,
    \<open>client/http.rs\<close>): the headers that mirror a request body, written by the client and
    checked by the server; \<open>OriginGate\<close> (\<open>transport/origin.rs\<close>): which
    \<open>Origin\<close> and \<open>Host\<close> headers pass.
  \<^item> \<open>UriTemplate\<close> (\<open>resource.rs\<close>): how a template is compiled to a
    regular expression and matched; the regex engine is a parameter.
  \<^item> \<open>Inspection\<close> (\<open>inspection.rs\<close>, \<open>inspection/mcp.rs\<close>):
    the structural inspection of JSON-RPC values and the inspection against one protocol revision;
    \<open>JsonRpcService\<close> (\<open>jsonrpc.rs\<close>, \<open>protocol_support.rs\<close>): the
    choice of the revision, what reaches the router, batches; the router is the locale
    \<open>answering_service\<close>, interpreted on \<open>McpRouter::call\<close>.
  \<^item> \<open>Registry\<close> (\<open>filter.rs\<close>, \<open>registry.rs\<close>): what a
    router serves, capability policies, and the dynamic registries; their contract is the locale
    \<open>item_registry\<close>, interpreted on the keyed registries and on the ordered one of
    templates; \<open>Catalog\<close>, \<open>CatalogProps\<close> (\<open>router.rs\<close>,
    \<open>router/builder.rs\<close>, \<open>router/merge.rs\<close>, \<open>prompt.rs\<close>): the
    list, read, get, completion and subscription requests, and composing routers.
  \<^item> \<open>RouterLifecycle\<close> (\<open>router.rs\<close>, \<open>extension.rs\<close>):
    requests in flight and their cancellation, the advertised capabilities, \<open>initialize\<close>
    and \<open>server/discover\<close>.

  \<^bold>\<open>Conventions.\<close>  A struct is a record, an enum a datatype.  A fallible function
  returns \<open>error + value\<close>; one that can panic, or loop for ever, returns an option.  Counters
  that wrap in the code (\<open>AtomicU64\<close>, \<open>wrapping_add\<close>, \<open>u8\<close>) are words;
  \<open>usize\<close> and \<open>u64\<close> quantities are natural numbers with their checked or saturating
  arithmetic written out.  A string is its UTF-8 bytes.  Clock readings, generated identifiers and
  the results of third-party code (serde\_json, base64, uuid, HTTP fetches, token validators) are
  arguments; where a theorem relies on documented behaviour of such code, a hypothesis says so and a
  concrete instance shows that it can hold.

  \<^bold>\<open>Concurrency.\<close>  An operation is the sequence of its critical sections, and a
  reachable state is one that any interleaving of sections reaches (\<open>store_reach\<close>,
  \<open>wait_reach\<close>, \<open>worker_reach\<close>, \<open>cache_reach\<close>,
  \<open>registry_reach\<close>, \<open>session_reachable\<close>, \<open>live_reach\<close>,
  \<open>live_input_reach\<close>, \<open>connection_reach\<close>).  The members of a batch are polled in
  any order (\<open>run_batch\<close>), the requests in flight are any list of steps
  (\<open>run_steps\<close>).  In the request handlers the environment names, for each store
  call, what other requests did to the store just before it.  Other instances that share the session and event stores may change them between any two sections.

  \<^bold>\<open>What the lemmas show.\<close>  For each component an invariant that every section
  preserves (accounting of the task store, slots and entries of the response cache, bindings of the
  registry, coherence of the two tiers) and on top of it: safety (no panic, no resurrection of a
  terminal task, no session for a foreign principal, no invalidated response in the cache), the exact
  outcome of the operations, round trips (framing, trace context, restarts), bounds (frame length,
  memory accounting, the sleep of the expiry worker, fetch rate), liveness (a waiter returns once its
  task is over, pages deliver everything), termination (identifier generation) and agreement with a
  reference (the blocking reader, the replay of a ring buffer).  A client's call is accepted by the
  strict header validation, an expanded template gives its values back, the inspection accepts exactly
  the well formed values of its revision, a batch answers every member whatever the order of its polls,
  \<open>initialize\<close> answers the revision it was inspected under, the lists show what calls reach,
  completion is no way around access, and a cancellation reaches exactly the requests in flight.  Where the code does not keep what its
  documentation promises, the theorem shows the exact behaviour: a two-tier load that undoes a delete,
  a warmed cache that hides events, a restored event counter that repeats 0, a restore that undoes a
  delete, a key cache that ignores an unknown key identifier, an answer over the older protocol that
  strands a task, a header value that looks like the sentinel and one that makes its decoding panic, a
  batch under a revision the connection did not negotiate, a hidden static tool that lets its dynamic
  twin be listed, annotations taken from a shadowed tool, and a hidden resource told apart from an
  absent one.

  \<^bold>\<open>Fuel.\<close>  Only \<open>fetch_all\<close>, the client that follows cursors, takes fuel,
  and as many requests as there are items are shown to be enough.  The identifier loop of
  \<open>create\<close> is a partial function, shown to end when the generator does not repeat.

  \<^bold>\<open>Not modelled.\<close>  User handlers and the builders that wrap them; the wire types
  beyond what the above uses, since they are declarations for a derived serializer; generated
  instructions, log messages and plain setters of the router; the axum handlers of the HTTP transport,
  the other transports, the client's request loop and the OAuth client flows, which are I/O around the
  parts above; middleware that only logs or forwards; macros, examples and tools, which are outside the
  program.
\<close>

end
